(* ===== verification/Prelude.thy ===== *)
theory Prelude
  imports Main "HOL-Library.Multiset" "HOL-Library.Sublist"
begin

text \<open>
  Shared vocabulary of the development: JavaScript strings as lists of UTF-16 code units,
  the two ways a string constant of the source is written here, the collection of
  evaluation rules that witnesses use, and the generic list lemmas of the components.

  \<^item> A JavaScript string is a \<open>jsstr\<close>, a list of code units; a code unit is a natural
    number (the browser keeps it below 65536; nothing here depends on that bound).
  \<^item> \<open>lit ''abc''\<close> is the string constant \<open>abc\<close>.  \<open>pat ''`s*''\<close> is a constant that
    contains backslashes or quotes: HOL string literals cannot hold them, so a backquote stands
    for the backslash and a tilde for the single quote
    (no such constant of the sources contains a backquote or a tilde).
\<close>

type_synonym jschar = nat
type_synonym jsstr = "jschar list"

definition lit :: "string \<Rightarrow> jsstr" where
  "lit s = map of_char s"

definition pat :: "string \<Rightarrow> jsstr" where
  "pat s = map (\<lambda>c. if c = CHR ''`'' then 92 else if c = CHR ''~'' then 39 else of_char c) s"

named_theorems js_eval \<open>equations that evaluate closed terms of the model\<close>

declare lit_def [js_eval] pat_def [js_eval]

section \<open>Character codes used by the sources\<close>

abbreviation (input) TAB :: jschar where "TAB \<equiv> 9"
abbreviation (input) NL :: jschar where "NL \<equiv> 10"
abbreviation (input) SP :: jschar where "SP \<equiv> 32"

section \<open>List lemmas shared by the components\<close>

lemma length_lit [simp]: "length (lit s) = length s"
  by (simp add: lit_def)

lemma lit_Nil [simp]: "lit [] = []"
  by (simp add: lit_def)

lemma lit_append: "lit (s @ t) = lit s @ lit t"
  by (simp add: lit_def)

lemma nth_takeWhile_run:
  "k < length (takeWhile P xs) \<Longrightarrow> P (xs ! k)"
  by (metis nth_mem set_takeWhileD takeWhile_nth)

lemma takeWhile_drop_Suc:
  assumes "i < length xs" and "P (xs ! i)"
  shows "takeWhile P (drop i xs) = xs ! i # takeWhile P (drop (Suc i) xs)"
  using assms by (simp add: Cons_nth_drop_Suc [symmetric])

lemma takeWhile_drop_stop:
  assumes "\<not> (i < length xs \<and> P (xs ! i))"
  shows "takeWhile P (drop i xs) = []"
proof (cases "i < length xs")
  case True
  with assms show ?thesis by (simp add: Cons_nth_drop_Suc [symmetric])
qed simp

lemma takeWhile_all_iff: "takeWhile P xs = xs \<longleftrightarrow> (\<forall>x \<in> set xs. P x)"
  by (metis set_takeWhileD takeWhile_eq_all_conv)

lemma take_drop_glue:
  "i \<le> j \<Longrightarrow> j \<le> k \<Longrightarrow>
   take (j - i) (drop i xs) @ take (k - j) (drop j xs) = take (k - i) (drop i xs)"
proof -
  assume ij: "i \<le> j" and jk: "j \<le> k"
  have "k - i = (j - i) + (k - j)" using ij jk by simp
  moreover have "drop j xs = drop (j - i) (drop i xs)" using ij by simp
  ultimately show ?thesis by (simp add: take_add)
qed

lemma prefix_take: "prefix p xs \<longleftrightarrow> take (length p) xs = p"
  by (metis append_eq_conv_conj prefix_def take_is_prefix)

lemma upt_split_at: "k \<le> n \<Longrightarrow> [0..<Suc n] = [0..<k] @ k # [Suc k..<Suc n]"
  by (metis add_0 le_add_diff_inverse le_imp_less_Suc upt_add_eq_append upt_conv_Cons zero_le
      less_imp_le)

lemma upt_split: "i \<le> k \<Longrightarrow> k < n \<Longrightarrow> [i..<n] = [i..<k] @ k # [Suc k..<n]"
  using upt_add_eq_append [of i k "n - k"] by (simp add: upt_conv_Cons)

lemma take_all_takeWhile:
  "k \<le> length xs \<Longrightarrow> (\<forall>x \<in> set (take k xs). P x) \<longleftrightarrow> k \<le> length (takeWhile P xs)"
proof (induction xs arbitrary: k)
  case (Cons x xs)
  then show ?case by (cases k) auto
qed simp

lemma trailing_run:
  "(\<forall>x \<in> set (drop i xs). P x) \<longleftrightarrow> length xs - i \<le> length (takeWhile P (rev xs))"
proof (cases "i \<le> length xs")
  case True
  then have "set (drop i xs) = set (take (length xs - i) (rev xs))" by (simp add: take_rev)
  then show ?thesis using take_all_takeWhile [of "length xs - i" "rev xs" P] by simp
qed simp

lemma concat_map_singleton: "concat (map (\<lambda>x. [f x]) xs) = map f xs"
  by (induction xs) auto

lemma concat_map_pairs [simp]: "concat (map (\<lambda>(x, y). [(x, y)]) ps) = ps"
  by (induction ps) auto

lemma concat_map_filter: "concat (map (\<lambda>x. if P x then [f x] else []) xs) = map f (filter P xs)"
  by (induction xs) auto

lemma concat_map_nonempty: "concat (map f xs) \<noteq> [] \<longleftrightarrow> (\<exists>x \<in> set xs. f x \<noteq> [])"
  by auto

lemma takeWhile_stop: "c \<notin> set a \<Longrightarrow> takeWhile (\<lambda>x. x \<noteq> c) (a @ c # b) = a"
  by (induction a) auto

end
