(* ===== verification/JsString.thy ===== *)
theory JsString
  imports Prelude
begin

text \<open>
  The methods of JavaScript's \<open>String\<close> and \<open>Array\<close> that the modelled scripts call, as
  the language defines them: \<open>indexOf\<close>, \<open>substr\<close>, \<open>substring\<close>, \<open>split\<close>, \<open>join\<close>,
  \<open>replace\<close> with a string pattern, \<open>toLowerCase\<close> (on ASCII letters; every other code unit is
  left alone), the decimal form of an integer and \<open>parseInt\<close>.  Out-of-range arguments are
  clamped the way the language clamps them.  The lemmas are the laws that the components
  use, first of all the round trips between \<open>split\<close> and \<open>join\<close>.
\<close>

section \<open>Searching\<close>

fun index_of :: "jsstr \<Rightarrow> jsstr \<Rightarrow> nat option" where
  "index_of t [] = (if t = [] then Some 0 else None)"
| "index_of t (c # s) =
     (if prefix t (c # s) then Some 0 else map_option Suc (index_of t s))"

definition indexOf_from :: "jsstr \<Rightarrow> jsstr \<Rightarrow> int \<Rightarrow> int" where
  "indexOf_from s t from =
     (let k = min (nat from) (length s)
      in case index_of t (drop k s) of None \<Rightarrow> -1 | Some j \<Rightarrow> int (k + j))"

definition indexOf :: "jsstr \<Rightarrow> jsstr \<Rightarrow> int" where
  "indexOf s t = indexOf_from s t 0"

section \<open>Substrings\<close>

definition substr :: "jsstr \<Rightarrow> int \<Rightarrow> int \<Rightarrow> jsstr" where
  "substr s start len =
     (let n = int (length s);
          a = (if start < 0 then max 0 (n + start) else min start n)
      in take (nat len) (drop (nat a) s))"

definition substr_from :: "jsstr \<Rightarrow> int \<Rightarrow> jsstr" where
  "substr_from s start = substr s start (int (length s))"

definition clamp :: "jsstr \<Rightarrow> int \<Rightarrow> nat" where
  "clamp s i = min (nat i) (length s)"

definition substring :: "jsstr \<Rightarrow> int \<Rightarrow> int \<Rightarrow> jsstr" where
  "substring s a b =
     (let i = min (clamp s a) (clamp s b); j = max (clamp s a) (clamp s b)
      in take (j - i) (drop i s))"

definition substring_from :: "jsstr \<Rightarrow> int \<Rightarrow> jsstr" where
  "substring_from s a = drop (clamp s a) s"

section \<open>Splitting and joining\<close>

lemma index_of_bound: "index_of t s = Some i \<Longrightarrow> i + length t \<le> length s"
proof (induction s arbitrary: i)
  case Nil
  then show ?case by (auto split: if_splits)
next
  case (Cons c s)
  then show ?case by (auto split: if_splits dest: prefix_length_le)
qed

function split_str :: "jsstr \<Rightarrow> jsstr \<Rightarrow> jsstr list" where
  "split_str sep s =
     (if sep = [] then map (\<lambda>c. [c]) s
      else case index_of sep s of
             None \<Rightarrow> [s]
           | Some i \<Rightarrow> take i s # split_str sep (drop (i + length sep) s))"
  by pat_completeness auto
termination
proof (relation "measure (\<lambda>(sep, s). length s)")
  fix sep s :: jsstr and i
  assume "sep \<noteq> []" and "index_of sep s = Some i"
  then show "((sep, drop (i + length sep) s), (sep, s)) \<in> measure (\<lambda>(sep, s). length s)"
    using index_of_bound [of sep s i] by (cases sep) auto
qed simp

declare split_str.simps [simp del]

fun join :: "jsstr \<Rightarrow> jsstr list \<Rightarrow> jsstr" where
  "join sep [] = []"
| "join sep [x] = x"
| "join sep (x # y # ys) = x @ sep @ join sep (y # ys)"

text \<open>\<open>s.replace(t, r)\<close> with a string \<open>t\<close>: the first occurrence only.\<close>

definition replace_str :: "jsstr \<Rightarrow> jsstr \<Rightarrow> jsstr \<Rightarrow> jsstr" where
  "replace_str s t r =
     (case index_of t s of None \<Rightarrow> s | Some i \<Rightarrow> take i s @ r @ drop (i + length t) s)"

definition toUpperCase :: "jsstr \<Rightarrow> jsstr" where
  "toUpperCase s = map (\<lambda>c. if 97 \<le> c \<and> c \<le> 122 then c - 32 else c) s"

definition toLowerCase :: "jsstr \<Rightarrow> jsstr" where
  "toLowerCase s = map (\<lambda>c. if 65 \<le> c \<and> c \<le> 90 then c + 32 else c) s"

section \<open>Numbers and strings\<close>

fun nat_digits :: "nat \<Rightarrow> jsstr" where
  "nat_digits n = (if n < 10 then [48 + n] else nat_digits (n div 10) @ [48 + n mod 10])"

declare nat_digits.simps [simp del]

definition int_to_str :: "int \<Rightarrow> jsstr" where
  "int_to_str i = (if i < 0 then 45 # nat_digits (nat (- i)) else nat_digits (nat i))"

definition digit_value :: "jsstr \<Rightarrow> nat" where
  "digit_value ds = foldl (\<lambda>n d. 10 * n + (d - 48)) 0 ds"

definition is_digit :: "jschar \<Rightarrow> bool" where
  "is_digit c \<longleftrightarrow> 48 \<le> c \<and> c \<le> 57"

text \<open>
  \<open>parseInt\<close> on a string: leading white space, a sign, then the longest run of digits, in
  base sixteen after a \<open>0x\<close> prefix and in base ten otherwise; \<open>None\<close> is \<open>NaN\<close>.
\<close>

definition is_space :: "jschar \<Rightarrow> bool" where
  "is_space c \<longleftrightarrow> c = 32 \<or> 9 \<le> c \<and> c \<le> 13 \<or> c = 160 \<or> c = 5760 \<or> 8192 \<le> c \<and> c \<le> 8202
     \<or> c = 8232 \<or> c = 8233 \<or> c = 8239 \<or> c = 8287 \<or> c = 12288 \<or> c = 65279"

text \<open>A text without the white space at its start, and at its end.\<close>

definition lstrip :: "jsstr \<Rightarrow> jsstr" where "lstrip s = dropWhile is_space s"
definition rstrip :: "jsstr \<Rightarrow> jsstr" where "rstrip s = rev (dropWhile is_space (rev s))"

definition parse_digits :: "jsstr \<Rightarrow> int option" where
  "parse_digits s =
     (case takeWhile is_digit s of [] \<Rightarrow> None | d # ds \<Rightarrow> Some (int (digit_value (d # ds))))"

definition is_hex :: "jschar \<Rightarrow> bool" where
  "is_hex c \<longleftrightarrow> is_digit c \<or> 97 \<le> c \<and> c \<le> 102 \<or> 65 \<le> c \<and> c \<le> 70"

definition hex_value :: "jsstr \<Rightarrow> nat" where
  "hex_value ds =
     foldl (\<lambda>n d. 16 * n + (if is_digit d then d - 48 else if 97 \<le> d then d - 87 else d - 55)) 0 ds"

definition parse_number :: "jsstr \<Rightarrow> int option" where
  "parse_number s =
     (if prefix [48, 120] s \<or> prefix [48, 88] s
      then (case takeWhile is_hex (drop 2 s) of [] \<Rightarrow> None | d # ds \<Rightarrow> Some (int (hex_value (d # ds))))
      else parse_digits s)"

definition parseInt :: "jsstr \<Rightarrow> int option" where
  "parseInt s =
     (case dropWhile is_space s of
        [] \<Rightarrow> None
      | c # t \<Rightarrow> if c = 45 then map_option uminus (parse_number t)
                 else if c = 43 then parse_number t
                 else parse_number (c # t))"

section \<open>Laws\<close>

lemma index_of_Some_take:
  "index_of t s = Some i \<Longrightarrow> s = take i s @ t @ drop (i + length t) s"
proof (induction s arbitrary: i)
  case Nil
  then show ?case by (auto split: if_splits)
next
  case (Cons c s)
  then show ?case
    by (auto split: if_splits simp: prefix_def)
qed

lemma index_of_prefix: "prefix t s \<Longrightarrow> index_of t s = Some 0"
  by (cases s) auto

lemma index_of_None: "index_of t s = None \<longleftrightarrow> \<not> sublist t s"
proof (induction s)
  case Nil
  then show ?case by (auto simp: sublist_def)
next
  case (Cons c s)
  then show ?case by (auto simp: sublist_Cons_right)
qed

lemma index_of_single_None: "index_of [c] s = None \<longleftrightarrow> c \<notin> set s"
  by (induction s) auto

lemma index_of_single_absent [simp]: "c \<notin> set s \<Longrightarrow> index_of [c] s = None"
  by (simp add: index_of_single_None)

lemma index_of_single_append:
  "c \<notin> set a \<Longrightarrow> index_of [c] (a @ c # b) = Some (length a)"
  by (induction a) auto

lemma prefix_before_mark:
  "c \<notin> set r \<Longrightarrow> prefix r (a @ c # b) \<longleftrightarrow> prefix r a"
proof (induction a arbitrary: r)
  case Nil
  then show ?case by (cases r) auto
next
  case (Cons x a)
  then show ?case by (cases r) auto
qed


text \<open>A mark that the text sought does not hold separates two searches.\<close>

lemma index_of_past_mark:
  assumes "t \<noteq> []" and "c \<notin> set t"
  shows "\<not> sublist t a \<Longrightarrow> index_of t (a @ c # b) = map_option ((+) (Suc (length a))) (index_of t b)"
proof (induction a)
  case Nil
  obtain d t' where "t = d # t'" using assms(1) by (cases t) auto
  with assms(2) have "\<not> prefix t (c # b)" by auto
  then show ?case by (cases "index_of t b") simp_all
next
  case (Cons x a)
  have "\<not> prefix t (x # a)" using Cons.prems by (auto dest: prefix_imp_sublist)
  then have "\<not> prefix t (x # a @ c # b)"
    using prefix_before_mark [OF assms(2), of "x # a" b] by simp
  moreover have "\<not> sublist t a" using Cons.prems by (auto simp: sublist_Cons_right)
  ultimately show ?case using Cons.IH by (cases "index_of t b") simp_all
qed

lemma sublist_past_mark:
  assumes "(t :: jsstr) \<noteq> []" and "c \<notin> set t"
  shows "sublist t (a @ c # b) \<longleftrightarrow> sublist t a \<or> sublist t b"
proof (cases "sublist t a")
  case True
  then show ?thesis by (metis sublist_append sublist_order.order.trans sublist_appendI append_Nil)
next
  case False
  then show ?thesis using index_of_past_mark [OF assms False, of b] index_of_None [of t "a @ c # b"] index_of_None [of t b]
    by (metis map_option_is_None)
qed

lemma join_Cons_nonempty: "xs \<noteq> [] \<Longrightarrow> join sep (x # xs) = x @ sep @ join sep xs"
  by (cases xs) auto

lemma split_str_nonempty: "sep \<noteq> [] \<Longrightarrow> split_str sep s \<noteq> []"
  by (subst split_str.simps) (auto split: option.splits)

text \<open>Splitting and joining again gives the string back, whatever the separator.\<close>

lemma join_split: "sep \<noteq> [] \<Longrightarrow> join sep (split_str sep s) = s"
proof (induction sep s rule: split_str.induct)
  case (1 sep s)
  show ?case
  proof (cases "index_of sep s")
    case None
    with "1.prems" show ?thesis by (simp add: split_str.simps [of sep s])
  next
    case (Some i)
    with 1 have "join sep (split_str sep (drop (i + length sep) s)) = drop (i + length sep) s"
      by simp
    with Some "1.prems" show ?thesis
      by (simp add: split_str.simps [of sep s] join_Cons_nonempty split_str_nonempty
            index_of_Some_take [symmetric])
  qed
qed

lemma split_single_none: "c \<notin> set s \<Longrightarrow> split_str [c] s = [s]"
  by (simp add: split_str.simps [of "[c]" s] split: option.splits)

lemma split_single_append:
  "c \<notin> set a \<Longrightarrow> split_str [c] (a @ c # b) = a # split_str [c] b"
  by (subst split_str.simps) (simp add: index_of_single_append)

lemma split_str_Nil [simp]: "sep \<noteq> [] \<Longrightarrow> split_str sep [] = [[]]"
  by (subst split_str.simps) simp

text \<open>Joining pieces that do not contain the separator and splitting gives the pieces back.\<close>

lemma split_join_single:
  assumes "xs \<noteq> []" and "\<forall>x \<in> set xs. c \<notin> set x"
  shows "split_str [c] (join [c] xs) = xs"
  using assms
proof (induction "[c]" xs rule: join.induct)
  case 1
  then show ?case by simp
next
  case (2 x)
  then show ?case by (simp add: split_single_none)
next
  case (3 x y ys)
  then show ?case by (simp add: split_single_append)
qed

lemma split_single_pieces: "x \<in> set (split_str [c] s) \<Longrightarrow> c \<notin> set x"
proof (induction "[c]" s arbitrary: x rule: split_str.induct)
  case (1 s)
  show ?case
  proof (cases "index_of [c] s")
    case None
    then have "c \<notin> set s" by (simp add: index_of_single_None)
    with "1.prems" show ?thesis by (simp add: split_single_none)
  next
    case (Some i)
    have "c \<notin> set (take i s)"
      using Some
    proof (induction s arbitrary: i)
      case (Cons d s)
      then show ?case by (auto split: if_splits)
    qed simp
    with Some 1 show ?thesis by (auto simp: split_str.simps [of "[c]" s])
  qed
qed

lemma length_split_single: "length (split_str [c] s) = Suc (count_list s c)"
proof (induction "[c]" s rule: split_str.induct)
  case (1 s)
  show ?case
  proof (cases "index_of [c] s")
    case None
    then have "c \<notin> set s" by (simp add: index_of_single_None)
    then show ?thesis by (simp add: split_single_none)
  next
    case (Some i)
    have zero: "count_list (take i s) c = 0"
      using Some
    proof (induction s arbitrary: i)
      case (Cons d s)
      then show ?case by (auto split: if_splits)
    qed simp
    have "count_list s c = count_list (take i s @ [c] @ drop (i + 1) s) c"
      using index_of_Some_take [OF Some] by simp
    with Some zero 1 show ?thesis by (simp add: split_str.simps [of "[c]" s])
  qed
qed

lemma substr_negative: "len \<le> 0 \<Longrightarrow> substr s a len = []"
  by (simp add: substr_def)

lemma substr_nat:
  "a \<le> length s \<Longrightarrow> substr s (int a) (int b - int a) = take (b - a) (drop a s)"
  by (simp add: substr_def nat_diff_distrib' Let_def min_def)

lemma substr_from_nat: "substr_from s (int a) = drop a s"
  by (auto simp: substr_from_def substr_def Let_def min_def)

lemma substring_nat:
  "a \<le> b \<Longrightarrow> b \<le> length s \<Longrightarrow> substring s (int a) (int b) = take (b - a) (drop a s)"
  by (simp add: substring_def clamp_def Let_def)

lemma substring_from_nat: "substring_from s (int a) = drop a s"
  by (auto simp: substring_from_def clamp_def min_def)

lemma is_digit_nat_digits: "\<forall>c \<in> set (nat_digits n). is_digit c"
proof (induction n rule: nat_digits.induct)
  case (1 n)
  then show ?case by (subst nat_digits.simps) (auto simp: is_digit_def)
qed

lemma nat_digits_nonempty [simp]: "nat_digits n \<noteq> []"
  by (subst nat_digits.simps) simp

lemma digit_value_snoc: "digit_value (ds @ [d]) = 10 * digit_value ds + (d - 48)"
  by (simp add: digit_value_def)

lemma digit_value_nat_digits: "digit_value (nat_digits n) = n"
proof (induction n rule: nat_digits.induct)
  case (1 n)
  show ?case
  proof (cases "n < 10")
    case True
    then show ?thesis by (subst nat_digits.simps) (simp add: digit_value_def)
  next
    case False
    with 1 show ?thesis
      by (subst nat_digits.simps) (simp add: digit_value_snoc)
  qed
qed

lemma parse_digits_nat_digits:
  assumes "case t of [] \<Rightarrow> True | c # _ \<Rightarrow> \<not> is_digit c"
  shows "parse_digits (nat_digits n @ t) = Some (int n)"
proof -
  have "takeWhile is_digit (nat_digits n @ t) = nat_digits n"
    using assms is_digit_nat_digits [of n]
    by (cases t) (auto simp: takeWhile_append takeWhile_all_iff)
  then show ?thesis
    using digit_value_nat_digits [of n]
    by (cases "nat_digits n") (simp_all add: parse_digits_def)
qed

text \<open>\<open>parseInt(String(n))\<close> is \<open>n\<close> for every integer.\<close>

lemma parseInt_int_to_str: "parseInt (int_to_str i) = Some i"
proof -
  obtain c t where ct: "nat_digits (nat i) = c # t"
    by (cases "nat_digits (nat i)") auto
  then have c: "is_digit c" using is_digit_nat_digits [of "nat i"] by simp
  have neg: "parse_number (nat_digits k) = Some (int k)" for k
    using parse_digits_nat_digits [of "[]" k] is_digit_nat_digits [of k]
    by (auto simp: parse_number_def prefix_def is_digit_def)
  show ?thesis
    using c ct neg [of "nat i"] neg [of "nat (- i)"]
    by (auto simp: parseInt_def int_to_str_def is_digit_def is_space_def)
qed

lemma length_nat_digits_pos: "0 < length (nat_digits n)"
  by simp

declare indexOf_def [js_eval] indexOf_from_def [js_eval] substr_def [js_eval]
  substr_from_def [js_eval] substring_def [js_eval] substring_from_def [js_eval]
  clamp_def [js_eval] replace_str_def [js_eval] toLowerCase_def [js_eval]
  split_str.simps [js_eval] int_to_str_def [js_eval] nat_digits.simps [js_eval]
  parseInt_def [js_eval] parse_digits_def [js_eval] digit_value_def [js_eval]
  parse_number_def [js_eval] hex_value_def [js_eval] is_hex_def [js_eval]
  is_digit_def [js_eval] is_space_def [js_eval]

text \<open>A piece of a split is a part of the text.\<close>

lemma sublist_join: "x \<in> set xs \<Longrightarrow> sublist x (join sep xs)"
proof (induction xs rule: induct_list012)
  case (3 a b xs)
  have "sublist (join sep (b # xs)) (join sep (a # b # xs))" by (simp add: sublist_appendI suffix_imp_sublist suffixI)
  with 3 show ?case by (auto intro: sublist_order.order.trans)
qed auto

lemma sublist_piece: "t \<in> set (split_str [c] s) \<Longrightarrow> sublist t s"
  using sublist_join [of t "split_str [c] s" "[c]"] by (simp add: join_split)

end
