(* ===== verification/Regex.thy ===== *)
theory Regex
  imports JsString
begin

text \<open>
  Regular expressions of JavaScript (the part of the language that the modelled scripts
  use): abstract syntax and the backtracking matcher.  The language defines matching by
  backtracking in a fixed priority order; here \<open>m fl s r i cs\<close> is the list of all ways in
  which \<open>r\<close> matches the string \<open>s\<close> from position \<open>i\<close> with captures \<open>cs\<close>, in that priority
  order, each as the end position and the captures.  The first element is the match that
  the engine reports.

  Captures are a list indexed by group number; entry 0 is unused during matching.  A
  repetition clears the captures of the groups inside it at each round, and a round that
  consumes nothing once the minimum is reached is a failure, as the language prescribes.
  The repetition is computed with fuel; \<open>m_RRep\<close> shows that the fuel is always enough: the
  matcher satisfies the language's own recursion equation.
\<close>

section \<open>Syntax\<close>

datatype cls_item =
    CChar jschar | CRange jschar jschar
  | CDigit | CSpace | CWord | CNotDigit | CNotSpace | CNotWord

datatype regex =
    REmpty
  | RChar jschar
  | RAny
  | RClass bool "cls_item list"
  | RSeq regex regex
  | RAlt regex regex
  | RGroup nat regex
  | RRep nat "nat option" bool nat nat regex
  | RBol
  | REol
  | RWordB
  | RNotWordB
  | RNotAhead regex
  | RBackref nat

record flags =
  global :: bool
  ignoreCase :: bool
  multiline :: bool

type_synonym caps = "(nat \<times> nat) option list"
type_synonym matcher = "nat \<Rightarrow> caps \<Rightarrow> (nat \<times> caps) list"

section \<open>Characters\<close>

definition is_word :: "jschar \<Rightarrow> bool" where
  "is_word c \<longleftrightarrow> 48 \<le> c \<and> c \<le> 57 \<or> 65 \<le> c \<and> c \<le> 90 \<or> c = 95 \<or> 97 \<le> c \<and> c \<le> 122"

definition is_line_end :: "jschar \<Rightarrow> bool" where
  "is_line_end c \<longleftrightarrow> c = 10 \<or> c = 13 \<or> c = 8232 \<or> c = 8233"

definition canonicalize :: "flags \<Rightarrow> jschar \<Rightarrow> jschar" where
  "canonicalize fl c = (if ignoreCase fl \<and> 97 \<le> c \<and> c \<le> 122 then c - 32 else c)"

fun in_item :: "cls_item \<Rightarrow> jschar \<Rightarrow> bool" where
  "in_item (CChar d) c = (c = d)"
| "in_item (CRange a b) c = (a \<le> c \<and> c \<le> b)"
| "in_item CDigit c = is_digit c"
| "in_item CSpace c = is_space c"
| "in_item CWord c = is_word c"
| "in_item CNotDigit c = (\<not> is_digit c)"
| "in_item CNotSpace c = (\<not> is_space c)"
| "in_item CNotWord c = (\<not> is_word c)"

definition other_case :: "jschar \<Rightarrow> jschar" where
  "other_case c = (if 97 \<le> c \<and> c \<le> 122 then c - 32 else if 65 \<le> c \<and> c \<le> 90 then c + 32 else c)"

definition in_class :: "flags \<Rightarrow> cls_item list \<Rightarrow> jschar \<Rightarrow> bool" where
  "in_class fl its c \<longleftrightarrow>
     list_ex (\<lambda>it. in_item it c \<or> ignoreCase fl \<and> in_item it (other_case c)) its"

definition word_at :: "jsstr \<Rightarrow> nat \<Rightarrow> bool" where
  "word_at s i \<longleftrightarrow> i < length s \<and> is_word (s ! i)"

definition word_boundary :: "jsstr \<Rightarrow> nat \<Rightarrow> bool" where
  "word_boundary s i \<longleftrightarrow> (0 < i \<and> word_at s (i - 1)) \<noteq> word_at s i"

section \<open>Matching\<close>

definition reset_caps :: "nat \<Rightarrow> nat \<Rightarrow> caps \<Rightarrow> caps" where
  "reset_caps lo hi cs =
     (if lo < hi then map (\<lambda>k. if lo \<le> k \<and> k < hi then None else cs ! k) [0..<length cs] else cs)"

definition get_cap :: "caps \<Rightarrow> nat \<Rightarrow> (nat \<times> nat) option" where
  "get_cap cs n = (if n < length cs then cs ! n else None)"

fun repeat :: "nat \<Rightarrow> matcher \<Rightarrow> (caps \<Rightarrow> caps) \<Rightarrow> nat \<Rightarrow> nat option \<Rightarrow> bool \<Rightarrow> matcher" where
  "repeat 0 f rs mn mx greedy i cs = []"
| "repeat (Suc k) f rs mn mx greedy i cs =
     (if mx = Some 0 then [(i, cs)]
      else let more = concat (map (\<lambda>(j, cs').
                        if mn = 0 \<and> j = i then []
                        else repeat k f rs (mn - 1) (map_option (\<lambda>x. x - 1) mx) greedy j cs')
                      (f i (rs cs)))
           in if mn \<noteq> 0 then more
              else if greedy then more @ [(i, cs)] else (i, cs) # more)"

primrec m :: "flags \<Rightarrow> jsstr \<Rightarrow> regex \<Rightarrow> matcher" where
  "m fl s REmpty = (\<lambda>i cs. [(i, cs)])"
| "m fl s (RChar c) = (\<lambda>i cs.
     if i < length s \<and> canonicalize fl (s ! i) = canonicalize fl c then [(Suc i, cs)] else [])"
| "m fl s RAny = (\<lambda>i cs.
     if i < length s \<and> \<not> is_line_end (s ! i) then [(Suc i, cs)] else [])"
| "m fl s (RClass neg its) = (\<lambda>i cs.
     if i < length s \<and> in_class fl its (s ! i) \<noteq> neg then [(Suc i, cs)] else [])"
| "m fl s (RSeq a b) = (\<lambda>i cs. concat (map (\<lambda>(j, cs'). m fl s b j cs') (m fl s a i cs)))"
| "m fl s (RAlt a b) = (\<lambda>i cs. m fl s a i cs @ m fl s b i cs)"
| "m fl s (RGroup n a) = (\<lambda>i cs.
     map (\<lambda>(j, cs'). (j, cs'[n := Some (i, j)])) (m fl s a i cs))"
| "m fl s (RRep mn mx greedy lo hi a) = (\<lambda>i cs.
     repeat (Suc (mn + (length s - i))) (m fl s a) (reset_caps lo hi) mn mx greedy i cs)"
| "m fl s RBol = (\<lambda>i cs.
     if i = 0 \<or> multiline fl \<and> i \<le> length s \<and> is_line_end (s ! (i - 1)) then [(i, cs)] else [])"
| "m fl s REol = (\<lambda>i cs.
     if i = length s \<or> multiline fl \<and> i < length s \<and> is_line_end (s ! i) then [(i, cs)] else [])"
| "m fl s RWordB = (\<lambda>i cs. if word_boundary s i then [(i, cs)] else [])"
| "m fl s RNotWordB = (\<lambda>i cs. if word_boundary s i then [] else [(i, cs)])"
| "m fl s (RNotAhead a) = (\<lambda>i cs. if m fl s a i cs = [] then [(i, cs)] else [])"
| "m fl s (RBackref n) = (\<lambda>i cs.
     case get_cap cs n of
       None \<Rightarrow> [(i, cs)]
     | Some (a, b) \<Rightarrow>
         if i + (b - a) \<le> length s \<and>
            map (canonicalize fl) (take (b - a) (drop i s)) =
            map (canonicalize fl) (take (b - a) (drop a s))
         then [(i + (b - a), cs)] else [])"

declare m.simps(8) [simp del]

lemmas m_rep = m.simps(8)

section \<open>Bounds\<close>

lemma length_reset_caps [simp]: "length (reset_caps lo hi cs) = length cs"
  by (simp add: reset_caps_def)

lemma reset_caps_none [simp]: "reset_caps lo lo = (\<lambda>cs. cs)"
  by (rule ext) (simp add: reset_caps_def)

text \<open>The least number of characters that every match of \<open>r\<close> consumes.\<close>

primrec minlen :: "regex \<Rightarrow> nat" where
  "minlen REmpty = 0"
| "minlen (RChar c) = 1"
| "minlen RAny = 1"
| "minlen (RClass neg its) = 1"
| "minlen (RSeq a b) = minlen a + minlen b"
| "minlen (RAlt a b) = min (minlen a) (minlen b)"
| "minlen (RGroup n a) = minlen a"
| "minlen (RRep mn mx greedy lo hi a) =
     (case mx of None \<Rightarrow> mn | Some x \<Rightarrow> min mn x) * minlen a"
| "minlen RBol = 0"
| "minlen REol = 0"
| "minlen RWordB = 0"
| "minlen RNotWordB = 0"
| "minlen (RNotAhead a) = 0"
| "minlen (RBackref n) = 0"

definition consumes :: "nat \<Rightarrow> nat \<Rightarrow> matcher \<Rightarrow> bool" where
  "consumes n d f \<longleftrightarrow>
     (\<forall>i cs j cs'. i \<le> n \<longrightarrow> (j, cs') \<in> set (f i cs) \<longrightarrow> i + d \<le> j \<and> j \<le> n \<and> length cs' = length cs)"

lemma consumesI:
  "(\<And>i cs j cs'. i \<le> n \<Longrightarrow> (j, cs') \<in> set (f i cs) \<Longrightarrow>
      i + d \<le> j \<and> j \<le> n \<and> length cs' = length cs) \<Longrightarrow> consumes n d f"
  by (auto simp: consumes_def)

lemma consumesD:
  "consumes n d f \<Longrightarrow> (j, cs') \<in> set (f i cs) \<Longrightarrow> i \<le> n \<Longrightarrow>
   i + d \<le> j \<and> j \<le> n \<and> length cs' = length cs"
  by (auto simp: consumes_def)

lemma repeat_consumes:
  assumes f: "consumes n d f" and rs: "\<And>cs. length (rs cs) = length cs"
  shows "(j, cs') \<in> set (repeat k f rs mn mx greedy i cs) \<Longrightarrow> i \<le> n \<Longrightarrow>
    i + (case mx of None \<Rightarrow> mn | Some x \<Rightarrow> min mn x) * d \<le> j \<and> j \<le> n \<and> length cs' = length cs"
proof (induction k arbitrary: mn mx i cs)
  case 0
  then show ?case by simp
next
  case (Suc k)
  let ?mx = "map_option (\<lambda>x. x - 1) mx"
  let ?c = "case mx of None \<Rightarrow> mn | Some x \<Rightarrow> min mn x"
  consider (stop) "j = i" "cs' = cs" "mn = 0 \<or> mx = Some 0"
    | (more) i1 cs1 where "mx \<noteq> Some 0" "(i1, cs1) \<in> set (f i (rs cs))"
        "(j, cs') \<in> set (repeat k f rs (mn - 1) ?mx greedy i1 cs1)"
    using Suc.prems(1) by (fastforce simp: Let_def split: if_splits)
  then show ?case
  proof cases
    case stop
    then show ?thesis using Suc.prems(2) by (auto split: option.splits)
  next
    case more
    have b: "i + d \<le> i1" "i1 \<le> n" "length cs1 = length cs"
      using consumesD [OF f more(2) Suc.prems(2)] rs by auto
    have e: "i1 + (case ?mx of None \<Rightarrow> mn - 1 | Some x \<Rightarrow> min (mn - 1) x) * d \<le> j" "j \<le> n"
      "length cs' = length cs1"
      using Suc.IH [OF more(3) b(2)] by auto
    have "?c * d \<le> d + (case ?mx of None \<Rightarrow> mn - 1 | Some x \<Rightarrow> min (mn - 1) x) * d"
    proof -
      have "?c \<le> Suc (case ?mx of None \<Rightarrow> mn - 1 | Some x \<Rightarrow> min (mn - 1) x)"
        by (cases mx) auto
      then have "?c * d \<le> Suc (case ?mx of None \<Rightarrow> mn - 1 | Some x \<Rightarrow> min (mn - 1) x) * d"
        by (rule mult_le_mono1)
      then show ?thesis by simp
    qed
    with b e show ?thesis by linarith
  qed
qed

lemma m_consumes: "consumes (length s) (minlen r) (m fl s r)"
proof (induction r)
  case (RSeq a b)
  show ?case
  proof (rule consumesI)
    fix i cs j cs'
    assume i: "i \<le> length s" and "(j, cs') \<in> set (m fl s (RSeq a b) i cs)"
    then obtain i1 cs1 where "(i1, cs1) \<in> set (m fl s a i cs)" "(j, cs') \<in> set (m fl s b i1 cs1)"
      by auto
    with consumesD [OF RSeq.IH(1) this(1) i] consumesD [OF RSeq.IH(2) this(2)]
    show "i + minlen (RSeq a b) \<le> j \<and> j \<le> length s \<and> length cs' = length cs" by simp
  qed
next
  case (RAlt a b)
  show ?case
  proof (rule consumesI)
    fix i cs j cs'
    assume i: "i \<le> length s" and "(j, cs') \<in> set (m fl s (RAlt a b) i cs)"
    then consider "(j, cs') \<in> set (m fl s a i cs)" | "(j, cs') \<in> set (m fl s b i cs)" by auto
    then show "i + minlen (RAlt a b) \<le> j \<and> j \<le> length s \<and> length cs' = length cs"
      by cases (auto dest: consumesD [OF RAlt.IH(1) _ i] consumesD [OF RAlt.IH(2) _ i])
  qed
next
  case (RGroup n a)
  show ?case
  proof (rule consumesI)
    fix i cs j cs'
    assume i: "i \<le> length s" and "(j, cs') \<in> set (m fl s (RGroup n a) i cs)"
    then obtain cs1 where "(j, cs1) \<in> set (m fl s a i cs)" "cs' = cs1[n := Some (i, j)]" by auto
    with consumesD [OF RGroup.IH this(1) i]
    show "i + minlen (RGroup n a) \<le> j \<and> j \<le> length s \<and> length cs' = length cs" by simp
  qed
next
  case (RRep mn mx g lo hi a)
  show ?case
  proof (rule consumesI)
    fix i cs j cs'
    assume i: "i \<le> length s" and r: "(j, cs') \<in> set (m fl s (RRep mn mx g lo hi a) i cs)"
    show "i + minlen (RRep mn mx g lo hi a) \<le> j \<and> j \<le> length s \<and> length cs' = length cs"
      using repeat_consumes [OF RRep.IH length_reset_caps r [unfolded m_rep] i]
      by (simp only: minlen.simps)
  qed
next
  case (RBackref n)
  then show ?case by (auto simp: consumes_def split: option.splits if_splits)
qed (auto simp: consumes_def split: if_splits)

lemma m_bounds:
  "(j, cs') \<in> set (m fl s r i cs) \<Longrightarrow> i \<le> length s \<Longrightarrow>
   i + minlen r \<le> j \<and> j \<le> length s \<and> length cs' = length cs"
  by (rule consumesD [OF m_consumes])

section \<open>The fuel of a repetition is enough\<close>

lemma repeat_fuel:
  assumes f: "consumes n d f"
  shows "mn + (n - i) < k \<Longrightarrow> mn + (n - i) < k' \<Longrightarrow> i \<le> n \<Longrightarrow>
    repeat k f rs mn mx greedy i cs = repeat k' f rs mn mx greedy i cs"
proof (induction k arbitrary: k' mn mx i cs)
  case 0
  then show ?case by simp
next
  case (Suc k)
  from Suc.prems(2) obtain k1 where k': "k' = Suc k1" by (cases k') auto
  have "(\<lambda>(j, cs'). if mn = 0 \<and> j = i then []
            else repeat k f rs (mn - 1) (map_option (\<lambda>x. x - 1) mx) greedy j cs') p =
        (\<lambda>(j, cs'). if mn = 0 \<and> j = i then []
            else repeat k1 f rs (mn - 1) (map_option (\<lambda>x. x - 1) mx) greedy j cs') p"
    if "p \<in> set (f i (rs cs))" for p
  proof (cases p)
    case (Pair j cs')
    with that consumesD [OF f _ Suc.prems(3)] have j: "i \<le> j" "j \<le> n" by fastforce+
    show ?thesis
    proof (cases "mn = 0 \<and> j = i")
      case False
      with j Suc.prems k' have "mn - 1 + (n - j) < k" "mn - 1 + (n - j) < k1" by auto
      with j(2) have "repeat k f rs (mn - 1) mx' greedy j cs' = repeat k1 f rs (mn - 1) mx' greedy j cs'"
        for mx' by (intro Suc.IH)
      with False show ?thesis by (simp only: Pair prod.case if_False)
    qed (simp add: Pair)
  qed
  then have "map (\<lambda>(j, cs'). if mn = 0 \<and> j = i then []
            else repeat k f rs (mn - 1) (map_option (\<lambda>x. x - 1) mx) greedy j cs') (f i (rs cs)) =
        map (\<lambda>(j, cs'). if mn = 0 \<and> j = i then []
            else repeat k1 f rs (mn - 1) (map_option (\<lambda>x. x - 1) mx) greedy j cs') (f i (rs cs))"
    by (rule map_cong [OF refl])
  then show ?case by (simp only: k' repeat.simps(2))
qed

text \<open>The language's recursion equation for quantifiers, without fuel.\<close>

lemma m_RRep:
  assumes i: "i \<le> length s"
  shows "m fl s (RRep mn mx greedy lo hi a) i cs =
     (if mx = Some 0 then [(i, cs)]
      else let more = concat (map (\<lambda>(j, cs').
                        if mn = 0 \<and> j = i then []
                        else m fl s (RRep (mn - 1) (map_option (\<lambda>x. x - 1) mx) greedy lo hi a) j cs')
                      (m fl s a i (reset_caps lo hi cs)))
           in if mn \<noteq> 0 then more
              else if greedy then more @ [(i, cs)] else (i, cs) # more)"
proof -
  let ?mx = "map_option (\<lambda>x. x - 1) mx"
  let ?rep = "\<lambda>k. repeat k (m fl s a) (reset_caps lo hi) (mn - 1) ?mx greedy"
  have "(\<lambda>(j, cs'). if mn = 0 \<and> j = i then [] else ?rep (mn + (length s - i)) j cs') p =
        (\<lambda>(j, cs'). if mn = 0 \<and> j = i then [] else ?rep (Suc (mn - 1 + (length s - j))) j cs') p"
    if "p \<in> set (m fl s a i (reset_caps lo hi cs))" for p
  proof (cases p)
    case (Pair j cs')
    with that m_bounds [OF _ i] have j: "i \<le> j" "j \<le> length s" by fastforce+
    show ?thesis
    proof (cases "mn = 0 \<and> j = i")
      case False
      with j have "mn - 1 + (length s - j) < mn + (length s - i)" by auto
      then have "?rep (mn + (length s - i)) j cs' = ?rep (Suc (mn - 1 + (length s - j))) j cs'"
        using j(2) by (intro repeat_fuel [OF m_consumes]) auto
      with False show ?thesis by (simp only: Pair prod.case if_False)
    qed (simp add: Pair)
  qed
  then have "map (\<lambda>(j, cs'). if mn = 0 \<and> j = i then [] else ?rep (mn + (length s - i)) j cs')
        (m fl s a i (reset_caps lo hi cs)) =
      map (\<lambda>(j, cs'). if mn = 0 \<and> j = i then [] else ?rep (Suc (mn - 1 + (length s - j))) j cs')
        (m fl s a i (reset_caps lo hi cs))"
    by (rule map_cong [OF refl])
  then show ?thesis by (simp only: m_rep repeat.simps(2))
qed

section \<open>Repetition of a single character\<close>

text \<open>
  A matcher that takes one character satisfying \<open>P\<close>.  Its greedy repetition matches the
  maximal run first and then every shorter one; the lazy one in the opposite order.
\<close>

definition single :: "jsstr \<Rightarrow> (jschar \<Rightarrow> bool) \<Rightarrow> matcher \<Rightarrow> bool" where
  "single s P f \<longleftrightarrow> (\<forall>i cs. f i cs = (if i < length s \<and> P (s ! i) then [(Suc i, cs)] else []))"

definition run :: "jsstr \<Rightarrow> (jschar \<Rightarrow> bool) \<Rightarrow> nat \<Rightarrow> nat" where
  "run s P i = length (takeWhile P (drop i s))"

lemma run_step: "i < length s \<Longrightarrow> P (s ! i) \<Longrightarrow> run s P i = Suc (run s P (Suc i))"
  by (simp add: run_def takeWhile_drop_Suc)

lemma run_stop: "\<not> (i < length s \<and> P (s ! i)) \<Longrightarrow> run s P i = 0"
  unfolding run_def by (drule takeWhile_drop_stop) simp

lemma run_le: "i \<le> length s \<Longrightarrow> i + run s P i \<le> length s"
  unfolding run_def by (metis length_drop length_takeWhile_le le_diff_conv2 add.commute)

lemma run_all: "\<forall>k. i \<le> k \<and> k < i + run s P i \<longrightarrow> P (s ! k)"
proof (intro allI impI)
  fix k
  assume k: "i \<le> k \<and> k < i + run s P i"
  then have "k - i < length (takeWhile P (drop i s))" by (auto simp: run_def)
  moreover from this have "k - i < length (drop i s)"
    using length_takeWhile_le [of P "drop i s"] by linarith
  ultimately show "P (s ! k)"
    using nth_takeWhile_run [of "k - i" P "drop i s"] k by simp
qed

lemma repeat_single_greedy:
  assumes f: "single s P f" and rs: "rs = (\<lambda>cs. cs)"
  shows "length s - i < k \<Longrightarrow>
    repeat k f rs 0 None True i cs = map (\<lambda>n. (i + n, cs)) (rev [0..<Suc (run s P i)])"
proof (induction k arbitrary: i)
  case 0
  then show ?case by simp
next
  case (Suc k)
  show ?case
  proof (cases "i < length s \<and> P (s ! i)")
    case True
    with Suc.prems have "length s - Suc i < k" by auto
    with Suc.IH have IH: "repeat k f rs 0 None True (Suc i) cs =
        map (\<lambda>n. (Suc i + n, cs)) (rev [0..<Suc (run s P (Suc i))])" .
    have "rev [0..<Suc (Suc (run s P (Suc i)))] = map Suc (rev [0..<Suc (run s P (Suc i))]) @ [0]"
      by (metis map_Suc_upt rev.simps(2) rev_map upt_conv_Cons zero_less_Suc)
    moreover have "f i cs = [(Suc i, cs)]" using True f by (simp add: single_def)
    ultimately show ?thesis
      using True IH by (simp add: rs run_step comp_def del: upt_Suc)
  next
    case False
    then have "f i cs = []" and "run s P i = 0" using f run_stop [of i s P] by (auto simp: single_def)
    then show ?thesis by (simp add: rs)
  qed
qed

lemma repeat_single_lazy:
  assumes f: "single s P f" and rs: "rs = (\<lambda>cs. cs)"
  shows "length s - i < k \<Longrightarrow>
    repeat k f rs 0 None False i cs = map (\<lambda>n. (i + n, cs)) [0..<Suc (run s P i)]"
proof (induction k arbitrary: i)
  case 0
  then show ?case by simp
next
  case (Suc k)
  show ?case
  proof (cases "i < length s \<and> P (s ! i)")
    case True
    with Suc.prems have "length s - Suc i < k" by auto
    with Suc.IH have IH: "repeat k f rs 0 None False (Suc i) cs =
        map (\<lambda>n. (Suc i + n, cs)) [0..<Suc (run s P (Suc i))]" .
    have "[0..<Suc (Suc (run s P (Suc i)))] = 0 # map Suc [0..<Suc (run s P (Suc i))]"
      by (metis map_Suc_upt upt_conv_Cons zero_less_Suc)
    moreover have "f i cs = [(Suc i, cs)]" using True f by (simp add: single_def)
    ultimately show ?thesis
      using True IH by (simp add: rs run_step comp_def del: upt_Suc)
  next
    case False
    then have "f i cs = []" and "run s P i = 0" using f run_stop [of i s P] by (auto simp: single_def)
    then show ?thesis by (simp add: rs)
  qed
qed

lemma single_RChar: "single s (\<lambda>d. canonicalize fl d = canonicalize fl c) (m fl s (RChar c))"
  by (simp add: single_def)

lemma single_RAny: "single s (\<lambda>d. \<not> is_line_end d) (m fl s RAny)"
  by (simp add: single_def)

lemma single_RClass: "single s (\<lambda>d. in_class fl its d \<noteq> neg) (m fl s (RClass neg its))"
  by (simp add: single_def)

lemma m_star_greedy:
  assumes "single s P (m fl s a)"
  shows "m fl s (RRep 0 None True lo lo a) i cs =
    map (\<lambda>n. (i + n, cs)) (rev [0..<Suc (run s P i)])"
  using repeat_single_greedy [OF assms, of "reset_caps lo lo" i "Suc (length s - i)"]
  by (simp add: m_rep del: repeat.simps)

lemma m_star_lazy:
  assumes "single s P (m fl s a)"
  shows "m fl s (RRep 0 None False lo lo a) i cs =
    map (\<lambda>n. (i + n, cs)) [0..<Suc (run s P i)]"
  using repeat_single_lazy [OF assms, of "reset_caps lo lo" i "Suc (length s - i)"]
  by (simp add: m_rep del: repeat.simps)

lemma m_plus_greedy:
  assumes "single s P (m fl s a)"
  shows "m fl s (RRep 1 None True lo lo a) i cs =
    (if i < length s \<and> P (s ! i) then map (\<lambda>n. (Suc i + n, cs)) (rev [0..<Suc (run s P (Suc i))]) else [])"
proof -
  have "m fl s a i cs = (if i < length s \<and> P (s ! i) then [(Suc i, cs)] else [])"
    using assms by (simp add: single_def)
  moreover have "repeat (Suc (length s - i)) (m fl s a) (reset_caps lo lo) 0 None True (Suc i) cs =
      map (\<lambda>n. (Suc i + n, cs)) (rev [0..<Suc (run s P (Suc i))])"
    by (rule repeat_single_greedy [OF assms]) auto
  ultimately show ?thesis by (simp add: m_rep del: upt_Suc)
qed

lemma m_optional:
  assumes "single s P (m fl s a)"
  shows "m fl s (RRep 0 (Some 1) True lo lo a) i cs =
    (if i < length s \<and> P (s ! i) then [(Suc i, cs), (i, cs)] else [(i, cs)])"
proof -
  have "m fl s a i cs = (if i < length s \<and> P (s ! i) then [(Suc i, cs)] else [])"
    using assms by (simp add: single_def)
  then show ?thesis by (cases "length s - i") (auto simp: m_rep)
qed

section \<open>Evaluation\<close>

lemma repeat_numeral:
  "repeat (numeral k) f rs mn mx greedy i cs =
     (if mx = Some 0 then [(i, cs)]
      else let more = concat (map (\<lambda>(j, cs').
                        if mn = 0 \<and> j = i then []
                        else repeat (pred_numeral k) f rs (mn - 1) (map_option (\<lambda>x. x - 1) mx) greedy j cs')
                      (f i (rs cs)))
           in if mn \<noteq> 0 then more
              else if greedy then more @ [(i, cs)] else (i, cs) # more)"
  by (simp add: numeral_eq_Suc)

declare m_rep [js_eval] repeat_numeral [js_eval] is_word_def [js_eval] is_line_end_def [js_eval]
  canonicalize_def [js_eval] other_case_def [js_eval] in_class_def [js_eval]
  word_at_def [js_eval] word_boundary_def [js_eval] reset_caps_def [js_eval] get_cap_def [js_eval]

end
