(* ===== verification/RegexSyntax.thy ===== *)
theory RegexSyntax
  imports Regex
begin

text \<open>
  The pattern syntax of JavaScript's \<open>RegExp\<close> constructor, as a recursive-descent parser
  from pattern strings to \<^typ>\<open>regex\<close>.  It covers the constructs that the patterns of the
  scripts use, with the readings that browsers give to the irregular ones: a brace that
  starts no quantifier is a literal, a class escape at the end of a range makes the hyphen
  a literal (\<open>[:\w-.]\<close>), a digit escape inside a class is a character code, a negated
  lookahead may be quantified.  \<open>None\<close> is a \<open>SyntaxError\<close> (or a construct outside this
  part of the language: positive lookahead, \<open>\x\<close>, \<open>\u\<close>, \<open>\c\<close>).

  The parser recurses on fuel.  \<open>parse_fuel_mono\<close> shows that more fuel never changes a
  result, so a pattern that parses does so for a reason other than the bound.
\<close>

section \<open>Escapes, classes, quantifiers\<close>

definition ctrl_escape :: "jschar \<Rightarrow> jschar option" where
  "ctrl_escape d =
     (if d = 110 then Some 10 else if d = 116 then Some 9 else if d = 114 then Some 13
      else if d = 102 then Some 12 else if d = 118 then Some 11 else None)"

definition class_escape :: "jschar \<Rightarrow> cls_item option" where
  "class_escape d =
     (if d = 100 then Some CDigit else if d = 68 then Some CNotDigit
      else if d = 115 then Some CSpace else if d = 83 then Some CNotSpace
      else if d = 119 then Some CWord else if d = 87 then Some CNotWord else None)"

definition unsupported_escape :: "jschar \<Rightarrow> bool" where
  "unsupported_escape d \<longleftrightarrow> d = 48 \<or> d = 99 \<or> d = 117 \<or> d = 120 \<or> d = 107"

definition atom_escape :: "jschar \<Rightarrow> regex option" where
  "atom_escape d =
     (case class_escape d of
        Some it \<Rightarrow> Some (RClass False [it])
      | None \<Rightarrow> (case ctrl_escape d of
          Some c \<Rightarrow> Some (RChar c)
        | None \<Rightarrow> if 49 \<le> d \<and> d \<le> 57 then Some (RBackref (d - 48))
                  else if unsupported_escape d then None
                  else Some (RChar d)))"

definition class_atom :: "jsstr \<Rightarrow> (cls_item \<times> jsstr) option" where
  "class_atom s =
     (case s of
        [] \<Rightarrow> None
      | c # t \<Rightarrow>
          if c \<noteq> 92 then Some (CChar c, t)
          else (case t of
              [] \<Rightarrow> None
            | d # u \<Rightarrow>
                (case class_escape d of
                   Some it \<Rightarrow> Some (it, u)
                 | None \<Rightarrow> (case ctrl_escape d of
                     Some e \<Rightarrow> Some (CChar e, u)
                   | None \<Rightarrow> if d = 98 then Some (CChar 8, u)
                             else if 49 \<le> d \<and> d \<le> 55 then Some (CChar (d - 48), u)
                             else if unsupported_escape d then None
                             else Some (CChar d, u)))))"

definition class_range :: "cls_item \<Rightarrow> cls_item \<Rightarrow> cls_item list option" where
  "class_range a b =
     (case (a, b) of
        (CChar x, CChar y) \<Rightarrow> if x \<le> y then Some [CRange x y] else None
      | _ \<Rightarrow> Some [a, CChar 45, b])"

fun class_items :: "nat \<Rightarrow> jsstr \<Rightarrow> (cls_item list \<times> jsstr) option" where
  "class_items 0 s = None"
| "class_items (Suc k) s =
     (case s of
        [] \<Rightarrow> None
      | c # t \<Rightarrow>
          if c = 93 then Some ([], t)
          else (case class_atom s of
              None \<Rightarrow> None
            | Some (a, u) \<Rightarrow>
                if prefix [45] u \<and> \<not> prefix [45, 93] u then
                  (case class_atom (drop 1 u) of
                     None \<Rightarrow> None
                   | Some (b, v) \<Rightarrow>
                       (case class_range a b of
                          None \<Rightarrow> None
                        | Some its \<Rightarrow> map_option (\<lambda>(r, w). (its @ r, w)) (class_items k v)))
                else map_option (\<lambda>(r, w). (a # r, w)) (class_items k u)))"

definition lazy_mark :: "nat \<Rightarrow> nat option \<Rightarrow> jsstr \<Rightarrow> (nat \<times> nat option \<times> bool \<times> jsstr)" where
  "lazy_mark mn mx s =
     (case s of c # t \<Rightarrow> if c = 63 then (mn, mx, False, t) else (mn, mx, True, s)
              | [] \<Rightarrow> (mn, mx, True, s))"

definition brace_quant :: "jsstr \<Rightarrow> (nat \<times> nat option \<times> jsstr) option" where
  "brace_quant s =
     (let ds = takeWhile is_digit s; t = dropWhile is_digit s in
      if ds = [] then None
      else if prefix [125] t then Some (digit_value ds, Some (digit_value ds), drop 1 t)
      else if prefix [44] t then
        (let es = takeWhile is_digit (drop 1 t); u = dropWhile is_digit (drop 1 t) in
         if prefix [125] u
         then Some (digit_value ds, if es = [] then None else Some (digit_value es), drop 1 u)
         else None)
      else None)"

definition quantify :: "nat \<Rightarrow> nat \<Rightarrow> regex \<Rightarrow> jsstr \<Rightarrow> regex \<times> jsstr \<times> nat" where
  "quantify lo hi a s =
     (let build = (\<lambda>(mn, mx, g, t). (RRep mn mx g lo hi a, t, hi)) in
      case s of
        [] \<Rightarrow> (a, s, hi)
      | c # t \<Rightarrow>
          if c = 42 then build (lazy_mark 0 None t)
          else if c = 43 then build (lazy_mark 1 None t)
          else if c = 63 then build (lazy_mark 0 (Some 1) t)
          else if c = 123 then
            (case brace_quant t of
               None \<Rightarrow> (a, s, hi)
             | Some (mn, mx, u) \<Rightarrow> build (lazy_mark mn mx u))
          else (a, s, hi))"

section \<open>The parser\<close>

fun parse_disj :: "nat \<Rightarrow> jsstr \<Rightarrow> nat \<Rightarrow> (regex \<times> jsstr \<times> nat) option"
  and parse_alt :: "nat \<Rightarrow> jsstr \<Rightarrow> nat \<Rightarrow> (regex \<times> jsstr \<times> nat) option"
  and parse_term :: "nat \<Rightarrow> jsstr \<Rightarrow> nat \<Rightarrow> (regex \<times> jsstr \<times> nat) option" where
  "parse_disj 0 s n = None"
| "parse_disj (Suc k) s n =
     (case parse_alt k s n of
        None \<Rightarrow> None
      | Some (r, t, n') \<Rightarrow>
          if prefix [124] t then
            (case parse_disj k (drop 1 t) n' of
               None \<Rightarrow> None
             | Some (r', t', n'') \<Rightarrow> Some (RAlt r r', t', n''))
          else Some (r, t, n'))"
| "parse_alt 0 s n = None"
| "parse_alt (Suc k) s n =
     (if s = [] \<or> prefix [124] s \<or> prefix [41] s then Some (REmpty, s, n)
      else case parse_term k s n of
        None \<Rightarrow> None
      | Some (r, t, n') \<Rightarrow>
          (case parse_alt k t n' of
             None \<Rightarrow> None
           | Some (r', t', n'') \<Rightarrow> Some (RSeq r r', t', n'')))"
| "parse_term 0 s n = None"
| "parse_term (Suc k) s n =
     (case s of
        [] \<Rightarrow> None
      | c # t \<Rightarrow>
          if c = 94 then Some (RBol, t, n)
          else if c = 36 then Some (REol, t, n)
          else if c = 92 then
            (case t of
               [] \<Rightarrow> None
             | d # u \<Rightarrow>
                 if d = 98 then Some (RWordB, u, n)
                 else if d = 66 then Some (RNotWordB, u, n)
                 else map_option (\<lambda>a. quantify n n a u) (atom_escape d))
          else if c = 40 then
            (if prefix [63, 58] t then
               (case parse_disj k (drop 2 t) n of
                  Some (r, u, n') \<Rightarrow> if prefix [41] u then Some (quantify n n' r (drop 1 u)) else None
                | None \<Rightarrow> None)
             else if prefix [63, 33] t then
               (case parse_disj k (drop 2 t) n of
                  Some (r, u, n') \<Rightarrow>
                    if prefix [41] u then Some (quantify n n' (RNotAhead r) (drop 1 u)) else None
                | None \<Rightarrow> None)
             else if prefix [63] t then None
             else
               (case parse_disj k t (Suc n) of
                  Some (r, u, n') \<Rightarrow>
                    if prefix [41] u then Some (quantify n n' (RGroup n r) (drop 1 u)) else None
                | None \<Rightarrow> None))
          else if c = 91 then
            (if prefix [94] t
             then map_option (\<lambda>(its, u). quantify n n (RClass True its) u) (class_items k (drop 1 t))
             else map_option (\<lambda>(its, u). quantify n n (RClass False its) u) (class_items k t))
          else if c = 46 then Some (quantify n n RAny t)
          else if c = 42 \<or> c = 43 \<or> c = 63 \<or> c = 41 then None
          else Some (quantify n n (RChar c) t))"

fun fuel_of :: "jsstr \<Rightarrow> nat" where
  "fuel_of [] = Suc (Suc (Suc 0))"
| "fuel_of (c # s) = Suc (Suc (Suc (fuel_of s)))"

definition parse_pattern :: "jsstr \<Rightarrow> (regex \<times> nat) option" where
  "parse_pattern s =
     (case parse_disj (fuel_of s) s 1 of
        Some (r, t, n) \<Rightarrow> if t = [] then Some (r, n) else None
      | None \<Rightarrow> None)"

section \<open>More fuel never changes a result\<close>

text \<open>The approximation order on results: no result yet, or the same one.\<close>

definition leo :: "'a option \<Rightarrow> 'a option \<Rightarrow> bool" where
  "leo x y \<longleftrightarrow> x = None \<or> x = y"

lemma leo_refl: "leo x x"
  by (simp add: leo_def)

lemma leo_case:
  "leo x y \<Longrightarrow> (\<And>z. leo (f z) (g z)) \<Longrightarrow>
   leo (case x of None \<Rightarrow> None | Some z \<Rightarrow> f z) (case y of None \<Rightarrow> None | Some z \<Rightarrow> g z)"
  by (auto simp: leo_def split: option.splits)

lemma leo_prod: "(\<And>a b. leo (f a b) (g a b)) \<Longrightarrow> leo (case p of (a, b) \<Rightarrow> f a b) (case p of (a, b) \<Rightarrow> g a b)"
  by (cases p) simp

lemma leo_if: "(P \<Longrightarrow> leo a c) \<Longrightarrow> (\<not> P \<Longrightarrow> leo b d) \<Longrightarrow> leo (if P then a else b) (if P then c else d)"
  by simp

lemma leo_list:
  "leo a c \<Longrightarrow> (\<And>x xs. leo (f x xs) (g x xs)) \<Longrightarrow>
   leo (case l of [] \<Rightarrow> a | x # xs \<Rightarrow> f x xs) (case l of [] \<Rightarrow> c | x # xs \<Rightarrow> g x xs)"
  by (cases l) auto

lemma leo_map: "leo x y \<Longrightarrow> leo (map_option f x) (map_option f y)"
  by (auto simp: leo_def)

lemma leo_None: "leo None y"
  by (simp add: leo_def)

lemmas leo_intros = leo_case leo_prod leo_if leo_list leo_map leo_None

lemma class_items_mono: "leo (class_items k s) (class_items (Suc k) s)"
proof (induction k arbitrary: s)
  case 0
  show ?case by (simp add: leo_def)
next
  case (Suc k)
  show ?case
    by (subst (1 2) class_items.simps(2)) (intro leo_intros leo_refl Suc.IH)
qed

lemma parse_mono:
  "leo (parse_disj k s n) (parse_disj (Suc k) s n)"
  "leo (parse_alt k s n) (parse_alt (Suc k) s n)"
  "leo (parse_term k s n) (parse_term (Suc k) s n)"
proof (induction k arbitrary: s n)
  case 0
  show "leo (parse_disj 0 s n) (parse_disj (Suc 0) s n)"
    and "leo (parse_alt 0 s n) (parse_alt (Suc 0) s n)"
    and "leo (parse_term 0 s n) (parse_term (Suc 0) s n)" for s n
    by (simp_all add: leo_def)
next
  case (Suc k)
  show "leo (parse_disj (Suc k) s n) (parse_disj (Suc (Suc k)) s n)" for s n
    by (subst (1 2) parse_disj.simps(2)) (intro leo_intros leo_refl Suc.IH)
  show "leo (parse_alt (Suc k) s n) (parse_alt (Suc (Suc k)) s n)" for s n
    by (subst (1 2) parse_alt.simps(2)) (intro leo_intros leo_refl Suc.IH)
  show "leo (parse_term (Suc k) s n) (parse_term (Suc (Suc k)) s n)" for s n
    by (subst (1 2) parse_term.simps(2)) (intro leo_intros leo_refl Suc.IH class_items_mono)
qed

lemma leo_Some: "leo x y \<Longrightarrow> x = Some z \<Longrightarrow> y = Some z"
  by (auto simp: leo_def)

lemmas parse_fuel_mono =
  leo_Some [OF parse_mono(1)] leo_Some [OF parse_mono(2)] leo_Some [OF parse_mono(3)]

lemma parse_fuel_ge:
  "k \<le> k' \<Longrightarrow> parse_disj k s n = Some x \<Longrightarrow> parse_disj k' s n = Some x"
  "k \<le> k' \<Longrightarrow> parse_alt k s n = Some x \<Longrightarrow> parse_alt k' s n = Some x"
  "k \<le> k' \<Longrightarrow> parse_term k s n = Some x \<Longrightarrow> parse_term k' s n = Some x"
  by (induction k' rule: dec_induct) (simp_all only: parse_fuel_mono)

declare ctrl_escape_def [js_eval] class_escape_def [js_eval] unsupported_escape_def [js_eval]
  atom_escape_def [js_eval] class_atom_def [js_eval] class_range_def [js_eval]
  lazy_mark_def [js_eval] brace_quant_def [js_eval] quantify_def [js_eval] parse_pattern_def [js_eval]

lemma fuel_of_ge: "3 * length s + 3 = fuel_of s"
  by (induction s) auto

end
