(* ===== verification/RegExpObj.thy ===== *)
theory RegExpObj
  imports RegexSyntax
begin

text \<open>
  \<open>RegExp\<close> objects and the methods the scripts call on them: the constructor, \<open>exec\<close>
  (with the \<open>lastIndex\<close> that a global expression keeps between calls), \<open>test\<close>,
  \<open>String.replace\<close> with an expression, and the idiom
  \<^verbatim>\<open>while ((match = regex.exec(code)) != null) ...\<close>
  as \<open>exec_loop\<close>, a partial function: \<open>None\<close> is a loop that never ends.  The loop ends
  on every input when the expression cannot match the empty string, and it then returns
  non-empty, disjoint matches in order of position and leaves \<open>lastIndex\<close> at 0
  (\<open>exec_loop_result\<close>); it never ends once an empty match is found at \<open>lastIndex\<close>
  (\<open>exec_loop_diverges\<close>).
\<close>

section \<open>Objects\<close>

record regexp =
  prog :: regex
  groups :: nat
  rflags :: flags
  lastIndex :: nat

definition parse_flags :: "jsstr \<Rightarrow> flags" where
  "parse_flags s = \<lparr>global = List.member s 103, ignoreCase = List.member s 105,
     multiline = List.member s 109\<rparr>"

definition RegExp :: "jsstr \<Rightarrow> jsstr \<Rightarrow> regexp option" where
  "RegExp p f =
     (case parse_pattern p of
        None \<Rightarrow> None
      | Some (r, n) \<Rightarrow> Some \<lparr>prog = r, groups = n, rflags = parse_flags f, lastIndex = 0\<rparr>)"

text \<open>A match: where it starts and ends, and the substrings of its groups (0 is the whole).\<close>

record js_match =
  start_pos :: nat
  end_pos :: nat
  group :: "jsstr option list"

definition slice :: "jsstr \<Rightarrow> nat \<Rightarrow> nat \<Rightarrow> jsstr" where
  "slice s a b = take (b - a) (drop a s)"

definition mk_match :: "jsstr \<Rightarrow> nat \<Rightarrow> nat \<Rightarrow> caps \<Rightarrow> js_match" where
  "mk_match s i j cs =
     \<lparr>start_pos = i, end_pos = j,
      group = Some (slice s i j) # map (map_option (\<lambda>(a, b). slice s a b)) (drop 1 cs)\<rparr>"

definition match_at :: "regexp \<Rightarrow> jsstr \<Rightarrow> nat \<Rightarrow> js_match option" where
  "match_at re s i =
     (case m (rflags re) s (prog re) i (replicate (groups re) None) of
        [] \<Rightarrow> None
      | (j, cs) # _ \<Rightarrow> Some (mk_match s i j cs))"

fun search :: "regexp \<Rightarrow> jsstr \<Rightarrow> nat list \<Rightarrow> js_match option" where
  "search re s [] = None"
| "search re s (i # is) = (case match_at re s i of Some mt \<Rightarrow> Some mt | None \<Rightarrow> search re s is)"

definition exec :: "regexp \<Rightarrow> jsstr \<Rightarrow> js_match option \<times> regexp" where
  "exec re s =
     (if global (rflags re) then
        (if length s < lastIndex re then (None, re\<lparr>lastIndex := 0\<rparr>)
         else case search re s [lastIndex re..<Suc (length s)] of
                None \<Rightarrow> (None, re\<lparr>lastIndex := 0\<rparr>)
              | Some mt \<Rightarrow> (Some mt, re\<lparr>lastIndex := end_pos mt\<rparr>))
      else (search re s [0..<Suc (length s)], re))"

definition test :: "regexp \<Rightarrow> jsstr \<Rightarrow> bool" where
  "test re s \<longleftrightarrow> fst (exec re s) \<noteq> None"

definition group_of :: "js_match \<Rightarrow> nat \<Rightarrow> jsstr option" where
  "group_of mt n = (if n < length (group mt) then group mt ! n else None)"

section \<open>What a match is\<close>

definition ok_match :: "jsstr \<Rightarrow> nat \<Rightarrow> js_match \<Rightarrow> bool" where
  "ok_match s d mt \<longleftrightarrow> start_pos mt + d \<le> end_pos mt \<and> end_pos mt \<le> length s \<and>
     group_of mt 0 = Some (slice s (start_pos mt) (end_pos mt))"

lemma length_slice: "b \<le> length s \<Longrightarrow> length (slice s a b) = b - a"
  by (simp add: slice_def)

lemma match_at_ok:
  assumes "match_at re s i = Some mt" and "i \<le> length s"
  shows "start_pos mt = i \<and> ok_match s (minlen (prog re)) mt"
proof -
  obtain j cs rest where h: "m (rflags re) s (prog re) i (replicate (groups re) None) = (j, cs) # rest"
    and mt: "mt = mk_match s i j cs"
    using assms(1) by (auto simp: match_at_def split: list.splits)
  from h have "(j, cs) \<in> set (m (rflags re) s (prog re) i (replicate (groups re) None))" by simp
  from m_bounds [OF this assms(2)] show ?thesis
    by (simp add: mt mk_match_def ok_match_def group_of_def)
qed

lemma search_ok:
  "search re s is = Some mt \<Longrightarrow> \<forall>i \<in> set is. i \<le> length s \<Longrightarrow>
   start_pos mt \<in> set is \<and> ok_match s (minlen (prog re)) mt"
  by (induction "is") (auto split: option.splits dest: match_at_ok)

lemma search_Some_at:
  "search re s is = Some mt \<Longrightarrow> \<exists>i \<in> set is. match_at re s i = Some mt"
  by (induction "is") (auto split: option.splits)

lemma search_None: "search re s is = None \<longleftrightarrow> (\<forall>i \<in> set is. match_at re s i = None)"
  by (induction "is") (auto split: option.splits)

lemma search_skip: "\<forall>i \<in> set is. match_at re s i = None \<Longrightarrow> search re s (is @ js) = search re s js"
  by (induction "is") auto

lemma exec_global:
  assumes "global (rflags re)" and "exec re s = (Some mt, re')"
  shows "lastIndex re \<le> start_pos mt \<and> ok_match s (minlen (prog re)) mt \<and>
         re' = re\<lparr>lastIndex := end_pos mt\<rparr>"
proof -
  from assms have s: "search re s [lastIndex re..<Suc (length s)] = Some mt"
    and "re' = re\<lparr>lastIndex := end_pos mt\<rparr>"
    by (auto simp: exec_def simp del: upt_Suc split: if_splits option.splits)
  then show ?thesis using search_ok [OF s] by (simp del: upt_Suc)
qed

lemma exec_global_None:
  assumes "global (rflags re)" and "exec re s = (None, re')"
  shows "re' = re\<lparr>lastIndex := 0\<rparr>"
  using assms by (auto simp: exec_def simp del: upt_Suc split: if_splits option.splits)

section \<open>The loop over \<open>exec\<close>\<close>

partial_function (option) exec_loop :: "regexp \<Rightarrow> jsstr \<Rightarrow> (js_match list \<times> regexp) option" where
  "exec_loop re s =
     (case exec re s of
        (None, re') \<Rightarrow> Some ([], re')
      | (Some mt, re') \<Rightarrow>
          Option.bind (exec_loop re' s) (\<lambda>(ms, re''). Some (mt # ms, re'')))"

text \<open>
  The matches are ordered and disjoint: each starts at or after \<open>i\<close>, is not empty, and
  the next starts where it ends or later.
\<close>

fun ordered_matches :: "jsstr \<Rightarrow> nat \<Rightarrow> js_match list \<Rightarrow> bool" where
  "ordered_matches s i [] \<longleftrightarrow> True"
| "ordered_matches s i (mt # ms) \<longleftrightarrow>
     i \<le> start_pos mt \<and> ok_match s 1 mt \<and> ordered_matches s (end_pos mt) ms"

lemma exec_loop_result:
  assumes g: "global (rflags re)" and d: "0 < minlen (prog re)"
  shows "\<exists>ms. exec_loop re s = Some (ms, re\<lparr>lastIndex := 0\<rparr>) \<and>
              ordered_matches s (lastIndex re) ms"
  using g d
proof (induction "Suc (length s) - lastIndex re" arbitrary: re rule: less_induct)
  case less
  show ?case
  proof (cases "exec re s")
    case (Pair res re')
    show ?thesis
    proof (cases res)
      case None
      with Pair less.prems(1) exec_global_None [of re s re'] show ?thesis
        by (subst exec_loop.simps) simp
    next
      case (Some mt)
      with Pair exec_global [OF less.prems(1)]
      have mt: "lastIndex re \<le> start_pos mt" "ok_match s (minlen (prog re)) mt"
        and re': "re' = re\<lparr>lastIndex := end_pos mt\<rparr>" by auto
      from mt(2) less.prems(2) have ok1: "ok_match s 1 mt" by (auto simp: ok_match_def)
      with mt(1) have "Suc (length s) - lastIndex re' < Suc (length s) - lastIndex re"
        by (auto simp: re' ok_match_def)
      from less.hyps [OF this] less.prems re'
      obtain ms where "exec_loop re' s = Some (ms, re'\<lparr>lastIndex := 0\<rparr>)"
        and "ordered_matches s (lastIndex re') ms" by auto
      with Pair Some mt(1) ok1 re' show ?thesis
        by (subst exec_loop.simps) simp
    qed
  qed
qed

text \<open>An empty match at \<open>lastIndex\<close> leaves the object as it was, and the loop never ends.\<close>

lemma exec_loop_diverges:
  assumes fixpoint: "exec re s = (Some mt, re)"
  shows "exec_loop re s = None"
proof (rule ccontr)
  assume "exec_loop re s \<noteq> None"
  then obtain v where v: "exec_loop re s = Some v" by blast
  have "\<not> (\<exists>mt. exec re s = (Some mt, re))"
  proof (rule exec_loop.raw_induct [where P = "\<lambda>re s _. \<not> (\<exists>mt. exec re s = (Some mt, re))", OF _ v])
    fix loop re s w
    assume IH: "\<And>re s v. loop re s = Some v \<Longrightarrow> \<not> (\<exists>mt. exec re s = (Some mt, re))"
      and step: "(case exec re s of (None, re') \<Rightarrow> Some ([], re')
          | (Some mt, re') \<Rightarrow> Option.bind (loop re' s) (\<lambda>(ms, re''). Some (mt # ms, re''))) = Some w"
    show "\<not> (\<exists>mt. exec re s = (Some mt, re))"
    proof
      assume "\<exists>mt. exec re s = (Some mt, re)"
      with step obtain u where "loop re s = Some u" by (cases "loop re s") auto
      with IH \<open>\<exists>mt. exec re s = (Some mt, re)\<close> show False by blast
    qed
  qed
  with fixpoint show False by blast
qed

section \<open>Replacing\<close>

function matches_from :: "regexp \<Rightarrow> jsstr \<Rightarrow> nat \<Rightarrow> js_match list" where
  "matches_from re s i =
     (if length s < i then []
      else case search re s [i..<Suc (length s)] of
             None \<Rightarrow> []
           | Some mt \<Rightarrow>
               mt # matches_from re s
                 (if end_pos mt = start_pos mt then Suc (end_pos mt) else end_pos mt))"
  by pat_completeness auto
termination
proof (relation "measure (\<lambda>(re, s, i). Suc (length s) - i)")
  fix re s i mt
  assume "\<not> length s < i" and "search re s [i..<Suc (length s)] = Some mt"
  then show "((re, s, if end_pos mt = start_pos mt then Suc (end_pos mt) else end_pos mt), (re, s, i))
      \<in> measure (\<lambda>(re, s, i). Suc (length s) - i)"
    using search_ok [of re s "[i..<Suc (length s)]" mt] by (auto simp: ok_match_def)
qed simp

declare matches_from.simps [simp del]

lemma matches_from_None:
  "length s < i \<or> search re s [i..<Suc (length s)] = None \<Longrightarrow> matches_from re s i = []"
  by (subst matches_from.simps) (auto simp del: upt_Suc)

lemma matches_from_Some:
  "\<not> length s < i \<Longrightarrow> search re s [i..<Suc (length s)] = Some mt \<Longrightarrow>
   matches_from re s i = mt # matches_from re s (if end_pos mt = start_pos mt then Suc (end_pos mt) else end_pos mt)"
  by (subst matches_from.simps) (simp del: upt_Suc)

lemma matches_from_at:
  "mt \<in> set (matches_from re s i) \<Longrightarrow> start_pos mt \<le> length s \<and> match_at re s (start_pos mt) = Some mt"
proof (induction re s i rule: matches_from.induct)
  case (1 re s i)
  show ?case
  proof (cases "length s < i \<or> search re s [i..<Suc (length s)] = None")
    case True
    from "1.prems" [unfolded matches_from_None [OF True]] show ?thesis by simp
  next
    case False
    then obtain mt' where mt': "\<not> length s < i" "search re s [i..<Suc (length s)] = Some mt'" by auto
    from search_Some_at [OF mt'(2)] obtain j where "j \<le> length s" "match_at re s j = Some mt'"
      by (auto simp: less_Suc_eq_le simp del: upt_Suc)
    then have "start_pos mt' \<le> length s \<and> match_at re s (start_pos mt') = Some mt'"
      using match_at_ok [of re s j mt'] by auto
    then show ?thesis using "1.IH" [OF mt'] "1.prems" [unfolded matches_from_Some [OF mt']] by auto
  qed
qed

lemma set_slice: "set (slice s a b) \<subseteq> set s"
  by (auto simp: slice_def dest: in_set_takeD in_set_dropD)

fun splice_matches :: "jsstr \<Rightarrow> nat \<Rightarrow> js_match list \<Rightarrow> (js_match \<Rightarrow> jsstr) \<Rightarrow> jsstr" where
  "splice_matches s pos [] f = drop pos s"
| "splice_matches s pos (mt # ms) f = slice s pos (start_pos mt) @ f mt @ splice_matches s (end_pos mt) ms f"

definition replace_re :: "jsstr \<Rightarrow> regexp \<Rightarrow> (js_match \<Rightarrow> jsstr) \<Rightarrow> jsstr" where
  "replace_re s re f =
     (if global (rflags re) then splice_matches s 0 (matches_from re s 0) f
      else splice_matches s 0 (case search re s [0..<Suc (length s)] of None \<Rightarrow> [] | Some mt \<Rightarrow> [mt]) f)"

section \<open>Splitting at an expression\<close>

text \<open>
  \<open>split\<close> with an expression, as the language defines it for a non-empty text: at every position in
  turn the expression is tried; a match that ends behind the start of the present piece ends it.
\<close>

function split_from :: "regexp \<Rightarrow> jsstr \<Rightarrow> nat \<Rightarrow> nat \<Rightarrow> jsstr list" where
  "split_from re s p q =
     (if length s \<le> q then [drop p s]
      else case match_at re s q of
             None \<Rightarrow> split_from re s p (Suc q)
           | Some mt \<Rightarrow>
               if end_pos mt \<le> p then split_from re s p (Suc q)
               else slice s p q # split_from re s (end_pos mt) (end_pos mt))"
  by pat_completeness auto
termination
proof (relation "measure (\<lambda>(re, s, p, q). (length s - p) + (length s - q))")
  fix re :: regexp and s :: jsstr and p q :: nat and mt
  assume "\<not> length s \<le> q" "match_at re s q = Some mt" "\<not> end_pos mt \<le> p"
  then show "((re, s, end_pos mt, end_pos mt), re, s, p, q) \<in> measure (\<lambda>(re, s, p, q). length s - p + (length s - q))"
    using match_at_ok [of re s q mt] by (auto simp: ok_match_def)
qed auto

declare split_from.simps [simp del]

text \<open>
  Replacing, globally, an expression that matches single characters: a character-wise map.
\<close>

definition char_regexp :: "(jschar \<Rightarrow> bool) \<Rightarrow> regexp \<Rightarrow> bool" where
  "char_regexp P re \<longleftrightarrow>
     (\<forall>s i. match_at re s i =
        (if i < length s \<and> P (s ! i) then Some (mk_match s i (Suc i) (replicate (groups re) None))
         else None))"

lemma search_char_hit:
  assumes "char_regexp P re" "i < length s" "P (s ! i)"
  shows "search re s [i..<Suc (length s)] = Some (mk_match s i (Suc i) (replicate (groups re) None))"
  using assms by (simp add: upt_rec [of i "Suc (length s)"] char_regexp_def del: upt_Suc)

lemma search_char_skip:
  assumes "char_regexp P re" "i < length s" "\<not> P (s ! i)"
  shows "search re s [i..<Suc (length s)] = search re s [Suc i..<Suc (length s)]"
  using assms by (subst upt_rec) (simp add: char_regexp_def del: upt_Suc)

lemma search_char_end:
  assumes "char_regexp P re" "length s \<le> i"
  shows "search re s [i..<Suc (length s)] = None"
  using assms by (auto simp: search_None char_regexp_def)

lemma matches_from_char_skip:
  assumes "char_regexp P re" "i < length s" "\<not> P (s ! i)"
  shows "matches_from re s i = matches_from re s (Suc i)"
  using assms search_char_skip [OF assms]
  by (subst (1 2) matches_from.simps) (simp del: upt_Suc)

lemma slice_Cons: "i < j \<Longrightarrow> i < length s \<Longrightarrow> slice s i j = s ! i # slice s (Suc i) j"
  by (simp add: slice_def Cons_nth_drop_Suc [symmetric] take_Cons')

lemma matches_from_char_start:
  "char_regexp P re \<Longrightarrow> i \<le> length s \<Longrightarrow> matches_from re s i = mt # ms \<Longrightarrow> i \<le> start_pos mt"
  using search_ok [of re s "[i..<Suc (length s)]"]
  by (subst (asm) matches_from.simps) (auto split: if_splits option.splits)

lemma splice_char:
  assumes c: "char_regexp P re"
    and f: "\<And>i. i < length s \<Longrightarrow> P (s ! i) \<Longrightarrow> f (mk_match s i (Suc i) (replicate (groups re) None)) = g (s ! i)"
  shows "i \<le> length s \<Longrightarrow>
    splice_matches s i (matches_from re s i) f = concat (map (\<lambda>c. if P c then g c else [c]) (drop i s))"
proof (induction "length s - i" arbitrary: i)
  case 0
  then show ?case
    using search_char_end [OF c, of s i] by (simp add: matches_from.simps [of re s i])
next
  case (Suc k)
  then have i: "i < length s" by simp
  have IH: "splice_matches s (Suc i) (matches_from re s (Suc i)) f =
      concat (map (\<lambda>c. if P c then g c else [c]) (drop (Suc i) s))"
    using Suc i by simp
  show ?case
  proof (cases "P (s ! i)")
    case True
    with search_char_hit [OF c i True] i
    have "matches_from re s i = mk_match s i (Suc i) (replicate (groups re) None) # matches_from re s (Suc i)"
      by (subst matches_from.simps) (simp add: mk_match_def del: upt_Suc)
    with IH True i f show ?thesis
      by (simp add: mk_match_def slice_def Cons_nth_drop_Suc [symmetric])
  next
    case False
    have skip: "splice_matches s i ms f = s ! i # splice_matches s (Suc i) ms f"
      if "ms = [] \<or> (\<exists>mt ms'. ms = mt # ms' \<and> Suc i \<le> start_pos mt)" for ms
      using that i by (auto simp: slice_Cons Cons_nth_drop_Suc [symmetric])
    have "matches_from re s (Suc i) = [] \<or>
        (\<exists>mt ms'. matches_from re s (Suc i) = mt # ms' \<and> Suc i \<le> start_pos mt)"
      using matches_from_char_start [OF c, of "Suc i" s] i
      by (cases "matches_from re s (Suc i)") auto
    then show ?thesis
      using matches_from_char_skip [OF c i False] skip IH False i
      by (simp add: Cons_nth_drop_Suc [symmetric])
  qed
qed

lemma replace_char:
  assumes "char_regexp P re" and "global (rflags re)"
    and "\<And>i. i < length s \<Longrightarrow> P (s ! i) \<Longrightarrow> f (mk_match s i (Suc i) (replicate (groups re) None)) = g (s ! i)"
  shows "replace_re s re f = concat (map (\<lambda>c. if P c then g c else [c]) s)"
  using splice_char [where s = s and i = 0 and f = f and g = g, OF assms(1)] assms(2,3) by (simp add: replace_re_def)

lemma char_regexpI:
  assumes "\<And>s i cs. m (rflags re) s (prog re) i cs = (if i < length s \<and> P (s ! i) then [(Suc i, cs)] else [])"
  shows "char_regexp P re"
  by (simp add: char_regexp_def match_at_def assms)

declare parse_flags_def [js_eval] RegExp_def [js_eval] slice_def [js_eval] mk_match_def [js_eval]
  match_at_def [js_eval] exec_def [js_eval] test_def [js_eval] group_of_def [js_eval]
  exec_loop.simps [js_eval] matches_from.simps [js_eval] replace_re_def [js_eval]

end
