(* ===== verification/TextPrep.thy ===== *)
theory TextPrep
  imports RegExpObj
begin

text \<open>
  The text preparation of the syntax highlighter (\<open>shCore.js\<close>): the local functions
  \<open>Trim\<close>, \<open>Chop\<close> and \<open>Unindent\<close> of \<open>Highlighter.prototype.Highlight\<close>, and
  \<open>Highlighter.prototype.ProcessSmartTabs\<close> with its local functions \<open>InsertSpaces\<close> and
  \<open>ProcessLine\<close>.  The lemmas give each a closed form: what \<open>Chop\<close> strips, when \<open>Trim\<close>
  leaves nothing, that tab expansion is the usual column-by-column expansion to stops of
  four columns, and what \<open>Unindent\<close> measures.
\<close>

text \<open>A regular expression literal of the source.\<close>

definition js_regex :: "jsstr \<Rightarrow> jsstr \<Rightarrow> regexp" where
  "js_regex p f =
     (case RegExp p f of
        Some re \<Rightarrow> re
      | None \<Rightarrow> \<lparr>prog = RClass False [], groups = 1, rflags = parse_flags f, lastIndex = 0\<rparr>)"

declare js_regex_def [js_eval]

section \<open>Trim and Chop\<close>

definition re_trim :: regexp where
  "re_trim = js_regex (pat ''^`s*(.*?)[`s`n]*$'') (lit ''g'')"

definition Trim :: "jsstr \<Rightarrow> jsstr" where
  "Trim str = replace_re str re_trim (\<lambda>mt. case group_of mt 1 of Some g \<Rightarrow> g | None \<Rightarrow> [])"

definition re_chop_end :: regexp where
  "re_chop_end = js_regex (pat ''`n*$'') []"

definition re_chop_start :: regexp where
  "re_chop_start = js_regex (pat ''^`n*'') []"

definition Chop :: "jsstr \<Rightarrow> jsstr" where
  "Chop str = replace_re (replace_re str re_chop_end (\<lambda>_. [])) re_chop_start (\<lambda>_. [])"

section \<open>Unindent\<close>

definition re_indent :: regexp where
  "re_indent = js_regex (pat ''^`s*'') (lit ''g'')"

text \<open>
  The loop over the lines keeps the one expression object \<open>^\s*\<close> with its \<open>lastIndex\<close>
  from line to line, as the source does.
\<close>

fun unindent_min :: "regexp \<Rightarrow> nat \<Rightarrow> jsstr list \<Rightarrow> nat" where
  "unindent_min re mn [] = mn"
| "unindent_min re mn (l # ls) =
     (if 0 < mn then
        (if length (Trim l) = 0 then unindent_min re mn ls
         else (case exec re l of
                 (Some mt, re') \<Rightarrow>
                   unindent_min re'
                     (min (case group_of mt 0 of Some g \<Rightarrow> length g | None \<Rightarrow> 0) mn) ls
               | (None, re') \<Rightarrow> unindent_min re' mn ls))
      else mn)"

definition Unindent :: "jsstr \<Rightarrow> jsstr" where
  "Unindent str =
     (let lines = split_str [NL] str; mn = unindent_min re_indent 1000 lines
      in join [NL] (if 0 < mn then map (\<lambda>l. substr_from l (int mn)) lines else lines))"

section \<open>Smart tabs\<close>

definition InsertSpaces :: "jsstr \<Rightarrow> nat \<Rightarrow> nat \<Rightarrow> jsstr" where
  "InsertSpaces line pos n =
     substr line 0 (int pos) @ replicate n SP @ substr line (int pos + 1) (int (length line))"

lemma InsertSpaces_eq:
  "pos < length line \<Longrightarrow> InsertSpaces line pos n = take pos line @ replicate n SP @ drop (Suc pos) line"
  by (auto simp: InsertSpaces_def substr_def Let_def min_def nat_add_distrib)

lemma index_of_single_nth:
  "index_of [c] s = Some i \<Longrightarrow> i < length s \<and> s ! i = c \<and> c \<notin> set (take i s)"
proof (induction s arbitrary: i)
  case (Cons d s)
  then show ?case by (auto split: if_splits)
qed simp

lemma split_at_index:
  "index_of [c] s = Some i \<Longrightarrow> s = take i s @ c # drop (Suc i) s"
  using index_of_single_nth [of c s i] by (metis id_take_nth_drop)

lemma InsertSpaces_fewer:
  assumes i: "index_of [TAB] line = Some pos"
  shows "count_list (InsertSpaces line pos k) TAB < count_list line TAB"
proof -
  have "count_list line TAB = count_list (take pos line @ TAB # drop (Suc pos) line) TAB"
    using split_at_index [OF i] by simp
  moreover have "count_list (replicate k SP) TAB = 0" by (induction k) auto
  ultimately show ?thesis using index_of_single_nth [OF i] by (simp add: InsertSpaces_eq)
qed

function ProcessLine :: "jsstr \<Rightarrow> nat \<Rightarrow> jsstr" where
  "ProcessLine line tabSize =
     (case index_of [TAB] line of
        None \<Rightarrow> line
      | Some pos \<Rightarrow> ProcessLine (InsertSpaces line pos (tabSize - pos mod tabSize)) tabSize)"
  by pat_completeness auto
termination
  by (relation "measure (\<lambda>(line, n). count_list line TAB)") (auto simp: InsertSpaces_fewer)

declare ProcessLine.simps [simp del]

definition ProcessSmartTabs :: "jsstr \<Rightarrow> jsstr" where
  "ProcessSmartTabs code = concat (map (\<lambda>l. ProcessLine l 4 @ [NL]) (split_str [NL] code))"

text \<open>The reference: one pass over the line, keeping the column.\<close>

fun expand_tabs :: "nat \<Rightarrow> nat \<Rightarrow> jsstr \<Rightarrow> jsstr" where
  "expand_tabs n col [] = []"
| "expand_tabs n col (c # s) =
     (if c = TAB then replicate (n - col mod n) SP @ expand_tabs n (col + (n - col mod n)) s
      else c # expand_tabs n (Suc col) s)"

lemma expand_tabs_append:
  "TAB \<notin> set a \<Longrightarrow> expand_tabs n col (a @ s) = a @ expand_tabs n (col + length a) s"
  by (induction a arbitrary: col) auto

lemma expand_tabs_no_tab: "TAB \<notin> set a \<Longrightarrow> expand_tabs n col a = a"
  using expand_tabs_append [of a n col "[]"] by simp

lemma ProcessLine_expand: "ProcessLine line n = expand_tabs n 0 line"
proof (induction line n rule: ProcessLine.induct)
  case (1 line n)
  show ?case
  proof (cases "index_of [TAB] line")
    case None
    then show ?thesis
      by (simp add: ProcessLine.simps [of line] index_of_single_None expand_tabs_no_tab)
  next
    case (Some pos)
    let ?k = "n - pos mod n"
    from index_of_single_nth [OF Some] have p: "pos < length line" "TAB \<notin> set (take pos line)" by auto
    have "ProcessLine line n = expand_tabs n 0 (take pos line @ replicate ?k SP @ drop (Suc pos) line)"
      using 1 [OF Some] Some p by (simp add: ProcessLine.simps [of line] InsertSpaces_eq)
    also have "\<dots> = take pos line @ replicate ?k SP @ expand_tabs n (pos + ?k) (drop (Suc pos) line)"
      using p by (simp add: expand_tabs_append)
    also have "\<dots> = expand_tabs n 0 (take pos line @ TAB # drop (Suc pos) line)"
      using p by (simp add: expand_tabs_append)
    also have "\<dots> = expand_tabs n 0 line"
      using split_at_index [OF Some] by simp
    finally show ?thesis .
  qed
qed

lemma expand_tabs_TAB: "TAB \<notin> set (expand_tabs n col s)"
  by (induction s arbitrary: col) auto

lemma expand_tabs_NL: "NL \<notin> set s \<Longrightarrow> NL \<notin> set (expand_tabs n col s)"
  by (induction s arbitrary: col) auto

lemma tab_stop: "0 < n \<Longrightarrow> (col + (n - col mod n)) mod n = (0::nat)"
proof -
  assume n: "0 < n"
  have "col + (n - col mod n) = n * (col div n) + n"
    using mod_less_divisor [OF n, of col] mult_div_mod_eq [of n col] by linarith
  then show ?thesis by simp
qed

lemma ProcessLine_TAB: "TAB \<notin> set (ProcessLine line n)"
  by (simp add: ProcessLine_expand expand_tabs_TAB)

lemma ProcessLine_NL: "NL \<notin> set line \<Longrightarrow> NL \<notin> set (ProcessLine line n)"
  by (simp add: ProcessLine_expand expand_tabs_NL)

lemma ProcessSmartTabs_TAB: "TAB \<notin> set (ProcessSmartTabs code)"
  using ProcessLine_TAB by (auto simp: ProcessSmartTabs_def)

lemma split_concat_lines:
  "\<forall>l \<in> set ls. NL \<notin> set l \<Longrightarrow> split_str [NL] (concat (map (\<lambda>l. l @ [NL]) ls)) = ls @ [[]]"
  by (induction ls) (simp_all add: split_single_append)

text \<open>The lines of the expanded code are the expanded lines, then an empty last piece.\<close>

lemma split_ProcessSmartTabs:
  "split_str [NL] (ProcessSmartTabs code) = map (\<lambda>l. ProcessLine l 4) (split_str [NL] code) @ [[]]"
proof -
  let ?ls = "map (\<lambda>l. ProcessLine l 4) (split_str [NL] code)"
  have "\<forall>l \<in> set ?ls. NL \<notin> set l"
    using split_single_pieces ProcessLine_NL by auto
  then have "split_str [NL] (concat (map (\<lambda>l. l @ [NL]) ?ls)) = ?ls @ [[]]"
    by (rule split_concat_lines)
  then show ?thesis by (simp add: ProcessSmartTabs_def comp_def)
qed

declare re_trim_def [js_eval] Trim_def [js_eval] re_chop_end_def [js_eval]
  re_chop_start_def [js_eval] Chop_def [js_eval] re_indent_def [js_eval] Unindent_def [js_eval]
  InsertSpaces_def [js_eval] ProcessLine.simps [js_eval] ProcessSmartTabs_def [js_eval]

section \<open>What the expressions match\<close>

abbreviation no_flags :: flags where
  "no_flags \<equiv> \<lparr>global = False, ignoreCase = False, multiline = False\<rparr>"

abbreviation g_flags :: flags where
  "g_flags \<equiv> \<lparr>global = True, ignoreCase = False, multiline = False\<rparr>"

lemma re_indent_eq:
  "re_indent = \<lparr>prog = RSeq RBol (RSeq (RRep 0 None True 1 1 (RClass False [CSpace])) REmpty),
     groups = 1, rflags = g_flags, lastIndex = 0\<rparr>"
  by (simp add: js_eval)

lemma re_chop_end_eq:
  "re_chop_end = \<lparr>prog = RSeq (RRep 0 None True 1 1 (RChar 10)) (RSeq REol REmpty),
     groups = 1, rflags = no_flags, lastIndex = 0\<rparr>"
  by (simp add: js_eval)

lemma re_chop_start_eq:
  "re_chop_start = \<lparr>prog = RSeq RBol (RSeq (RRep 0 None True 1 1 (RChar 10)) REmpty),
     groups = 1, rflags = no_flags, lastIndex = 0\<rparr>"
  by (simp add: js_eval)

lemma re_trim_eq:
  "re_trim = \<lparr>prog = RSeq RBol (RSeq (RRep 0 None True 1 1 (RClass False [CSpace]))
       (RSeq (RGroup 1 (RSeq (RRep 0 None False 2 2 RAny) REmpty))
       (RSeq (RRep 0 None True 2 2 (RClass False [CSpace, CChar 10])) (RSeq REol REmpty)))),
     groups = 2, rflags = g_flags, lastIndex = 0\<rparr>"
  by (simp add: js_eval)

lemma search_first:
  assumes "k \<le> length s" and "\<And>i. i < k \<Longrightarrow> match_at re s i = None" and "match_at re s k = Some mt"
  shows "search re s [0..<Suc (length s)] = Some mt"
proof -
  have "[0..<Suc (length s)] = [0..<k] @ k # [Suc k..<Suc (length s)]"
    by (rule upt_split_at [OF assms(1)])
  moreover have "search re s ([0..<k] @ is) = search re s is" for "is"
  proof -
    have "search re s (js @ is) = search re s is" if "\<forall>j \<in> set js. match_at re s j = None" for js
      using that by (induction js) auto
    then show ?thesis using assms(2) by simp
  qed
  ultimately show ?thesis using assms(3) by simp
qed

lemma run_full_iff: "i \<le> length s \<Longrightarrow> i + run s P i = length s \<longleftrightarrow> (\<forall>c \<in> set (drop i s). P c)"
proof -
  assume i: "i \<le> length s"
  have "i + run s P i = length s \<longleftrightarrow> length (takeWhile P (drop i s)) = length (drop i s)"
    using i by (auto simp: run_def)
  also have "\<dots> \<longleftrightarrow> takeWhile P (drop i s) = drop i s"
    by (metis takeWhile_eq_take take_all_iff order_refl)
  finally show ?thesis by (simp add: takeWhile_all_iff)
qed

lemma in_class_space [simp]: "in_class g_flags [CSpace] c \<longleftrightarrow> is_space c"
  by (simp add: in_class_def)

lemma in_class_space_nl [simp]: "in_class g_flags [CSpace, CChar 10] c \<longleftrightarrow> is_space c"
  by (auto simp: in_class_def is_space_def)

lemma canonicalize_cs [simp]: "\<not> ignoreCase fl \<Longrightarrow> canonicalize fl c = c"
  by (simp add: canonicalize_def)

lemma single_space: "single s is_space (m g_flags s (RClass False [CSpace]))"
  using single_RClass [of s g_flags "[CSpace]" False] by simp

lemma single_space_nl: "single s is_space (m g_flags s (RClass False [CSpace, CChar 10]))"
  using single_RClass [of s g_flags "[CSpace, CChar 10]" False] by simp

lemma single_nl: "single s (\<lambda>c. c = NL) (m no_flags s (RChar 10))"
  using single_RChar [of s no_flags 10] by simp

section \<open>Chop\<close>

lemma match_chop_start:
  "match_at re_chop_start s i = (if i = 0 then Some (mk_match s 0 (run s (\<lambda>c. c = NL) 0) [None]) else None)"
  by (simp add: match_at_def re_chop_start_eq m_star_greedy [OF single_nl])

text \<open>An expression for a run of characters up to the end of the text finds the longest such run.\<close>

lemma match_end_run:
  assumes "prog re = RSeq (RRep 0 None True 1 1 a) (RSeq REol REmpty)" and "\<not> multiline (rflags re)"
    and "groups re = 1" and sg: "single s P (m (rflags re) s a)" and i: "i \<le> length s"
  shows "match_at re s i =
    (if \<forall>c \<in> set (drop i s). P c then Some (mk_match s i (length s) [None]) else None)"
proof (cases "\<forall>c \<in> set (drop i s). P c")
  case True
  then have "i + run s P i = length s" using run_full_iff [OF i] by blast
  then show ?thesis using True assms(1-3) by (simp add: match_at_def m_star_greedy [OF sg])
next
  case False
  then have "i + run s P i \<noteq> length s" using run_full_iff [OF i, of P] by blast
  then have "i + run s P i < length s" using run_le [OF i, of P] by linarith
  then have none: "m (rflags re) s (prog re) i cs = []" for cs
    using assms(1,2) by (auto simp: m_star_greedy [OF sg] simp del: upt_Suc)
  show ?thesis using False unfolding match_at_def none by auto
qed

lemma search_end_run:
  assumes "prog re = RSeq (RRep 0 None True 1 1 a) (RSeq REol REmpty)" and "\<not> multiline (rflags re)"
    and "groups re = 1" and "single s P (m (rflags re) s a)"
  shows "search re s [0..<Suc (length s)] =
    Some (mk_match s (length s - length (takeWhile P (rev s))) (length s) [None])"
    (is "_ = Some (mk_match s ?k _ _)")
proof (rule search_first)
  show k: "?k \<le> length s" by simp
  show "match_at re s i = None" if "i < ?k" for i
    using that match_end_run [OF assms, of i] trailing_run [of i s P] by auto
  show "match_at re s ?k = Some (mk_match s ?k (length s) [None])"
    using match_end_run [OF assms k] trailing_run [of ?k s P] by auto
qed

definition strip_nl :: "jsstr \<Rightarrow> jsstr" where
  "strip_nl s = dropWhile (\<lambda>c. c = NL) (rev (dropWhile (\<lambda>c. c = NL) (rev s)))"

lemma take_strip_end:
  "take (length s - length (takeWhile P (rev s))) s = rev (dropWhile P (rev s))"
proof -
  have "rev s = takeWhile P (rev s) @ dropWhile P (rev s)" by simp
  then have "s = rev (dropWhile P (rev s)) @ rev (takeWhile P (rev s))"
    by (metis rev_append rev_rev_ident)
  then show ?thesis
    by (metis append_eq_conv_conj diff_add_inverse2 length_append length_rev)
qed

lemma chop_end: "replace_re s re_chop_end (\<lambda>_. []) = rev (dropWhile (\<lambda>c. c = NL) (rev s))"
proof -
  have "search re_chop_end s [0..<Suc (length s)] =
      Some (mk_match s (length s - length (takeWhile (\<lambda>c. c = NL) (rev s))) (length s) [None])"
    by (rule search_end_run, simp_all add: re_chop_end_eq del: m.simps) (rule single_nl)
  then show ?thesis
    by (simp add: replace_re_def re_chop_end_eq mk_match_def slice_def take_strip_end del: upt_Suc)
qed

lemma chop_start: "replace_re s re_chop_start (\<lambda>_. []) = dropWhile (\<lambda>c. c = NL) s"
proof -
  have "search re_chop_start s [0..<Suc (length s)] = Some (mk_match s 0 (run s (\<lambda>c. c = NL) 0) [None])"
    by (rule search_first [of 0]) (simp_all add: match_chop_start)
  then show ?thesis
    by (simp add: replace_re_def re_chop_start_eq mk_match_def slice_def run_def dropWhile_eq_drop del: upt_Suc)
qed

lemma Chop_eq: "Chop s = strip_nl s"
  by (simp add: Chop_def chop_end chop_start strip_nl_def)

section \<open>Trim\<close>

lemma re_trim_sel: "rflags re_trim = g_flags" "groups re_trim = 2" "replicate (groups re_trim) x = [x, x]"
  by (simp_all add: re_trim_eq numeral_2_eq_2)

definition trim_caps :: "nat \<Rightarrow> nat \<Rightarrow> caps" where
  "trim_caps p q = [None, Some (p, q)]"

text \<open>All ways in which the expression of \<open>Trim\<close> matches, in priority order.\<close>

lemma m_trim:
  "m g_flags s (prog re_trim) i [None, None] =
    (if i = 0 then
       concat (map (\<lambda>p. concat (map (\<lambda>q.
         concat (map (\<lambda>e. if e = length s then [(e, trim_caps p q)] else [])
           (map (\<lambda>n. q + n) (rev [0..<Suc (run s is_space q)]))))
         (map (\<lambda>n. p + n) [0..<Suc (run s (\<lambda>c. \<not> is_line_end c) p)])))
         (rev [0..<Suc (run s is_space 0)]))
     else [])"
  by (simp add: re_trim_eq m_star_greedy [OF single_space] m_star_greedy [OF single_space_nl]
      m_star_lazy [OF single_RAny] trim_caps_def map_concat comp_def del: upt_Suc cong: if_cong)

lemma match_trim_at: "match_at re_trim s i =
  (case m g_flags s (prog re_trim) i [None, None] of [] \<Rightarrow> None | (j, cs) # _ \<Rightarrow> Some (mk_match s i j cs))"
  by (simp only: match_at_def re_trim_sel(1,3))

lemma match_trim_blank:
  assumes "\<forall>c \<in> set s. is_space c"
  shows "match_at re_trim s 0 = Some (mk_match s 0 (length s) (trim_caps (length s) (length s)))"
proof -
  have r: "run s is_space 0 = length s" using assms run_full_iff [of 0 s is_space] by simp
  have e: "run s P (length s) = 0" for P by (simp add: run_def)
  show ?thesis by (simp add: match_trim_at m_trim r e)
qed

lemma match_trim_Some:
  assumes "match_at re_trim s i = Some mt"
  obtains p q where "i = 0" "mt = mk_match s 0 (length s) (trim_caps p q)"
    "p \<le> run s is_space 0" "p \<le> q" "q \<le> length s" "\<forall>c \<in> set (drop q s). is_space c"
proof -
  from assms obtain j cs rest where h: "m g_flags s (prog re_trim) i [None, None] = (j, cs) # rest"
    and mt: "mt = mk_match s i j cs"
    by (auto simp: match_trim_at split: list.splits)
  then have "(j, cs) \<in> set (m g_flags s (prog re_trim) i [None, None])" by simp
  then obtain p n k where i: "i = 0" and j: "j = length s" and cs: "cs = trim_caps p (p + n)"
    and p: "p \<le> run s is_space 0" and n: "n \<le> run s (\<lambda>c. \<not> is_line_end c) p"
    and k: "k \<le> run s is_space (p + n)" and e: "p + n + k = length s"
    unfolding m_trim by (auto split: if_splits simp del: upt_Suc simp: less_Suc_eq_le) metis
  from e have q: "p + n \<le> length s" by simp
  then have "p + n + run s is_space (p + n) = length s"
    using k e run_le [OF q, of is_space] by linarith
  then have "\<forall>c \<in> set (drop (p + n) s). is_space c" using run_full_iff [OF q] by blast
  with that i j cs mt p q show thesis by auto
qed

lemma Trim_eq:
  "Trim s = (case match_at re_trim s 0 of
     None \<Rightarrow> s
   | Some mt \<Rightarrow> (case group_of mt 1 of Some g \<Rightarrow> g | None \<Rightarrow> []))"
proof -
  have "match_at re_trim s i = None" if "0 < i" for i
    using that by (simp add: match_trim_at m_trim)
  then have later: "search re_trim s [i..<Suc (length s)] = None" if "0 < i" for i
    using that by (simp add: search_None del: upt_Suc)
  have "[0..<Suc (length s)] = 0 # [Suc 0..<Suc (length s)]" by (simp add: upt_conv_Cons del: upt_Suc)
  then have s0: "search re_trim s [0..<Suc (length s)] = match_at re_trim s 0"
    using later [of "Suc 0"] by (simp split: option.splits del: upt_Suc)
  have rest: "matches_from re_trim s i = []" if "0 < i" for i
    using later [OF that] by (subst matches_from.simps) (simp del: upt_Suc)
  show ?thesis
  proof (cases "match_at re_trim s 0")
    case None
    then show ?thesis
      using s0 by (simp add: Trim_def replace_re_def re_trim_sel matches_from.simps [of _ _ 0] del: upt_Suc)
  next
    case (Some mt)
    then obtain p q where mt: "mt = mk_match s 0 (length s) (trim_caps p q)" by (rule match_trim_Some)
    have "matches_from re_trim s 0 = [mt]"
      using s0 Some rest mt by (subst matches_from.simps) (simp add: mk_match_def del: upt_Suc)
    then show ?thesis
      using Some mt by (simp add: Trim_def replace_re_def re_trim_sel mk_match_def slice_def del: upt_Suc)
  qed
qed

text \<open>\<open>Trim\<close> leaves nothing exactly of the blank strings.\<close>

lemma Trim_empty_iff: "Trim s = [] \<longleftrightarrow> (\<forall>c \<in> set s. is_space c)"
proof
  assume "\<forall>c \<in> set s. is_space c"
  then show "Trim s = []"
    using match_trim_blank [of s] by (simp add: Trim_eq group_of_def mk_match_def trim_caps_def slice_def)
next
  assume t: "Trim s = []"
  show "\<forall>c \<in> set s. is_space c"
  proof (cases "match_at re_trim s 0")
    case None
    with t show ?thesis by (simp add: Trim_eq)
  next
    case (Some mt)
    then obtain p q where mt: "mt = mk_match s 0 (length s) (trim_caps p q)"
      and p: "p \<le> run s is_space 0" and q: "p \<le> q" "q \<le> length s" "\<forall>c \<in> set (drop q s). is_space c"
      by (rule match_trim_Some)
    from Some mt t have "slice s p q = []" by (simp add: Trim_eq group_of_def mk_match_def trim_caps_def)
    with q(1,2) have "q = p" by (auto simp: slice_def)
    with p q(3) have "\<forall>c \<in> set (drop p s). is_space c" "\<forall>c \<in> set (take p s). is_space c"
      using q(2) take_all_takeWhile [of p s is_space] by (auto simp: run_def)
    then show ?thesis by (metis append_take_drop_id in_set_conv_decomp set_append Un_iff)
  qed
qed

section \<open>Unindent\<close>

definition indent :: "jsstr \<Rightarrow> nat" where
  "indent l = length (takeWhile is_space l)"

definition blank :: "jsstr \<Rightarrow> bool" where
  "blank l \<longleftrightarrow> (\<forall>c \<in> set l. is_space c)"

lemma match_indent:
  "match_at (re_indent\<lparr>lastIndex := k\<rparr>) s i = (if i = 0 then Some (mk_match s 0 (indent s) [None]) else None)"
  by (simp add: match_at_def re_indent_eq m_star_greedy [OF single_space] run_def indent_def)

text \<open>
  The expression is global and anchored: with \<open>lastIndex\<close> 0 it measures the line and moves
  \<open>lastIndex\<close> to the indentation; with any other \<open>lastIndex\<close> it finds nothing and goes back to 0.
\<close>

lemma exec_indent_0:
  "exec (re_indent\<lparr>lastIndex := 0\<rparr>) s = (Some (mk_match s 0 (indent s) [None]), re_indent\<lparr>lastIndex := indent s\<rparr>)"
proof -
  have "search (re_indent\<lparr>lastIndex := 0\<rparr>) s [0..<Suc (length s)] = Some (mk_match s 0 (indent s) [None])"
    by (rule search_first [of 0]) (simp_all add: match_indent)
  then show ?thesis by (simp add: exec_def re_indent_eq mk_match_def del: upt_Suc)
qed

lemma exec_indent_pos:
  assumes "0 < k"
  shows "exec (re_indent\<lparr>lastIndex := k\<rparr>) s = (None, re_indent\<lparr>lastIndex := 0\<rparr>)"
proof -
  have "search (re_indent\<lparr>lastIndex := k\<rparr>) s [k..<Suc (length s)] = None"
    using assms by (auto simp: search_None match_indent)
  then show ?thesis by (simp add: exec_def re_indent_eq del: upt_Suc)
qed

text \<open>What the loop computes: the next non-blank line after an indented one is not measured.\<close>

fun measured_min :: "bool \<Rightarrow> nat \<Rightarrow> jsstr list \<Rightarrow> nat" where
  "measured_min skip mn [] = mn"
| "measured_min skip mn (l # ls) =
     (if mn = 0 then 0
      else if blank l then measured_min skip mn ls
      else if skip then measured_min False mn ls
      else measured_min (0 < indent l) (min (indent l) mn) ls)"

lemma indent_group: "group_of (mk_match l 0 (indent l) [None]) 0 = Some (take (indent l) l)"
  by (simp add: group_of_def mk_match_def slice_def)

lemma indent_le: "indent l \<le> length l"
  by (simp add: indent_def length_takeWhile_le)

lemma unindent_min_eq:
  "unindent_min (re_indent\<lparr>lastIndex := k\<rparr>) mn ls = measured_min (0 < k) mn ls"
proof (induction ls arbitrary: k mn)
  case (Cons l ls)
  show ?case
  proof (cases "k = 0")
    case True
    then show ?thesis
      using Cons.IH [of 0] Cons.IH [of "indent l"] exec_indent_0 [of l] indent_le [of l]
      by (auto simp: Trim_empty_iff blank_def indent_group min_def)
  next
    case False
    then show ?thesis
      using Cons.IH [of 0] Cons.IH [of k] exec_indent_pos [of k l]
      by (auto simp: Trim_empty_iff blank_def)
  qed
qed simp

lemma re_indent_reset: "re_indent\<lparr>lastIndex := 0\<rparr> = re_indent"
  by (simp add: re_indent_eq)

lemma Unindent_eq:
  "Unindent s = (let ls = split_str [NL] s; mn = measured_min False 1000 ls
                 in join [NL] (map (drop mn) ls))"
  using unindent_min_eq [of 0 1000 "split_str [NL] s"]
  by (simp add: Unindent_def Let_def re_indent_reset substr_from_nat)


lemma measured_min_le: "measured_min skip mn ls \<le> mn"
  by (induction skip mn ls rule: measured_min.induct) (auto simp: min_def split: if_splits)

lemma measured_min_const:
  "\<forall>l \<in> set ls. \<not> blank l \<longrightarrow> mn \<le> indent l \<Longrightarrow> measured_min skip mn ls = mn"
  by (induction skip mn ls rule: measured_min.induct) (auto simp: min_def)

lemma measured_min_first:
  assumes "filter (\<lambda>l. \<not> blank l) ls = l0 # rest" and "\<forall>l \<in> set rest. indent l0 \<le> indent l"
    and "indent l0 \<le> mn" and "0 < mn"
  shows "measured_min False mn ls = indent l0"
  using assms
proof (induction ls)
  case (Cons l ls)
  show ?case
  proof (cases "blank l")
    case True
    with Cons show ?thesis by simp
  next
    case False
    with Cons.prems have l: "l = l0" "rest = filter (\<lambda>l. \<not> blank l) ls" by auto
    with Cons.prems have "measured_min (0 < indent l0) (indent l0) ls = indent l0"
      by (intro measured_min_const) auto
    with False l Cons.prems show ?thesis by (simp add: min_def)
  qed
qed simp

lemma lines_Unindent:
  "split_str [NL] (Unindent s) = map (drop (measured_min False 1000 (split_str [NL] s))) (split_str [NL] s)"
proof -
  have "split_str [NL] (join [NL] (map (drop k) (split_str [NL] s))) = map (drop k) (split_str [NL] s)" for k
    by (rule split_join_single) (auto simp: split_str_nonempty dest: in_set_dropD split_single_pieces)
  then show ?thesis by (simp add: Unindent_eq Let_def)
qed

lemma dropWhile_drop: "k \<le> length (takeWhile P xs) \<Longrightarrow> dropWhile P (drop k xs) = dropWhile P xs"
proof (induction k arbitrary: xs)
  case (Suc k)
  then show ?case by (cases xs) (auto split: if_splits)
qed simp

lemma strip_drop:
  assumes "\<not> blank l \<longrightarrow> k \<le> indent l"
  shows "dropWhile is_space (drop k l) = dropWhile is_space l"
proof (cases "blank l")
  case True
  then have "dropWhile is_space l = []" and "dropWhile is_space (drop k l) = []"
    by (auto simp: blank_def dest: in_set_dropD)
  then show ?thesis by (simp only:)
next
  case False
  with assms show ?thesis by (simp add: dropWhile_drop indent_def)
qed

lemma Unindent_identity:
  assumes "filter (\<lambda>l. \<not> blank l) (split_str [NL] s) = l0 # rest" and "indent l0 = 0"
  shows "Unindent s = s"
  using measured_min_first [OF assms(1), of 1000] assms(2) join_split [of "[NL]" s]
  by (simp add: Unindent_eq Let_def)

section \<open>Properties\<close>

text \<open>
  C5: tab expansion.  The loop of \<open>ProcessLine\<close>, which looks for the first tab again and
  again and replaces it in the middle of the string, is the column-by-column expansion to
  stops of four columns; no tab is left and no line is added or lost: the lines of
  \<open>ProcessSmartTabs(code)\<close> are the expanded lines of the code, followed by one empty piece
  (each line gets a newline).
\<close>

theorem smart_tabs_expand_columns:
  "ProcessLine line 4 = expand_tabs 4 0 line \<and>
   TAB \<notin> set (ProcessSmartTabs code) \<and>
   split_str [NL] (ProcessSmartTabs code) = map (expand_tabs 4 0) (split_str [NL] code) @ [[]]"
proof -
  have "(\<lambda>l. ProcessLine l 4) = expand_tabs 4 0"
    by (rule ext) (rule ProcessLine_expand)
  then show ?thesis
    using ProcessLine_expand ProcessSmartTabs_TAB split_ProcessSmartTabs [of code] by simp
qed

text \<open>
  \<open>Unindent\<close> keeps the text when the first non-blank line is the least indented one (and
  is indented by at most the 1000 columns the loop starts from): every line keeps
  everything but leading white space.
\<close>

theorem unindent_keeps_text:
  assumes "filter (\<lambda>l. \<not> blank l) (split_str [NL] s) = l0 # rest"
    and "\<forall>l \<in> set rest. indent l0 \<le> indent l" and "indent l0 \<le> 1000"
  shows "map (dropWhile is_space) (split_str [NL] (Unindent s)) =
         map (dropWhile is_space) (split_str [NL] s)"
proof -
  have mn: "measured_min False 1000 (split_str [NL] s) = indent l0"
    by (rule measured_min_first [OF assms]) simp
  have "\<not> blank l \<longrightarrow> indent l0 \<le> indent l" if "l \<in> set (split_str [NL] s)" for l
  proof
    assume "\<not> blank l"
    with that have "l \<in> set (filter (\<lambda>l. \<not> blank l) (split_str [NL] s))" by simp
    with assms(1,2) show "indent l0 \<le> indent l" by auto
  qed
  then show ?thesis by (simp add: lines_Unindent mn strip_drop)
qed

theorem unindent_keeps_text_witness:
  "map (dropWhile is_space) (split_str [NL] (Unindent (lit ''  if x'' @ [NL] @ lit ''    y''))) =
   [lit ''if x'', lit ''y'']"
proof -
  let ?s = "lit ''  if x'' @ [NL] @ lit ''    y''"
  have "filter (\<lambda>l. \<not> blank l) (split_str [NL] ?s) = lit ''  if x'' # [lit ''    y'']"
    by (simp add: js_eval blank_def)
  then have "map (dropWhile is_space) (split_str [NL] (Unindent ?s)) =
      map (dropWhile is_space) (split_str [NL] ?s)"
    by (rule unindent_keeps_text) (simp_all add: js_eval indent_def)
  also have "\<dots> = [lit ''if x'', lit ''y'']" by (simp add: js_eval)
  finally show ?thesis .
qed

text \<open>
  \<open>Unindent\<close> does not measure every line.  The expression that measures the indentation
  is global, so after an indented line its \<open>lastIndex\<close> makes it miss the next non-blank
  line; a line that is indented less than the measured ones then loses characters that are
  not white space.  Here the second line, the letter \<open>b\<close>, disappears.
\<close>

theorem unindent_drops_code:
  "Unindent (lit ''    a'' @ [NL] @ lit ''b'') = lit ''a'' @ [NL]"
  by (simp add: Unindent_eq js_eval indent_def blank_def)

text \<open>
  \<open>Chop\<close> removes exactly the newlines at both ends, and \<open>Trim\<close> leaves nothing exactly of
  the strings of white space (the test by which \<open>Unindent\<close> skips blank lines).
\<close>

theorem chop_and_trim:
  "Chop s = dropWhile (\<lambda>c. c = NL) (rev (dropWhile (\<lambda>c. c = NL) (rev s))) \<and>
   (Trim s = [] \<longleftrightarrow> list_all is_space s)"
  by (simp add: Chop_eq strip_nl_def Trim_empty_iff list_all_iff)

end
