(* ===== verification/Matches.thy ===== *)
theory Matches
  imports TextPrep
begin

text \<open>
  The matches of the syntax highlighter (\<open>shCore.js\<close>): \<open>dp.sh.Match\<close>,
  \<open>Highlighter.SortCallback\<close>, \<open>GetMatches\<close>, \<open>ProcessRegexList\<close>, \<open>IsInside\<close>, and the
  part of \<open>Highlight\<close> that sorts the matches, sets the nested ones to null and walks over
  the rest, cutting the code into bits.  The lemmas: sorting is a stable permutation into
  the order of \<open>SortCallback\<close>; the nulling pass leaves matches that do not overlap except
  where they start at the same position, and drops a match only if it starts strictly
  inside one that stays; the bits are the code, cut, exactly when no two remaining matches
  start at the same position.
\<close>

section \<open>Matches and their order\<close>

record Match =
  mvalue :: jsstr
  mindex :: nat
  mlength :: nat
  mcss :: jsstr

definition new_Match :: "jsstr \<Rightarrow> nat \<Rightarrow> jsstr \<Rightarrow> Match" where
  "new_Match value index css =
     \<lparr>mvalue = value, mindex = index, mlength = length value, mcss = css\<rparr>"

definition SortCallback :: "Match \<Rightarrow> Match \<Rightarrow> int" where
  "SortCallback m1 m2 =
     (if mindex m1 < mindex m2 then -1
      else if mindex m1 > mindex m2 then 1
      else if mlength m1 < mlength m2 then -1
      else if mlength m1 > mlength m2 then 1
      else 0)"

text \<open>\<open>Array.prototype.sort\<close> with a comparison function: the stable sort.\<close>

fun insert_by :: "('a \<Rightarrow> 'a \<Rightarrow> int) \<Rightarrow> 'a \<Rightarrow> 'a list \<Rightarrow> 'a list" where
  "insert_by cmp x [] = [x]"
| "insert_by cmp x (y # ys) = (if cmp x y \<le> 0 then x # y # ys else y # insert_by cmp x ys)"

definition array_sort :: "('a \<Rightarrow> 'a \<Rightarrow> int) \<Rightarrow> 'a list \<Rightarrow> 'a list" where
  "array_sort cmp xs = foldr (insert_by cmp) xs []"

section \<open>Collecting\<close>

type_synonym rule = "regexp \<times> jsstr"

definition GetMatches :: "regexp \<Rightarrow> jsstr \<Rightarrow> jsstr \<Rightarrow> Match list \<Rightarrow> (Match list \<times> regexp) option" where
  "GetMatches re css code ms =
     (case exec_loop re code of
        None \<Rightarrow> None
      | Some (found, re') \<Rightarrow>
          Some (ms @ map (\<lambda>mt. new_Match (case group_of mt 0 of Some v \<Rightarrow> v | None \<Rightarrow> [])
                                  (start_pos mt) css) found, re'))"

fun ProcessRegexList :: "rule list \<Rightarrow> jsstr \<Rightarrow> Match list \<Rightarrow> (Match list \<times> rule list) option" where
  "ProcessRegexList [] code ms = Some (ms, [])"
| "ProcessRegexList ((re, css) # rules) code ms =
     (case GetMatches re css code ms of
        None \<Rightarrow> None
      | Some (ms', re') \<Rightarrow>
          (case ProcessRegexList rules code ms' of
             None \<Rightarrow> None
           | Some (ms'', rules') \<Rightarrow> Some (ms'', (re', css) # rules')))"

section \<open>Nested matches\<close>

definition IsInside :: "Match option list \<Rightarrow> Match option \<Rightarrow> bool" where
  "IsInside ms x =
     (case x of
        None \<Rightarrow> False
      | Some x \<Rightarrow>
          if mlength x = 0 then False
          else list_ex (\<lambda>c. case c of
                 None \<Rightarrow> False
               | Some c \<Rightarrow> mindex x > mindex c \<and> mindex x < mindex c + mlength c) ms)"

definition null_at :: "nat \<Rightarrow> Match option list \<Rightarrow> Match option list" where
  "null_at i ms = (if IsInside ms (ms ! i) then ms[i := None] else ms)"

definition null_nested :: "Match option list \<Rightarrow> Match option list" where
  "null_nested ms = fold null_at [0..<length ms] ms"

definition live :: "Match option list \<Rightarrow> Match list" where
  "live ms = filter (\<lambda>x. mlength x \<noteq> 0) (map the (filter (\<lambda>x. x \<noteq> None) ms))"

section \<open>Cutting the code into bits\<close>

definition Copy :: "jsstr \<Rightarrow> int \<Rightarrow> int \<Rightarrow> jsstr" where
  "Copy str pos1 pos2 = substr str pos1 (pos2 - pos1)"

type_synonym bit = "jsstr \<times> jsstr option"

fun cut_bits :: "jsstr \<Rightarrow> nat \<Rightarrow> Match option list \<Rightarrow> bit list" where
  "cut_bits code pos [] = [(substr_from code (int pos), None)]"
| "cut_bits code pos (x # ms) =
     (case x of
        None \<Rightarrow> cut_bits code pos ms
      | Some x \<Rightarrow>
          if mlength x = 0 then cut_bits code pos ms
          else (Copy code (int pos) (int (mindex x)), None) # (mvalue x, Some (mcss x))
               # cut_bits code (mindex x + mlength x) ms)"

definition bit_text :: "bit list \<Rightarrow> jsstr" where
  "bit_text bs = concat (map fst bs)"

definition highlight_bits :: "jsstr \<Rightarrow> Match list \<Rightarrow> bit list" where
  "highlight_bits code ms =
     (if length ms = 0 then [(code, None)]
      else cut_bits code 0 (null_nested (map Some (array_sort SortCallback ms))))"

section \<open>Sorting\<close>

definition before :: "Match \<Rightarrow> Match \<Rightarrow> bool" where
  "before a b \<longleftrightarrow> mindex a < mindex b \<or> mindex a = mindex b \<and> mlength a \<le> mlength b"

lemma SortCallback_before: "SortCallback a b \<le> 0 \<longleftrightarrow> before a b"
  by (simp add: SortCallback_def before_def)

lemma before_trans: "before a b \<Longrightarrow> before b c \<Longrightarrow> before a c"
  by (auto simp: before_def)

lemma before_total: "before a b \<or> before b a"
  by (auto simp: before_def)

text \<open>The contract of a comparison function and what sorting by it gives.\<close>

locale comparison =
  fixes cmp :: "'a \<Rightarrow> 'a \<Rightarrow> int" and le :: "'a \<Rightarrow> 'a \<Rightarrow> bool"
  assumes cmp_le: "cmp a b \<le> 0 \<longleftrightarrow> le a b"
    and le_trans: "le a b \<Longrightarrow> le b c \<Longrightarrow> le a c"
    and le_total: "le a b \<or> le b a"
begin

lemma mset_insert_by: "mset (insert_by cmp x xs) = add_mset x (mset xs)"
  by (induction xs) auto

lemma mset_array_sort: "mset (array_sort cmp xs) = mset xs"
  by (induction xs) (auto simp: array_sort_def mset_insert_by)

lemma set_insert_by: "set (insert_by cmp x xs) = insert x (set xs)"
  using mset_insert_by [of x xs] by (metis set_mset_add_mset_insert set_mset_mset)

lemma sorted_insert_by: "sorted_wrt le xs \<Longrightarrow> sorted_wrt le (insert_by cmp x xs)"
proof (induction xs)
  case (Cons y ys)
  show ?case
  proof (cases "le x y")
    case True
    with Cons.prems le_trans [OF True] show ?thesis by (auto simp: cmp_le)
  next
    case False
    with le_total have "le y x" by blast
    with False Cons show ?thesis by (auto simp: cmp_le set_insert_by)
  qed
qed simp

lemma sorted_array_sort: "sorted_wrt le (array_sort cmp xs)"
  by (induction xs) (auto simp: array_sort_def sorted_insert_by)

text \<open>Elements that the comparison cannot tell apart keep their order.\<close>

lemma filter_insert_by:
  "sorted_wrt le xs \<Longrightarrow>
   filter (\<lambda>y. le y z \<and> le z y) (insert_by cmp x xs) =
   (if le x z \<and> le z x then [x] else []) @ filter (\<lambda>y. le y z \<and> le z y) xs"
proof (induction xs)
  case (Cons y ys)
  show ?case
  proof (cases "le x y")
    case False
    then have "\<not> (le y z \<and> le z y) \<or> \<not> (le x z \<and> le z x)" using le_trans by blast
    with False Cons show ?thesis by (auto simp: cmp_le)
  qed (auto simp: cmp_le)
qed simp

lemma array_sort_stable:
  "filter (\<lambda>y. le y z \<and> le z y) (array_sort cmp xs) = filter (\<lambda>y. le y z \<and> le z y) xs"
proof (induction xs)
  case (Cons x xs)
  have "sorted_wrt le (foldr (insert_by cmp) xs [])"
    using sorted_array_sort [of xs] by (simp add: array_sort_def)
  from filter_insert_by [OF this] Cons show ?case by (simp add: array_sort_def)
qed (simp add: array_sort_def)

end

interpretation match_order: comparison SortCallback before
  by unfold_locales (auto simp: SortCallback_before before_def)

lemmas sort_perm = match_order.mset_array_sort
lemmas sort_sorted = match_order.sorted_array_sort

lemma set_sort: "set (array_sort SortCallback ms) = set ms"
  by (metis sort_perm set_mset_mset)

lemma length_sort: "length (array_sort SortCallback ms) = length ms"
  by (metis sort_perm size_mset)

section \<open>The nulling pass\<close>

lemma length_null_at [simp]: "length (null_at i ms) = length ms"
  by (simp add: null_at_def)

lemma length_fold_null [simp]: "length (fold null_at is ms) = length ms"
  by (induction "is" arbitrary: ms) auto

lemma null_at_other: "j \<noteq> i \<Longrightarrow> null_at i ms ! j = ms ! j"
  by (simp add: null_at_def)

lemma fold_null_other: "j \<notin> set is \<Longrightarrow> fold null_at is ms ! j = ms ! j"
  by (induction "is" arbitrary: ms) (auto simp: null_at_other)

text \<open>The state of the array when position \<open>i\<close> is examined.\<close>

definition state_at :: "Match option list \<Rightarrow> nat \<Rightarrow> Match option list" where
  "state_at ms i = fold null_at [0..<i] ms"

lemma length_state_at [simp]: "length (state_at ms i) = length ms"
  by (simp add: state_at_def)

lemma state_at_later: "i \<le> j \<Longrightarrow> state_at ms i ! j = ms ! j"
  by (simp add: state_at_def fold_null_other)

lemma state_at_Suc: "state_at ms (Suc i) = null_at i (state_at ms i)"
  by (simp add: state_at_def)

lemma state_at_final:
  assumes "j < i" and "i \<le> n"
  shows "state_at ms i ! j = state_at ms n ! j"
  using assms(2)
proof (induction n rule: dec_induct)
  case (step n)
  with assms(1) show ?case by (simp add: state_at_Suc null_at_other)
qed simp

lemma null_nested_state: "null_nested ms = state_at ms (length ms)"
  by (simp add: null_nested_def state_at_def)

lemma length_null_nested [simp]: "length (null_nested ms) = length ms"
  by (simp add: null_nested_state)

lemma null_nested_nth:
  assumes "i < length ms"
  shows "null_nested ms ! i = (if IsInside (state_at ms i) (ms ! i) then None else ms ! i)"
proof -
  have "null_nested ms ! i = state_at ms (Suc i) ! i"
    using state_at_final [of i "Suc i" "length ms" ms] assms by (simp add: null_nested_state)
  also have "\<dots> = (if IsInside (state_at ms i) (ms ! i) then None else ms ! i)"
    using assms by (simp add: state_at_Suc null_at_def state_at_later)
  finally show ?thesis .
qed

lemma state_before: "j < i \<Longrightarrow> i \<le> length ms \<Longrightarrow> state_at ms i ! j = null_nested ms ! j"
  by (simp add: null_nested_state state_at_final)

text \<open>\<open>x\<close> starts strictly inside \<open>c\<close>.\<close>

definition starts_inside :: "Match \<Rightarrow> Match \<Rightarrow> bool" where
  "starts_inside x c \<longleftrightarrow> mindex c < mindex x \<and> mindex x < mindex c + mlength c"

lemma IsInside_Some:
  "IsInside ms (Some x) \<longleftrightarrow> mlength x \<noteq> 0 \<and> (\<exists>c. Some c \<in> set ms \<and> starts_inside x c)"
  by (auto simp: IsInside_def list_ex_iff starts_inside_def split: option.splits)
     (metis option.simps(5))+

lemma sorted_index_mono:
  "sorted_wrt before xs \<Longrightarrow> i < j \<Longrightarrow> j < length xs \<Longrightarrow> mindex (xs ! i) \<le> mindex (xs ! j)"
  using sorted_wrt_nth_less [of before xs i j] by (auto simp: before_def)

lemma null_nested_Some:
  assumes "i < length xs" and "null_nested (map Some xs) ! i = Some a"
  shows "a = xs ! i"
  using assms null_nested_nth [of i "map Some xs"] by (simp split: if_splits)

lemma survivors_disjoint:
  assumes s: "sorted_wrt before xs" and ij: "i < j" "j < length xs"
    and a: "null_nested (map Some xs) ! i = Some a"
    and b: "null_nested (map Some xs) ! j = Some b" and len: "mlength b \<noteq> 0"
  shows "mindex a = mindex b \<or> mindex a + mlength a \<le> mindex b"
proof -
  have eq: "a = xs ! i" "b = xs ! j" using null_nested_Some a b ij by auto
  then have le: "mindex a \<le> mindex b" using sorted_index_mono [OF s ij] by simp
  have "\<not> IsInside (state_at (map Some xs) j) (Some b)"
    using b ij null_nested_nth [of j "map Some xs"] eq by (auto split: if_splits)
  moreover have "Some a \<in> set (state_at (map Some xs) j)"
    using a ij state_before [of i j "map Some xs"] nth_mem [of i "state_at (map Some xs) j"] by simp
  ultimately have "\<not> starts_inside b a" using len by (auto simp: IsInside_Some)
  with le show ?thesis by (auto simp: starts_inside_def)
qed

lemma dropped_inside_survivor:
  assumes s: "sorted_wrt before xs" and j: "j < length xs"
    and none: "null_nested (map Some xs) ! j = None"
  shows "\<exists>i a. i < j \<and> null_nested (map Some xs) ! i = Some a \<and> starts_inside (xs ! j) a"
proof -
  have "IsInside (state_at (map Some xs) j) (Some (xs ! j))"
    using none j null_nested_nth [of j "map Some xs"] by (auto split: if_splits)
  then obtain c where c: "Some c \<in> set (state_at (map Some xs) j)" "starts_inside (xs ! j) c"
    by (auto simp: IsInside_Some)
  then obtain i where i: "i < length xs" "state_at (map Some xs) j ! i = Some c"
    by (auto simp: in_set_conv_nth)
  have "i < j"
  proof (rule ccontr)
    assume "\<not> i < j"
    then have ji: "j \<le> i" by simp
    with i have "c = xs ! i" using state_at_later [OF ji, of "map Some xs"] by simp
    moreover have "mindex (xs ! j) \<le> mindex (xs ! i)"
      using ji i sorted_index_mono [OF s, of j i] by (cases "i = j") auto
    ultimately show False using c(2) by (simp add: starts_inside_def)
  qed
  then show ?thesis using i j c(2) state_before [of i j "map Some xs"] by auto
qed

section \<open>The bits\<close>

fun cut_live :: "jsstr \<Rightarrow> nat \<Rightarrow> Match list \<Rightarrow> bit list" where
  "cut_live code pos [] = [(drop pos code, None)]"
| "cut_live code pos (x # xs) =
     (Copy code (int pos) (int (mindex x)), None) # (mvalue x, Some (mcss x))
      # cut_live code (mindex x + mlength x) xs"

lemma live_simps [simp]:
  "live [] = []"
  "live (None # ms) = live ms"
  "live (Some x # ms) = (if mlength x = 0 then live ms else x # live ms)"
  by (simp_all add: live_def)

lemma cut_bits_live: "cut_bits code pos ms = cut_live code pos (live ms)"
  by (induction code pos ms rule: cut_bits.induct) (auto simp: substr_from_nat split: option.splits)

definition ok_in :: "jsstr \<Rightarrow> Match \<Rightarrow> bool" where
  "ok_in code x \<longleftrightarrow> mindex x + mlength x \<le> length code \<and>
     mvalue x = take (mlength x) (drop (mindex x) code)"

fun chain :: "nat \<Rightarrow> Match list \<Rightarrow> bool" where
  "chain pos [] \<longleftrightarrow> True"
| "chain pos (x # xs) \<longleftrightarrow> pos \<le> mindex x \<and> chain (mindex x + mlength x) xs"

lemma Copy_back: "b \<le> a \<Longrightarrow> Copy s (int a) (int b) = []"
  by (simp add: Copy_def substr_negative)

lemma Copy_nat: "a \<le> length s \<Longrightarrow> Copy s (int a) (int b) = take (b - a) (drop a s)"
  by (simp add: Copy_def substr_nat)

lemma bit_text_Cons [simp]: "bit_text (b # bs) = fst b @ bit_text bs"
  by (simp add: bit_text_def)

lemma chain_text:
  "pos \<le> length code \<Longrightarrow> \<forall>x \<in> set xs. ok_in code x \<Longrightarrow> chain pos xs \<Longrightarrow>
   bit_text (cut_live code pos xs) = drop pos code"
proof (induction xs arbitrary: pos)
  case Nil
  then show ?case by (simp add: bit_text_def)
next
  case (Cons x xs)
  let ?e = "mindex x + mlength x"
  have e: "?e \<le> length code" "pos \<le> mindex x" using Cons.prems by (auto simp: ok_in_def)
  have "take (mindex x - pos) (drop pos code) @ take (mlength x) (drop (mindex x) code) @ drop ?e code
      = drop pos code"
    using e(2) by (metis (no_types, lifting) add.commute append_take_drop_id drop_drop le_add_diff_inverse2)
  with Cons e show ?case by (simp add: Copy_nat ok_in_def)
qed

lemma text_length:
  "pos \<le> length code \<Longrightarrow> \<forall>x \<in> set xs. ok_in code x \<Longrightarrow>
   length code - pos \<le> length (bit_text (cut_live code pos xs)) \<and>
   (length (bit_text (cut_live code pos xs)) = length code - pos \<longrightarrow> chain pos xs)"
proof (induction xs arbitrary: pos)
  case Nil
  then show ?case by (simp add: bit_text_def)
next
  case (Cons x xs)
  let ?e = "mindex x + mlength x"
  have e: "?e \<le> length code" "length (mvalue x) = mlength x"
    using Cons.prems by (auto simp: ok_in_def)
  have IH: "length code - ?e \<le> length (bit_text (cut_live code ?e xs))"
    "length (bit_text (cut_live code ?e xs)) = length code - ?e \<longrightarrow> chain ?e xs"
    using Cons.IH [OF e(1)] Cons.prems by auto
  show ?case
  proof (cases "pos \<le> mindex x")
    case True
    with e IH Cons.prems(1) show ?thesis by (auto simp: Copy_nat)
  next
    case False
    with e IH Cons.prems(1) show ?thesis by (auto simp: Copy_back)
  qed
qed

lemma bit_text_iff_chain:
  assumes "\<forall>x \<in> set xs. ok_in code x"
  shows "bit_text (cut_live code 0 xs) = code \<longleftrightarrow> chain 0 xs"
  using chain_text [OF _ assms, of 0] text_length [OF _ assms, of 0] by auto

text \<open>Neighbours among the survivors: disjoint, or with the same start.\<close>

definition apart :: "Match \<Rightarrow> Match \<Rightarrow> bool" where
  "apart a b \<longleftrightarrow> mindex a = mindex b \<or> mindex a + mlength a \<le> mindex b"

lemma live_in: "x \<in> set (live ms) \<longleftrightarrow> Some x \<in> set ms \<and> mlength x \<noteq> 0"
  by (induction ms) (auto simp: live_def split: option.splits if_splits)

lemma sorted_wrt_live:
  "(\<And>i j a b. i < j \<Longrightarrow> j < length ms \<Longrightarrow> ms ! i = Some a \<Longrightarrow> ms ! j = Some b \<Longrightarrow> mlength b \<noteq> 0 \<Longrightarrow> P a b)
   \<Longrightarrow> sorted_wrt P (live ms)"
proof (induction ms)
  case (Cons x ms)
  have IH: "sorted_wrt P (live ms)"
    by (rule Cons.IH) (use Cons.prems [of "Suc _" "Suc _"] in auto)
  show ?case
  proof (cases x)
    case (Some a)
    have "P a b" if "b \<in> set (live ms)" for b
    proof -
      from that have "Some b \<in> set ms" "mlength b \<noteq> 0" by (auto simp: live_in)
      then obtain j where "j < length ms" "ms ! j = Some b" "mlength b \<noteq> 0"
        by (metis in_set_conv_nth)
      with Some show ?thesis by (intro Cons.prems [of 0 "Suc j"]) auto
    qed
    with IH Some show ?thesis by auto
  qed (simp add: IH)
qed simp

lemma live_apart: "sorted_wrt before xs \<Longrightarrow> sorted_wrt apart (live (null_nested (map Some xs)))"
  by (rule sorted_wrt_live) (use survivors_disjoint in \<open>auto simp: apart_def\<close>)

lemma chain_mono: "chain p xs \<Longrightarrow> q \<le> p \<Longrightarrow> chain q xs"
  by (cases xs) auto

lemma chain_distinct:
  assumes "\<forall>x \<in> set xs. mlength x \<noteq> 0" and "sorted_wrt apart xs" and "\<forall>x \<in> set xs. p \<le> mindex x"
  shows "chain p xs \<longleftrightarrow> distinct (map mindex xs)"
  using assms
proof (induction xs arbitrary: p)
  case (Cons x xs)
  let ?e = "mindex x + mlength x"
  have tail: "chain q xs \<Longrightarrow> \<forall>y \<in> set xs. q \<le> mindex y" for q
  proof (induction xs arbitrary: q)
    case (Cons y ys)
    then show ?case by fastforce
  qed simp
  show ?case
  proof
    assume c: "chain p (x # xs)"
    then have far: "\<forall>y \<in> set xs. ?e \<le> mindex y" using tail by simp
    with Cons.prems(1) have "mindex x \<notin> mindex ` set xs" by auto
    moreover have "distinct (map mindex xs)" using Cons.IH [of ?e] Cons.prems c far by auto
    ultimately show "distinct (map mindex (x # xs))" by simp
  next
    assume d: "distinct (map mindex (x # xs))"
    then have "\<forall>y \<in> set xs. ?e \<le> mindex y" using Cons.prems(2) by (auto simp: apart_def)
    then show "chain p (x # xs)" using Cons d by auto
  qed
qed simp

lemma sort_Nil [simp]: "array_sort cmp [] = []"
  by (simp add: array_sort_def)

abbreviation survivors :: "Match list \<Rightarrow> Match list" where
  "survivors ms \<equiv> live (null_nested (map Some (array_sort SortCallback ms)))"

lemma survivors_subset: "set (survivors ms) \<subseteq> set ms"
proof
  fix x assume "x \<in> set (survivors ms)"
  then have "Some x \<in> set (null_nested (map Some (array_sort SortCallback ms)))" by (simp add: live_in)
  then obtain i where i: "i < length ms" "null_nested (map Some (array_sort SortCallback ms)) ! i = Some x"
    by (metis in_set_conv_nth length_null_nested length_map length_sort)
  then have "x = array_sort SortCallback ms ! i" by (intro null_nested_Some) (auto simp: length_sort)
  with i(1) show "x \<in> set ms" using set_sort [of ms] by (metis length_sort nth_mem)
qed

lemma highlight_text_iff:
  assumes ok: "\<forall>x \<in> set ms. ok_in code x"
  shows "bit_text (highlight_bits code ms) = code \<longleftrightarrow> distinct (map mindex (survivors ms))"
proof (cases "ms = []")
  case True
  then show ?thesis by (simp add: highlight_bits_def bit_text_def null_nested_def)
next
  case False
  have "chain 0 (survivors ms) \<longleftrightarrow> distinct (map mindex (survivors ms))"
    by (rule chain_distinct) (auto simp: live_in live_apart sort_sorted)
  moreover have "bit_text (cut_live code 0 (survivors ms)) = code \<longleftrightarrow> chain 0 (survivors ms)"
    by (rule bit_text_iff_chain) (use ok survivors_subset in blast)
  ultimately show ?thesis using False by (simp add: highlight_bits_def cut_bits_live)
qed

section \<open>Collecting ends and gives matches of the code\<close>

definition good_rule :: "rule \<Rightarrow> bool" where
  "good_rule r \<longleftrightarrow> global (rflags (fst r)) \<and> lastIndex (fst r) = 0 \<and> 0 < minlen (prog (fst r))"

definition good_match :: "jsstr \<Rightarrow> Match \<Rightarrow> bool" where
  "good_match code x \<longleftrightarrow> ok_in code x \<and> 0 < mlength x"

lemma ordered_matches_good:
  "ordered_matches code i found \<Longrightarrow>
   \<forall>mt \<in> set found. good_match code (new_Match (case group_of mt 0 of Some v \<Rightarrow> v | None \<Rightarrow> []) (start_pos mt) css)"
  by (induction found arbitrary: i)
     (auto simp: ok_match_def good_match_def ok_in_def new_Match_def slice_def)

lemma GetMatches_good:
  assumes "good_rule (re, css)"
  shows "\<exists>new. GetMatches re css code ms = Some (ms @ new, re) \<and>
    (\<forall>x \<in> set new. good_match code x \<and> mcss x = css)"
proof -
  from assms obtain found where "exec_loop re code = Some (found, re\<lparr>lastIndex := 0\<rparr>)"
    and "ordered_matches code (lastIndex re) found"
    using exec_loop_result [of re code] by (auto simp: good_rule_def)
  moreover have "re\<lparr>lastIndex := 0\<rparr> = re" using assms by (simp add: good_rule_def)
  ultimately show ?thesis
    using ordered_matches_good [of code _ found css] by (auto simp: GetMatches_def new_Match_def)
qed

lemma ordered_matches_sorted:
  "ordered_matches code i found \<Longrightarrow>
   sorted_wrt (\<lambda>a b. mindex a + mlength a \<le> mindex b)
     (map (\<lambda>mt. new_Match (case group_of mt 0 of Some v \<Rightarrow> v | None \<Rightarrow> []) (start_pos mt) css) found)"
proof (induction found arbitrary: i)
  case (Cons mt found)
  have later: "ordered_matches code k ms \<Longrightarrow> mt \<in> set ms \<Longrightarrow> k \<le> start_pos mt" for k ms mt
    by (induction ms arbitrary: k) (force simp: ok_match_def)+
  with Cons show ?case by (auto simp: new_Match_def ok_match_def slice_def)
qed simp

lemma GetMatches_ordered:
  assumes "good_rule (re, css)"
  shows "\<exists>new. GetMatches re css code ms = Some (ms @ new, re) \<and>
    (\<forall>x \<in> set new. good_match code x \<and> mcss x = css) \<and>
    sorted_wrt (\<lambda>a b. mindex a + mlength a \<le> mindex b) new"
proof -
  from assms obtain found where e: "exec_loop re code = Some (found, re\<lparr>lastIndex := 0\<rparr>)"
    and "ordered_matches code (lastIndex re) found"
    using exec_loop_result [of re code] by (auto simp: good_rule_def)
  with ordered_matches_sorted [of code _ found css] GetMatches_good [OF assms, of code ms] show ?thesis
    by (auto simp: GetMatches_def)
qed

lemma ProcessRegexList_good:
  "\<forall>r \<in> set rules. good_rule r \<Longrightarrow>
   \<exists>new. ProcessRegexList rules code ms = Some (ms @ new, rules) \<and>
     (\<forall>x \<in> set new. good_match code x \<and> mcss x \<in> snd ` set rules)"
proof (induction rules arbitrary: ms)
  case (Cons r rules)
  obtain re css where r: "r = (re, css)" by (cases r)
  with Cons.prems obtain new1 where n1: "GetMatches re css code ms = Some (ms @ new1, re)"
    "\<forall>x \<in> set new1. good_match code x \<and> mcss x = css"
    using GetMatches_good [of re css code ms] by auto
  from Cons.IH [of "ms @ new1"] Cons.prems obtain new2 where
    "ProcessRegexList rules code (ms @ new1) = Some ((ms @ new1) @ new2, rules)"
    "\<forall>x \<in> set new2. good_match code x \<and> mcss x \<in> snd ` set rules" by auto
  with n1 r show ?case by (intro exI [of _ "new1 @ new2"]) auto
qed simp

declare new_Match_def [js_eval] SortCallback_def [js_eval] array_sort_def [js_eval]
  GetMatches_def [js_eval] IsInside_def [js_eval] null_at_def [js_eval] null_nested_def [js_eval]
  Copy_def [js_eval] bit_text_def [js_eval] highlight_bits_def [js_eval]

end
