(* ===== verification/RegexLocal.thy ===== *)
theory RegexLocal
  imports RegExpObj
begin

text \<open>
  Expressions that look only ahead: without \<open>^\<close>, \<open>\b\<close> and back references, what an
  expression matches at a position depends on the rest of the string only.  A global
  replacement by a constant then proceeds from left to right: \<open>replace_skip\<close> and
  \<open>replace_hit\<close> are the two steps.
\<close>

primrec ahead_only :: "regex \<Rightarrow> bool" where
  "ahead_only REmpty = True"
| "ahead_only (RChar c) = True"
| "ahead_only RAny = True"
| "ahead_only (RClass neg its) = True"
| "ahead_only (RSeq a b) = (ahead_only a \<and> ahead_only b)"
| "ahead_only (RAlt a b) = (ahead_only a \<and> ahead_only b)"
| "ahead_only (RGroup n a) = ahead_only a"
| "ahead_only (RRep mn mx greedy lo hi a) = ahead_only a"
| "ahead_only RBol = False"
| "ahead_only REol = True"
| "ahead_only RWordB = False"
| "ahead_only RNotWordB = False"
| "ahead_only (RNotAhead a) = ahead_only a"
| "ahead_only (RBackref n) = False"

definition ends_shifted :: "nat \<Rightarrow> (nat \<times> caps) list \<Rightarrow> (nat \<times> caps) list \<Rightarrow> bool" where
  "ends_shifted k xs ys \<longleftrightarrow> map fst xs = map (\<lambda>p. k + fst p) ys"

definition shifts :: "nat \<Rightarrow> matcher \<Rightarrow> matcher \<Rightarrow> bool" where
  "shifts k f g \<longleftrightarrow> (\<forall>i cs cs'. ends_shifted k (f (k + i) cs) (g i cs'))"

lemma ends_shifted_Nil [simp]: "ends_shifted k [] []"
  by (simp add: ends_shifted_def)

lemma ends_shifted_append:
  "ends_shifted k xs ys \<Longrightarrow> ends_shifted k xs' ys' \<Longrightarrow> ends_shifted k (xs @ xs') (ys @ ys')"
  by (simp add: ends_shifted_def)

lemma ends_shifted_one [simp]: "ends_shifted k [(a, cs)] [(b, cs')] \<longleftrightarrow> a = k + b"
  by (simp add: ends_shifted_def)

lemma ends_shifted_bind:
  assumes "ends_shifted k xs ys" and "\<And>j cs cs'. ends_shifted k (f (k + j) cs) (g j cs')"
  shows "ends_shifted k (concat (map (\<lambda>(j, cs). f j cs) xs)) (concat (map (\<lambda>(j, cs). g j cs) ys))"
  using assms(1)
proof (induction xs arbitrary: ys)
  case Nil
  then show ?case by (simp add: ends_shifted_def)
next
  case (Cons x xs)
  then obtain y ys' where y: "ys = y # ys'" "fst x = k + fst y" "ends_shifted k xs ys'"
    by (cases ys) (auto simp: ends_shifted_def)
  with Cons.IH [OF y(3)] assms(2) [of "fst y" "snd x" "snd y"]
  show ?case by (auto simp: case_prod_beta intro: ends_shifted_append)
qed

lemma ends_shifted_Cons:
  "ends_shifted k xs ys \<Longrightarrow> ends_shifted k ((k + a, cs) # xs) ((a, cs') # ys)"
  by (simp add: ends_shifted_def)

lemma ends_shifted_snoc:
  "ends_shifted k xs ys \<Longrightarrow> ends_shifted k (xs @ [(k + a, cs)]) (ys @ [(a, cs')])"
  by (simp add: ends_shifted_def)

lemma ends_shifted_if:
  "ends_shifted k a c \<Longrightarrow> ends_shifted k b d \<Longrightarrow> ends_shifted k (if P then a else b) (if P then c else d)"
  by simp

lemma repeat_shift:
  assumes "shifts k f g"
  shows "ends_shifted k (repeat n f rs mn mx greedy (k + i) cs) (repeat n g rs mn mx greedy i cs')"
proof (induction n arbitrary: mn mx i cs cs')
  case (Suc n)
  let ?mx = "map_option (\<lambda>x. x - 1) mx"
  have "ends_shifted k (f (k + i) (rs cs)) (g i (rs cs'))" using assms by (simp add: shifts_def)
  then have more: "ends_shifted k
      (concat (map (\<lambda>(j, c). if mn = 0 \<and> j = k + i then [] else repeat n f rs (mn - 1) ?mx greedy j c) (f (k + i) (rs cs))))
      (concat (map (\<lambda>(j, c). if mn = 0 \<and> j = i then [] else repeat n g rs (mn - 1) ?mx greedy j c) (g i (rs cs'))))"
    by (rule ends_shifted_bind) (auto intro: Suc.IH)
  show ?case
    unfolding repeat.simps(2) Let_def
    by (intro ends_shifted_if ends_shifted_Cons ends_shifted_snoc more) simp
qed (simp add: ends_shifted_def)

lemma m_shift:
  "ahead_only r \<Longrightarrow> shifts (length u) (m fl (u @ s) r) (m fl s r)"
proof (induction r)
  case (RSeq a b)
  then show ?case by (auto simp: shifts_def intro!: ends_shifted_bind)
next
  case (RAlt a b)
  then show ?case by (auto simp: shifts_def intro!: ends_shifted_append)
next
  case (RGroup n a)
  then show ?case by (auto simp: shifts_def ends_shifted_def case_prod_beta comp_def)
next
  case (RRep mn mx greedy lo hi a)
  then show ?case
    using repeat_shift [of "length u" "m fl (u @ s) a" "m fl s a"]
    by (simp add: shifts_def m_rep del: repeat.simps)
next
  case (RNotAhead a)
  have "m fl (u @ s) a (length u + i) cs = [] \<longleftrightarrow> m fl s a i cs' = []" for i cs cs'
    using RNotAhead by (auto simp: shifts_def ends_shifted_def) (metis map_is_Nil_conv)+
  then show ?case by (auto simp: shifts_def)
qed (auto simp: shifts_def nth_append)

section \<open>Global replacement by a constant\<close>

definition replace_from :: "regexp \<Rightarrow> jsstr \<Rightarrow> nat \<Rightarrow> jsstr \<Rightarrow> jsstr" where
  "replace_from re s i t = splice_matches s i (matches_from re s i) (\<lambda>_. t)"

definition shift_ends :: "nat \<Rightarrow> js_match list \<Rightarrow> js_match list \<Rightarrow> bool" where
  "shift_ends k ms ns \<longleftrightarrow>
     list_all2 (\<lambda>a b. start_pos a = k + start_pos b \<and> end_pos a = k + end_pos b) ms ns"

lemma match_at_shift:
  assumes "ahead_only (prog re)"
  shows "rel_option (\<lambda>a b. start_pos a = length u + start_pos b \<and> end_pos a = length u + end_pos b)
    (match_at re (u @ s) (length u + i)) (match_at re s i)"
proof -
  let ?cs = "replicate (groups re) None"
  have "ends_shifted (length u) (m (rflags re) (u @ s) (prog re) (length u + i) ?cs)
      (m (rflags re) s (prog re) i ?cs)"
    using m_shift [OF assms, of u "rflags re" s] by (simp add: shifts_def)
  then show ?thesis
    by (auto simp: match_at_def ends_shifted_def mk_match_def split: list.splits)
qed

lemma search_shift:
  assumes "ahead_only (prog re)"
  shows "rel_option (\<lambda>a b. start_pos a = length u + start_pos b \<and> end_pos a = length u + end_pos b)
    (search re (u @ s) (map ((+) (length u)) is)) (search re s is)"
proof (induction "is")
  case (Cons i "is")
  then show ?case
    using match_at_shift [OF assms, of u s i]
    by (cases "match_at re (u @ s) (length u + i)"; cases "match_at re s i") auto
qed simp

lemma matches_from_shift:
  assumes "ahead_only (prog re)"
  shows "shift_ends (length u) (matches_from re (u @ s) (length u + i)) (matches_from re s i)"
proof (induction "Suc (length s) - i" arbitrary: i rule: less_induct)
  case less
  show ?case
  proof (cases "length s < i")
    case True
    then show ?thesis by (simp add: matches_from.simps shift_ends_def)
  next
    case False
    have pos: "[length u + i..<Suc (length (u @ s))] = map ((+) (length u)) [i..<Suc (length s)]"
      by (rule nth_equalityI) (simp_all del: upt_Suc)
    from search_shift [OF assms, of u s "[i..<Suc (length s)]"]
    consider (none) "search re (u @ s) [length u + i..<Suc (length (u @ s))] = None"
        "search re s [i..<Suc (length s)] = None"
      | (some) a b where "search re (u @ s) [length u + i..<Suc (length (u @ s))] = Some a"
        "search re s [i..<Suc (length s)] = Some b"
        "start_pos a = length u + start_pos b" "end_pos a = length u + end_pos b"
      unfolding pos by (auto elim!: option.rel_cases)
    then show ?thesis
    proof cases
      case none
      with False show ?thesis
        by (simp add: matches_from.simps [of re "u @ s"] matches_from.simps [of re s] shift_ends_def del: upt_Suc)
    next
      case some
      let ?j = "if end_pos b = start_pos b then Suc (end_pos b) else end_pos b"
      have "Suc (length s) - ?j < Suc (length s) - i"
        using search_ok [OF some(2)] False by (auto simp: ok_match_def)
      from less [OF this] some False show ?thesis
        by (auto simp: matches_from.simps [of re "u @ s"] matches_from.simps [of re s] shift_ends_def
            simp del: upt_Suc split: if_splits)
    qed
  qed
qed

lemma splice_shift:
  "shift_ends (length u) ms ns \<Longrightarrow>
   splice_matches (u @ s) (length u + p) ms (\<lambda>_. t) = splice_matches s p ns (\<lambda>_. t)"
proof (induction ms arbitrary: ns p)
  case (Cons a ms)
  then show ?case by (cases ns) (auto simp: shift_ends_def slice_def)
qed (simp add: shift_ends_def)

lemma replace_from_drop:
  assumes "ahead_only (prog re)"
  shows "replace_from re (u @ s) (length u) t = replace_from re s 0 t"
  using splice_shift [OF matches_from_shift [OF assms, of u s 0], of s 0 t]
  by (simp add: replace_from_def)

lemma replace_re_from:
  "global (rflags re) \<Longrightarrow> replace_re s re (\<lambda>_. t) = replace_from re s 0 t"
  by (simp add: replace_re_def replace_from_def)

lemma splice_skip:
  assumes "0 < length s" and "\<forall>mt \<in> set (take 1 ms). 1 \<le> start_pos mt"
  shows "splice_matches s 0 ms f = s ! 0 # splice_matches s 1 ms f"
  using assms by (cases ms; cases s) (auto simp: slice_Cons)

lemma matches_from_start: "\<forall>mt \<in> set (take 1 (matches_from re s i)). i \<le> start_pos mt"
  using search_ok [of re s "[i..<Suc (length s)]"]
  by (subst matches_from.simps) (auto simp del: upt_Suc split: option.splits)

lemma replace_skip:
  assumes "ahead_only (prog re)" and "global (rflags re)" and "match_at re (c # s) 0 = None"
  shows "replace_re (c # s) re (\<lambda>_. t) = c # replace_re s re (\<lambda>_. t)"
proof -
  have "search re (c # s) [0..<Suc (length (c # s))] = search re (c # s) [1..<Suc (length (c # s))]"
    using assms(3) by (subst upt_rec) (simp del: upt_Suc)
  then have "matches_from re (c # s) 0 = matches_from re (c # s) 1"
    by (subst (1 2) matches_from.simps) (simp del: upt_Suc)
  then have "replace_from re (c # s) 0 t = c # replace_from re (c # s) 1 t"
    using splice_skip [of "c # s" "matches_from re (c # s) 1" "\<lambda>_. t"] matches_from_start [of re "c # s" 1]
    by (simp add: replace_from_def)
  also have "\<dots> = c # replace_from re s 0 t"
    using replace_from_drop [OF assms(1), of "[c]" s t] by simp
  finally show ?thesis using assms(2) by (simp add: replace_re_from)
qed

lemma replace_hit:
  assumes "ahead_only (prog re)" and "global (rflags re)"
    and "match_at re (u @ s) 0 = Some mt" and "end_pos mt = length u" and "u \<noteq> []"
  shows "replace_re (u @ s) re (\<lambda>_. t) = t @ replace_re s re (\<lambda>_. t)"
proof -
  have st: "start_pos mt = 0" using match_at_ok [OF assms(3)] by simp
  have "search re (u @ s) [0..<Suc (length (u @ s))] = Some mt"
    using assms(3) by (subst upt_rec) (simp del: upt_Suc)
  then have "matches_from re (u @ s) 0 = mt # matches_from re (u @ s) (length u)"
    using st assms(4,5) by (subst matches_from.simps) (simp del: upt_Suc)
  then have "replace_from re (u @ s) 0 t = t @ replace_from re (u @ s) (length u) t"
    using st assms(4) by (simp add: replace_from_def slice_def)
  then show ?thesis using assms(1,2) by (simp add: replace_re_from replace_from_drop)
qed

lemma replace_Nil:
  assumes "global (rflags re)" and "0 < minlen (prog re)"
  shows "replace_re [] re f = []"
proof -
  have "match_at re [] 0 = None"
    using match_at_ok [of re "[]" 0] assms(2) by (cases "match_at re [] 0") (auto simp: ok_match_def)
  then show ?thesis using assms(1) by (simp add: replace_re_def matches_from.simps)
qed

text \<open>A character that is neither in a match nor in a replacement is there as often as before.\<close>

lemma slice_drop_count:
  "p \<le> q \<Longrightarrow> q \<le> length s \<Longrightarrow> count_list (drop p s) c = count_list (slice s p q) c + count_list (drop q s) c"
proof -
  assume "p \<le> q" "q \<le> length s"
  then have "drop p s = slice s p q @ drop q s"
    by (metis append_take_drop_id drop_drop le_add_diff_inverse2 slice_def)
  then show ?thesis by simp
qed

lemma count_splice:
  assumes "p \<le> i" and "p \<le> length s"
    and "\<forall>mt \<in> set (matches_from re s i). c \<notin> set (slice s (start_pos mt) (end_pos mt)) \<and> c \<notin> set (f mt)"
  shows "count_list (splice_matches s p (matches_from re s i) f) c = count_list (drop p s) c"
  using assms
proof (induction re s i arbitrary: p rule: matches_from.induct)
  case (1 re s i)
  show ?case
  proof (cases "length s < i \<or> search re s [i..<Suc (length s)] = None")
    case True
    from matches_from_None [OF this] show ?thesis by simp
  next
    case False
    then obtain mt where mt: "\<not> length s < i" "search re s [i..<Suc (length s)] = Some mt" by auto
    let ?k = "if end_pos mt = start_pos mt then Suc (end_pos mt) else end_pos mt"
    have m: "matches_from re s i = mt # matches_from re s ?k" by (rule matches_from_Some [OF mt])
    have o: "i \<le> start_pos mt" "start_pos mt \<le> end_pos mt" "end_pos mt \<le> length s"
      using search_ok [OF mt(2)] by (auto simp: ok_match_def simp del: upt_Suc)
    have IH: "count_list (splice_matches s (end_pos mt) (matches_from re s ?k) f) c = count_list (drop (end_pos mt) s) c"
      by (rule "1.IH" [OF mt]) (use o "1.prems" m in auto)
    have "c \<notin> set (f mt)" "c \<notin> set (slice s (start_pos mt) (end_pos mt))" using "1.prems"(3) m by auto
    then have "count_list (f mt) c = 0" "count_list (slice s (start_pos mt) (end_pos mt)) c = 0" by simp_all
    then show ?thesis
      using IH o "1.prems"(1,2) slice_drop_count [of p "start_pos mt" s c] slice_drop_count [of "start_pos mt" "end_pos mt" s c]
      by (simp add: m)
  qed
qed

lemma count_replace:
  assumes "global (rflags re)"
    and "\<And>i mt. i \<le> length s \<Longrightarrow> match_at re s i = Some mt \<Longrightarrow> c \<notin> set (slice s i (end_pos mt)) \<and> c \<notin> set (f mt)"
  shows "count_list (replace_re s re f) c = count_list s c"
proof -
  have "\<forall>mt \<in> set (matches_from re s 0). c \<notin> set (slice s (start_pos mt) (end_pos mt)) \<and> c \<notin> set (f mt)"
    using assms(2) matches_from_at by blast
  from count_splice [OF _ _ this, of 0] show ?thesis using assms(1) by (simp add: replace_re_def)
qed

end
