(* ===== verification/Highlighter.thy ===== *)
theory Highlighter
  imports Matches RegexLocal
begin

text \<open>
  The highlighter object of \<open>shCore.js\<close>: its options (\<open>dp.sh.Highlighter\<close>), \<open>AddBit\<close>,
  \<open>SwitchToList\<close>, \<open>Highlight\<close>, \<open>GetKeywords\<close>, and the toolbar (\<open>Toolbar.Commands\<close>,
  \<open>Toolbar.Create\<close>, \<open>Toolbar.Command\<close>, \<open>Utils.CopyStyles\<close>).

  The page is modelled by what the code writes to it.  The children of the working DIV are
  a list of \<open>Span\<close> and \<open>Br\<close> nodes; a \<open>Span\<close> carries its class and the HTML assigned to its
  \<open>innerHTML\<close>.  Reading \<open>innerHTML\<close> back is the browser's: the parameter \<open>norm\<close> is what the
  browser returns for a fragment that was written, and the locale \<open>html_fragment\<close> states
  the two facts of HTML serialisation that the line structure relies on (for code without carriage returns and
  character references that stand for line breaks); \<open>html_norm\<close> is a concrete one.  The toolbar's effects outside the page (windows, clipboard, alerts) are a
  list of \<open>effect\<close>s.
\<close>

section \<open>AddBit\<close>

datatype node = Span "jsstr option" jsstr | Br

definition re_space :: regexp where "re_space = js_regex (lit '' '') (lit ''g'')"
definition re_lt :: regexp where "re_lt = js_regex (lit ''<'') (lit ''g'')"
definition re_nl :: regexp where "re_nl = js_regex (pat ''`n'') (lit ''gm'')"
definition re_brword :: regexp where "re_brword = js_regex (lit ''br'') (lit ''gi'')"

definition br_sep :: jsstr where "br_sep = lit ''&nbsp;<br>''"

definition bit_html :: "jsstr \<Rightarrow> jsstr" where
  "bit_html str =
     (let s1 = replace_re str re_space (\<lambda>_. lit ''&nbsp;'');
          s2 = replace_re s1 re_lt (\<lambda>_. lit ''&lt;'')
      in replace_re s2 re_nl (\<lambda>_. br_sep))"

fun line_spans :: "jsstr \<Rightarrow> jsstr list \<Rightarrow> node list" where
  "line_spans css [] = []"
| "line_spans css [l] = [Span (Some css) l]"
| "line_spans css (l # l' # ls) = Span (Some css) l # Br # line_spans css (l' # ls)"

definition AddBit :: "node list \<Rightarrow> bit \<Rightarrow> node list" where
  "AddBit dv b =
     (case b of (str, css) \<Rightarrow>
        if length str = 0 then dv
        else let html = bit_html str in
          case css of
            Some c \<Rightarrow>
              if test re_brword html then dv @ line_spans c (split_str br_sep html)
              else dv @ [Span (Some c) html]
          | None \<Rightarrow> dv @ [Span None html])"

section \<open>The toolbar\<close>

datatype command = ExpandSource | ViewSource | CopyToClipboard | PrintSource | About

definition commands :: "command list" where
  "commands = [ExpandSource, ViewSource, CopyToClipboard, PrintSource, About]"

fun command_name :: "command \<Rightarrow> jsstr" where
  "command_name ExpandSource = lit ''ExpandSource''"
| "command_name ViewSource = lit ''ViewSource''"
| "command_name CopyToClipboard = lit ''CopyToClipboard''"
| "command_name PrintSource = lit ''PrintSource''"
| "command_name About = lit ''About''"

fun command_label :: "command \<Rightarrow> jsstr" where
  "command_label ExpandSource = lit ''+ expand source''"
| "command_label ViewSource = lit ''view plain''"
| "command_label CopyToClipboard = lit ''copy to clipboard''"
| "command_label PrintSource = lit ''print''"
| "command_label About = lit ''?''"

text \<open>What the toolbar sees of the window: the clipboard object and the Flash helper.\<close>

record window =
  clipboardData :: bool
  ClipboardSwf :: "jsstr option"
  stylesheets :: "(jsstr \<times> jsstr) list"
  AboutDialog :: jsstr
  Version :: jsstr

record options =
  noGutter :: bool
  addControls :: bool
  collapse :: bool
  tabsToSpaces :: bool
  wrapColumn :: nat
  showColumns :: bool

definition new_Highlighter :: options where
  "new_Highlighter = \<lparr>noGutter = False, addControls = True, collapse = False,
     tabsToSpaces = True, wrapColumn = 80, showColumns = True\<rparr>"

fun command_check :: "window \<Rightarrow> options \<Rightarrow> command \<Rightarrow> bool" where
  "command_check w o' ExpandSource = collapse o'"
| "command_check w o' CopyToClipboard = (clipboardData w \<or> ClipboardSwf w \<noteq> None)"
| "command_check w o' _ = True"

definition command_link :: "command \<Rightarrow> jsstr" where
  \<open>command_link c =
     lit ''<a href="#" onclick="dp.sh.Toolbar.Command('' @ [39] @ command_name c @ [39]
       @ lit '',this);return false;">'' @ command_label c @ lit ''</a>''\<close>

definition Toolbar_Create :: "window \<Rightarrow> options \<Rightarrow> jsstr" where
  "Toolbar_Create w o' =
     fold (\<lambda>c html. if \<not> command_check w o' c then html else html @ command_link c) commands []"

datatype effect =
    OpenWindow jsstr
  | WriteDoc jsstr
  | SetClipboard jsstr
  | FlashCopy jsstr jsstr
  | Alert jsstr
  | PrintFrame

text \<open>The part of the highlighter object that the commands read and write.\<close>

record shown =
  originalCode :: jsstr
  div_class :: jsstr
  div_html :: jsstr
  expand_link :: bool
  flashCopier :: bool

definition CopyStyles :: "(jsstr \<times> jsstr) list \<Rightarrow> effect list" where
  "CopyStyles links =
     map (\<lambda>(rel, href). WriteDoc (lit ''<link type=\"text/css\" rel=\"stylesheet\" href=\"'' @ href
            @ lit ''\"></link>''))
       (filter (\<lambda>(rel, href). toLowerCase rel = lit ''stylesheet'') links)"

fun run_command :: "window \<Rightarrow> (jsstr \<Rightarrow> jsstr) \<Rightarrow> command \<Rightarrow> shown \<Rightarrow> shown \<times> effect list" where
  "run_command w enc ExpandSource h =
     (h\<lparr>expand_link := False, div_class := replace_str (div_class h) (lit ''collapsed'') []\<rparr>, [])"
| "run_command w enc ViewSource h =
     (h, [OpenWindow (lit ''width=750, height=400, location=0, resizable=1, menubar=0, scrollbars=0''),
          WriteDoc (lit ''<textarea style=\"width:99%;height:99%\">''
            @ replace_re (originalCode h) re_lt (\<lambda>_. lit ''&lt;'') @ lit ''</textarea>'')])"
| "run_command w enc CopyToClipboard h =
     (if clipboardData w
      then (h, [SetClipboard (originalCode h), Alert (lit ''The code is in your clipboard now'')])
      else case ClipboardSwf w of
          Some swf \<Rightarrow> (h\<lparr>flashCopier := True\<rparr>,
            [FlashCopy swf (enc (originalCode h)), Alert (lit ''The code is in your clipboard now'')])
        | None \<Rightarrow> (h, [Alert (lit ''The code is in your clipboard now'')]))"
| "run_command w enc PrintSource h =
     (h, CopyStyles (stylesheets w) @
         [WriteDoc (lit ''<div class=\"'' @ replace_str (div_class h) (lit ''collapsed'') []
            @ lit '' printing\">'' @ div_html h @ lit ''</div>''),
          PrintFrame, Alert (lit ''Printing...'')])"
| "run_command w enc About h =
     (h, OpenWindow (lit ''dialog,width=300,height=150,scrollbars=0'') # CopyStyles (stylesheets w) @
         [WriteDoc (replace_str (AboutDialog w) (lit ''{V}'') (Version w))])"

text \<open>
  \<open>Toolbar.Command(name, sender)\<close>: from the sender upwards, the first element whose class
  contains \<open>dp-highlighter\<close> tells which highlighter the command is for.
\<close>

definition is_highlighter_div :: "jsstr \<Rightarrow> bool" where
  "is_highlighter_div cls \<longleftrightarrow> indexOf cls (lit ''dp-highlighter'') \<noteq> -1"

fun Toolbar_Command :: "window \<Rightarrow> (jsstr \<Rightarrow> jsstr) \<Rightarrow> command \<Rightarrow> (jsstr \<times> shown) list \<Rightarrow> (shown \<times> effect list) option" where
  "Toolbar_Command w enc c [] = None"
| "Toolbar_Command w enc c ((cls, h) # up) =
     (if is_highlighter_div cls then Some (run_command w enc c h) else Toolbar_Command w enc c up)"

section \<open>SwitchToList\<close>

definition re_br :: regexp where "re_br = js_regex (pat ''<(br)`/?>'') (lit ''gi'')"

fun serialize :: "(jsstr \<Rightarrow> jsstr) \<Rightarrow> node \<Rightarrow> jsstr" where
  "serialize norm (Span None h) = lit ''<span>'' @ norm h @ lit ''</span>''"
| "serialize norm (Span (Some c) h) = lit ''<span class=\"'' @ c @ lit ''\">'' @ norm h @ lit ''</span>''"
| "serialize norm Br = lit ''<br>''"

definition innerHTML :: "(jsstr \<Rightarrow> jsstr) \<Rightarrow> node list \<Rightarrow> jsstr" where
  "innerHTML norm dv = concat (map (serialize norm) dv)"

text \<open>The ruler: the pieces that the loop appends to \<open>innerHTML\<close>, from column \<open>i\<close> on.\<close>

function columns :: "nat \<Rightarrow> jsstr list" where
  "columns i =
     (if i \<le> 150 then
        (if i mod 10 = 0 then nat_digits i # columns (i + length (nat_digits i))
         else lit ''&middot;'' # columns (Suc i))
      else [])"
  by pat_completeness auto
termination
proof (relation "measure (\<lambda>i. 151 - i)")
  fix i :: nat
  assume "i \<le> 150"
  then show "(i + length (nat_digits i), i) \<in> measure (\<lambda>i. 151 - i)"
    unfolding in_measure using length_nat_digits_pos [of i] by linarith
qed simp_all

declare columns.simps [simp del]

record item =
  li_class :: jsstr
  li_html :: jsstr

definition list_items :: "jsstr list \<Rightarrow> item list" where
  "list_items lines =
     map (\<lambda>i. \<lparr>li_class = (if i mod 2 = 0 then lit ''alt'' else []),
               li_html = lines ! i @ lit ''&nbsp;''\<rparr>)
       [0..<length lines - 1]"

record list_view =
  tools :: "jsstr option"
  ruler :: "jsstr option"
  items :: "item list"

definition SwitchToList :: "window \<Rightarrow> (jsstr \<Rightarrow> jsstr) \<Rightarrow> options \<Rightarrow> node list \<Rightarrow> list_view" where
  "SwitchToList w norm o' dv =
     (let html = replace_re (innerHTML norm dv) re_br (\<lambda>_. [NL]);
          lines = split_str [NL] html
      in \<lparr>tools = (if addControls o' then Some (Toolbar_Create w o') else None),
          ruler = (if showColumns o' then Some (concat (columns 1)) else None),
          items = list_items lines\<rparr>)"

section \<open>Highlight\<close>

text \<open>A brush: its rules, how it collects matches (the XML brush overrides this), its class.\<close>

record brush =
  rules :: "rule list"
  collect :: "rule list \<Rightarrow> jsstr \<Rightarrow> Match list \<Rightarrow> (Match list \<times> rule list) option"
  CssClass :: "jsstr option"
  Style :: "jsstr option"

record highlighted =
  source_code :: jsstr
  code :: jsstr
  bits :: "bit list"
  top_class :: jsstr
  ol_class :: "jsstr option"
  ol_start :: "int option"
  view :: list_view
  bar_attached :: bool

definition prepare :: "options \<Rightarrow> jsstr \<Rightarrow> jsstr" where
  "prepare o' src =
     (let c = Chop (Unindent src) in if tabsToSpaces o' then ProcessSmartTabs c else c)"

definition Highlight ::
  "window \<Rightarrow> (jsstr \<Rightarrow> jsstr) \<Rightarrow> brush \<Rightarrow> options \<Rightarrow> int option \<Rightarrow> jsstr option \<Rightarrow> highlighted option" where
  "Highlight w norm br o' firstLine input =
     (let src = (case input of None \<Rightarrow> [] | Some s \<Rightarrow> s);
          cd = prepare o' src
      in case collect br (rules br) cd [] of
           None \<Rightarrow> None
         | Some (ms, _) \<Rightarrow>
             (let bs = highlight_bits cd ms
              in Some \<lparr>source_code = src, code = cd, bits = bs,
                    top_class = lit ''dp-highlighter''
                      @ (if collapse o' then lit '' collapsed'' else [])
                      @ (if noGutter o' then lit '' nogutter'' else []),
                    ol_class = CssClass br, ol_start = firstLine,
                    view = SwitchToList w norm o' (foldl AddBit [] bs),
                    bar_attached = (length ms \<noteq> 0)\<rparr>))"

definition GetKeywords :: "jsstr \<Rightarrow> jsstr" where
  "GetKeywords str =
     pat ''`b'' @ replace_re str re_space (\<lambda>_. pat ''`b|`b'') @ pat ''`b''"

declare re_space_def [js_eval] re_lt_def [js_eval] re_nl_def [js_eval] re_brword_def [js_eval]
  re_br_def [js_eval] br_sep_def [js_eval] bit_html_def [js_eval] AddBit_def [js_eval]
  commands_def [js_eval] command_link_def [js_eval] Toolbar_Create_def [js_eval]
  CopyStyles_def [js_eval] innerHTML_def [js_eval] columns.simps [js_eval] list_items_def [js_eval]
  SwitchToList_def [js_eval] prepare_def [js_eval] Highlight_def [js_eval] GetKeywords_def [js_eval]
  new_Highlighter_def [js_eval] is_highlighter_div_def [js_eval]

end
