(* ===== verification/HighlighterLines.thy ===== *)
theory HighlighterLines
  imports Highlighter
begin

text \<open>
  The line structure of the highlighted code: what \<open>AddBit\<close> writes for a bit, what
  \<open>SwitchToList\<close> reads back, and that the two agree on the number of lines.  The browser's
  part is the locale \<open>html_fragment\<close>, interpreted on \<open>html_norm\<close>.
\<close>

section \<open>Escaping a bit\<close>

definition esc_char :: "jschar \<Rightarrow> jsstr" where
  "esc_char c = (if c = SP then lit ''&nbsp;'' else if c = 60 then lit ''&lt;''
                 else if c = NL then br_sep else [c])"

definition esc :: "jsstr \<Rightarrow> jsstr" where
  "esc s = concat (map esc_char s)"

lemma re_space_eq: "re_space = \<lparr>prog = RSeq (RChar 32) REmpty, groups = 1, rflags = g_flags, lastIndex = 0\<rparr>"
  by (simp add: js_eval)

lemma re_lt_eq: "re_lt = \<lparr>prog = RSeq (RChar 60) REmpty, groups = 1, rflags = g_flags, lastIndex = 0\<rparr>"
  by (simp add: js_eval)

lemma re_nl_eq:
  "re_nl = \<lparr>prog = RSeq (RChar 10) REmpty, groups = 1,
     rflags = \<lparr>global = True, ignoreCase = False, multiline = True\<rparr>, lastIndex = 0\<rparr>"
  by (simp add: js_eval)

lemma replace_space: "replace_re s re_space (\<lambda>_. t) = concat (map (\<lambda>c. if c = SP then t else [c]) s)"
  by (rule replace_char [where g = "\<lambda>_. t"]) (auto intro: char_regexpI simp: re_space_eq)

lemma replace_lt: "replace_re s re_lt (\<lambda>_. t) = concat (map (\<lambda>c. if c = 60 then t else [c]) s)"
  by (rule replace_char [where g = "\<lambda>_. t"]) (auto intro: char_regexpI simp: re_lt_eq)

lemma replace_nl: "replace_re s re_nl (\<lambda>_. t) = concat (map (\<lambda>c. if c = NL then t else [c]) s)"
  by (rule replace_char [where g = "\<lambda>_. t"]) (auto intro: char_regexpI simp: re_nl_eq)

lemma bit_html_esc: "bit_html s = esc s"
  by (induction s) (auto simp: bit_html_def esc_def esc_char_def replace_space replace_lt replace_nl lit_def)

lemma esc_append: "esc (a @ b) = esc a @ esc b"
  by (simp add: esc_def)

lemma esc_simps: "esc [] = []" "esc (c # s) = esc_char c @ esc s"
  by (simp_all add: esc_def)

lemma esc_no_lt: "NL \<notin> set s \<Longrightarrow> 60 \<notin> set (esc s) \<and> NL \<notin> set (esc s)"
  by (induction s) (auto simp: esc_def esc_char_def lit_def)

lemma br_sep_eq: "br_sep = lit ''&nbsp;'' @ lit ''<br>''"
  by (simp add: br_sep_def lit_def)

lemma index_of_mark:
  assumes "c \<notin> set a" and "c \<notin> set u"
  shows "index_of (u @ c # v) (a @ u @ c # v @ b) = Some (length a)"
  using assms(1)
proof (induction a)
  case Nil
  then show ?case by (simp add: index_of_prefix prefix_def)
next
  case (Cons d a)
  have "\<not> prefix (u @ c # v) ((d # a) @ u @ c # v @ b)"
  proof
    assume "prefix (u @ c # v) ((d # a) @ u @ c # v @ b)"
    then obtain w where w: "(d # a) @ u @ c # v @ b = u @ c # v @ w" by (auto simp: prefix_def)
    have "takeWhile (\<lambda>x. x \<noteq> c) ((d # a) @ u @ c # v @ b) = (d # a) @ u"
      using Cons.prems assms(2) by (auto simp: takeWhile_append)
    moreover have "takeWhile (\<lambda>x. x \<noteq> c) (u @ c # v @ w) = u"
      using assms(2) by (auto simp: takeWhile_append)
    ultimately have "(d # a) @ u = u" using w by metis
    then show False by simp
  qed
  with Cons show ?case by simp
qed

lemma index_of_no_mark: "c \<notin> set s \<Longrightarrow> index_of (u @ c # v) s = None"
  by (auto simp: index_of_None sublist_def)

text \<open>Splitting the escaped bit at the separator gives the escaped lines.\<close>

lemma split_br_none: "NL \<notin> set p \<Longrightarrow> split_str br_sep (esc p) = [esc p]"
  using index_of_no_mark [of 60 "esc p" "lit ''&nbsp;''" "lit ''br>''"] esc_no_lt [of p]
  by (subst split_str.simps) (simp add: br_sep_def lit_def)

lemma split_br_append:
  assumes "NL \<notin> set p"
  shows "split_str br_sep (esc (p @ NL # s)) = esc p # split_str br_sep (esc s)"
proof -
  have "index_of br_sep (esc p @ br_sep @ esc s) = Some (length (esc p))"
    using index_of_mark [of 60 "esc p" "lit ''&nbsp;''" "lit ''br>''" "esc s"] esc_no_lt [OF assms]
    by (simp add: br_sep_def lit_def)
  then show ?thesis
    by (subst split_str.simps) (simp add: esc_append esc_simps esc_char_def br_sep_def lit_def)
qed

lemma split_esc: "split_str br_sep (esc s) = map esc (split_str [NL] s)"
proof (induction "[NL]" s rule: split_str.induct)
  case (1 s)
  show ?case
  proof (cases "index_of [NL] s")
    case None
    then have "NL \<notin> set s" by (simp add: index_of_single_None)
    then show ?thesis by (simp add: split_br_none split_single_none)
  next
    case (Some i)
    note n = index_of_single_nth [OF Some] and s = split_at_index [OF Some]
    have IH: "split_str br_sep (esc (drop (Suc i) s)) = map esc (split_str [NL] (drop (Suc i) s))"
      using 1 [OF _ Some] by simp
    have "split_str br_sep (esc (take i s @ NL # drop (Suc i) s)) =
        map esc (split_str [NL] (take i s @ NL # drop (Suc i) s))"
      using n IH by (simp add: split_br_append split_single_append)
    with s show ?thesis by simp
  qed
qed

section \<open>AddBit writes one span per line\<close>

lemma re_brword_eq:
  "re_brword = \<lparr>prog = RSeq (RChar 98) (RSeq (RChar 114) REmpty), groups = 1,
     rflags = \<lparr>global = True, ignoreCase = True, multiline = False\<rparr>, lastIndex = 0\<rparr>"
  by (simp add: js_eval)

lemma brword_absent:
  assumes "\<not> test re_brword (esc s)"
  shows "NL \<notin> set s"
proof
  assume "NL \<in> set s"
  then obtain a b where "s = a @ NL # b" by (meson split_list)
  then have s: "esc s = (esc a @ lit ''&nbsp;<'') @ 98 # 114 # (62 # esc b)"
    by (simp add: esc_append esc_simps esc_char_def br_sep_def lit_def)
  let ?u = "esc a @ lit ''&nbsp;<''"
  have hit: "match_at re_brword (esc s) (length ?u) \<noteq> None"
    unfolding s by (simp add: match_at_def re_brword_eq nth_append)
  have mem: "length ?u \<in> set [0..<Suc (length (esc s))]"
    unfolding s by (simp del: upt_Suc length_lit)
  have "search re_brword (esc s) [0..<Suc (length (esc s))] \<noteq> None"
    unfolding search_None using hit mem by (meson bspec)
  with assms show False by (auto simp: test_def exec_def re_brword_eq simp del: upt_Suc split: option.splits)
qed

lemma AddBit_css:
  assumes "s \<noteq> []"
  shows "AddBit dv (s, Some c) = dv @ line_spans c (map esc (split_str [NL] s))"
proof (cases "test re_brword (esc s)")
  case True
  with assms show ?thesis by (simp add: AddBit_def bit_html_esc split_esc)
next
  case False
  with brword_absent have "split_str [NL] s = [s]" by (blast intro: split_single_none)
  with False assms show ?thesis by (simp add: AddBit_def bit_html_esc)
qed

lemma AddBit_plain: "s \<noteq> [] \<Longrightarrow> AddBit dv (s, None) = dv @ [Span None (esc s)]"
  by (simp add: AddBit_def bit_html_esc)

lemma AddBit_Nil: "AddBit dv ([], css) = dv"
  by (simp add: AddBit_def)

section \<open>Reading the markup back\<close>

lemma re_br_eq:
  "re_br = \<lparr>prog = RSeq (RChar 60) (RSeq (RGroup 1 (RSeq (RChar 98) (RSeq (RChar 114) REmpty)))
       (RSeq (RRep 0 (Some 1) True 2 2 (RChar 47)) (RSeq (RChar 62) REmpty))), groups = 2,
     rflags = \<lparr>global = True, ignoreCase = True, multiline = False\<rparr>, lastIndex = 0\<rparr>"
  by (simp add: js_eval)

abbreviation br_to_nl :: "jsstr \<Rightarrow> jsstr" where
  "br_to_nl s \<equiv> replace_re s re_br (\<lambda>_. [NL])"

lemma re_br_local: "ahead_only (prog re_br)" "global (rflags re_br)" "0 < minlen (prog re_br)"
  by (simp_all add: re_br_eq)

lemma br_to_nl_Nil: "br_to_nl [] = []"
  by (rule replace_Nil) (rule re_br_local)+

lemma br_to_nl_char: "c \<noteq> 60 \<Longrightarrow> br_to_nl (c # s) = c # br_to_nl s"
  by (rule replace_skip) (auto simp: re_br_local match_at_def re_br_eq canonicalize_def)

lemma br_to_nl_text: "60 \<notin> set p \<Longrightarrow> br_to_nl (p @ s) = p @ br_to_nl s"
  by (induction p) (auto simp: br_to_nl_char)

lemma br_to_nl_tag: "c \<noteq> 98 \<Longrightarrow> c \<noteq> 66 \<Longrightarrow> br_to_nl (60 # c # s) = 60 # br_to_nl (c # s)"
  by (rule replace_skip)
     (auto simp: re_br_local match_at_def re_br_eq canonicalize_def split: if_splits)

lemma match_br_tag:
  "\<exists>cs. match_at re_br (lit ''<br>'' @ s) 0 = Some (mk_match (lit ''<br>'' @ s) 0 4 cs)"
  by (simp add: match_at_def re_br_eq m_RRep canonicalize_def lit_def numeral_eq_Suc) blast

lemma br_to_nl_br: "br_to_nl (lit ''<br>'' @ s) = NL # br_to_nl s"
  using match_br_tag [of s] replace_hit [OF re_br_local(1,2), of "lit ''<br>''" s _ "[NL]"]
  by (auto simp: mk_match_def lit_def)

lemma br_to_nl_open:
  "60 \<notin> set a \<Longrightarrow> br_to_nl (60 # 115 # a @ s) = 60 # 115 # a @ br_to_nl s"
  by (simp add: br_to_nl_tag br_to_nl_char br_to_nl_text)

lemma br_to_nl_close: "br_to_nl (lit ''</span>'' @ s) = lit ''</span>'' @ br_to_nl s"
  by (simp add: lit_def br_to_nl_tag br_to_nl_char)

section \<open>The browser's part\<close>

text \<open>A bit whose class is a plain name.\<close>

definition plain_css :: "bit \<Rightarrow> bool" where
  "plain_css b \<longleftrightarrow> (\<forall>c. snd b = Some c \<longrightarrow> 60 \<notin> set c \<and> NL \<notin> set c)"

text \<open>
  \<open>AddBit\<close> does not escape the ampersand, so a reader of the markup decodes the character references of the
  code: \<open>&#10;\<close> and \<open>&NewLine;\<close> become line breaks, and so does a carriage return.  Text without these is
  \<open>safe_text\<close>.
\<close>

definition safe_text :: "jsstr \<Rightarrow> bool" where
  "safe_text s \<longleftrightarrow> 13 \<notin> set s \<and> \<not> sublist (lit ''&#'') s \<and> \<not> sublist (lit ''&NewLine;'') s"

lemma safe_part: "sublist a s \<Longrightarrow> safe_text s \<Longrightarrow> safe_text a"
proof -
  assume a: "sublist a s" and s: "safe_text s"
  have "sublist x s" if "sublist x a" for x using that a by (rule sublist_order.order.trans)
  moreover have "set a \<subseteq> set s" using a by (rule set_mono_sublist)
  ultimately show "safe_text a" using s unfolding safe_text_def by auto
qed

lemma safe_append: "safe_text (a @ b) \<Longrightarrow> safe_text a \<and> safe_text b"
  by (meson safe_part prefixI prefix_imp_sublist suffixI suffix_imp_sublist)

lemma prefix_esc: "38 \<notin> set q \<Longrightarrow> prefix q (esc s) \<Longrightarrow> prefix q s"
proof (induction q arbitrary: s)
  case (Cons x q)
  then obtain c t where s: "s = c # t" by (cases s) (auto simp: esc_simps)
  have "esc_char c = [c] \<or> (\<exists>r. esc_char c = 38 # r)" by (simp add: esc_char_def br_sep_def lit_def)
  then show ?case using Cons s by (auto simp: esc_simps)
qed simp

lemma sublist_esc:
  assumes "38 \<notin> set (x # q)" "x \<noteq> 110" "x \<noteq> 108"
  shows "sublist (38 # x # q) (esc s) \<Longrightarrow> sublist (38 # x # q) s"
proof (induction s)
  case (Cons c s)
  have "sublist (38 # x # q) (esc s) \<or> c = 38 \<and> prefix (x # q) (esc s)"
    using Cons.prems assms by (auto simp: esc_simps esc_char_def br_sep_def lit_def sublist_Cons_right split: if_splits)
  then show ?case using Cons.IH prefix_esc [OF assms(1)] by (auto simp: sublist_Cons_right)
qed (simp add: esc_simps)

lemma safe_esc: "safe_text s \<Longrightarrow> safe_text (esc s)"
proof -
  have "13 \<in> set (esc s) \<Longrightarrow> 13 \<in> set s"
    by (auto simp: esc_def esc_char_def br_sep_def lit_def split: if_splits)
  then show "safe_text s \<Longrightarrow> safe_text (esc s)"
    using sublist_esc [of 35 "[]" s] sublist_esc [of 78 "lit ''ewLine;''" s] by (auto simp: safe_text_def lit_def)
qed

text \<open>
  What is relied on of a browser: safe text is read back with no angle bracket and no line break, and a line
  break tag after text separates what stands before it from the escaped text behind it.
\<close>

locale html_fragment =
  fixes norm :: "jsstr \<Rightarrow> jsstr"
  assumes norm_text: "60 \<notin> set p \<Longrightarrow> NL \<notin> set p \<Longrightarrow> safe_text p \<Longrightarrow> 60 \<notin> set (norm p) \<and> NL \<notin> set (norm p)"
    and norm_br: "60 \<notin> set p \<Longrightarrow> norm (p @ lit ''<br>'' @ esc s) = norm p @ lit ''<br>'' @ norm (esc s)"
begin

text \<open>An escaped bit, written and read back, has its line breaks where they were.\<close>

lemma norm_esc_lines:
  "safe_text str \<Longrightarrow>
   \<exists>x. (\<forall>s. br_to_nl (norm (esc str) @ s) = x @ br_to_nl s) \<and> count_list x NL = count_list str NL"
proof (induction "length str" arbitrary: str rule: less_induct)
  case less
  show ?case
  proof (cases "NL \<in> set str")
    case False
    then have "60 \<notin> set (norm (esc str))" "NL \<notin> set (norm (esc str))"
      using norm_text esc_no_lt safe_esc [OF less.prems] by blast+
    with False show ?thesis
      by (intro exI [of _ "norm (esc str)"]) (simp add: br_to_nl_text count_list_0_iff)
  next
    case True
    then obtain a b where ab: "str = a @ NL # b" "NL \<notin> set a" by (meson split_list_first)
    let ?p = "esc a @ lit ''&nbsp;''"
    have str: "esc str = ?p @ lit ''<br>'' @ esc b" by (simp add: ab(1) esc_append esc_simps esc_char_def br_sep_eq)
    have p: "60 \<notin> set ?p" "NL \<notin> set ?p" "safe_text ?p"
      using esc_no_lt [OF ab(2)] safe_append [of ?p "lit ''<br>'' @ esc b"] safe_esc [OF less.prems] str by (auto simp: lit_def)
    have n: "norm (esc str) = norm ?p @ lit ''<br>'' @ norm (esc b)" unfolding str by (rule norm_br [OF p(1)])
    have "safe_text b" using less.prems safe_append [of "a @ [NL]" b] ab(1) by simp
    then obtain x where x: "\<forall>s. br_to_nl (norm (esc b) @ s) = x @ br_to_nl s" "count_list x NL = count_list b NL"
      using less.hyps [of b] ab(1) by auto
    have "br_to_nl (norm (esc str) @ s) = (norm ?p @ NL # x) @ br_to_nl s" for s
      using norm_text [OF p] x(1) by (simp add: n br_to_nl_text br_to_nl_br)
    moreover have "count_list (norm ?p @ NL # x) NL = count_list str NL"
      using norm_text [OF p] ab x(2) by (simp add: count_list_0_iff)
    ultimately show ?thesis by blast
  qed
qed

lemma span_lines:
  assumes "\<forall>c. cls = Some c \<longrightarrow> 60 \<notin> set c \<and> NL \<notin> set c" and "safe_text str"
  shows "\<exists>x. (\<forall>s. br_to_nl (serialize norm (Span cls (esc str)) @ s) = x @ br_to_nl s)
    \<and> count_list x NL = count_list str NL"
proof -
  obtain x where x: "\<forall>s. br_to_nl (norm (esc str) @ s) = x @ br_to_nl s" "count_list x NL = count_list str NL"
    using norm_esc_lines [OF assms(2)] by blast
  define a where "a = lit ''pan'' @ (case cls of None \<Rightarrow> [] | Some c \<Rightarrow> lit '' class=\"'' @ c @ lit ''\"'') @ lit ''>''"
  have a: "60 \<notin> set a" "NL \<notin> set a" using assms(1) by (auto simp: a_def lit_def split: option.splits)
  have "serialize norm (Span cls (esc str)) = 60 # 115 # a @ norm (esc str) @ lit ''</span>''"
    by (cases cls) (simp_all add: a_def lit_def)
  then have "br_to_nl (serialize norm (Span cls (esc str)) @ s) =
      (60 # 115 # a @ x @ lit ''</span>'') @ br_to_nl s" for s
    using x(1) a(1) by (simp add: br_to_nl_open br_to_nl_close)
  moreover have "count_list (60 # 115 # a @ x @ lit ''</span>'') NL = count_list str NL"
    using a(2) x(2) by (simp add: count_list_0_iff lit_def)
  ultimately show ?thesis by blast
qed

text \<open>A piece of markup that contributes \<open>n\<close> line breaks wherever it stands.\<close>

definition breaks :: "node list \<Rightarrow> nat \<Rightarrow> bool" where
  "breaks ns n \<longleftrightarrow>
     (\<exists>x. (\<forall>s. br_to_nl (innerHTML norm ns @ s) = x @ br_to_nl s) \<and> count_list x NL = n)"

lemma breaks_append: "breaks a k \<Longrightarrow> breaks b n \<Longrightarrow> breaks (a @ b) (k + n)"
  unfolding breaks_def
proof (elim exE conjE)
  fix x y
  assume "\<forall>s. br_to_nl (innerHTML norm a @ s) = x @ br_to_nl s" "count_list x NL = k"
    "\<forall>s. br_to_nl (innerHTML norm b @ s) = y @ br_to_nl s" "count_list y NL = n"
  then show "\<exists>x. (\<forall>s. br_to_nl (innerHTML norm (a @ b) @ s) = x @ br_to_nl s) \<and> count_list x NL = k + n"
    by (intro exI [of _ "x @ y"]) (simp add: innerHTML_def)
qed

lemma breaks_Nil: "breaks [] 0"
  by (auto simp: breaks_def innerHTML_def)

lemma breaks_Br: "breaks [Br] 1"
  by (auto simp: breaks_def innerHTML_def br_to_nl_br intro!: exI [of _ "[NL]"])

lemma breaks_Span:
  "\<forall>c. cls = Some c \<longrightarrow> 60 \<notin> set c \<and> NL \<notin> set c \<Longrightarrow> safe_text str \<Longrightarrow> breaks [Span cls (esc str)] (count_list str NL)"
  using span_lines [of cls str] by (simp add: breaks_def innerHTML_def)

lemma breaks_line_spans:
  "60 \<notin> set c \<Longrightarrow> NL \<notin> set c \<Longrightarrow> \<forall>l \<in> set ls. NL \<notin> set l \<and> safe_text l \<Longrightarrow> ls \<noteq> [] \<Longrightarrow>
   breaks (line_spans c (map esc ls)) (length ls - 1)"
proof (induction ls rule: induct_list012)
  case (2 l)
  then show ?case using breaks_Span [of "Some c" l] by (simp add: count_list_0_iff)
next
  case (3 l l' ls)
  have "breaks [Span (Some c) (esc l)] 0" using 3 breaks_Span [of "Some c" l] by (simp add: count_list_0_iff)
  from breaks_append [OF breaks_append [OF this breaks_Br] "3.IH"(2)] 3 show ?case by simp
qed simp

lemma breaks_AddBit:
  assumes "breaks dv n" and "plain_css b" and "safe_text (fst b)"
  shows "breaks (AddBit dv b) (n + count_list (fst b) NL)"
proof -
  obtain s css where b: "b = (s, css)" by (cases b)
  show ?thesis
  proof (cases "s = []")
    case True
    with b assms show ?thesis by (simp add: AddBit_Nil)
  next
    case s: False
    show ?thesis
    proof (cases css)
      case None
      with b s breaks_append [OF assms(1) breaks_Span [of None s]] assms(3) show ?thesis by (simp add: AddBit_plain)
    next
      case (Some c)
      then have "breaks (line_spans c (map esc (split_str [NL] s))) (length (split_str [NL] s) - 1)"
        using assms(2,3) b by (intro breaks_line_spans)
          (auto simp: plain_css_def split_str_nonempty dest: split_single_pieces safe_part [OF sublist_piece])
      with b s Some breaks_append [OF assms(1) this] show ?thesis
        by (simp add: AddBit_css length_split_single)
    qed
  qed
qed

lemma breaks_bits:
  "breaks dv n \<Longrightarrow> \<forall>b \<in> set bs. plain_css b \<and> safe_text (fst b) \<Longrightarrow>
   breaks (foldl AddBit dv bs) (n + count_list (bit_text bs) NL)"
proof (induction bs arbitrary: dv n)
  case (Cons b bs)
  then have "breaks (AddBit dv b) (n + count_list (fst b) NL)" by (intro breaks_AddBit) auto
  from Cons.IH [OF this] Cons.prems show ?case by (simp add: add.assoc)
qed (simp add: bit_text_def)

text \<open>One list item per line break of the text that the bits carry.\<close>

lemma items_count:
  assumes "\<forall>b \<in> set bs. plain_css b" and "safe_text (bit_text bs)"
  shows "length (items (SwitchToList w norm o' (foldl AddBit [] bs))) = count_list (bit_text bs) NL"
proof -
  have "safe_text (fst b)" if "b \<in> set bs" for b
  proof -
    have "sublist (fst b) (concat (map fst bs))" using that by (auto dest!: split_list)
    then show ?thesis using assms(2) safe_part by (simp add: bit_text_def)
  qed
  with breaks_bits [OF breaks_Nil, of bs] assms(1) obtain x where
    "\<forall>s. br_to_nl (innerHTML norm (foldl AddBit [] bs) @ s) = x @ br_to_nl s"
    "count_list x NL = count_list (bit_text bs) NL" by (auto simp: breaks_def)
  then have "count_list (br_to_nl (innerHTML norm (foldl AddBit [] bs))) NL = count_list (bit_text bs) NL"
    using br_to_nl_Nil by (metis append_Nil2)
  then show ?thesis by (simp add: SwitchToList_def list_items_def length_split_single Let_def)
qed

end

text \<open>
  A concrete reading back of text and line break tags.  Carriage returns are normalised to line breaks; decimal
  character references and \<open>&NewLine;\<close> are decoded; the four references that a serialisation writes stay; a stray
  ampersand, \<open>>\<close> and a no-break space are escaped.  (Other references are taken as text.)
\<close>

definition char_refs :: "jsstr list" where
  "char_refs = [lit ''&nbsp;'', lit ''&lt;'', lit ''&gt;'', lit ''&amp;'']"

definition serialized_char :: "jschar \<Rightarrow> jsstr" where
  "serialized_char c = (if c = 38 then lit ''&amp;'' else if c = 60 then lit ''&lt;'' else if c = 62 then lit ''&gt;''
     else if c = 160 then lit ''&nbsp;'' else [c])"

text \<open>The value and the length of a decimal reference.\<close>

definition decimal_ref :: "jsstr \<Rightarrow> (jschar \<times> nat) option" where
  "decimal_ref s =
     (let ds = takeWhile is_digit (drop 2 s)
      in if prefix (lit ''&#'') s \<and> ds \<noteq> []
         then Some (digit_value ds, 2 + length ds + (if prefix (ds @ [59]) (drop 2 s) then 1 else 0)) else None)"

definition read_char :: "jsstr \<Rightarrow> jsstr \<times> nat" where
  "read_char s =
     (if prefix (lit ''<br>'') s then (lit ''<br>'', 4)
      else if hd s = 38 then
        (if list_ex (\<lambda>r. prefix r s) char_refs then ([38], 1)
         else if prefix (lit ''&NewLine;'') s then ([NL], 9)
         else case decimal_ref s of Some (v, n) \<Rightarrow> (serialized_char v, n) | None \<Rightarrow> (lit ''&amp;'', 1))
      else if hd s = 13 then ([NL], if prefix [13, NL] s then 2 else 1)
      else (if hd s = 60 then [60] else serialized_char (hd s), 1))"

function html_norm :: "jsstr \<Rightarrow> jsstr" where
  "html_norm s = (if s = [] then [] else fst (read_char s) @ html_norm (drop (snd (read_char s)) s))"
  by pat_completeness auto

lemma read_char_length: "0 < snd (read_char s)"
  by (auto simp: read_char_def decimal_ref_def Let_def split: option.splits if_splits)

termination html_norm
  using read_char_length by (relation "measure length") auto

declare html_norm.simps [simp del]

lemma read_char_text:
  assumes "s \<noteq> []" "60 \<notin> set s" "NL \<notin> set s" "safe_text s"
  shows "60 \<notin> set (fst (read_char s)) \<and> NL \<notin> set (fst (read_char s))"
proof -
  obtain c t where s: "s = c # t" using assms(1) by (cases s) auto
  have "\<not> prefix (lit ''&#'') s" "\<not> prefix (lit ''&NewLine;'') s" "\<not> prefix (lit ''<br>'') s" "c \<noteq> 13" "c \<noteq> 60" "c \<noteq> NL"
    using assms s prefix_imp_sublist by (auto simp: safe_text_def) (auto simp: lit_def)
  then show ?thesis by (auto simp: read_char_def decimal_ref_def serialized_char_def s lit_def)
qed

lemma html_norm_text:
  "60 \<notin> set p \<Longrightarrow> NL \<notin> set p \<Longrightarrow> safe_text p \<Longrightarrow> 60 \<notin> set (html_norm p) \<and> NL \<notin> set (html_norm p)"
proof (induction p rule: html_norm.induct)
  case (1 p)
  let ?n = "snd (read_char p)"
  have "safe_text (drop ?n p)" using "1.prems"(3) safe_append [of "take ?n p" "drop ?n p"] by simp
  then show ?case
    using 1 read_char_text [of p] html_norm.simps [of p] by (cases "p = []") (auto dest: in_set_dropD)
qed

text \<open>What stands before a tag is read without regard to it.\<close>

lemma takeWhile_before: "\<not> P c \<Longrightarrow> takeWhile P (a @ c # b) = takeWhile P a"
  by (induction a) auto

lemma read_char_before:
  assumes "p \<noteq> []" "60 \<notin> set p"
  shows "read_char (p @ 60 # x) = read_char p" "snd (read_char p) \<le> length p"
proof -
  have pre: "prefix r (p @ 60 # x) \<longleftrightarrow> prefix r p" if "60 \<notin> set r" for r using prefix_before_mark [OF that] .
  have no: "\<not> prefix (lit ''<br>'') (p @ y)" for y using assms by (cases p) (auto simp: lit_def)
  have dec: "decimal_ref (p @ 60 # x) = decimal_ref p"
  proof (cases "prefix (lit ''&#'') p")
    case True
    then obtain q where q: "p = 38 # 35 # q" by (auto simp: prefix_def lit_def)
    then show ?thesis using assms(2) prefix_before_mark [of 60 "takeWhile is_digit q @ [59]" q x]
      by (auto simp: decimal_ref_def Let_def takeWhile_before is_digit_def lit_def dest: set_takeWhileD)
  next
    case False
    then show ?thesis using pre [of "lit ''&#''"] by (simp add: decimal_ref_def lit_def)
  qed
  have refs: "list_ex (\<lambda>r. prefix r (p @ 60 # x)) char_refs = list_ex (\<lambda>r. prefix r p) char_refs"
    using pre by (simp add: char_refs_def lit_def)
  show "read_char (p @ 60 # x) = read_char p"
    using assms(1) no [of "[]"] no [of "60 # x"] pre [of "lit ''&NewLine;''"] pre [of "[13, NL]"]
    by (simp add: read_char_def dec refs) (simp add: lit_def)
  show "snd (read_char p) \<le> length p"
  proof -
    have l: "length r \<le> length p" if "prefix r p" for r using that by (rule prefix_length_le)
    have "length (takeWhile is_digit (drop 2 p)) \<le> length p - 2" by (metis length_drop length_takeWhile_le)
    then show ?thesis using assms(1) l [of "lit ''&NewLine;''"] l [of "lit ''&#''"] l [of "[13, NL]"] no [of "[]"]
        prefix_length_le [of "takeWhile is_digit (drop 2 p) @ [59]" "drop 2 p"]
      by (cases p) (auto simp: read_char_def decimal_ref_def Let_def split: option.splits if_splits)
  qed
qed

lemma html_norm_br: "60 \<notin> set p \<Longrightarrow> html_norm (p @ lit ''<br>'' @ h) = html_norm p @ lit ''<br>'' @ html_norm h"
proof (induction p rule: html_norm.induct)
  case (1 p)
  show ?case
  proof (cases "p = []")
    case True
    have "read_char (lit ''<br>'' @ h) = (lit ''<br>'', 4)" by (simp add: read_char_def)
    then show ?thesis using True html_norm.simps [of "lit ''<br>'' @ h"] html_norm.simps [of "[]"] by (simp add: lit_def)
  next
    case False
    let ?n = "snd (read_char p)"
    have br: "lit ''<br>'' @ h = 60 # (lit ''br>'' @ h)" by (simp add: lit_def)
    have "60 \<notin> set (drop ?n p)" using "1.prems" by (auto dest: in_set_dropD)
    then have "html_norm (drop ?n p @ lit ''<br>'' @ h) = html_norm (drop ?n p) @ lit ''<br>'' @ html_norm h" using 1 False by blast
    then show ?thesis
      using False read_char_before(1) [OF False "1.prems", of "lit ''br>'' @ h"] read_char_before(2) [OF False "1.prems"] html_norm.simps [of p] html_norm.simps [of "p @ lit ''<br>'' @ h"]
      unfolding br by simp
  qed
qed

interpretation browser: html_fragment html_norm
  by unfold_locales (simp_all add: html_norm_text html_norm_br)

end
