(* ===== verification/Keywords.thy ===== *)
theory Keywords
  imports HighlighterLines
begin

text \<open>
  Keyword rules: \<open>GetKeywords\<close> turns a blank-separated list of words into the pattern
  \<^verbatim>\<open>\bword1\b|\bword2\b|...\<close>.  For words of literal characters the pattern parses to the
  alternation of the words between word boundaries (\<open>RegExp_keywords\<close>), it matches a listed
  word that stands between boundaries and nothing else (\<open>match_at_keywords\<close>), and it never
  matches the empty string when no word is empty.  Long word lists are checked and searched in
  one pass (\<open>word_list\<close>, \<open>word_seek\<close>), so that a list constant is never split by evaluation.
\<close>

section \<open>The pattern\<close>

definition literal_char :: "jschar \<Rightarrow> bool" where
  "literal_char c \<longleftrightarrow> \<not> List.member [94, 36, 92, 46, 42, 43, 63, 40, 41, 91, 123, 124, 32] c"

definition keyword :: "jsstr \<Rightarrow> bool" where
  "keyword w \<longleftrightarrow> w \<noteq> [] \<and> list_all literal_char w"

fun seq_chars :: "jsstr \<Rightarrow> regex \<Rightarrow> regex" where
  "seq_chars [] r = r"
| "seq_chars (c # w) r = RSeq (RChar c) (seq_chars w r)"

definition word_regex :: "jsstr \<Rightarrow> regex" where
  "word_regex w = RSeq RWordB (seq_chars w (RSeq RWordB REmpty))"

fun alts :: "jsstr list \<Rightarrow> regex" where
  "alts [] = REmpty"
| "alts [w] = word_regex w"
| "alts (w # w' # ws) = RAlt (word_regex w) (alts (w' # ws))"

lemma GetKeywords_join:
  "ws \<noteq> [] \<Longrightarrow> \<forall>w \<in> set ws. SP \<notin> set w \<Longrightarrow>
   GetKeywords (join [SP] ws) = join (lit ''|'') (map (\<lambda>w. pat ''`b'' @ w @ pat ''`b'') ws)"
proof (induction ws rule: induct_list012)
  case (2 w)
  have "concat (map (\<lambda>c. if c = SP then t else [c]) w) = w" if "SP \<notin> set w" for t w
    using that by (induction w) auto
  with 2 show ?case by (simp add: GetKeywords_def replace_space)
next
  case (3 w w' ws)
  have "concat (map (\<lambda>c. if c = SP then t else [c]) w) = w" if "SP \<notin> set w" for t w
    using that by (induction w) auto
  with 3 show ?case by (simp add: GetKeywords_def replace_space pat_def lit_def)
qed simp

lemma literal_char_simps:
  "literal_char c \<Longrightarrow> c \<noteq> 94 \<and> c \<noteq> 36 \<and> c \<noteq> 92 \<and> c \<noteq> 46 \<and> c \<noteq> 42 \<and> c \<noteq> 43 \<and> c \<noteq> 63 \<and>
     c \<noteq> 40 \<and> c \<noteq> 41 \<and> c \<noteq> 91 \<and> c \<noteq> 123 \<and> c \<noteq> 124"
  by (simp add: literal_char_def)

lemma quantify_none:
  "case s of [] \<Rightarrow> True | c # _ \<Rightarrow> c \<noteq> 42 \<and> c \<noteq> 43 \<and> c \<noteq> 63 \<and> c \<noteq> 123 \<Longrightarrow> quantify n n' a s = (a, s, n')"
  by (auto simp: quantify_def split: list.splits)

lemma parse_literal:
  assumes "literal_char c" and "case s of [] \<Rightarrow> True | d # _ \<Rightarrow> d \<noteq> 42 \<and> d \<noteq> 43 \<and> d \<noteq> 63 \<and> d \<noteq> 123"
  shows "parse_term (Suc k) (c # s) n = Some (RChar c, s, n)"
  using literal_char_simps [OF assms(1)] quantify_none [OF assms(2), of n n "RChar c"] by simp

text \<open>One step of each level of the parser.\<close>

lemma parse_alt_step:
  "parse_term k (c # s) n = Some (r, t, n') \<Longrightarrow> parse_alt k t n' = Some (r', u, n'') \<Longrightarrow>
   c \<noteq> 124 \<Longrightarrow> c \<noteq> 41 \<Longrightarrow> parse_alt (Suc k) (c # s) n = Some (RSeq r r', u, n'')"
  by simp

lemma parse_disj_last:
  "parse_alt k s n = Some (r, [], n') \<Longrightarrow> parse_disj (Suc k) s n = Some (r, [], n')"
  by simp

lemma parse_disj_more:
  "parse_alt k s n = Some (r, 124 # t, n') \<Longrightarrow> parse_disj k t n' = Some (r', u, n'') \<Longrightarrow>
   parse_disj (Suc k) s n = Some (RAlt r r', u, n'')"
  by simp

text \<open>The rest after the word: nothing, or the next alternative.\<close>

lemma parse_word_end:
  "rest = [] \<or> prefix [124] rest \<Longrightarrow>
   parse_alt (Suc (Suc k)) (92 # 98 # rest) n = Some (RSeq RWordB REmpty, rest, n)"
  by auto

lemma parse_word_chars:
  "list_all literal_char w \<Longrightarrow> rest = [] \<or> prefix [124] rest \<Longrightarrow>
   parse_alt (length w + Suc (Suc k)) (w @ 92 # 98 # rest) n =
     Some (seq_chars w (RSeq RWordB REmpty), rest, n)"
proof (induction w)
  case Nil
  then show ?case using parse_word_end by simp
next
  case (Cons c w)
  have "case w @ 92 # 98 # rest of [] \<Rightarrow> True | d # _ \<Rightarrow> d \<noteq> 42 \<and> d \<noteq> 43 \<and> d \<noteq> 63 \<and> d \<noteq> 123"
    using Cons.prems(1) by (cases w) (auto dest: literal_char_simps)
  then have t: "parse_term (Suc k') (c # w @ 92 # 98 # rest) n = Some (RChar c, w @ 92 # 98 # rest, n)" for k'
    using Cons.prems by (intro parse_literal) auto
  have "parse_alt (Suc (length w + Suc (Suc k))) (c # w @ 92 # 98 # rest) n =
      Some (RSeq (RChar c) (seq_chars w (RSeq RWordB REmpty)), rest, n)"
    by (rule parse_alt_step [OF t [of "length w + Suc k", folded add_Suc_right] Cons.IH])
       (use Cons.prems literal_char_simps [of c] in auto)
  then show ?case by (simp del: parse_alt.simps)
qed

lemma parse_word:
  assumes "list_all literal_char w" and "rest = [] \<or> prefix [124] rest" and k: "length w + 3 \<le> k"
  shows "parse_alt k (92 # 98 # w @ 92 # 98 # rest) n = Some (word_regex w, rest, n)"
proof -
  have "parse_alt (Suc (length w + Suc (Suc 0))) (92 # 98 # w @ 92 # 98 # rest) n = Some (word_regex w, rest, n)"
    unfolding word_regex_def by (rule parse_alt_step [OF _ parse_word_chars [OF assms(1,2)]]) simp_all
  then show ?thesis by (rule parse_fuel_ge(2) [rotated]) (use k in simp)
qed

abbreviation word_pattern :: "jsstr \<Rightarrow> jsstr" where
  "word_pattern w \<equiv> 92 # 98 # w @ [92, 98]"

lemma parse_alts:
  "ws \<noteq> [] \<Longrightarrow> \<forall>w \<in> set ws. list_all literal_char w \<Longrightarrow>
   length (join [124] (map word_pattern ws)) < k \<Longrightarrow>
   parse_disj (Suc k) (join [124] (map word_pattern ws)) n = Some (alts ws, [], n)"
proof (induction ws arbitrary: k rule: induct_list012)
  case (2 w)
  have "parse_alt k (word_pattern w) n = Some (word_regex w, [], n)"
    using 2 parse_word [of w "[]" k n] by (simp del: parse_alt.simps)
  then show ?case using parse_disj_last by simp
next
  case (3 w w' ws)
  let ?rest = "join [124] (map word_pattern (w' # ws))"
  have k: "length w + length ?rest + 5 \<le> k" using "3.prems"(3) by simp
  have a: "parse_alt k (92 # 98 # w @ 92 # 98 # 124 # ?rest) n = Some (word_regex w, 124 # ?rest, n)"
    by (rule parse_word) (use "3.prems"(2) k in auto)
  obtain k' where k': "k = Suc k'" using k by (cases k) auto
  have d: "parse_disj k ?rest n = Some (alts (w' # ws), [], n)"
    unfolding k' by (rule "3.IH"(2)) (use "3.prems"(2) k k' in auto)
  show ?case using parse_disj_more [OF a d] by (simp del: parse_alt.simps parse_disj.simps)
qed simp

section \<open>The expression\<close>

lemma RegExp_keywords:
  assumes "ws \<noteq> []" and "\<forall>w \<in> set ws. keyword w"
  shows "RegExp (GetKeywords (join [SP] ws)) f =
    Some \<lparr>prog = alts ws, groups = 1, rflags = parse_flags f, lastIndex = 0\<rparr>"
proof -
  have "\<forall>w \<in> set ws. SP \<notin> set w"
    using assms(2) by (auto simp: keyword_def literal_char_def list_all_iff)
  with assms(1) have p: "GetKeywords (join [SP] ws) = join [124] (map word_pattern ws)"
    by (simp add: GetKeywords_join pat_def lit_def)
  let ?p = "join [124] (map word_pattern ws)"
  have "fuel_of ?p = Suc (3 * length ?p + 2)" using fuel_of_ge [of ?p] by simp
  moreover have "parse_disj (Suc (3 * length ?p + 2)) ?p 1 = Some (alts ws, [], 1)"
    by (rule parse_alts) (use assms in \<open>auto simp: keyword_def\<close>)
  ultimately have "parse_pattern ?p = Some (alts ws, 1)"
    by (simp add: parse_pattern_def del: parse_disj.simps)
  then show ?thesis by (simp add: RegExp_def p)
qed

lemma minlen_seq_chars: "minlen (seq_chars w r) = length w + minlen r"
  by (induction w) auto

lemma minlen_alts: "ws \<noteq> [] \<Longrightarrow> \<forall>w \<in> set ws. w \<noteq> [] \<Longrightarrow> 0 < minlen (alts ws)"
  by (induction ws rule: induct_list012) (auto simp: word_regex_def minlen_seq_chars)

text \<open>A word between two word boundaries, at position \<open>i\<close>.\<close>

definition word_here :: "flags \<Rightarrow> jsstr \<Rightarrow> nat \<Rightarrow> jsstr \<Rightarrow> bool" where
  "word_here fl s i w \<longleftrightarrow> word_boundary s i \<and> i + length w \<le> length s \<and>
     map (canonicalize fl) (take (length w) (drop i s)) = map (canonicalize fl) w \<and>
     word_boundary s (i + length w)"

lemma m_seq_chars:
  "m fl s (seq_chars w r) i cs =
   (if i + length w \<le> length s \<and> map (canonicalize fl) (take (length w) (drop i s)) = map (canonicalize fl) w
    then m fl s r (i + length w) cs else if w = [] then m fl s r i cs else [])"
proof (induction w arbitrary: i)
  case (Cons c w)
  show ?case
  proof (cases "i < length s")
    case True
    then have "take (length (c # w)) (drop i s) = s ! i # take (length w) (drop (Suc i) s)"
      by (simp add: Cons_nth_drop_Suc [symmetric])
    with True Cons show ?thesis by auto
  qed simp
qed simp

lemma m_word_regex:
  "w \<noteq> [] \<Longrightarrow> m fl s (word_regex w) i cs = (if word_here fl s i w then [(i + length w, cs)] else [])"
  by (auto simp: word_regex_def m_seq_chars word_here_def)

lemma m_alts:
  "ws \<noteq> [] \<Longrightarrow> \<forall>w \<in> set ws. w \<noteq> [] \<Longrightarrow>
   m fl s (alts ws) i cs = map (\<lambda>w. (i + length w, cs)) (filter (word_here fl s i) ws)"
  by (induction ws rule: induct_list012) (auto simp: m_word_regex)

lemma match_at_keywords:
  assumes "ws \<noteq> []" and "\<forall>w \<in> set ws. w \<noteq> []" and "prog re = alts ws"
  shows "match_at re s i =
    (case filter (word_here (rflags re) s i) ws of
       [] \<Rightarrow> None | w # _ \<Rightarrow> Some (mk_match s i (i + length w) (replicate (groups re) None)))"
  by (simp add: match_at_def m_alts assms split: list.splits)

section \<open>Word lists\<close>

text \<open>
  One pass over a word list: \<open>Some b\<close> while it is well formed, \<open>b\<close> saying whether a word has
  begun since the last blank.
\<close>

fun word_step :: "jschar \<Rightarrow> bool option \<Rightarrow> bool option" where
  "word_step c None = None"
| "word_step c (Some b) =
     (if c = 32 then (if b then Some False else None)
      else if literal_char c then Some True else None)"

definition word_list :: "jsstr \<Rightarrow> bool" where
  "word_list s \<longleftrightarrow> fold word_step s (Some False) = Some True"

lemma fold_word_None: "fold word_step s None = None"
  by (induction s) auto

lemma fold_word_chars:
  "SP \<notin> set w \<Longrightarrow> fold word_step w (Some b) = Some b' \<Longrightarrow>
   list_all literal_char w \<and> b' = (b \<or> w \<noteq> [])"
proof (induction w arbitrary: b)
  case (Cons c w)
  then have "literal_char c" "fold word_step w (Some True) = Some b'"
    by (auto simp: fold_word_None split: if_splits)
  with Cons show ?case by auto
qed simp

lemma fold_word_words:
  "\<forall>w \<in> set ws. SP \<notin> set w \<Longrightarrow> ws \<noteq> [] \<Longrightarrow>
   fold word_step (join [SP] ws) (Some False) = Some True \<Longrightarrow> \<forall>w \<in> set ws. keyword w"
proof (induction ws rule: induct_list012)
  case (2 w)
  then show ?case using fold_word_chars [of w False True] by (simp add: keyword_def)
next
  case (3 w w' ws)
  let ?rest = "fold word_step (join [SP] (w' # ws))"
  from "3.prems"(3) have r: "?rest (word_step SP (fold word_step w (Some False))) = Some True" by simp
  then obtain b where b: "fold word_step w (Some False) = Some b"
    by (cases "fold word_step w (Some False)") (auto simp: fold_word_None)
  with r have bT: "b = True" by (cases b) (auto simp: fold_word_None)
  with b "3.prems"(1) have "keyword w"
    using fold_word_chars [of w False True] by (simp add: keyword_def)
  moreover have "\<forall>v \<in> set (w' # ws). keyword v"
    by (rule "3.IH"(2)) (use "3.prems" r b bT in auto)
  ultimately show ?case by simp
qed simp

lemma word_list_words:
  assumes "word_list kws"
  shows "\<forall>w \<in> set (split_str [SP] kws). keyword w"
proof (rule fold_word_words)
  show "\<forall>w \<in> set (split_str [SP] kws). SP \<notin> set w" using split_single_pieces by blast
qed (use assms in \<open>simp_all add: word_list_def join_split split_str_nonempty\<close>)

lemma RegExp_word_list:
  assumes "word_list kws"
  shows "js_regex (GetKeywords kws) f =
    \<lparr>prog = alts (split_str [SP] kws), groups = 1, rflags = parse_flags f, lastIndex = 0\<rparr>"
  using RegExp_keywords [OF _ word_list_words [OF assms], of f]
  by (simp add: js_regex_def join_split split_str_nonempty)

lemmas word_pass = lit_append fold_append o_apply

text \<open>The words of a list, collected in one pass.\<close>

fun word_acc :: "jschar \<Rightarrow> jsstr \<times> jsstr list \<Rightarrow> jsstr \<times> jsstr list" where
  "word_acc c (cur, acc) = (if c = 32 then ([], rev cur # acc) else (c # cur, acc))"

lemma split_word_acc:
  "fold word_acc s (cur, acc) =
     (let ws = split_str [SP] (rev cur @ s) in (rev (last ws), rev (butlast ws) @ acc))"
  if "SP \<notin> set cur"
  using that
proof (induction s arbitrary: cur acc)
  case Nil
  then show ?case by (simp add: split_single_none)
next
  case (Cons c s)
  show ?case
  proof (cases "c = 32")
    case True
    with Cons.IH [of "[]" "rev cur # acc"] Cons.prems show ?thesis
      by (simp add: split_single_append split_str_nonempty Let_def)
  next
    case False
    with Cons.IH [of "c # cur" acc] Cons.prems show ?thesis by simp
  qed
qed

lemma split_words:
  "split_str [SP] s = (case fold word_acc s ([], []) of (cur, acc) \<Rightarrow> rev (rev cur # acc))"
  using split_word_acc [of "[]" s "[]"] by (simp add: Let_def split_str_nonempty)

text \<open>Whether a word is among them, in one pass with a small state: what is left of the word.\<close>

fun word_seek :: "jsstr \<Rightarrow> jschar \<Rightarrow> jsstr option \<times> bool \<Rightarrow> jsstr option \<times> bool" where
  "word_seek w c (st, found) =
     (if c = 32 then (Some w, found \<or> st = Some [])
      else (case st of Some (d # ds) \<Rightarrow> if c = d then Some ds else None | _ \<Rightarrow> None, found))"

definition sought :: "jsstr \<Rightarrow> jsstr \<Rightarrow> jsstr option" where
  "sought w cur = (if prefix (rev cur) w then Some (drop (length cur) w) else None)"

lemma sought_Nil_iff: "sought w cur = Some [] \<longleftrightarrow> rev cur = w"
  by (auto simp: sought_def prefix_def)

lemma sought_Cons:
  "sought w (c # cur) = (case sought w cur of Some (d # ds) \<Rightarrow> if c = d then Some ds else None | _ \<Rightarrow> None)"
proof (cases "prefix (rev cur) w")
  case True
  then obtain t where "w = rev cur @ t" by (auto simp: prefix_def)
  then show ?thesis by (cases t) (auto simp: sought_def)
next
  case False
  then have "\<not> prefix (rev cur @ [c]) w" using append_prefixD by blast
  with False show ?thesis by (simp add: sought_def)
qed

lemma word_seek_acc:
  "fold word_acc s (cur, acc) = (cur', acc') \<Longrightarrow>
   fold (word_seek w) s (sought w cur, w \<in> set acc) = (sought w cur', w \<in> set acc')"
proof (induction s arbitrary: cur acc)
  case (Cons c s)
  show ?case
  proof (cases "c = 32")
    case True
    have "sought w [] = Some w" by (simp add: sought_def)
    moreover have "(w \<in> set acc \<or> sought w cur = Some []) = (w \<in> set (rev cur # acc))"
      by (auto simp: sought_Nil_iff)
    ultimately show ?thesis
      using True Cons.IH [of "[]" "rev cur # acc"] Cons.prems by (simp del: list.set)
  next
    case False
    with Cons.IH [of "c # cur" acc] Cons.prems show ?thesis by (simp add: sought_Cons)
  qed
qed simp

lemma word_seek_iff:
  "snd (fold (word_seek w) s (Some w, False)) \<longleftrightarrow> w \<in> set (butlast (split_str [SP] s))"
proof -
  obtain cur acc where f: "fold word_acc s ([], []) = (cur, acc)" by fastforce
  have "sought w [] = Some w" by (simp add: sought_def)
  with word_seek_acc [OF f, of w] have "snd (fold (word_seek w) s (Some w, False)) \<longleftrightarrow> w \<in> set acc" by simp
  then show ?thesis by (simp add: split_words f)
qed

lemma word_seek_member:
  "snd (fold (word_seek w) s (Some w, False)) \<Longrightarrow> w \<in> set (split_str [SP] s)"
  by (auto simp: word_seek_iff dest: in_set_butlastD)

lemma word_seek_set:
  "w \<in> set (split_str [SP] s) \<longleftrightarrow>
   (case fold (word_seek w) s (Some w, False) of (st, found) \<Rightarrow> found \<or> st = Some [])"
proof -
  obtain cur acc where f: "fold word_acc s ([], []) = (cur, acc)" by fastforce
  have "sought w [] = Some w" by (simp add: sought_def)
  with word_seek_acc [OF f, of w] show ?thesis by (auto simp: split_words f sought_Nil_iff)
qed

section \<open>Expressions without flags\<close>

lemma map_canonicalize [simp]: "map (canonicalize no_flags) s = s"
  by (simp add: map_idI)

lemma test_no_flags:
  assumes "rflags re = no_flags"
  shows "test re s \<longleftrightarrow> (\<exists>i \<le> length s. m no_flags s (prog re) i (replicate (groups re) None) \<noteq> [])"
proof -
  have "test re s \<longleftrightarrow> (\<exists>i \<in> set [0..<Suc (length s)]. match_at re s i \<noteq> None)"
    using search_None [of re s "[0..<Suc (length s)]"] assms by (simp add: test_def exec_def del: upt_Suc)
  also have "\<dots> \<longleftrightarrow> (\<exists>i \<le> length s. m no_flags s (prog re) i (replicate (groups re) None) \<noteq> [])"
    using assms by (auto simp: match_at_def less_Suc_eq_le simp del: upt_Suc split: list.splits)
  finally show ?thesis .
qed

text \<open>An expression of ordinary characters is found exactly in the strings that contain them.\<close>

lemma test_seq_chars:
  assumes "rflags re = no_flags" and "prog re = seq_chars w REmpty"
  shows "test re s \<longleftrightarrow> sublist w s"
proof -
  have "m no_flags s (seq_chars w REmpty) i cs \<noteq> [] \<longleftrightarrow> take (length w) (drop i s) = w" if "i \<le> length s" for i cs
    using that by (auto simp: m_seq_chars dest: arg_cong [where f = length])
  moreover have "(\<exists>i \<le> length s. take (length w) (drop i s) = w) \<longleftrightarrow> sublist w s"
    by (metis append_take_drop_id sublist_appendI sublist_def append_eq_conv_conj le_add1 length_append)
  ultimately show ?thesis unfolding test_no_flags [OF assms(1)] assms(2) by blast
qed

end
