(* ===== verification/BrushContract.thy ===== *)
theory BrushContract
  imports Keywords
begin

text \<open>
  What \<open>Highlight\<close> relies on in a brush, as a locale: collecting the matches of a code ends,
  leaves the brush as it was (its expressions are shared between the highlighted blocks), and
  gives matches that are parts of the code with plain class names.  Proved once inside it:
  \<open>Highlight\<close> returns for every input, the bits it writes are the code, cut, exactly when no
  two matches that survive start at the same position, and the list has one item per line
  break of the text that was written.  \<open>rule_brush\<close> is the contract of a brush with a
  \<open>regexList\<close>; it gives the first one.
\<close>

definition plain_name :: "jsstr \<Rightarrow> bool" where
  "plain_name c \<longleftrightarrow> 60 \<notin> set c \<and> NL \<notin> set c"

definition matches_of :: "brush \<Rightarrow> jsstr \<Rightarrow> Match list" where
  "matches_of br cd = (case collect br (rules br) cd [] of Some (ms, _) \<Rightarrow> ms | None \<Rightarrow> [])"

definition source_of :: "jsstr option \<Rightarrow> jsstr" where
  "source_of input = (case input of None \<Rightarrow> [] | Some s \<Rightarrow> s)"

lemma plain_css_simps: "plain_css (t, None)" "plain_css (t, Some c) \<longleftrightarrow> plain_name c"
  by (simp_all add: plain_css_def plain_name_def)

lemma plain_cut:
  "\<forall>x \<in> set xs. plain_name (mcss x) \<Longrightarrow> b \<in> set (cut_live cd p xs) \<Longrightarrow> plain_css b"
proof (induction xs arbitrary: p)
  case (Cons x xs)
  from Cons.prems(2) consider "b = (Copy cd (int p) (int (mindex x)), None)"
    | "b = (mvalue x, Some (mcss x))" | "b \<in> set (cut_live cd (mindex x + mlength x) xs)"
    by (simp only: cut_live.simps list.set insert_iff) blast
  then show ?case
  proof cases
    case 3
    then show ?thesis using Cons.IH Cons.prems(1) by simp
  qed (use Cons.prems(1) in \<open>simp_all add: plain_css_simps\<close>)
qed (simp add: plain_css_simps)

lemma plain_bits:
  assumes "\<forall>x \<in> set ms. plain_name (mcss x)"
  shows "\<forall>b \<in> set (highlight_bits cd ms). plain_css b"
proof -
  have "\<forall>x \<in> set (survivors ms). plain_name (mcss x)"
    using assms survivors_subset [of ms] by blast
  from plain_cut [OF this, of _ cd 0] show ?thesis
    by (simp add: highlight_bits_def cut_bits_live plain_css_simps)
qed

locale matching_brush =
  fixes br :: brush
  assumes collects: "\<exists>ms. collect br (rules br) cd [] = Some (ms, rules br) \<and>
    (\<forall>x \<in> set ms. ok_in cd x \<and> plain_name (mcss x))"
begin

lemma collect_matches: "collect br (rules br) cd [] = Some (matches_of br cd, rules br)"
  using collects [of cd] by (auto simp: matches_of_def)

lemma matches_ok: "x \<in> set (matches_of br cd) \<Longrightarrow> ok_in cd x \<and> plain_name (mcss x)"
  using collects [of cd] by (auto simp: matches_of_def)

lemma highlights:
  "\<exists>h. Highlight w norm br o' fl input = Some h \<and> source_code h = source_of input \<and>
     code h = prepare o' (source_of input) \<and>
     bits h = highlight_bits (code h) (matches_of br (code h)) \<and>
     view h = SwitchToList w norm o' (foldl AddBit [] (bits h)) \<and>
     bar_attached h = (matches_of br (code h) \<noteq> [])"
  by (auto simp: Highlight_def Let_def source_of_def collect_matches)

lemma text_iff:
  "bit_text (highlight_bits cd (matches_of br cd)) = cd \<longleftrightarrow>
   distinct (map mindex (survivors (matches_of br cd)))"
  by (rule highlight_text_iff) (use matches_ok in blast)

lemma plain: "\<forall>b \<in> set (highlight_bits cd (matches_of br cd)). plain_css b"
  by (rule plain_bits) (use matches_ok in blast)

end

section \<open>Brushes with a list of rules\<close>

locale rule_brush =
  fixes br :: brush
  assumes default_collect: "collect br = ProcessRegexList"
    and good: "r \<in> set (rules br) \<Longrightarrow> good_rule r \<and> plain_name (snd r)"

sublocale rule_brush \<subseteq> matching_brush
proof
  fix cd
  have "\<forall>r \<in> set (rules br). good_rule r" using good by blast
  from ProcessRegexList_good [OF this, of cd "[]"] obtain new where
    "ProcessRegexList (rules br) cd [] = Some ([] @ new, rules br)"
    "\<forall>x \<in> set new. good_match cd x \<and> mcss x \<in> snd ` set (rules br)" by blast
  then show "\<exists>ms. collect br (rules br) cd [] = Some (ms, rules br) \<and>
      (\<forall>x \<in> set ms. ok_in cd x \<and> plain_name (mcss x))"
    using good by (auto simp: default_collect good_match_def image_iff)
qed

end
