(* ===== verification/Brushes.thy ===== *)
theory Brushes
  imports BrushContract
begin

text \<open>
  The brushes whose matches come from a list of regular expressions: the five expressions
  of \<open>dp.sh.RegexLib\<close> (\<open>shCore.js\<close>) and, per \<open>shBrush*.js\<close> file, the word lists, the
  \<open>regexList\<close> and the brush object (\<open>CssClass\<close>, \<open>Style\<close>).  The patterns are the source's
  strings, read by the pattern parser.  Each expression is global and cannot match the empty
  string (\<open>good_re\<close>), which is what makes the loop of \<open>GetMatches\<close> end; for the keyword
  rules this follows from a check of the word list (\<open>word_list\<close>).  So every brush here meets
  the contract \<open>rule_brush\<close>.
\<close>

section \<open>RegexLib\<close>

definition MultiLineCComments :: regexp where
  \<open>MultiLineCComments = js_regex (pat ''/`*[`s`S]*?`*/'') (lit ''gm'')\<close>

definition SingleLineCComments :: regexp where
  \<open>SingleLineCComments = js_regex (pat ''//.*$'') (lit ''gm'')\<close>

definition SingleLinePerlComments :: regexp where
  \<open>SingleLinePerlComments = js_regex (pat ''#.*$'') (lit ''gm'')\<close>

definition DoubleQuotedString :: regexp where
  \<open>DoubleQuotedString = js_regex (pat ''"(?:`.|(```")|[^`""])*"'') (lit ''g'')\<close>

definition SingleQuotedString :: regexp where
  \<open>SingleQuotedString = js_regex (pat ''~(?:`.|(```~)|[^`~~])*~'') (lit ''g'')\<close>

section \<open>The word lists\<close>

definition cpp_datatypes :: jsstr where
  "cpp_datatypes = lit (
     ''ATOM BOOL BOOLEAN BYTE CHAR COLORREF DWORD DWORDLONG DWORD_PTR '' @
     ''DWORD32 DWORD64 FLOAT HACCEL HALF_PTR HANDLE HBITMAP HBRUSH '' @
     ''HCOLORSPACE HCONV HCONVLIST HCURSOR HDC HDDEDATA HDESK HDROP HDWP '' @
     ''HENHMETAFILE HFILE HFONT HGDIOBJ HGLOBAL HHOOK HICON HINSTANCE HKEY '' @
     ''HKL HLOCAL HMENU HMETAFILE HMODULE HMONITOR HPALETTE HPEN HRESULT '' @
     ''HRGN HRSRC HSZ HWINSTA HWND INT INT_PTR INT32 INT64 LANGID LCID LCTYPE '' @
     ''LGRPID LONG LONGLONG LONG_PTR LONG32 LONG64 LPARAM LPBOOL LPBYTE LPCOLORREF '' @
     ''LPCSTR LPCTSTR LPCVOID LPCWSTR LPDWORD LPHANDLE LPINT LPLONG LPSTR LPTSTR '' @
     ''LPVOID LPWORD LPWSTR LRESULT PBOOL PBOOLEAN PBYTE PCHAR PCSTR PCTSTR PCWSTR '' @
     ''PDWORDLONG PDWORD_PTR PDWORD32 PDWORD64 PFLOAT PHALF_PTR PHANDLE PHKEY PINT '' @
     ''PINT_PTR PINT32 PINT64 PLCID PLONG PLONGLONG PLONG_PTR PLONG32 PLONG64 POINTER_32 '' @
     ''POINTER_64 PSHORT PSIZE_T PSSIZE_T PSTR PTBYTE PTCHAR PTSTR PUCHAR PUHALF_PTR '' @
     ''PUINT PUINT_PTR PUINT32 PUINT64 PULONG PULONGLONG PULONG_PTR PULONG32 PULONG64 '' @
     ''PUSHORT PVOID PWCHAR PWORD PWSTR SC_HANDLE SC_LOCK SERVICE_STATUS_HANDLE SHORT '' @
     ''SIZE_T SSIZE_T TBYTE TCHAR UCHAR UHALF_PTR UINT UINT_PTR UINT32 UINT64 ULONG '' @
     ''ULONGLONG ULONG_PTR ULONG32 ULONG64 USHORT USN VOID WCHAR WORD WPARAM WPARAM WPARAM '' @
     ''char bool short int __int32 __int64 __int8 __int16 long float double __wchar_t '' @
     ''clock_t _complex _dev_t _diskfree_t div_t ldiv_t _exception _EXCEPTION_POINTERS '' @
     ''FILE _finddata_t _finddatai64_t _wfinddata_t _wfinddatai64_t __finddata64_t '' @
     ''__wfinddata64_t _FPIEEE_RECORD fpos_t _HEAPINFO _HFILE lconv intptr_t '' @
     ''jmp_buf mbstate_t _off_t _onexit_t _PNH ptrdiff_t _purecall_handler '' @
     ''sig_atomic_t size_t _stat __stat64 _stati64 terminate_function '' @
     ''time_t __time64_t _timeb __timeb64 tm uintptr_t _utimbuf '' @
     ''va_list wchar_t wctrans_t wctype_t wint_t signed'')"

definition cpp_keywords :: jsstr where
  "cpp_keywords = lit (
     ''break case catch class const __finally __exception __try '' @
     ''const_cast continue private public protected __declspec '' @
     ''default delete deprecated dllexport dllimport do dynamic_cast '' @
     ''else enum explicit extern if for friend goto inline '' @
     ''mutable naked namespace new noinline noreturn nothrow '' @
     ''register reinterpret_cast return selectany '' @
     ''sizeof static static_cast struct switch template this '' @
     ''thread throw true false try typedef typeid typename union '' @
     ''using uuid virtual void volatile whcar_t while'')"

definition csharp_keywords :: jsstr where
  "csharp_keywords = lit (
     ''abstract as base bool break byte case catch char checked class const '' @
     ''continue decimal default delegate do double else enum event explicit '' @
     ''extern false finally fixed float for foreach get goto if implicit in int '' @
     ''interface internal is lock long namespace new null object operator out '' @
     ''override params private protected public readonly ref return sbyte sealed set '' @
     ''short sizeof stackalloc static string struct switch this throw true try '' @
     ''typeof uint ulong unchecked unsafe ushort using virtual void while'')"

definition css_keywords :: jsstr where
  "css_keywords = lit (
     ''ascent azimuth background-attachment background-color background-image background-position '' @
     ''background-repeat background baseline bbox border-collapse border-color border-spacing border-style border-top '' @
     ''border-right border-bottom border-left border-top-color border-right-color border-bottom-color border-left-color '' @
     ''border-top-style border-right-style border-bottom-style border-left-style border-top-width border-right-width '' @
     ''border-bottom-width border-left-width border-width border bottom cap-height caption-side centerline clear clip color '' @
     ''content counter-increment counter-reset cue-after cue-before cue cursor definition-src descent direction display '' @
     ''elevation empty-cells float font-size-adjust font-family font-size font-stretch font-style font-variant font-weight font '' @
     ''height letter-spacing line-height list-style-image list-style-position list-style-type list-style margin-top '' @
     ''margin-right margin-bottom margin-left margin marker-offset marks mathline max-height max-width min-height min-width orphans '' @
     ''outline-color outline-style outline-width outline overflow padding-top padding-right padding-bottom padding-left padding page '' @
     ''page-break-after page-break-before page-break-inside pause pause-after pause-before pitch pitch-range play-during position '' @
     ''quotes richness right size slope src speak-header speak-numeral speak-punctuation speak speech-rate stemh stemv stress '' @
     ''table-layout text-align text-decoration text-indent text-shadow text-transform unicode-bidi unicode-range units-per-em '' @
     ''vertical-align visibility voice-family volume white-space widows width widths word-spacing x-height z-index important'')"

definition css_values :: jsstr where
  "css_values = lit (
     ''above absolute all always aqua armenian attr aural auto avoid baseline behind below bidi-override black blink block blue bold bolder '' @
     ''both bottom braille capitalize caption center center-left center-right circle close-quote code collapse compact condensed '' @
     ''continuous counter counters crop cross crosshair cursive dashed decimal decimal-leading-zero default digits disc dotted double '' @
     ''embed embossed e-resize expanded extra-condensed extra-expanded fantasy far-left far-right fast faster fixed format fuchsia '' @
     ''gray green groove handheld hebrew help hidden hide high higher icon inline-table inline inset inside invert italic '' @
     ''justify landscape large larger left-side left leftwards level lighter lime line-through list-item local loud lower-alpha '' @
     ''lowercase lower-greek lower-latin lower-roman lower low ltr marker maroon medium message-box middle mix move narrower '' @
     ''navy ne-resize no-close-quote none no-open-quote no-repeat normal nowrap n-resize nw-resize oblique olive once open-quote outset '' @
     ''outside overline pointer portrait pre print projection purple red relative repeat repeat-x repeat-y rgb ridge right right-side '' @
     ''rightwards rtl run-in screen scroll semi-condensed semi-expanded separate se-resize show silent silver slower slow '' @
     ''small small-caps small-caption smaller soft solid speech spell-out square s-resize static status-bar sub super sw-resize '' @
     ''table-caption table-cell table-column table-column-group table-footer-group table-header-group table-row table-row-group teal '' @
     ''text-bottom text-top thick thin top transparent tty tv ultra-condensed ultra-expanded underline upper-alpha uppercase upper-latin '' @
     ''upper-roman url visible wait white wider w-resize x-fast x-high x-large x-loud x-low x-slow x-small x-soft xx-large xx-small yellow'')"

definition css_fonts :: jsstr where
  "css_fonts = lit (
     ''[mM]onospace [tT]ahoma [vV]erdana [aA]rial [hH]elvetica [sS]ans-serif [sS]erif'')"

definition delphi_keywords :: jsstr where
  "delphi_keywords = lit (
     ''abs addr and ansichar ansistring array as asm begin boolean byte cardinal '' @
     ''case char class comp const constructor currency destructor div do double '' @
     ''downto else end except exports extended false file finalization finally '' @
     ''for function goto if implementation in inherited int64 initialization '' @
     ''integer interface is label library longint longword mod nil not object '' @
     ''of on or packed pansichar pansistring pchar pcurrency pdatetime pextended '' @
     ''pint64 pointer private procedure program property pshortstring pstring '' @
     ''pvariant pwidechar pwidestring protected public published raise real real48 '' @
     ''record repeat set shl shortint shortstring shr single smallint string then '' @
     ''threadvar to true try type unit until uses val var varirnt while widechar '' @
     ''widestring with word write writeln xor'')"

definition java_keywords :: jsstr where
  "java_keywords = lit (
     ''abstract assert boolean break byte case catch char class const '' @
     ''continue default do double else enum extends '' @
     ''false final finally float for goto if implements import '' @
     ''instanceof int interface long native new null '' @
     ''package private protected public return '' @
     ''short static strictfp super switch synchronized this throw throws true '' @
     ''transient try void volatile while'')"

definition jscript_keywords :: jsstr where
  "jscript_keywords = lit (
     ''abstract boolean break byte case catch char class const continue debugger '' @
     ''default delete do double else enum export extends false final finally float '' @
     ''for function goto if implements import in instanceof int interface long native '' @
     ''new null package private protected public return short static super switch '' @
     ''synchronized this throw throws transient true try typeof var void volatile while with'')"

definition php_funcs :: jsstr where
  "php_funcs = lit (
     ''abs acos acosh addcslashes addslashes '' @
     ''array_change_key_case array_chunk array_combine array_count_values array_diff '' @
     ''array_diff_assoc array_diff_key array_diff_uassoc array_diff_ukey array_fill '' @
     ''array_filter array_flip array_intersect array_intersect_assoc array_intersect_key '' @
     ''array_intersect_uassoc array_intersect_ukey array_key_exists array_keys array_map '' @
     ''array_merge array_merge_recursive array_multisort array_pad array_pop array_product '' @
     ''array_push array_rand array_reduce array_reverse array_search array_shift '' @
     ''array_slice array_splice array_sum array_udiff array_udiff_assoc '' @
     ''array_udiff_uassoc array_uintersect array_uintersect_assoc '' @
     ''array_uintersect_uassoc array_unique array_unshift array_values array_walk '' @
     ''array_walk_recursive atan atan2 atanh base64_decode base64_encode base_convert '' @
     ''basename bcadd bccomp bcdiv bcmod bcmul bindec bindtextdomain bzclose bzcompress '' @
     ''bzdecompress bzerrno bzerror bzerrstr bzflush bzopen bzread bzwrite ceil chdir '' @
     ''checkdate checkdnsrr chgrp chmod chop chown chr chroot chunk_split class_exists '' @
     ''closedir closelog copy cos cosh count count_chars date decbin dechex decoct '' @
     ''deg2rad delete ebcdic2ascii echo empty end ereg ereg_replace eregi eregi_replace error_log '' @
     ''error_reporting escapeshellarg escapeshellcmd eval exec exit exp explode extension_loaded '' @
     ''feof fflush fgetc fgetcsv fgets fgetss file_exists file_get_contents file_put_contents '' @
     ''fileatime filectime filegroup fileinode filemtime fileowner fileperms filesize filetype '' @
     ''floatval flock floor flush fmod fnmatch fopen fpassthru fprintf fputcsv fputs fread fscanf '' @
     ''fseek fsockopen fstat ftell ftok getallheaders getcwd getdate getenv gethostbyaddr gethostbyname '' @
     ''gethostbynamel getimagesize getlastmod getmxrr getmygid getmyinode getmypid getmyuid getopt '' @
     ''getprotobyname getprotobynumber getrandmax getrusage getservbyname getservbyport gettext '' @
     ''gettimeofday gettype glob gmdate gmmktime ini_alter ini_get ini_get_all ini_restore ini_set '' @
     ''interface_exists intval ip2long is_a is_array is_bool is_callable is_dir is_double '' @
     ''is_executable is_file is_finite is_float is_infinite is_int is_integer is_link is_long '' @
     ''is_nan is_null is_numeric is_object is_readable is_real is_resource is_scalar is_soap_fault '' @
     ''is_string is_subclass_of is_uploaded_file is_writable is_writeable mkdir mktime nl2br '' @
     ''parse_ini_file parse_str parse_url passthru pathinfo readlink realpath rewind rewinddir rmdir '' @
     ''round str_ireplace str_pad str_repeat str_replace str_rot13 str_shuffle str_split '' @
     ''str_word_count strcasecmp strchr strcmp strcoll strcspn strftime strip_tags stripcslashes '' @
     ''stripos stripslashes stristr strlen strnatcasecmp strnatcmp strncasecmp strncmp strpbrk '' @
     ''strpos strptime strrchr strrev strripos strrpos strspn strstr strtok strtolower strtotime '' @
     ''strtoupper strtr strval substr substr_compare'')"

definition php_keywords :: jsstr where
  "php_keywords = lit (
     ''and or xor __FILE__ __LINE__ array as break case '' @
     ''cfunction class const continue declare default die do else '' @
     ''elseif empty enddeclare endfor endforeach endif endswitch endwhile '' @
     ''extends for foreach function include include_once global if '' @
     ''new old_function return static switch use require require_once '' @
     ''var while __FUNCTION__ __CLASS__ '' @
     ''__METHOD__ abstract interface public implements extends private protected throw'')"

definition python_keywords :: jsstr where
  "python_keywords = lit (
     ''and assert break class continue def del elif else '' @
     ''except exec finally for from global if import in is '' @
     ''lambda not or pass print raise return try yield while'')"

definition python_special :: jsstr where
  "python_special = lit (
     ''None True False self cls class_'')"

definition ruby_keywords :: jsstr where
  "ruby_keywords = lit (
     ''alias and BEGIN begin break case class def define_method defined do each else elsif '' @
     ''END end ensure false for if in module new next nil not or raise redo rescue retry return '' @
     ''self super then throw true undef unless until when while yield'')"

definition ruby_builtins :: jsstr where
  "ruby_builtins = lit (
     ''Array Bignum Binding Class Continuation Dir Exception FalseClass File::Stat File Fixnum Fload '' @
     ''Hash Integer IO MatchData Method Module NilClass Numeric Object Proc Range Regexp String Struct::TMS Symbol '' @
     ''ThreadGroup Thread Time TrueClass'')"

definition sql_funcs :: jsstr where
  "sql_funcs = lit (
     ''abs avg case cast coalesce convert count current_timestamp '' @
     ''current_user day isnull left lower month nullif replace right '' @
     ''session_user space substring sum system_user upper user year'')"

definition sql_keywords :: jsstr where
  "sql_keywords = lit (
     ''absolute action add after alter as asc at authorization begin bigint '' @
     ''binary bit by cascade char character check checkpoint close collate '' @
     ''column commit committed connect connection constraint contains continue '' @
     ''create cube current current_date current_time cursor database date '' @
     ''deallocate dec decimal declare default delete desc distinct double drop '' @
     ''dynamic else end end-exec escape except exec execute false fetch first '' @
     ''float for force foreign forward free from full function global goto grant '' @
     ''group grouping having hour ignore index inner insensitive insert instead '' @
     ''int integer intersect into is isolation key last level load local max min '' @
     ''minute modify move name national nchar next no numeric of off on only '' @
     ''open option order out output partial password precision prepare primary '' @
     ''prior privileges procedure public read real references relative repeatable '' @
     ''restrict return returns revoke rollback rollup rows rule schema scroll '' @
     ''second section select sequence serializable set size smallint static '' @
     ''statistics table temp temporary then time timestamp to top transaction '' @
     ''translation trigger true truncate uncommitted union unique update values '' @
     ''varchar varying view when where with work'')"

definition sql_operators :: jsstr where
  "sql_operators = lit (
     ''all and any between cross in join like not null or outer some'')"

definition vb_keywords :: jsstr where
  "vb_keywords = lit (
     ''AddHandler AddressOf AndAlso Alias And Ansi As Assembly Auto '' @
     ''Boolean ByRef Byte ByVal Call Case Catch CBool CByte CChar CDate '' @
     ''CDec CDbl Char CInt Class CLng CObj Const CShort CSng CStr CType '' @
     ''Date Decimal Declare Default Delegate Dim DirectCast Do Double Each '' @
     ''Else ElseIf End Enum Erase Error Event Exit False Finally For Friend '' @
     ''Function Get GetType GoSub GoTo Handles If Implements Imports In '' @
     ''Inherits Integer Interface Is Let Lib Like Long Loop Me Mod Module '' @
     ''MustInherit MustOverride MyBase MyClass Namespace New Next Not Nothing '' @
     ''NotInheritable NotOverridable Object On Option Optional Or OrElse '' @
     ''Overloads Overridable Overrides ParamArray Preserve Private Property '' @
     ''Protected Public RaiseEvent ReadOnly ReDim REM RemoveHandler Resume '' @
     ''Return Select Set Shadows Shared Short Single Static Step Stop String '' @
     ''Structure Sub SyncLock Then Throw To True Try TypeOf Unicode Until '' @
     ''Variant When While With WithEvents WriteOnly Xor'')"

section \<open>The rules and the brushes\<close>

definition Cpp_regexList :: "rule list" where
  \<open>Cpp_regexList =
    [(SingleLineCComments, lit ''comment''),
     (MultiLineCComments, lit ''comment''),
     (DoubleQuotedString, lit ''string''),
     (SingleQuotedString, lit ''string''),
     (js_regex (pat ''^ *#.*'') (lit ''gm''), lit ''preprocessor''),
     (js_regex (GetKeywords cpp_datatypes) (lit ''gm''), lit ''datatypes''),
     (js_regex (GetKeywords cpp_keywords) (lit ''gm''), lit ''keyword'')]\<close>

definition Cpp_Aliases :: "jsstr list" where
  "Cpp_Aliases = [lit ''cpp'', lit ''c'', lit ''c++'']"

definition Cpp :: brush where
  \<open>Cpp = \<lparr>rules = Cpp_regexList, collect = ProcessRegexList,
     CssClass = Some (lit ''dp-cpp''),
     Style = Some (lit (''.dp-cpp .datatypes { color: #2E8B57; font-weight: bold; }''))\<rparr>\<close>

definition CSharp_regexList :: "rule list" where
  \<open>CSharp_regexList =
    [(SingleLineCComments, lit ''comment''),
     (MultiLineCComments, lit ''comment''),
     (DoubleQuotedString, lit ''string''),
     (SingleQuotedString, lit ''string''),
     (js_regex (pat ''^`s*#.*'') (lit ''gm''), lit ''preprocessor''),
     (js_regex (GetKeywords csharp_keywords) (lit ''gm''), lit ''keyword'')]\<close>

definition CSharp_Aliases :: "jsstr list" where
  "CSharp_Aliases = [lit ''c#'', lit ''c-sharp'', lit ''csharp'']"

definition CSharp :: brush where
  \<open>CSharp = \<lparr>rules = CSharp_regexList, collect = ProcessRegexList,
     CssClass = Some (lit ''dp-c''),
     Style = Some (lit (''.dp-c .vars { color: #d00; }''))\<rparr>\<close>

definition CSS_regexList :: "rule list" where
  \<open>CSS_regexList =
    [(MultiLineCComments, lit ''comment''),
     (DoubleQuotedString, lit ''string''),
     (SingleQuotedString, lit ''string''),
     (js_regex (pat ''`#[a-zA-Z0-9]{3,6}'') (lit ''g''), lit ''colors''),
     (js_regex (pat ''(`d+)(px|pt|:)'') (lit ''g''), lit ''string''),
     (js_regex (GetKeywords css_keywords) (lit ''gm''), lit ''keyword''),
     (js_regex (GetKeywords css_values) (lit ''g''), lit ''string''),
     (js_regex (GetKeywords css_fonts) (lit ''g''), lit ''string'')]\<close>

definition CSS_Aliases :: "jsstr list" where
  "CSS_Aliases = [lit ''css'']"

definition CSS :: brush where
  \<open>CSS = \<lparr>rules = CSS_regexList, collect = ProcessRegexList,
     CssClass = Some (lit ''dp-css''),
     Style = Some (lit (''.dp-css .colors { color: darkred; }'' @
      ''.dp-css .vars { color: #d00; }''))\<rparr>\<close>

definition Delphi_regexList :: "rule list" where
  \<open>Delphi_regexList =
    [(js_regex (pat ''`(`*[`s`S]*?`*`)'') (lit ''gm''), lit ''comment''),
     (js_regex (pat ''{(?!`$)[`s`S]*?}'') (lit ''gm''), lit ''comment''),
     (SingleLineCComments, lit ''comment''),
     (SingleQuotedString, lit ''string''),
     (js_regex (pat ''`{`$[a-zA-Z]+ .+`}'') (lit ''g''), lit ''directive''),
     (js_regex (pat ''`b[`d`.]+`b'') (lit ''g''), lit ''number''),
     (js_regex (pat ''`$[a-zA-Z0-9]+`b'') (lit ''g''), lit ''number''),
     (js_regex (GetKeywords delphi_keywords) (lit ''gm''), lit ''keyword'')]\<close>

definition Delphi_Aliases :: "jsstr list" where
  "Delphi_Aliases = [lit ''delphi'', lit ''pascal'']"

definition Delphi :: brush where
  \<open>Delphi = \<lparr>rules = Delphi_regexList, collect = ProcessRegexList,
     CssClass = Some (lit ''dp-delphi''),
     Style = Some (lit (''.dp-delphi .number { color: blue; }'' @
      ''.dp-delphi .directive { color: #008284; }'' @
      ''.dp-delphi .vars { color: #000; }''))\<rparr>\<close>

definition Java_regexList :: "rule list" where
  \<open>Java_regexList =
    [(SingleLineCComments, lit ''comment''),
     (MultiLineCComments, lit ''comment''),
     (DoubleQuotedString, lit ''string''),
     (SingleQuotedString, lit ''string''),
     (js_regex (pat ''`b([`d]+(`.[`d]+)?|0x[a-f0-9]+)`b'') (lit ''gi''), lit ''number''),
     (js_regex (pat ''(?!`@interface`b)`@[`$`w]+`b'') (lit ''g''), lit ''annotation''),
     (js_regex (pat ''`@interface`b'') (lit ''g''), lit ''keyword''),
     (js_regex (GetKeywords java_keywords) (lit ''gm''), lit ''keyword'')]\<close>

definition Java_Aliases :: "jsstr list" where
  "Java_Aliases = [lit ''java'']"

definition Java :: brush where
  \<open>Java = \<lparr>rules = Java_regexList, collect = ProcessRegexList,
     CssClass = Some (lit ''dp-j''),
     Style = Some (lit (''.dp-j .annotation { color: #646464; }'' @
      ''.dp-j .number { color: #C00000; }''))\<rparr>\<close>

definition JScript_regexList :: "rule list" where
  \<open>JScript_regexList =
    [(SingleLineCComments, lit ''comment''),
     (MultiLineCComments, lit ''comment''),
     (DoubleQuotedString, lit ''string''),
     (SingleQuotedString, lit ''string''),
     (js_regex (pat ''^`s*#.*'') (lit ''gm''), lit ''preprocessor''),
     (js_regex (GetKeywords jscript_keywords) (lit ''gm''), lit ''keyword'')]\<close>

definition JScript_Aliases :: "jsstr list" where
  "JScript_Aliases = [lit ''js'', lit ''jscript'', lit ''javascript'']"

definition JScript :: brush where
  \<open>JScript = \<lparr>rules = JScript_regexList, collect = ProcessRegexList,
     CssClass = Some (lit ''dp-c''),
     Style = None\<rparr>\<close>

definition Php_regexList :: "rule list" where
  \<open>Php_regexList =
    [(SingleLineCComments, lit ''comment''),
     (MultiLineCComments, lit ''comment''),
     (DoubleQuotedString, lit ''string''),
     (SingleQuotedString, lit ''string''),
     (js_regex (pat ''`$`w+'') (lit ''g''), lit ''vars''),
     (js_regex (GetKeywords php_funcs) (lit ''gmi''), lit ''func''),
     (js_regex (GetKeywords php_keywords) (lit ''gm''), lit ''keyword'')]\<close>

definition Php_Aliases :: "jsstr list" where
  "Php_Aliases = [lit ''php'']"

definition Php :: brush where
  \<open>Php = \<lparr>rules = Php_regexList, collect = ProcessRegexList,
     CssClass = Some (lit ''dp-c''),
     Style = None\<rparr>\<close>

definition Python_regexList :: "rule list" where
  \<open>Python_regexList =
    [(SingleLinePerlComments, lit ''comment''),
     (js_regex (pat ''^`s*@`w+'') (lit ''gm''), lit ''decorator''),
     (js_regex (pat ''([~"]{3})([^`1])*?`1'') (lit ''gm''), lit ''comment''),
     (js_regex (pat ''"(?!")(?:`.|```"|[^`""`n`r])*"'') (lit ''gm''), lit ''string''),
     (js_regex (pat ''~(?!~)*(?:`.|(```~)|[^`~~`n`r])*~'') (lit ''gm''), lit ''string''),
     (js_regex (pat ''`b`d+`.?`w*'') (lit ''g''), lit ''number''),
     (js_regex (GetKeywords python_keywords) (lit ''gm''), lit ''keyword''),
     (js_regex (GetKeywords python_special) (lit ''gm''), lit ''special'')]\<close>

definition Python_Aliases :: "jsstr list" where
  "Python_Aliases = [lit ''py'', lit ''python'']"

definition Python :: brush where
  \<open>Python = \<lparr>rules = Python_regexList, collect = ProcessRegexList,
     CssClass = Some (lit ''dp-py''),
     Style = Some (lit (''.dp-py .builtins { color: #ff1493; }'' @
      ''.dp-py .magicmethods { color: #808080; }'' @
      ''.dp-py .exceptions { color: brown; }'' @
      ''.dp-py .types { color: brown; font-style: italic; }'' @
      ''.dp-py .commonlibs { color: #8A2BE2; font-style: italic; }''))\<rparr>\<close>

definition Ruby_regexList :: "rule list" where
  \<open>Ruby_regexList =
    [(SingleLinePerlComments, lit ''comment''),
     (DoubleQuotedString, lit ''string''),
     (SingleQuotedString, lit ''string''),
     (js_regex (pat '':[a-z][A-Za-z0-9_]*'') (lit ''g''), lit ''symbol''),
     (js_regex (pat ''(`$|@@|@)`w+'') (lit ''g''), lit ''variable''),
     (js_regex (GetKeywords ruby_keywords) (lit ''gm''), lit ''keyword''),
     (js_regex (GetKeywords ruby_builtins) (lit ''gm''), lit ''builtin'')]\<close>

definition Ruby_Aliases :: "jsstr list" where
  "Ruby_Aliases = [lit ''ruby'', lit ''rails'', lit ''ror'']"

definition Ruby :: brush where
  \<open>Ruby = \<lparr>rules = Ruby_regexList, collect = ProcessRegexList,
     CssClass = Some (lit ''dp-rb''),
     Style = Some (lit (''.dp-rb .symbol { color: #a70; }'' @
      ''.dp-rb .variable { color: #a70; font-weight: bold; }''))\<rparr>\<close>

definition Sql_regexList :: "rule list" where
  \<open>Sql_regexList =
    [(js_regex (pat ''--(.*)$'') (lit ''gm''), lit ''comment''),
     (DoubleQuotedString, lit ''string''),
     (SingleQuotedString, lit ''string''),
     (js_regex (GetKeywords sql_funcs) (lit ''gmi''), lit ''func''),
     (js_regex (GetKeywords sql_operators) (lit ''gmi''), lit ''op''),
     (js_regex (GetKeywords sql_keywords) (lit ''gmi''), lit ''keyword'')]\<close>

definition Sql_Aliases :: "jsstr list" where
  "Sql_Aliases = [lit ''sql'']"

definition Sql :: brush where
  \<open>Sql = \<lparr>rules = Sql_regexList, collect = ProcessRegexList,
     CssClass = Some (lit ''dp-sql''),
     Style = Some (lit (''.dp-sql .func { color: #ff1493; }'' @
      ''.dp-sql .op { color: #808080; }''))\<rparr>\<close>

definition Vb_regexList :: "rule list" where
  \<open>Vb_regexList =
    [(js_regex (pat ''~.*$'') (lit ''gm''), lit ''comment''),
     (DoubleQuotedString, lit ''string''),
     (js_regex (pat ''^`s*#.*'') (lit ''gm''), lit ''preprocessor''),
     (js_regex (GetKeywords vb_keywords) (lit ''gm''), lit ''keyword'')]\<close>

definition Vb_Aliases :: "jsstr list" where
  "Vb_Aliases = [lit ''vb'', lit ''vb.net'']"

definition Vb :: brush where
  \<open>Vb = \<lparr>rules = Vb_regexList, collect = ProcessRegexList,
     CssClass = Some (lit ''dp-vb''),
     Style = None\<rparr>\<close>

section \<open>Every rule is good\<close>

definition good_re :: "regexp \<Rightarrow> bool" where
  "good_re re \<longleftrightarrow> global (rflags re) \<and> lastIndex re = 0 \<and> 0 < minlen (prog re)"

lemma good_rule_re: "good_rule (re, css) \<longleftrightarrow> good_re re"
  by (simp add: good_rule_def good_re_def)

lemma good_word_list:
  assumes "word_list kws" and "103 \<in> set f"
  shows "good_re (js_regex (GetKeywords kws) f)"
  using minlen_alts [of "split_str [SP] kws"] word_list_words [OF assms(1)] assms
  by (auto simp: good_re_def RegExp_word_list parse_flags_def split_str_nonempty keyword_def)


lemma word_list_cpp_datatypes: "word_list cpp_datatypes"
  unfolding word_list_def cpp_datatypes_def word_pass by (simp add: lit_def literal_char_def)

lemma word_list_cpp_keywords: "word_list cpp_keywords"
  unfolding word_list_def cpp_keywords_def word_pass by (simp add: lit_def literal_char_def)

lemma word_list_csharp_keywords: "word_list csharp_keywords"
  unfolding word_list_def csharp_keywords_def word_pass by (simp add: lit_def literal_char_def)

lemma word_list_css_keywords: "word_list css_keywords"
  unfolding word_list_def css_keywords_def word_pass by (simp add: lit_def literal_char_def)

lemma word_list_css_values: "word_list css_values"
  unfolding word_list_def css_values_def word_pass by (simp add: lit_def literal_char_def)

lemma word_list_delphi_keywords: "word_list delphi_keywords"
  unfolding word_list_def delphi_keywords_def word_pass by (simp add: lit_def literal_char_def)

lemma word_list_java_keywords: "word_list java_keywords"
  unfolding word_list_def java_keywords_def word_pass by (simp add: lit_def literal_char_def)

lemma word_list_jscript_keywords: "word_list jscript_keywords"
  unfolding word_list_def jscript_keywords_def word_pass by (simp add: lit_def literal_char_def)

lemma word_list_php_funcs: "word_list php_funcs"
  unfolding word_list_def php_funcs_def word_pass by (simp add: lit_def literal_char_def)

lemma word_list_php_keywords: "word_list php_keywords"
  unfolding word_list_def php_keywords_def word_pass by (simp add: lit_def literal_char_def)

lemma word_list_python_keywords: "word_list python_keywords"
  unfolding word_list_def python_keywords_def word_pass by (simp add: lit_def literal_char_def)

lemma word_list_python_special: "word_list python_special"
  unfolding word_list_def python_special_def word_pass by (simp add: lit_def literal_char_def)

lemma word_list_ruby_keywords: "word_list ruby_keywords"
  unfolding word_list_def ruby_keywords_def word_pass by (simp add: lit_def literal_char_def)

lemma word_list_ruby_builtins: "word_list ruby_builtins"
  unfolding word_list_def ruby_builtins_def word_pass by (simp add: lit_def literal_char_def)

lemma word_list_sql_funcs: "word_list sql_funcs"
  unfolding word_list_def sql_funcs_def word_pass by (simp add: lit_def literal_char_def)

lemma word_list_sql_keywords: "word_list sql_keywords"
  unfolding word_list_def sql_keywords_def word_pass by (simp add: lit_def literal_char_def)

lemma word_list_sql_operators: "word_list sql_operators"
  unfolding word_list_def sql_operators_def word_pass by (simp add: lit_def literal_char_def)

lemma word_list_vb_keywords: "word_list vb_keywords"
  unfolding word_list_def vb_keywords_def word_pass by (simp add: lit_def literal_char_def)

lemmas word_lists =
  word_list_cpp_datatypes
  word_list_cpp_keywords
  word_list_csharp_keywords
  word_list_css_keywords
  word_list_css_values
  word_list_delphi_keywords
  word_list_java_keywords
  word_list_jscript_keywords
  word_list_php_funcs
  word_list_php_keywords
  word_list_python_keywords
  word_list_python_special
  word_list_ruby_keywords
  word_list_ruby_builtins
  word_list_sql_funcs
  word_list_sql_keywords
  word_list_sql_operators
  word_list_vb_keywords

lemma good_MultiLineCComments: "good_re MultiLineCComments"
  by (simp add: good_re_def MultiLineCComments_def js_eval)

lemma good_SingleLineCComments: "good_re SingleLineCComments"
  by (simp add: good_re_def SingleLineCComments_def js_eval)

lemma good_SingleLinePerlComments: "good_re SingleLinePerlComments"
  by (simp add: good_re_def SingleLinePerlComments_def js_eval)

lemma good_DoubleQuotedString: "good_re DoubleQuotedString"
  by (simp add: good_re_def DoubleQuotedString_def js_eval)

lemma good_SingleQuotedString: "good_re SingleQuotedString"
  by (simp add: good_re_def SingleQuotedString_def js_eval)

lemma good_re1: \<open>good_re (js_regex (pat ''^ *#.*'') (lit ''gm''))\<close>
  by (simp add: good_re_def js_eval)

lemma good_re2: \<open>good_re (js_regex (pat ''^`s*#.*'') (lit ''gm''))\<close>
  by (simp add: good_re_def js_eval)

lemma good_re3: \<open>good_re (js_regex (pat ''`#[a-zA-Z0-9]{3,6}'') (lit ''g''))\<close>
  by (simp add: good_re_def js_eval)

lemma good_re4: \<open>good_re (js_regex (pat ''(`d+)(px|pt|:)'') (lit ''g''))\<close>
  by (simp add: good_re_def js_eval)

lemma good_re5: \<open>good_re (js_regex (pat ''`(`*[`s`S]*?`*`)'') (lit ''gm''))\<close>
  by (simp add: good_re_def js_eval)

lemma good_re6: \<open>good_re (js_regex (pat ''{(?!`$)[`s`S]*?}'') (lit ''gm''))\<close>
  by (simp add: good_re_def js_eval)

lemma good_re7: \<open>good_re (js_regex (pat ''`{`$[a-zA-Z]+ .+`}'') (lit ''g''))\<close>
  by (simp add: good_re_def js_eval)

lemma good_re8: \<open>good_re (js_regex (pat ''`b[`d`.]+`b'') (lit ''g''))\<close>
  by (simp add: good_re_def js_eval)

lemma good_re9: \<open>good_re (js_regex (pat ''`$[a-zA-Z0-9]+`b'') (lit ''g''))\<close>
  by (simp add: good_re_def js_eval)

lemma good_re10: \<open>good_re (js_regex (pat ''`b([`d]+(`.[`d]+)?|0x[a-f0-9]+)`b'') (lit ''gi''))\<close>
  by (simp add: good_re_def js_eval)

lemma good_re11: \<open>good_re (js_regex (pat ''(?!`@interface`b)`@[`$`w]+`b'') (lit ''g''))\<close>
  by (simp add: good_re_def js_eval)

lemma good_re12: \<open>good_re (js_regex (pat ''`@interface`b'') (lit ''g''))\<close>
  by (simp add: good_re_def js_eval)

lemma good_re13: \<open>good_re (js_regex (pat ''`$`w+'') (lit ''g''))\<close>
  by (simp add: good_re_def js_eval)

lemma good_re14: \<open>good_re (js_regex (pat ''^`s*@`w+'') (lit ''gm''))\<close>
  by (simp add: good_re_def js_eval)

lemma good_re15: \<open>good_re (js_regex (pat ''([~"]{3})([^`1])*?`1'') (lit ''gm''))\<close>
  by (simp add: good_re_def js_eval)

lemma good_re16: \<open>good_re (js_regex (pat ''"(?!")(?:`.|```"|[^`""`n`r])*"'') (lit ''gm''))\<close>
  by (simp add: good_re_def js_eval)

lemma good_re17: \<open>good_re (js_regex (pat ''~(?!~)*(?:`.|(```~)|[^`~~`n`r])*~'') (lit ''gm''))\<close>
  by (simp add: good_re_def js_eval)

lemma good_re18: \<open>good_re (js_regex (pat ''`b`d+`.?`w*'') (lit ''g''))\<close>
  by (simp add: good_re_def js_eval)

lemma good_re19: \<open>good_re (js_regex (pat '':[a-z][A-Za-z0-9_]*'') (lit ''g''))\<close>
  by (simp add: good_re_def js_eval)

lemma good_re20: \<open>good_re (js_regex (pat ''(`$|@@|@)`w+'') (lit ''g''))\<close>
  by (simp add: good_re_def js_eval)

lemma good_re21: \<open>good_re (js_regex (pat ''--(.*)$'') (lit ''gm''))\<close>
  by (simp add: good_re_def js_eval)

lemma good_re22: \<open>good_re (js_regex (pat ''~.*$'') (lit ''gm''))\<close>
  by (simp add: good_re_def js_eval)

lemma good_fonts: "good_re (js_regex (GetKeywords css_fonts) (lit ''g''))"
  by (simp add: good_re_def css_fonts_def js_eval)

lemmas good_res = good_fonts good_MultiLineCComments good_SingleLineCComments good_SingleLinePerlComments
  good_DoubleQuotedString good_SingleQuotedString
  good_re1 good_re2 good_re3 good_re4 good_re5 good_re6 good_re7 good_re8 good_re9 good_re10 good_re11 good_re12 good_re13 good_re14 good_re15 good_re16 good_re17 good_re18 good_re19 good_re20 good_re21 good_re22

section \<open>The contract\<close>

lemma plain_names:
  "plain_name (lit ''comment'')"
  "plain_name (lit ''string'')"
  "plain_name (lit ''preprocessor'')"
  "plain_name (lit ''datatypes'')"
  "plain_name (lit ''keyword'')"
  "plain_name (lit ''colors'')"
  "plain_name (lit ''directive'')"
  "plain_name (lit ''number'')"
  "plain_name (lit ''annotation'')"
  "plain_name (lit ''vars'')"
  "plain_name (lit ''func'')"
  "plain_name (lit ''decorator'')"
  "plain_name (lit ''special'')"
  "plain_name (lit ''symbol'')"
  "plain_name (lit ''variable'')"
  "plain_name (lit ''builtin'')"
  "plain_name (lit ''op'')"
  by (simp_all add: plain_name_def lit_def)

lemma in_flags: "103 \<in> set (lit ''g'')" "103 \<in> set (lit ''gm'')" "103 \<in> set (lit ''gmi'')"
  by (simp_all add: lit_def)

lemmas rule_facts = good_rule_re good_res good_word_list word_lists plain_names in_flags

interpretation Cpp: rule_brush Cpp
  by unfold_locales (auto simp: Cpp_def Cpp_regexList_def rule_facts)

interpretation CSharp: rule_brush CSharp
  by unfold_locales (auto simp: CSharp_def CSharp_regexList_def rule_facts)

interpretation CSS: rule_brush CSS
  by unfold_locales (auto simp: CSS_def CSS_regexList_def rule_facts)

interpretation Delphi: rule_brush Delphi
  by unfold_locales (auto simp: Delphi_def Delphi_regexList_def rule_facts)

interpretation Java: rule_brush Java
  by unfold_locales (auto simp: Java_def Java_regexList_def rule_facts)

interpretation JScript: rule_brush JScript
  by unfold_locales (auto simp: JScript_def JScript_regexList_def rule_facts)

interpretation Php: rule_brush Php
  by unfold_locales (auto simp: Php_def Php_regexList_def rule_facts)

interpretation Python: rule_brush Python
  by unfold_locales (auto simp: Python_def Python_regexList_def rule_facts)

interpretation Ruby: rule_brush Ruby
  by unfold_locales (auto simp: Ruby_def Ruby_regexList_def rule_facts)

interpretation Sql: rule_brush Sql
  by unfold_locales (auto simp: Sql_def Sql_regexList_def rule_facts)

interpretation Vb: rule_brush Vb
  by unfold_locales (auto simp: Vb_def Vb_regexList_def rule_facts)

end
