(* ===== verification/RegexCaps.thy ===== *)
theory RegexCaps
  imports RegExpObj
begin

text \<open>
  Captures: every captured substring lies within the match (\<open>m_within\<close>), so the text of a
  group occurs in the text of the match, and a group that the rest of the pattern does not
  mention keeps its capture (\<open>m_leaves\<close>).  The XML brush relies on both: it takes groups of
  a match and looks up where they stand with \<open>indexOf\<close>.
\<close>

section \<open>Within the match\<close>

definition within :: "nat \<Rightarrow> nat \<Rightarrow> caps \<Rightarrow> bool" where
  "within lo hi cs \<longleftrightarrow> (\<forall>a b. Some (a, b) \<in> set cs \<longrightarrow> lo \<le> a \<and> a \<le> b \<and> b \<le> hi)"

definition keeps_within :: "nat \<Rightarrow> matcher \<Rightarrow> bool" where
  "keeps_within n f \<longleftrightarrow>
     (\<forall>lo i cs j cs'. i \<le> n \<longrightarrow> lo \<le> i \<longrightarrow> within lo i cs \<longrightarrow> (j, cs') \<in> set (f i cs) \<longrightarrow> within lo j cs')"

lemma keeps_withinI:
  "(\<And>lo i cs j cs'. i \<le> n \<Longrightarrow> lo \<le> i \<Longrightarrow> within lo i cs \<Longrightarrow> (j, cs') \<in> set (f i cs) \<Longrightarrow> within lo j cs')
   \<Longrightarrow> keeps_within n f"
  by (auto simp: keeps_within_def)

lemma keeps_withinD:
  "keeps_within n f \<Longrightarrow> (j, cs') \<in> set (f i cs) \<Longrightarrow> i \<le> n \<Longrightarrow> lo \<le> i \<Longrightarrow> within lo i cs \<Longrightarrow> within lo j cs'"
  by (auto simp: keeps_within_def)

lemma within_mono: "within lo hi cs \<Longrightarrow> hi \<le> hi' \<Longrightarrow> within lo hi' cs"
  unfolding within_def by (meson le_trans)

lemma within_reset: "within lo hi cs \<Longrightarrow> within lo hi (reset_caps a b cs)"
proof -
  assume w: "within lo hi cs"
  have "x \<in> set (reset_caps a b cs) \<Longrightarrow> x = None \<or> x \<in> set cs" for x
    by (auto simp: reset_caps_def split: if_splits)
  with w show ?thesis unfolding within_def by (metis option.distinct(1))
qed

lemma within_update: "within lo hi cs \<Longrightarrow> lo \<le> a \<Longrightarrow> a \<le> hi \<Longrightarrow> within lo hi (cs[n := Some (a, hi)])"
  unfolding within_def using set_update_subset_insert [of cs n "Some (a, hi)"] by blast

lemma repeat_within:
  assumes f: "consumes n d f" "keeps_within n f" and rs: "\<And>lo hi cs. within lo hi cs \<Longrightarrow> within lo hi (rs cs)"
  shows "(j, cs') \<in> set (repeat k f rs mn mx greedy i cs) \<Longrightarrow> i \<le> n \<Longrightarrow> lo \<le> i \<Longrightarrow> within lo i cs \<Longrightarrow>
    within lo j cs'"
proof (induction k arbitrary: mn mx i cs)
  case (Suc k)
  consider (stop) "j = i" "cs' = cs"
    | (more) i1 cs1 where "(i1, cs1) \<in> set (f i (rs cs))"
        "(j, cs') \<in> set (repeat k f rs (mn - 1) (map_option (\<lambda>x. x - 1) mx) greedy i1 cs1)"
    using Suc.prems(1) by (fastforce simp: Let_def split: if_splits)
  then show ?case
  proof cases
    case more
    with consumesD [OF f(1) more(1) Suc.prems(2)] keeps_withinD [OF f(2) more(1) Suc.prems(2,3)] rs Suc.prems
    have "i1 \<le> n" "lo \<le> i1" "within lo i1 cs1" by auto
    from Suc.IH [OF more(2) this] show ?thesis .
  qed (use Suc.prems in simp)
qed simp

lemma m_keeps_within: "keeps_within (length s) (m fl s r)"
proof (induction r)
  case (RSeq a b)
  show ?case
  proof (rule keeps_withinI)
    fix lo i cs j cs'
    assume h: "i \<le> length s" "lo \<le> i" "within lo i cs" and "(j, cs') \<in> set (m fl s (RSeq a b) i cs)"
    then obtain i1 cs1 where 1: "(i1, cs1) \<in> set (m fl s a i cs)" and 2: "(j, cs') \<in> set (m fl s b i1 cs1)"
      by auto
    have "i \<le> i1" "i1 \<le> length s" using m_bounds [OF 1 h(1)] by auto
    with keeps_withinD [OF RSeq.IH(1) 1 h] h(2) show "within lo j cs'"
      by (intro keeps_withinD [OF RSeq.IH(2) 2]) auto
  qed
next
  case (RGroup n a)
  show ?case
  proof (rule keeps_withinI)
    fix lo i cs j cs'
    assume h: "i \<le> length s" "lo \<le> i" "within lo i cs" and "(j, cs') \<in> set (m fl s (RGroup n a) i cs)"
    then obtain cs1 where 1: "(j, cs1) \<in> set (m fl s a i cs)" "cs' = cs1[n := Some (i, j)]" by auto
    with m_bounds [OF 1(1) h(1)] keeps_withinD [OF RGroup.IH 1(1) h] h(2) show "within lo j cs'"
      by (auto intro: within_update)
  qed
next
  case (RRep mn mx g lo' hi a)
  show ?case
  proof (rule keeps_withinI)
    fix lo i cs j cs'
    assume h: "i \<le> length s" "lo \<le> i" "within lo i cs"
      and r: "(j, cs') \<in> set (m fl s (RRep mn mx g lo' hi a) i cs)"
    show "within lo j cs'"
      using repeat_within [OF m_consumes RRep.IH within_reset r [unfolded m_rep] h] .
  qed
next
  case (RAlt a b)
  show ?case
  proof (rule keeps_withinI)
    fix lo i cs j cs'
    assume h: "i \<le> length s" "lo \<le> i" "within lo i cs" and "(j, cs') \<in> set (m fl s (RAlt a b) i cs)"
    then consider "(j, cs') \<in> set (m fl s a i cs)" | "(j, cs') \<in> set (m fl s b i cs)" by auto
    then show "within lo j cs'"
      using keeps_withinD [OF RAlt.IH(1) _ h] keeps_withinD [OF RAlt.IH(2) _ h] by cases
  qed
qed (auto simp: keeps_within_def split: if_splits option.splits elim!: within_mono)

lemma m_within:
  "(j, cs') \<in> set (m fl s r i (replicate k None)) \<Longrightarrow> i \<le> length s \<Longrightarrow> within i j cs'"
proof -
  assume h: "(j, cs') \<in> set (m fl s r i (replicate k None))" "i \<le> length s"
  have "within i i (replicate k None)" by (simp add: within_def)
  with keeps_withinD [OF m_keeps_within h order_refl] show ?thesis .
qed

text \<open>A captured text stands somewhere in the text of the match.\<close>

lemma slice_slice: "i \<le> a \<Longrightarrow> b \<le> j \<Longrightarrow> slice s a b = slice (slice s i j) (a - i) (b - i)"
proof -
  assume h: "i \<le> a" "b \<le> j"
  have "drop (a - i) (take (j - i) (drop i s)) = take (j - a) (drop a s)"
    using h(1) by (simp add: drop_take)
  with h show ?thesis by (simp add: slice_def min_def)
qed

lemma sublist_slice: "i \<le> a \<Longrightarrow> b \<le> j \<Longrightarrow> sublist (slice s a b) (slice s i j)"
proof -
  assume "i \<le> a" "b \<le> j"
  moreover have "sublist (slice t c d) t" for t c d
    unfolding slice_def by (rule sublist_order.order_trans [OF sublist_take sublist_drop])
  ultimately show ?thesis using slice_slice [of i a b j s] by simp
qed

lemma match_at_groups:
  assumes "match_at re s i = Some mt" and "i \<le> length s" and "group_of mt n = Some v" and "n \<noteq> 0"
  shows "\<exists>a b. i \<le> a \<and> a \<le> b \<and> b \<le> end_pos mt \<and> v = slice s a b"
proof -
  obtain j cs rest where h: "m (rflags re) s (prog re) i (replicate (groups re) None) = (j, cs) # rest"
    and mt: "mt = mk_match s i j cs"
    using assms(1) by (auto simp: match_at_def split: list.splits)
  then have w: "within i j cs" using m_within [OF _ assms(2)] by (metis list.set_intros(1))
  obtain k where k: "n = Suc k" using assms(4) by (cases n) auto
  with assms(3) mt have "Suc k < length cs"
    and v: "map_option (\<lambda>(a, b). slice s a b) (cs ! Suc k) = Some v"
    by (auto simp: group_of_def mk_match_def split: if_splits)
  then have "cs ! Suc k \<in> set cs" by simp
  moreover from v obtain a b where ab: "cs ! Suc k = Some (a, b)" "v = slice s a b" by auto
  ultimately have "i \<le> a" "a \<le> b" "b \<le> j" using w by (auto simp: within_def)
  with ab show ?thesis by (auto simp: mt mk_match_def)
qed

lemma group_in_match:
  assumes "match_at re s i = Some mt" and "i \<le> length s" and "group_of mt n = Some v" and "n \<noteq> 0"
  shows "sublist v (slice s (start_pos mt) (end_pos mt))"
  using match_at_groups [OF assms] match_at_ok [OF assms(1,2)] by (auto intro: sublist_slice)

section \<open>Groups that a pattern leaves alone\<close>

primrec leaves :: "nat \<Rightarrow> regex \<Rightarrow> bool" where
  "leaves n REmpty = True"
| "leaves n (RChar c) = True"
| "leaves n RAny = True"
| "leaves n (RClass neg its) = True"
| "leaves n (RSeq a b) = (leaves n a \<and> leaves n b)"
| "leaves n (RAlt a b) = (leaves n a \<and> leaves n b)"
| "leaves n (RGroup k a) = (k \<noteq> n \<and> leaves n a)"
| "leaves n (RRep mn mx greedy lo hi a) = (\<not> (lo \<le> n \<and> n < hi) \<and> leaves n a)"
| "leaves n RBol = True"
| "leaves n REol = True"
| "leaves n RWordB = True"
| "leaves n RNotWordB = True"
| "leaves n (RNotAhead a) = True"
| "leaves n (RBackref k) = True"

definition keeps :: "nat \<Rightarrow> matcher \<Rightarrow> bool" where
  "keeps n f \<longleftrightarrow> (\<forall>i cs j cs'. (j, cs') \<in> set (f i cs) \<longrightarrow> get_cap cs' n = get_cap cs n)"

lemma get_cap_reset: "\<not> (lo \<le> n \<and> n < hi) \<Longrightarrow> get_cap (reset_caps lo hi cs) n = get_cap cs n"
  by (auto simp: get_cap_def reset_caps_def)

lemma repeat_keeps:
  assumes "keeps n f" and "\<And>cs. get_cap (rs cs) n = get_cap cs n"
  shows "(j, cs') \<in> set (repeat k f rs mn mx greedy i cs) \<Longrightarrow> get_cap cs' n = get_cap cs n"
proof (induction k arbitrary: mn mx i cs)
  case (Suc k)
  consider (stop) "j = i" "cs' = cs"
    | (more) i1 cs1 where "(i1, cs1) \<in> set (f i (rs cs))"
        "(j, cs') \<in> set (repeat k f rs (mn - 1) (map_option (\<lambda>x. x - 1) mx) greedy i1 cs1)"
    using Suc.prems(1) by (fastforce simp: Let_def split: if_splits)
  then show ?case
    by cases (use assms Suc.IH in \<open>auto simp: keeps_def\<close>)
qed simp

lemma leaves_keeps: "leaves n r \<Longrightarrow> keeps n (m fl s r)"
proof (induction r)
  case (RSeq a b)
  then show ?case by (fastforce simp: keeps_def)
next
  case (RAlt a b)
  then show ?case by (auto simp: keeps_def)
next
  case (RGroup k a)
  then show ?case by (fastforce simp: keeps_def get_cap_def)
next
  case (RRep mn mx g lo hi a)
  then have "keeps n (m fl s a)" by simp
  from repeat_keeps [OF this] RRep.prems show ?case
    unfolding keeps_def m_rep by (metis get_cap_reset leaves.simps(8))
qed (auto simp: keeps_def split: if_splits option.splits)

lemma m_leaves:
  "(j, cs') \<in> set (m fl s r i cs) \<Longrightarrow> leaves n r \<Longrightarrow> get_cap cs' n = get_cap cs n"
  using leaves_keeps [of n r fl s] by (auto simp: keeps_def)

text \<open>A pattern that begins with group \<open>n\<close>: the group starts where the match starts.\<close>

lemma group_at_start:
  assumes "(j, cs') \<in> set (m fl s (RSeq (RGroup n a) b) i cs)" and "leaves n b" and "n < length cs"
    and "i \<le> length s"
  shows "\<exists>e. i \<le> e \<and> e \<le> j \<and> get_cap cs' n = Some (i, e)"
proof -
  from assms(1) obtain e cs1 where 1: "(e, cs1) \<in> set (m fl s a i cs)"
    and 2: "(j, cs') \<in> set (m fl s b e (cs1[n := Some (i, e)]))" by auto
  have b: "i \<le> e" "e \<le> length s" "length cs1 = length cs" using m_bounds [OF 1 assms(4)] by auto
  with m_bounds [OF 2] m_leaves [OF 2 assms(2)] assms(3) show ?thesis by (auto simp: get_cap_def)
qed

section \<open>The characters that a pattern consumes\<close>

text \<open>Every character that the pattern can consume satisfies \<open>P\<close> (for expressions without the flag \<open>i\<close>).\<close>

primrec only_chars :: "flags \<Rightarrow> (jschar \<Rightarrow> bool) \<Rightarrow> regex \<Rightarrow> bool" where
  "only_chars fl P REmpty = True"
| "only_chars fl P (RChar c) = P c"
| "only_chars fl P RAny = (\<forall>c. \<not> is_line_end c \<longrightarrow> P c)"
| "only_chars fl P (RClass neg its) = (\<forall>c. in_class fl its c \<noteq> neg \<longrightarrow> P c)"
| "only_chars fl P (RSeq a b) = (only_chars fl P a \<and> only_chars fl P b)"
| "only_chars fl P (RAlt a b) = (only_chars fl P a \<and> only_chars fl P b)"
| "only_chars fl P (RGroup k a) = only_chars fl P a"
| "only_chars fl P (RRep mn mx greedy lo hi a) = only_chars fl P a"
| "only_chars fl P RBol = True"
| "only_chars fl P REol = True"
| "only_chars fl P RWordB = True"
| "only_chars fl P RNotWordB = True"
| "only_chars fl P (RNotAhead a) = True"
| "only_chars fl P (RBackref k) = False"

definition consumes_only :: "jsstr \<Rightarrow> (jschar \<Rightarrow> bool) \<Rightarrow> matcher \<Rightarrow> bool" where
  "consumes_only s P f \<longleftrightarrow>
     (\<forall>i cs j cs'. i \<le> length s \<longrightarrow> (j, cs') \<in> set (f i cs) \<longrightarrow> (\<forall>k. i \<le> k \<and> k < j \<longrightarrow> P (s ! k)))"

lemma consumes_onlyD:
  "consumes_only s P f \<Longrightarrow> (j, cs') \<in> set (f i cs) \<Longrightarrow> i \<le> length s \<Longrightarrow> i \<le> k \<Longrightarrow> k < j \<Longrightarrow> P (s ! k)"
  by (auto simp: consumes_only_def)

lemma repeat_consumes_only:
  assumes f: "consumes (length s) d f" "consumes_only s P f"
  shows "(j, cs') \<in> set (repeat n f rs mn mx greedy i cs) \<Longrightarrow> i \<le> length s \<Longrightarrow> i \<le> k \<Longrightarrow> k < j \<Longrightarrow> P (s ! k)"
proof (induction n arbitrary: mn mx i cs)
  case (Suc n)
  consider (stop) "j = i" "cs' = cs"
    | (more) i1 cs1 where "(i1, cs1) \<in> set (f i (rs cs))"
        "(j, cs') \<in> set (repeat n f rs (mn - 1) (map_option (\<lambda>x. x - 1) mx) greedy i1 cs1)"
    using Suc.prems(1) by (fastforce simp: Let_def split: if_splits)
  then show ?case
  proof cases
    case more
    have "i1 \<le> length s" using consumesD [OF f(1) more(1) Suc.prems(2)] by simp
    then show ?thesis
      using Suc.IH [OF more(2)] consumes_onlyD [OF f(2) more(1) Suc.prems(2,3)] Suc.prems(4) by (cases "k < i1") auto
  qed (use Suc.prems in simp)
qed simp

lemma m_consumes_only: "only_chars fl P r \<Longrightarrow> \<not> ignoreCase fl \<Longrightarrow> consumes_only s P (m fl s r)"
proof (induction r)
  case (RSeq a b)
  show ?case unfolding consumes_only_def
  proof (intro allI impI)
    fix i cs j cs' k
    assume i: "i \<le> length s" and "(j, cs') \<in> set (m fl s (RSeq a b) i cs)" and k: "i \<le> k \<and> k < j"
    then obtain i1 cs1 where 1: "(i1, cs1) \<in> set (m fl s a i cs)" and 2: "(j, cs') \<in> set (m fl s b i1 cs1)"
      by auto
    from m_bounds [OF 1 i] have "i1 \<le> length s" by simp
    moreover have "consumes_only s P (m fl s a)" "consumes_only s P (m fl s b)" using RSeq by auto
    ultimately show "P (s ! k)"
      using k i consumes_onlyD [of s P "m fl s a", OF _ 1] consumes_onlyD [of s P "m fl s b", OF _ 2]
      by (cases "k < i1") auto
  qed
next
  case (RRep mn mx g lo hi a)
  have a: "consumes_only s P (m fl s a)" using RRep by simp
  show ?case unfolding consumes_only_def m_rep
    by (intro allI impI, elim conjE, rule repeat_consumes_only [OF m_consumes a])
next
  case (RAlt a b)
  then have ab: "consumes_only s P (m fl s a)" "consumes_only s P (m fl s b)" by auto
  show ?case unfolding consumes_only_def
  proof (intro allI impI)
    fix i cs j cs' k
    assume i: "i \<le> length s" and "(j, cs') \<in> set (m fl s (RAlt a b) i cs)" and k: "i \<le> k \<and> k < j"
    then consider "(j, cs') \<in> set (m fl s a i cs)" | "(j, cs') \<in> set (m fl s b i cs)" by auto
    then show "P (s ! k)" using consumes_onlyD [OF ab(1)] consumes_onlyD [OF ab(2)] i k by cases auto
  qed
next
  case (RGroup n a)
  then show ?case by (fastforce simp: consumes_only_def)
next
  case (RChar c)
  then show ?case by (auto simp: consumes_only_def canonicalize_def less_Suc_eq split: if_splits)
next
  case RAny
  then show ?case by (auto simp: consumes_only_def less_Suc_eq split: if_splits)
next
  case (RClass neg its)
  then show ?case by (auto simp: consumes_only_def less_Suc_eq split: if_splits)
qed (auto simp: consumes_only_def split: if_splits)

lemma m_only_slice:
  assumes "only_chars fl P r" "\<not> ignoreCase fl" "(j, cs') \<in> set (m fl s r i cs)" "i \<le> length s"
  shows "\<forall>c \<in> set (slice s i j). P c"
proof -
  have "j \<le> length s" using m_bounds [OF assms(3,4)] by simp
  then show ?thesis
    using consumes_onlyD [OF m_consumes_only [OF assms(1,2)] assms(3,4)] by (auto simp: slice_def in_set_conv_nth)
qed

end
