(* ===== verification/XmlBrush.thy ===== *)
theory XmlBrush
  imports BrushContract RegexCaps
begin

text \<open>
  The XML brush (\<open>shBrushXml.js\<close>), which overrides \<open>ProcessRegexList\<close>: CDATA sections,
  comments and tag brackets go through \<open>GetMatches\<close>; attributes with their values and tag
  names are taken from the groups of a match and located with \<open>indexOf\<close>.
\<close>

definition re_cdata :: regexp where
  "re_cdata = js_regex (pat ''(&lt;|<)`!`[[`w`s]*?`[(.|`s)*?`]`](&gt;|>)'') (lit ''gm'')"

definition re_comments :: regexp where
  "re_comments = js_regex (pat ''(&lt;|<)!--`s*.*`s*?--(&gt;|>)'') (lit ''gm'')"

definition re_attribute :: regexp where
  \<open>re_attribute = js_regex (pat ''([:`w-.]+)`s*=`s*(".*?"|~.*?~|`w+)*|(`w+)'') (lit ''gm'')\<close>

definition re_tag :: regexp where
  "re_tag = js_regex (pat ''(&lt;|<)/*`?*(?!`!)|/*`?*(&gt;|>)'') (lit ''gm'')"

definition re_tag_name :: regexp where
  "re_tag_name = js_regex (pat ''(?:&lt;|<)/*`?*`s*([:`w-.]+)'') (lit ''gm'')"

text \<open>\<open>match.index + match[0].indexOf(v)\<close>.\<close>

definition group_index :: "js_match \<Rightarrow> jsstr \<Rightarrow> nat" where
  "group_index mt v =
     nat (int (start_pos mt) + indexOf (case group_of mt 0 of Some t \<Rightarrow> t | None \<Rightarrow> []) v)"

definition attribute_matches :: "js_match \<Rightarrow> Match list" where
  "attribute_matches mt =
     (case group_of mt 1 of
        None \<Rightarrow> []
      | Some v1 \<Rightarrow>
          new_Match v1 (start_pos mt) (lit ''attribute'') #
          (case group_of mt 2 of
             None \<Rightarrow> []
           | Some v2 \<Rightarrow> [new_Match v2 (group_index mt v2) (lit ''attribute-value'')]))"

definition tag_name_match :: "js_match \<Rightarrow> Match list" where
  "tag_name_match mt =
     (case group_of mt 1 of
        None \<Rightarrow> []
      | Some v1 \<Rightarrow> [new_Match v1 (group_index mt v1) (lit ''tag-name'')])"

definition push_all :: "(js_match \<Rightarrow> Match list) \<Rightarrow> regexp \<Rightarrow> jsstr \<Rightarrow> Match list \<Rightarrow> Match list option" where
  "push_all f re cd ms =
     (case exec_loop re cd of
        None \<Rightarrow> None
      | Some (found, _) \<Rightarrow> Some (ms @ concat (map f found)))"

definition Xml_ProcessRegexList ::
  "rule list \<Rightarrow> jsstr \<Rightarrow> Match list \<Rightarrow> (Match list \<times> rule list) option" where
  "Xml_ProcessRegexList rs cd ms =
     Option.bind (GetMatches re_cdata (lit ''cdata'') cd ms) (\<lambda>(ms1, _).
     Option.bind (GetMatches re_comments (lit ''comments'') cd ms1) (\<lambda>(ms2, _).
     Option.bind (push_all attribute_matches re_attribute cd ms2) (\<lambda>ms3.
     Option.bind (GetMatches re_tag (lit ''tag'') cd ms3) (\<lambda>(ms4, _).
     Option.bind (push_all tag_name_match re_tag_name cd ms4) (\<lambda>ms5. Some (ms5, rs))))))"

definition Xml_Aliases :: "jsstr list" where
  "Xml_Aliases = [lit ''xml'', lit ''xhtml'', lit ''xslt'', lit ''html'', lit ''xhtml'']"

definition Xml :: brush where
  "Xml = \<lparr>rules = [], collect = Xml_ProcessRegexList, CssClass = Some (lit ''dp-xml''),
     Style = Some (lit (''.dp-xml .cdata { color: #ff1493; }'' @
       ''.dp-xml .tag, .dp-xml .tag-name { color: #069; font-weight: bold; }'' @
       ''.dp-xml .attribute { color: red; }'' @
       ''.dp-xml .attribute-value { color: blue; }''))\<rparr>"

section \<open>The expressions\<close>

lemma good_xml:
  "good_rule (re_cdata, css)" "good_rule (re_comments, css)" "good_rule (re_attribute, css)"
  "good_rule (re_tag, css)" "good_rule (re_tag_name, css)"
  by (simp_all add: good_rule_def re_cdata_def re_comments_def re_attribute_def re_tag_def
      re_tag_name_def js_eval)

lemma re_attribute_shape:
  "\<exists>a b c. prog re_attribute = RAlt (RSeq (RGroup 1 a) b) (RSeq (RGroup 3 c) REmpty) \<and>
     leaves 1 b \<and> leaves 1 c \<and> groups re_attribute = 4"
  by (simp add: re_attribute_def js_eval)

section \<open>What the loops push\<close>

text \<open>Every match the loop finds is a match of the expression somewhere in the code.\<close>

lemma match_at_lastIndex: "match_at (re\<lparr>lastIndex := k\<rparr>) s i = match_at re s i"
  by (simp add: match_at_def)

lemma exec_shape:
  assumes "exec re s = (res, re')"
  shows "(\<forall>i. match_at re' s i = match_at re s i) \<and>
    (\<forall>mt. res = Some mt \<longrightarrow> (\<exists>i \<le> length s. match_at re s i = Some mt))"
proof -
  have "\<exists>i \<le> length s. match_at re s i = Some mt" if "search re s [k..<Suc (length s)] = Some mt" for k mt
    using search_Some_at [OF that] by (metis atLeastLessThan_upt atLeastLessThan_iff less_Suc_eq_le)
  with assms show ?thesis
    by (auto simp: exec_def match_at_lastIndex simp del: upt_Suc split: if_splits option.splits)
qed

lemma exec_loop_found:
  "exec_loop re s = Some (found, re') \<Longrightarrow> mt \<in> set found \<Longrightarrow>
   \<exists>i \<le> length s. match_at re s i = Some mt"
proof -
  assume e: "exec_loop re s = Some (found, re')" and mt: "mt \<in> set found"
  have "\<forall>mt \<in> set (fst (found, re')). \<exists>i \<le> length s. match_at re s i = Some mt"
  proof (rule exec_loop.raw_induct
      [where P = "\<lambda>re s v. \<forall>mt \<in> set (fst v). \<exists>i \<le> length s. match_at re s i = Some mt", OF _ e])
    fix loop re s w
    assume IH: "\<And>re s v. loop re s = Some v \<Longrightarrow>
        \<forall>mt \<in> set (fst v). \<exists>i \<le> length s. match_at re s i = Some mt"
      and step: "(case exec re s of (None, re') \<Rightarrow> Some ([], re')
          | (Some mt, re') \<Rightarrow> Option.bind (loop re' s) (\<lambda>(ms, re''). Some (mt # ms, re''))) = Some w"
    obtain res re1 where x: "exec re s = (res, re1)" by (cases "exec re s")
    note sh = exec_shape [OF x]
    show "\<forall>mt \<in> set (fst w). \<exists>i \<le> length s. match_at re s i = Some mt"
    proof (cases res)
      case None
      with step x show ?thesis by auto
    next
      case (Some mt)
      with step x obtain ms re2 where l: "loop re1 s = Some (ms, re2)" and w: "w = (mt # ms, re2)"
        by (cases "loop re1 s") auto
      with IH [OF l] sh Some show ?thesis by auto
    qed
  qed
  with mt show ?thesis by simp
qed

lemma ok_in_at:
  assumes "i \<le> length cd" and "prefix v (drop i cd)"
  shows "ok_in cd (new_Match v i css)"
proof -
  from assms have "length v \<le> length cd - i" using prefix_length_le by fastforce
  with assms show ?thesis
    by (simp add: ok_in_def new_Match_def) (simp add: prefix_take)
qed

lemma group_index_ok:
  assumes "match_at re cd i = Some mt" and "i \<le> length cd" and "group_of mt n = Some v" and "n \<noteq> 0"
  shows "ok_in cd (new_Match v (group_index mt v) css)"
proof -
  note ok = match_at_ok [OF assms(1,2)]
  let ?t = "slice cd (start_pos mt) (end_pos mt)"
  from group_in_match [OF assms] obtain k where k: "index_of v ?t = Some k"
    using index_of_None by (metis not_None_eq)
  then have p: "k \<le> length ?t" "prefix v (drop k ?t)" 
    using index_of_bound [OF k] index_of_Some_take [OF k]
    by (simp, metis append_eq_conv_conj length_take min.absorb2 add_leD1 prefixI)
  have g: "group_index mt v = start_pos mt + k"
    using ok k by (simp add: group_index_def ok_match_def indexOf_def indexOf_from_def)
  have le: "start_pos mt + k \<le> length cd"
    using p(1) ok assms(2) by (auto simp: ok_match_def slice_def)
  have "prefix (drop k ?t) (drop (start_pos mt + k) cd)"
    by (simp add: slice_def drop_take take_is_prefix add.commute)
  with p(2) le show ?thesis unfolding g by (intro ok_in_at) (auto intro: prefix_order.trans)
qed

lemma attribute_at_start:
  assumes "match_at re_attribute cd i = Some mt" and "i \<le> length cd" and "group_of mt 1 = Some v"
  shows "ok_in cd (new_Match v (start_pos mt) css)"
proof -
  obtain a b c where re: "prog re_attribute = RAlt (RSeq (RGroup 1 a) b) (RSeq (RGroup 3 c) REmpty)"
    "leaves 1 b" "leaves 1 c" "groups re_attribute = 4"
    using re_attribute_shape by blast
  obtain j cs rest where
    h: "m (rflags re_attribute) cd (prog re_attribute) i (replicate 4 None) = (j, cs) # rest"
    and mt: "mt = mk_match cd i j cs"
    using assms(1) re(4) by (auto simp: match_at_def split: list.splits)
  have "get_cap cs 1 = map_option id (get_cap cs 1)" by (simp add: option.map_id)
  have len: "length cs = 4" using m_bounds [OF _ assms(2)] h by (metis length_replicate list.set_intros(1))
  with assms(3) have cap: "map_option (\<lambda>(x, y). slice cd x y) (cs ! 1) = Some v"
    by (simp add: mt mk_match_def group_of_def)
  from h re(1) consider (first) "(j, cs) \<in> set (m (rflags re_attribute) cd (RSeq (RGroup 1 a) b) i (replicate 4 None))"
    | (word) "(j, cs) \<in> set (m (rflags re_attribute) cd (RSeq (RGroup 3 c) REmpty) i (replicate 4 None))"
    by (metis Un_iff list.set_intros(1) m.simps(6) set_append)
  then show ?thesis
  proof cases
    case first
    from group_at_start [OF this re(2) _ assms(2)] len obtain e where
      e: "i \<le> e" "e \<le> j" "cs ! 1 = Some (i, e)" by (auto simp: get_cap_def)
    then have "v = slice cd i e" using cap by simp
    then show ?thesis using assms(2) by (intro ok_in_at) (simp_all add: mt mk_match_def slice_def take_is_prefix)
  next
    case word
    have "leaves 1 (RSeq (RGroup 3 c) REmpty)" using re(3) by simp
    from m_leaves [OF word this] have "cs ! 1 = None" using len by (simp add: get_cap_def)
    with cap show ?thesis by simp
  qed
qed

lemma attribute_matches_ok:
  assumes "match_at re_attribute cd i = Some mt" and "i \<le> length cd" and "x \<in> set (attribute_matches mt)"
  shows "ok_in cd x \<and> plain_name (mcss x)"
  using assms attribute_at_start [OF assms(1,2)] group_index_ok [OF assms(1,2), of 2]
  by (auto simp: attribute_matches_def new_Match_def plain_name_def lit_def split: option.splits)

lemma tag_name_match_ok:
  assumes "match_at re_tag_name cd i = Some mt" and "i \<le> length cd" and "x \<in> set (tag_name_match mt)"
  shows "ok_in cd x \<and> plain_name (mcss x)"
  using assms group_index_ok [OF assms(1,2), of 1]
  by (auto simp: tag_name_match_def new_Match_def plain_name_def lit_def split: option.splits)

lemma push_all_ok:
  assumes "good_rule (re, css)"
    and "\<And>i mt x. match_at re cd i = Some mt \<Longrightarrow> i \<le> length cd \<Longrightarrow> x \<in> set (f mt) \<Longrightarrow> Q x"
  shows "\<exists>new. push_all f re cd ms = Some (ms @ new) \<and> (\<forall>x \<in> set new. Q x)"
proof -
  from assms(1) obtain found re' where e: "exec_loop re cd = Some (found, re')"
    using exec_loop_result [of re cd] by (auto simp: good_rule_def)
  have "Q x" if "x \<in> set (concat (map f found))" for x
    using that exec_loop_found [OF e] assms(2) by fastforce
  with e show ?thesis by (auto simp: push_all_def)
qed

lemma GetMatches_ok:
  assumes "good_rule (re, css)" and "plain_name css"
  shows "\<exists>new. GetMatches re css cd ms = Some (ms @ new, re) \<and>
    (\<forall>x \<in> set new. ok_in cd x \<and> plain_name (mcss x))"
  using GetMatches_good [OF assms(1), of cd ms] assms(2) by (auto simp: good_match_def)

interpretation Xml: matching_brush Xml
proof
  fix cd
  let ?Q = "\<lambda>x. ok_in cd x \<and> plain_name (mcss x)"
  have n: "plain_name (lit ''cdata'')" "plain_name (lit ''comments'')" "plain_name (lit ''tag'')"
    by (simp_all add: plain_name_def lit_def)
  obtain a where a: "GetMatches re_cdata (lit ''cdata'') cd [] = Some (a, re_cdata)" "\<forall>x \<in> set a. ?Q x"
    using GetMatches_ok [OF good_xml(1) n(1), of cd "[]"] by auto
  obtain b where b: "GetMatches re_comments (lit ''comments'') cd a = Some (b, re_comments)" "\<forall>x \<in> set b. ?Q x"
    using GetMatches_ok [OF good_xml(2) n(2), of cd a] a(2) by fastforce
  obtain c where c: "push_all attribute_matches re_attribute cd b = Some c" "\<forall>x \<in> set c. ?Q x"
    using push_all_ok [of re_attribute "[]" cd attribute_matches ?Q b] good_xml(3) attribute_matches_ok b(2)
    by fastforce
  obtain d where d: "GetMatches re_tag (lit ''tag'') cd c = Some (d, re_tag)" "\<forall>x \<in> set d. ?Q x"
    using GetMatches_ok [OF good_xml(4) n(3), of cd c] c(2) by fastforce
  obtain e where e: "push_all tag_name_match re_tag_name cd d = Some e" "\<forall>x \<in> set e. ?Q x"
    using push_all_ok [of re_tag_name "[]" cd tag_name_match ?Q d] good_xml(5) tag_name_match_ok d(2)
    by fastforce
  show "\<exists>ms. collect Xml (rules Xml) cd [] = Some (ms, rules Xml) \<and> (\<forall>x \<in> set ms. ?Q x)"
    by (simp add: Xml_def Xml_ProcessRegexList_def a b c d e)
qed

end
