(* ===== verification/HighlightAll.thy ===== *)
theory HighlightAll
  imports Brushes XmlBrush
begin

text \<open>
  \<open>dp.sh.HighlightAll\<close> (\<open>shCore.js\<close>): the registry of brushes and aliases, the option parsing
  of a class attribute, and the pass over the page.  A page is what the pass has done so far:
  the elements it has hidden, the style sheets it wrote, the highlighted blocks with their
  sources, and whether it is still running, stopped by a \<open>TypeError\<close>, or hanging.
\<close>

section \<open>Registry\<close>

text \<open>The brushes in the order in which the page loads their scripts, with their aliases.\<close>

definition registry :: "(jsstr \<times> jsstr list option \<times> brush) list" where
  "registry =
    [(lit ''CSharp'', Some CSharp_Aliases, CSharp),
     (lit ''Php'', Some Php_Aliases, Php),
     (lit ''JScript'', Some JScript_Aliases, JScript),
     (lit ''Java'', Some Java_Aliases, Java),
     (lit ''Vb'', Some Vb_Aliases, Vb),
     (lit ''Sql'', Some Sql_Aliases, Sql),
     (lit ''Xml'', Some Xml_Aliases, Xml),
     (lit ''Delphi'', Some Delphi_Aliases, Delphi),
     (lit ''Python'', Some Python_Aliases, Python),
     (lit ''Ruby'', Some Ruby_Aliases, Ruby),
     (lit ''CSS'', Some CSS_Aliases, CSS),
     (lit ''Cpp'', Some Cpp_Aliases, Cpp)]"

definition register :: "(jsstr \<times> jsstr list option \<times> 'b) list \<Rightarrow> (jsstr \<rightharpoonup> jsstr)" where
  "register tbl =
     foldl (\<lambda>mp (name, aliases, _).
        case aliases of None \<Rightarrow> mp | Some al \<Rightarrow> foldl (\<lambda>mp a. mp(a \<mapsto> name)) mp al) Map.empty tbl"

text \<open>
  Looking a language up in the alias object: a registered alias; else a property that every
  object inherits and whose name is in lower case, for which there is no brush and the
  constructor call raises a \<open>TypeError\<close>; else nothing.
\<close>

datatype lookup = Unknown | NoBrush | Found brush

definition inherited :: "jsstr list" where
  "inherited = [lit ''constructor'', lit ''__proto__'']"

definition find_brush :: "(jsstr \<times> jsstr list option \<times> brush) list \<Rightarrow> jsstr \<Rightarrow> lookup" where
  "find_brush tbl lang =
     (case register tbl lang of
        Some name \<Rightarrow> (case map_of tbl name of Some (_, br) \<Rightarrow> Found br | None \<Rightarrow> NoBrush)
      | None \<Rightarrow> if List.member inherited lang then NoBrush else Unknown)"

section \<open>Options\<close>

text \<open>An argument of \<open>FindValue\<close>: null, a string, or an attribute node with its value.\<close>

datatype arg = Null | Str jsstr | Obj jsstr

fun FindValue :: "arg list \<Rightarrow> jsstr option" where
  "FindValue [] = None"
| "FindValue (Null # as) = FindValue as"
| "FindValue (Str s # as) = (if s \<noteq> [] then Some s else FindValue as)"
| "FindValue (Obj s # as) = (if s \<noteq> [] then Some s else FindValue as)"

fun IsOptionSet :: "jsstr \<Rightarrow> jsstr list \<Rightarrow> bool" where
  "IsOptionSet name [] = False"
| "IsOptionSet name (x # xs) = (if x = name then True else IsOptionSet name xs)"

fun get_option :: "regexp \<Rightarrow> jsstr list \<Rightarrow> jsstr option" where
  "get_option re [] = None"
| "get_option re (x # xs) =
     (case exec re x of
        (Some mt, _) \<Rightarrow> group_of mt 1
      | (None, re') \<Rightarrow> get_option re' xs)"

definition option_regex :: "jsstr \<Rightarrow> regexp" where
  "option_regex name = js_regex (lit ''^'' @ name @ pat ''`[(`w+)`]$'') (lit ''gi'')"

definition GetOptionValue :: "jsstr \<Rightarrow> jsstr list \<Rightarrow> jsstr \<Rightarrow> jsstr" where
  "GetOptionValue name list dflt =
     (case get_option (option_regex name) list of None \<Rightarrow> dflt | Some v \<Rightarrow> v)"

section \<open>The pass over the page\<close>

record element =
  tag :: jsstr
  name_attr :: "jsstr option"
  class_attr :: "jsstr option"
  className :: jsstr
  language_attr :: "jsstr option"
  language :: "jsstr option"
  inner :: jsstr

definition FindTagsByName :: "element list \<Rightarrow> element list \<Rightarrow> jsstr \<Rightarrow> jsstr \<Rightarrow> element list" where
  "FindTagsByName doc list name tagName =
     list @ filter (\<lambda>e. tag e = tagName \<and> name_attr e = Some name) doc"

text \<open>The arguments of the call after the name; \<open>None\<close> is an argument that is null.\<close>

record args =
  showGutter :: "bool option"
  showControls :: "bool option"
  collapseAll :: "bool option"
  firstLineArg :: "int option"
  showColumnsArg :: "bool option"

definition no_args :: args where
  "no_args = \<lparr>showGutter = None, showControls = None, collapseAll = None, firstLineArg = None,
     showColumnsArg = None\<rparr>"

datatype status = Running | TypeError | Hangs

record page =
  hidden :: "element list"
  styles_written :: "jsstr list"
  blocks :: "(element \<times> options \<times> highlighted) list"
  status :: status

definition language_of :: "element \<Rightarrow> jsstr option" where
  "language_of e =
     FindValue [case class_attr e of None \<Rightarrow> Null | Some v \<Rightarrow> Obj v, Str (className e),
       case language_attr e of None \<Rightarrow> Null | Some v \<Rightarrow> Obj v,
       case language e of None \<Rightarrow> Null | Some v \<Rightarrow> Str v]"

definition block_options :: "args \<Rightarrow> jsstr list \<Rightarrow> options" where
  "block_options a opts = new_Highlighter
     \<lparr>noGutter := (case showGutter a of None \<Rightarrow> IsOptionSet (lit ''nogutter'') opts | Some b \<Rightarrow> \<not> b),
      addControls := (case showControls a of None \<Rightarrow> \<not> IsOptionSet (lit ''nocontrols'') opts | Some b \<Rightarrow> b),
      collapse := (case collapseAll a of None \<Rightarrow> IsOptionSet (lit ''collapse'') opts | Some b \<Rightarrow> b),
      showColumns := (case showColumnsArg a of None \<Rightarrow> IsOptionSet (lit ''showcolumns'') opts | Some b \<Rightarrow> b)\<rparr>"

definition first_line :: "args \<Rightarrow> jsstr list \<Rightarrow> int option" where
  "first_line a opts =
     (case firstLineArg a of
        None \<Rightarrow> parseInt (GetOptionValue (lit ''firstline'') opts (lit ''1''))
      | Some n \<Rightarrow> Some n)"

definition highlight_element ::
  "window \<Rightarrow> (jsstr \<Rightarrow> jsstr) \<Rightarrow> args \<Rightarrow> element \<Rightarrow> page \<Rightarrow> page" where
  "highlight_element w norm a e p =
     (if status p \<noteq> Running then p
      else case language_of e of
          None \<Rightarrow> p
        | Some l \<Rightarrow>
            (let opts = split_str (lit '':'') l;
                 lang = toLowerCase (opts ! 0)
             in case find_brush registry lang of
                  Unknown \<Rightarrow> p
                | NoBrush \<Rightarrow> p\<lparr>status := TypeError\<rparr>
                | Found br \<Rightarrow>
                    (let p1 = p\<lparr>hidden := hidden p @ [e],
                          styles_written := styles_written p @
                            (case Style br of None \<Rightarrow> []
                              | Some s \<Rightarrow> if s = [] then [] else [lit ''<style>'' @ s @ lit ''</style>''])\<rparr>
                     in case Highlight w norm br (block_options a opts) (first_line a opts) (Some (inner e)) of
                          None \<Rightarrow> p1\<lparr>status := Hangs\<rparr>
                        | Some h \<Rightarrow> p1\<lparr>blocks := blocks p1 @ [(e, block_options a opts, h)]\<rparr>)))"

definition HighlightAll ::
  "window \<Rightarrow> (jsstr \<Rightarrow> jsstr) \<Rightarrow> element list \<Rightarrow> jsstr \<Rightarrow> args \<Rightarrow> page" where
  "HighlightAll w norm doc name a =
     (let els = FindTagsByName doc (FindTagsByName doc [] name (lit ''pre'')) name (lit ''textarea'')
      in fold (highlight_element w norm a) els
           \<lparr>hidden = [], styles_written = [], blocks = [], status = Running\<rparr>)"

lemmas Aliases_defs =
  CSharp_Aliases_def Php_Aliases_def JScript_Aliases_def Java_Aliases_def Vb_Aliases_def Sql_Aliases_def
  Xml_Aliases_def Delphi_Aliases_def Python_Aliases_def Ruby_Aliases_def CSS_Aliases_def Cpp_Aliases_def

declare registry_def [js_eval] Aliases_defs [js_eval] register_def [js_eval] inherited_def [js_eval] find_brush_def [js_eval]
  option_regex_def [js_eval] GetOptionValue_def [js_eval] FindTagsByName_def [js_eval]
  no_args_def [js_eval] language_of_def [js_eval] block_options_def [js_eval] first_line_def [js_eval]

section \<open>Every registered brush meets the contract\<close>

abbreviation brushes :: "brush list" where
  "brushes \<equiv> map (\<lambda>(_, _, br). br) registry"

lemma brushes_contract: "br \<in> set brushes \<Longrightarrow> matching_brush br"
  by (auto simp: registry_def intro: CSharp.matching_brush_axioms Php.matching_brush_axioms
      JScript.matching_brush_axioms Java.matching_brush_axioms Vb.matching_brush_axioms
      Sql.matching_brush_axioms Xml.matching_brush_axioms Delphi.matching_brush_axioms
      Python.matching_brush_axioms Ruby.matching_brush_axioms CSS.matching_brush_axioms
      Cpp.matching_brush_axioms)

section \<open>Looking up a language\<close>

lemma foldl_alias: "foldl (\<lambda>mp a. mp(a \<mapsto> n)) mp al x = (if x \<in> set al then Some n else mp x)"
  by (induction al arbitrary: mp) auto

lemma register_range:
  "register tbl x = Some n \<Longrightarrow> n \<in> fst ` set tbl"
proof -
  have "foldl (\<lambda>mp (name, aliases, _).
      case aliases of None \<Rightarrow> mp | Some al \<Rightarrow> foldl (\<lambda>mp a. mp(a \<mapsto> name)) mp al) mp tbl x = Some n \<Longrightarrow>
    mp x = Some n \<or> n \<in> fst ` set tbl" for mp
  proof (induction tbl arbitrary: mp)
    case (Cons t tbl)
    obtain name al br where t: "t = (name, al, br)" by (cases t)
    from Cons.IH Cons.prems show ?case
      by (cases al) (fastforce simp: t foldl_alias split: if_splits)+
  qed simp
  then show "register tbl x = Some n \<Longrightarrow> n \<in> fst ` set tbl" by (auto simp: register_def)
qed

lemma find_brush_Found: "find_brush tbl lang = Found br \<Longrightarrow> br \<in> (\<lambda>(_, _, br). br) ` set tbl"
  by (auto simp: find_brush_def split: option.splits if_splits dest!: map_of_SomeD)
     (force simp: image_iff)

lemma find_brush_NoBrush: "find_brush tbl lang = NoBrush \<Longrightarrow> lang \<in> set inherited"
  by (auto simp: find_brush_def map_of_eq_None_iff split: option.splits if_splits dest: register_range)

definition element_lookup :: "element \<Rightarrow> lookup" where
  "element_lookup e =
     (case language_of e of
        None \<Rightarrow> Unknown
      | Some l \<Rightarrow> find_brush registry (toLowerCase (split_str (lit '':'') l ! 0)))"

definition is_found :: "element \<Rightarrow> bool" where
  "is_found e \<longleftrightarrow> (case element_lookup e of Found _ \<Rightarrow> True | _ \<Rightarrow> False)"

text \<open>The block that an element with a known language becomes.\<close>

definition block_of ::
  "window \<Rightarrow> (jsstr \<Rightarrow> jsstr) \<Rightarrow> args \<Rightarrow> element \<Rightarrow> (element \<times> options \<times> highlighted) option" where
  "block_of w norm a e =
     (case element_lookup e of
        Found br \<Rightarrow>
          (let opts = split_str (lit '':'') (case language_of e of Some l \<Rightarrow> l | None \<Rightarrow> []) in
           map_option (\<lambda>h. (e, block_options a opts, h))
             (Highlight w norm br (block_options a opts) (first_line a opts) (Some (inner e))))
      | _ \<Rightarrow> None)"

lemma block_of_found: "is_found e \<Longrightarrow> \<exists>b. block_of w norm a e = Some b"
proof -
  assume "is_found e"
  then obtain br where br: "element_lookup e = Found br" by (auto simp: is_found_def split: lookup.splits)
  then have "matching_brush br"
    by (intro brushes_contract)
       (auto simp: element_lookup_def split: option.splits dest!: find_brush_Found)
  from matching_brush.highlights [OF this] br show ?thesis
    by (auto simp: block_of_def Let_def) blast
qed

lemma highlight_element_step:
  assumes "status p = Running"
  shows "highlight_element w norm a e p =
    (case element_lookup e of
       Unknown \<Rightarrow> p
     | NoBrush \<Rightarrow> p\<lparr>status := TypeError\<rparr>
     | Found br \<Rightarrow> p\<lparr>hidden := hidden p @ [e],
         styles_written := styles_written p @
           (case Style br of None \<Rightarrow> [] | Some s \<Rightarrow> if s = [] then [] else [lit ''<style>'' @ s @ lit ''</style>'']),
         blocks := blocks p @ [the (block_of w norm a e)]\<rparr>)"
proof (cases "element_lookup e")
  case (Found br)
  then obtain l where "language_of e = Some l" "find_brush registry (toLowerCase (split_str (lit '':'') l ! 0)) = Found br"
    by (auto simp: element_lookup_def split: option.splits)
  moreover obtain b where "block_of w norm a e = Some b"
    using block_of_found [of e w norm a] Found by (auto simp: is_found_def)
  ultimately show ?thesis
    using assms Found by (auto simp: highlight_element_def block_of_def Let_def)
qed (use assms in \<open>auto simp: highlight_element_def element_lookup_def Let_def split: option.splits\<close>)

lemma highlight_element_stopped: "status p \<noteq> Running \<Longrightarrow> fold (highlight_element w norm a) els p = p"
  by (induction els) (auto simp: highlight_element_def)

abbreviation before_error :: "element list \<Rightarrow> element list" where
  "before_error els \<equiv> filter is_found (takeWhile (\<lambda>e. element_lookup e \<noteq> NoBrush) els)"

lemma fold_highlight_element:
  assumes "status p = Running"
  shows "let q = fold (highlight_element w norm a) els p in
    status q = (if \<exists>e \<in> set els. element_lookup e = NoBrush then TypeError else Running) \<and>
    hidden q = hidden p @ before_error els \<and>
    blocks q = blocks p @ map (\<lambda>e. the (block_of w norm a e)) (before_error els)"
  using assms
proof (induction els arbitrary: p)
  case (Cons e els)
  note step = highlight_element_step [OF Cons.prems, of w norm a e]
  show ?case
  proof (cases "element_lookup e")
    case NoBrush
    then show ?thesis using step highlight_element_stopped [of "p\<lparr>status := TypeError\<rparr>" w norm a els]
      by (simp add: Let_def)
  next
    case (Found br)
    have "status (highlight_element w norm a e p) = Running"
      using step Found Cons.prems by simp
    from Cons.IH [OF this] step Found show ?thesis by (simp add: Let_def is_found_def)
  next
    case Unknown
    then show ?thesis using step Cons by (simp add: Let_def is_found_def)
  qed
qed simp

section \<open>The first line\<close>

text \<open>A character that every match of a pattern consumes.\<close>

primrec needs :: "jschar \<Rightarrow> regex \<Rightarrow> bool" where
  "needs c REmpty = False"
| "needs c (RChar d) = (d = c)"
| "needs c RAny = False"
| "needs c (RClass neg its) = False"
| "needs c (RSeq a b) = (needs c a \<or> needs c b)"
| "needs c (RAlt a b) = (needs c a \<and> needs c b)"
| "needs c (RGroup n a) = needs c a"
| "needs c (RRep mn mx greedy lo hi a) = False"
| "needs c RBol = False"
| "needs c REol = False"
| "needs c RWordB = False"
| "needs c RNotWordB = False"
| "needs c (RNotAhead a) = False"
| "needs c (RBackref n) = False"

lemma needs_occurs:
  assumes "\<And>d. canonicalize fl d = canonicalize fl c \<Longrightarrow> d = c"
  shows "needs c r \<Longrightarrow> x \<in> set (m fl s r i cs) \<Longrightarrow> c \<in> set s"
  by (induction r arbitrary: i cs x) (auto split: if_splits dest: assms)

lemma exec_needs:
  assumes "needs 93 (prog re)" and "93 \<notin> set s" and "lastIndex re = 0"
  shows "exec re s = (None, re)"
proof -
  have c: "canonicalize fl d = canonicalize fl 93 \<Longrightarrow> d = 93" for fl d
    by (auto simp: canonicalize_def split: if_splits)
  have "m (rflags re) s (prog re) i cs = []" for i cs
  proof (cases "m (rflags re) s (prog re) i cs")
    case (Cons x xs)
    then have "x \<in> set (m (rflags re) s (prog re) i cs)" by simp
    from needs_occurs [OF c assms(1) this] have "93 \<in> set s" .
    with assms(2) show ?thesis by simp
  qed simp
  then have "search re s is = None" for "is" by (simp add: search_None match_at_def)
  with assms(3) show ?thesis by (simp add: exec_def del: upt_Suc)
qed

lemma re_firstline_eq: "option_regex (lit ''firstline'') =
  \<lparr>prog = RSeq RBol (seq_chars (lit ''firstline['') (RSeq (RGroup 1 (RSeq (RRep 1 None True 2 2 (RClass False [CWord])) REmpty))
      (RSeq (RChar 93) (RSeq REol REmpty)))), groups = 2,
   rflags = \<lparr>global = True, ignoreCase = True, multiline = False\<rparr>, lastIndex = 0\<rparr>"
  by (simp add: js_eval)

lemma needs_firstline: "needs 93 (prog (option_regex (lit ''firstline'')))"
  unfolding re_firstline_eq by (simp add: lit_def)

text \<open>A run of word characters and a closing bracket.\<close>

lemma word_run:
  assumes "d \<noteq> []" and "\<forall>c \<in> set d. is_word c" and s: "s = a @ d @ [93]"
  shows "\<exists>rest. m fl s (RRep 1 None True 2 2 (RClass False [CWord])) (length a) cs =
    (length a + length d, cs) # rest"
proof -
  obtain c d' where d: "d = c # d'" using assms(1) by (cases d) auto
  have word: "in_class fl [CWord] = is_word"
    by (rule ext) (auto simp: in_class_def other_case_def is_word_def split: if_splits)
  have sg: "single s is_word (m fl s (RClass False [CWord]))" by (simp add: single_def word)
  have i: "length a \<le> length s" "length a < length s" "s ! length a = c" "is_word c"
    using assms(2) by (simp_all add: s d)
  have "drop (Suc (length a)) s = d' @ [93]" by (simp add: s d)
  moreover have "\<not> is_word 93" by (simp add: is_word_def)
  ultimately have run: "run s is_word (Suc (length a)) = length d'"
    using assms(2) by (simp add: run_def d takeWhile_append)
  have "m fl s (RRep 0 None True 2 2 (RClass False [CWord])) (Suc (length a)) cs =
      map (\<lambda>n. (Suc (length a) + n, cs)) (rev [0..<Suc (length d')])"
    using m_star_greedy [OF sg, of 2 "Suc (length a)" cs] by (simp only: run)
  moreover have "m fl s (RClass False [CWord]) (length a) cs = [(Suc (length a), cs)]"
    using i by (simp add: word)
  ultimately show ?thesis using m_RRep [OF i(1), of fl 1 None True 2 2 "RClass False [CWord]" cs] by (simp add: d)
qed

lemma exec_firstline:
  assumes "d \<noteq> []" and "\<forall>c \<in> set d. is_word c"
  shows "\<exists>mt re'. exec (option_regex (lit ''firstline'')) (lit ''firstline['' @ d @ [93]) = (Some mt, re') \<and>
    group_of mt 1 = Some d"
proof -
  let ?re = "option_regex (lit ''firstline'')" and ?s = "lit ''firstline['' @ d @ [93]"
  let ?fl = "\<lparr>global = True, ignoreCase = True, multiline = False\<rparr>"
  let ?tail = "RSeq (RGroup 1 (RSeq (RRep 1 None True 2 2 (RClass False [CWord])) REmpty)) (RSeq (RChar 93) (RSeq REol REmpty))"
  have len: "length (lit ''firstline['') = 10" by simp
  have "\<exists>rest. m ?fl ?s (RRep 1 None True 2 2 (RClass False [CWord])) 10 [None, None] = (10 + length d, [None, None]) # rest"
    using word_run [OF assms refl, of ?fl "lit ''firstline[''" "[None, None]"] unfolding len by simp
  moreover have "?s ! (10 + length d) = 93" by (metis len length_append nth_append_length append_assoc)
  ultimately have tail: "\<exists>rest. m ?fl ?s ?tail 10 [None, None] =
      (11 + length d, [None, Some (10, 10 + length d)]) # rest"
    by (auto simp: numeral_eq_Suc)
  have "m ?fl ?s (seq_chars (lit ''firstline['') ?tail) 0 [None, None] = m ?fl ?s ?tail 10 [None, None]"
    by (simp add: m_seq_chars len del: m.simps length_lit)
  with tail have "\<exists>rest. m ?fl ?s (prog ?re) 0 (replicate 2 None) = (11 + length d, [None, Some (10, 10 + length d)]) # rest"
    by (auto simp: re_firstline_eq numeral_eq_Suc simp del: replicate_Suc) (simp add: numeral_eq_Suc)
  then have "match_at ?re ?s 0 = Some (mk_match ?s 0 (11 + length d) [None, Some (10, 10 + length d)])"
    by (auto simp: match_at_def re_firstline_eq)
  then have "search ?re ?s [0..<Suc (length ?s)] = Some (mk_match ?s 0 (11 + length d) [None, Some (10, 10 + length d)])"
    by (subst upt_conv_Cons) simp_all
  moreover have "group_of (mk_match ?s 0 (11 + length d) [None, Some (10, 10 + length d)]) 1 = Some d"
    by (simp add: group_of_def mk_match_def slice_def)
  ultimately show ?thesis by (simp add: exec_def re_firstline_eq del: upt_Suc)
qed

lemma get_option_skip:
  "\<forall>x \<in> set pre. 93 \<notin> set x \<Longrightarrow> needs 93 (prog re) \<Longrightarrow> lastIndex re = 0 \<Longrightarrow>
   get_option re (pre @ xs) = get_option re xs"
  by (induction pre) (auto simp: exec_needs)

lemma GetOptionValue_given:
  assumes "\<forall>x \<in> set pre. 93 \<notin> set x" and "d \<noteq> []" and "\<forall>c \<in> set d. is_word c"
  shows "GetOptionValue (lit ''firstline'') (pre @ (lit ''firstline['' @ d @ [93]) # post) dflt = d"
  using exec_firstline [OF assms(2,3)]
    get_option_skip [OF assms(1) needs_firstline, of "(lit ''firstline['' @ d @ [93]) # post"]
  by (auto simp: GetOptionValue_def re_firstline_eq)

lemma GetOptionValue_default:
  assumes "\<forall>x \<in> set opts. 93 \<notin> set x"
  shows "GetOptionValue (lit ''firstline'') opts dflt = dflt"
  using get_option_skip [OF assms needs_firstline, of "[]"] by (simp add: GetOptionValue_def re_firstline_eq)

end
