(* ===== verification/Duplicates.thy ===== *)
theory Duplicates
  imports HighlightAll
begin

text \<open>
  Matches that start at the same position: neither is inside the other for \<open>IsInside\<close>, both
  are written, and the text of the code is written twice.  Two rules that match at the start
  of the code are enough (\<open>two_rules_duplicate\<close>); a word that is in two word lists of one
  brush is such a case, and so is an XML attribute whose value is its name.
\<close>

section \<open>Matches at the start\<close>

definition at_start :: "Match \<Rightarrow> bool" where
  "at_start x \<longleftrightarrow> mindex x = 0 \<and> mlength x \<noteq> 0"

lemma not_inside_start: "mindex x = 0 \<Longrightarrow> \<not> IsInside ms (Some x)"
  by (simp add: IsInside_Some starts_inside_def)

lemma live_start:
  "list_all2 (\<lambda>o' x. o' = Some x \<or> o' = None \<and> mindex x \<noteq> 0) os xs \<Longrightarrow>
   filter at_start (live os) = filter at_start xs"
  by (induction rule: list_all2_induct) (auto simp: at_start_def)

lemma survivors_start: "filter at_start (survivors ms) = filter at_start (array_sort SortCallback ms)"
proof (rule live_start)
  let ?xs = "array_sort SortCallback ms"
  show "list_all2 (\<lambda>o' x. o' = Some x \<or> o' = None \<and> mindex x \<noteq> 0) (null_nested (map Some ?xs)) ?xs"
    using not_inside_start by (auto simp: list_all2_conv_all_nth null_nested_nth)
qed

lemma survivors_start_count: "length (filter at_start (survivors ms)) = length (filter at_start ms)"
  unfolding survivors_start by (metis mset_filter size_mset sort_perm)

lemma distinct_start: "distinct (map mindex ys) \<Longrightarrow> length (filter at_start ys) \<le> 1"
proof (induction ys)
  case (Cons y ys)
  show ?case
  proof (cases "at_start y")
    case True
    with Cons.prems have "filter at_start ys = []"
      by (auto simp: at_start_def filter_empty_conv image_iff)
    with True show ?thesis by simp
  qed (use Cons in simp)
qed simp

text \<open>Two matches that start the code: the text that is written is not the code.\<close>

lemma two_starts_duplicate:
  assumes "\<forall>x \<in> set ms. ok_in cd x" and "2 \<le> length (filter at_start ms)"
  shows "bit_text (highlight_bits cd ms) \<noteq> cd"
  using distinct_start [of "survivors ms"] assms by (auto simp: highlight_text_iff survivors_start_count)

section \<open>Rules that match at the start\<close>

definition rule_matches :: "jsstr \<Rightarrow> rule \<Rightarrow> Match list" where
  "rule_matches cd r =
     (case GetMatches (fst r) (snd r) cd [] of Some (new, _) \<Rightarrow> new | None \<Rightarrow> [])"

lemma GetMatches_rule_matches:
  assumes "good_rule (re, css)"
  shows "GetMatches re css cd ms = Some (ms @ rule_matches cd (re, css), re)"
  using GetMatches_good [OF assms, of cd ms] by (auto simp: GetMatches_def rule_matches_def split: option.splits)

lemma ProcessRegexList_rule_matches:
  "\<forall>r \<in> set rs. good_rule r \<Longrightarrow>
   ProcessRegexList rs cd ms = Some (ms @ concat (map (rule_matches cd) rs), rs)"
  by (induction rs cd ms rule: ProcessRegexList.induct) (auto simp: GetMatches_rule_matches)

lemma rule_matches_start:
  assumes g: "good_rule (re, css)" and at: "match_at re cd 0 = Some mt"
  shows "\<exists>x \<in> set (rule_matches cd (re, css)). at_start x"
proof -
  obtain found where f: "exec_loop re cd = Some (found, re\<lparr>lastIndex := 0\<rparr>)" "ordered_matches cd (lastIndex re) found"
    using exec_loop_result [of re cd] g by (auto simp: good_rule_def)
  have "search re cd [0..<Suc (length cd)] = Some mt"
    using at by (subst upt_conv_Cons) simp_all
  then have "exec re cd = (Some mt, re\<lparr>lastIndex := end_pos mt\<rparr>)"
    using g by (simp add: exec_def good_rule_def del: upt_Suc)
  with f(1) obtain rest where found: "found = mt # rest"
    by (subst (asm) exec_loop.simps) (auto split: bind_splits)
  with f(2) match_at_ok [OF at] have "ok_match cd 1 mt" "start_pos mt = 0" by auto
  then have "at_start (new_Match (case group_of mt 0 of Some v \<Rightarrow> v | None \<Rightarrow> []) (start_pos mt) css)"
    by (auto simp: ok_match_def at_start_def new_Match_def slice_def)
  with f(1) found show ?thesis by (simp add: rule_matches_def GetMatches_def)
qed

lemma two_rules_start:
  assumes "rs = as @ (re1, css1) # bs @ (re2, css2) # cs" and "\<forall>r \<in> set rs. good_rule r"
    and "match_at re1 cd 0 \<noteq> None" and "match_at re2 cd 0 \<noteq> None"
  shows "2 \<le> length (filter at_start (concat (map (rule_matches cd) rs)))"
proof -
  have one: "1 \<le> length (filter at_start (rule_matches cd (re, css)))"
    if "good_rule (re, css)" "match_at re cd 0 \<noteq> None" for re css
    using rule_matches_start [OF that(1)] that(2) by (force simp: Suc_le_eq filter_empty_conv)
  from one [of re1 css1] one [of re2 css2] assms show ?thesis by simp
qed

text \<open>A rule has at most one match at the start: the one its expression finds there.\<close>

lemma rule_start_exact:
  assumes g: "good_rule (re, css)"
  shows "filter at_start (rule_matches cd (re, css)) =
    (case match_at re cd 0 of None \<Rightarrow> [] | Some mt \<Rightarrow> [new_Match (case group_of mt 0 of Some v \<Rightarrow> v | None \<Rightarrow> []) 0 css])"
proof -
  let ?new = "\<lambda>mt. new_Match (case group_of mt 0 of Some v \<Rightarrow> v | None \<Rightarrow> []) (start_pos mt) css"
  obtain found where f: "exec_loop re cd = Some (found, re\<lparr>lastIndex := 0\<rparr>)" "ordered_matches cd 0 found"
    using exec_loop_result [of re cd] g by (auto simp: good_rule_def)
  have rm: "rule_matches cd (re, css) = map ?new found" using f(1) by (simp add: rule_matches_def GetMatches_def)
  have later: "filter at_start (map ?new ms) = []" if "ordered_matches cd i ms" "0 < i" for ms i
    using that
  proof (induction cd i ms rule: ordered_matches.induct)
    case (2 cd i mt ms)
    then have "0 < end_pos mt" by (auto simp: ok_match_def)
    with 2 show ?case by (auto simp: at_start_def new_Match_def)
  qed simp
  have ex: "exec re cd = (case search re cd [0..<Suc (length cd)] of None \<Rightarrow> (None, re\<lparr>lastIndex := 0\<rparr>) | Some mt \<Rightarrow> (Some mt, re\<lparr>lastIndex := end_pos mt\<rparr>))"
    using g by (simp add: exec_def good_rule_def del: upt_Suc)
  show ?thesis
  proof (cases found)
    case Nil
    have "search re cd [0..<Suc (length cd)] = None"
      using f(1) Nil ex by (subst (asm) exec_loop.simps) (auto simp del: upt_Suc split: option.splits bind_splits)
    then have "match_at re cd 0 = None" by (simp add: search_None del: upt_Suc)
    then show ?thesis by (simp add: rm Nil)
  next
    case (Cons mt rest)
    have hit: "search re cd [0..<Suc (length cd)] = Some mt"
      using f(1) Cons ex by (subst (asm) exec_loop.simps) (auto simp del: upt_Suc split: option.splits bind_splits)
    have ok: "ok_match cd 1 mt" "ordered_matches cd (end_pos mt) rest" using f(2) Cons by auto
    then have r: "filter at_start (map ?new rest) = []" by (intro later) (auto simp: ok_match_def)
    have split: "[0..<Suc (length cd)] = 0 # [1..<Suc (length cd)]" by (simp add: upt_conv_Cons del: upt_Suc)
    show ?thesis
    proof (cases "match_at re cd 0")
      case None
      then have "search re cd [1..<Suc (length cd)] = Some mt" using hit unfolding split by simp
      then have "start_pos mt \<noteq> 0" using search_ok by fastforce
      then show ?thesis using None r by (simp add: rm Cons at_start_def new_Match_def)
    next
      case (Some mt')
      then have "mt' = mt" using hit unfolding split by simp
      moreover have "start_pos mt = 0" using Some match_at_ok [of re cd 0 mt'] calculation by simp
      moreover have "at_start (?new mt)" using ok(1) calculation by (auto simp: ok_match_def at_start_def new_Match_def slice_def)
      ultimately show ?thesis using Some r by (simp add: rm Cons)
    qed
  qed
qed

text \<open>The matches at the start are written first, one after the other.\<close>

lemma cut_start:
  "list_all2 (\<lambda>o' x. o' = Some x \<or> o' = None \<and> mindex x \<noteq> 0) os xs \<Longrightarrow> sorted_wrt before xs \<Longrightarrow>
   \<exists>t. bit_text (cut_bits cd pos os) = concat (map mvalue (filter at_start xs)) @ t"
proof (induction os arbitrary: xs pos)
  case (Cons o' os)
  then obtain x xs' where xs: "xs = x # xs'" by (auto simp: list_all2_Cons1)
  show ?case
  proof (cases "mindex x = 0")
    case True
    then have "o' = Some x" using Cons.prems(1) xs by simp
    moreover obtain t where "bit_text (cut_bits cd (if mlength x = 0 then pos else mindex x + mlength x) os) = concat (map mvalue (filter at_start xs')) @ t"
      using Cons.IH [of xs' "if mlength x = 0 then pos else mindex x + mlength x"] Cons.prems xs by auto
    moreover have "Copy cd (int pos) 0 = []" by (simp add: Copy_def substr_def)
    moreover have "at_start x \<longleftrightarrow> mlength x \<noteq> 0" using True by (simp add: at_start_def)
    ultimately show ?thesis using True xs by (cases "mlength x = 0") (simp_all add: bit_text_def)
  next
    case False
    then have "filter at_start xs = []" using Cons.prems(2) xs by (auto simp: at_start_def before_def filter_empty_conv)
    then show ?thesis by simp
  qed
qed simp

lemma highlight_start:
  assumes "\<forall>x \<in> set (filter at_start ms). mvalue x = w"
  shows "prefix (concat (replicate (length (filter at_start ms)) w)) (bit_text (highlight_bits cd ms))"
proof (cases "ms = []")
  case False
  let ?xs = "array_sort SortCallback ms"
  have ms: "mset ?xs = mset ms" by (rule sort_perm)
  have "list_all2 (\<lambda>o' x. o' = Some x \<or> o' = None \<and> mindex x \<noteq> 0) (null_nested (map Some ?xs)) ?xs"
    using not_inside_start by (auto simp: list_all2_conv_all_nth null_nested_nth)
  then obtain t where t: "bit_text (highlight_bits cd ms) = concat (map mvalue (filter at_start ?xs)) @ t"
    using cut_start [where xs = ?xs and cd = cd and pos = 0] sort_sorted False unfolding highlight_bits_def by fastforce
  have "mset (filter at_start ?xs) = mset (filter at_start ms)" by (simp add: ms)
  then have "map mvalue (filter at_start ?xs) = replicate (length (filter at_start ms)) w"
  proof -
    assume e: "mset (filter at_start ?xs) = mset (filter at_start ms)"
    have "map mvalue (filter at_start ?xs) = map (\<lambda>_. w) (filter at_start ?xs)"
      using mset_eq_setD [OF e] assms by (intro map_cong) simp_all
    also have "\<dots> = replicate (length (filter at_start ms)) w"
      using arg_cong [OF e, of size] by (simp only: map_replicate_const size_mset)
    finally show ?thesis .
  qed
  with t show ?thesis by simp
qed simp

context rule_brush
begin

lemma good_rules: "\<forall>r \<in> set (rules br). good_rule r"
  using good by blast

lemma matches_of_rules: "matches_of br cd = concat (map (rule_matches cd) (rules br))"
  using ProcessRegexList_rule_matches [OF good_rules, of cd "[]"]
  by (simp add: matches_of_def default_collect)

lemma two_rules_duplicate:
  assumes "rules br = as @ (re1, css1) # bs @ (re2, css2) # cs"
    and "match_at re1 cd 0 \<noteq> None" and "match_at re2 cd 0 \<noteq> None"
  shows "bit_text (highlight_bits cd (matches_of br cd)) \<noteq> cd"
proof (rule two_starts_duplicate)
  show "2 \<le> length (filter at_start (matches_of br cd))"
    unfolding matches_of_rules by (rule two_rules_start [OF assms(1) good_rules assms(2,3)])
qed (use matches_ok in blast)

end

section \<open>Words in two lists\<close>

lemma css_common:
  "lit ''right'' \<in> set (split_str [SP] css_keywords)" "lit ''right'' \<in> set (split_str [SP] css_values)"
  "lit ''bottom'' \<in> set (split_str [SP] css_keywords)" "lit ''bottom'' \<in> set (split_str [SP] css_values)"
  "lit ''baseline'' \<in> set (split_str [SP] css_keywords)" "lit ''baseline'' \<in> set (split_str [SP] css_values)"
  by (rule word_seek_member, unfold css_keywords_def css_values_def word_pass, simp add: lit_def)+

lemma php_common:
  "lit ''empty'' \<in> set (split_str [SP] php_funcs)" "lit ''empty'' \<in> set (split_str [SP] php_keywords)"
  by (rule word_seek_member, unfold php_funcs_def php_keywords_def word_pass, simp add: lit_def)+

lemma word_start:
  assumes "is_word (hd w)" and "is_word (last w)" and "w \<noteq> []" and "rest = [] \<or> \<not> is_word (hd rest)"
  shows "word_here fl (w @ rest) 0 w"
proof -
  have "w ! 0 = hd w" "w ! (length w - 1) = last w" using assms(3) by (simp_all add: hd_conv_nth last_conv_nth)
  with assms show ?thesis
    by (cases rest) (auto simp: word_here_def word_boundary_def word_at_def nth_append)
qed

lemma keyword_at_start:
  assumes "word_list kws" and "w \<in> set (split_str [SP] kws)" and "word_here (parse_flags f) cd 0 w"
  shows "match_at (js_regex (GetKeywords kws) f) cd 0 \<noteq> None"
proof -
  have "filter (word_here (parse_flags f) cd 0) (split_str [SP] kws) \<noteq> []"
    using assms(2,3) by (auto simp: filter_empty_conv)
  moreover have "\<forall>v \<in> set (split_str [SP] kws). v \<noteq> []"
    using word_list_words [OF assms(1)] by (auto simp: keyword_def)
  ultimately show ?thesis
    using match_at_keywords [of "split_str [SP] kws" "js_regex (GetKeywords kws) f" cd 0] assms(1)
    by (auto simp: RegExp_word_list split_str_nonempty split: list.splits)
qed

text \<open>Between boundaries at the start there is only one word when the text after it continues no word of the list.\<close>

lemma word_here_only:
  assumes "\<not> ignoreCase fl" "list_all is_word w" "w \<noteq> []" "rest = [] \<or> \<not> is_word (hd rest) \<and> hd rest \<noteq> 45"
    and "v \<noteq> []" "\<forall>c \<in> set v. is_word c \<or> c = 45" "word_here fl (w @ rest) 0 v"
  shows "v = w"
proof -
  have can: "canonicalize fl = id" using assms(1) by (auto simp: canonicalize_def)
  have v: "take (length v) (w @ rest) = v" "length v \<le> length (w @ rest)" "word_boundary (w @ rest) (length v)"
    using assms(7) by (auto simp: word_here_def can)
  show ?thesis
  proof (cases "length v" "length w" rule: linorder_cases)
    case less
    let ?n = "length v"
    have "is_word (w ! ?n)" "is_word (w ! (?n - 1))" using assms(2) less by (simp_all add: list_all_length)
    then have "\<not> word_boundary (w @ rest) ?n" using less assms(5) by (auto simp: word_boundary_def word_at_def nth_append)
    with v(3) show ?thesis by blast
  next
    case equal
    then show ?thesis using v(1) by simp
  next
    case greater
    then have "rest \<noteq> []" using v(2) by auto
    moreover have "v ! length w = (w @ rest) ! length w" using v(1) greater by (metis nth_take)
    ultimately have "v ! length w = hd rest" by (simp add: hd_conv_nth nth_append)
    moreover have "v ! length w \<in> set v" using greater by simp
    ultimately show ?thesis using assms(4,6) \<open>rest \<noteq> []\<close> by metis
  qed
qed

lemma css_chars:
  "list_all (\<lambda>c. is_word c \<or> c = 45 \<or> c = SP) css_keywords" "list_all (\<lambda>c. is_word c \<or> c = 45 \<or> c = SP) css_values"
  by (simp_all add: css_keywords_def css_values_def lit_def is_word_def)

lemma list_match_start:
  assumes "word_list kws" "list_all (\<lambda>c. is_word c \<or> c = 45 \<or> c = SP) kws" "\<not> ignoreCase (parse_flags f)"
    and "w \<in> set (split_str [SP] kws)" "list_all is_word w" "rest = [] \<or> \<not> is_word (hd rest) \<and> hd rest \<noteq> 45"
  shows "match_at (js_regex (GetKeywords kws) f) (w @ rest) 0 = Some (mk_match (w @ rest) 0 (length w) [None])"
proof -
  have ne: "\<forall>v \<in> set (split_str [SP] kws). v \<noteq> []" using word_list_words [OF assms(1)] by (auto simp: keyword_def)
  have w: "w \<noteq> []" "is_word (hd w)" "is_word (last w)" using ne assms(4,5) by (auto simp: list_all_iff)
  have here: "word_here (parse_flags f) (w @ rest) 0 w" using word_start [OF w(2,3,1)] assms(6) by blast
  have "v = w" if "v \<in> set (split_str [SP] kws)" "word_here (parse_flags f) (w @ rest) 0 v" for v
  proof (rule word_here_only [OF assms(3,5) w(1) assms(6) _ _ that(2)])
    show "\<forall>c \<in> set v. is_word c \<or> c = 45"
      using that(1) assms(2) sublist_piece [OF that(1)] split_single_pieces [OF that(1)] set_mono_sublist by (fastforce simp: list_all_iff)
  qed (use ne that in blast)
  then have "\<forall>v \<in> set (filter (word_here (parse_flags f) (w @ rest) 0) (split_str [SP] kws)). v = w" by auto
  moreover have "filter (word_here (parse_flags f) (w @ rest) 0) (split_str [SP] kws) \<noteq> []"
    using here assms(4) by (auto simp: filter_empty_conv)
  ultimately obtain us where "filter (word_here (parse_flags f) (w @ rest) 0) (split_str [SP] kws) = w # us"
    by (cases "filter (word_here (parse_flags f) (w @ rest) 0) (split_str [SP] kws)") auto
  then show ?thesis
    using match_at_keywords [OF split_str_nonempty ne, of "js_regex (GetKeywords kws) f" "w @ rest" 0] assms(1)
    by (simp add: RegExp_word_list)
qed

text \<open>No other rule of the brush matches a code that starts with one of the three words.\<close>

lemma css_programs:
  "\<exists>r. prog MultiLineCComments = RSeq (RChar 47) r \<and> \<not> ignoreCase (rflags MultiLineCComments)"
  "\<exists>r. prog DoubleQuotedString = RSeq (RChar 34) r \<and> \<not> ignoreCase (rflags DoubleQuotedString)"
  "\<exists>r. prog SingleQuotedString = RSeq (RChar 39) r \<and> \<not> ignoreCase (rflags SingleQuotedString)"
  by (simp_all add: MultiLineCComments_def DoubleQuotedString_def SingleQuotedString_def js_eval)

lemma css_others:
  assumes "c = 114 \<or> c = 98"
  shows "match_at MultiLineCComments (c # t) 0 = None" "match_at DoubleQuotedString (c # t) 0 = None"
    "match_at SingleQuotedString (c # t) 0 = None"
proof -
  have first: "match_at re (c # t) 0 = None" if "\<exists>r. prog re = RSeq (RChar d) r \<and> \<not> ignoreCase (rflags re)" "c \<noteq> d" for re d
    using that by (auto simp: match_at_def canonicalize_def)
  show "match_at MultiLineCComments (c # t) 0 = None" "match_at DoubleQuotedString (c # t) 0 = None"
    "match_at SingleQuotedString (c # t) 0 = None"
    by (rule first [OF css_programs(1)] first [OF css_programs(2)] first [OF css_programs(3)]; use assms in auto)+
qed

lemma css_color: "c = 114 \<or> c = 98 \<Longrightarrow> match_at (js_regex (pat ''`#[a-zA-Z0-9]{3,6}'') (lit ''g'')) (c # t) 0 = None"
proof -
  have "\<exists>r re. js_regex (pat ''`#[a-zA-Z0-9]{3,6}'') (lit ''g'') = re \<and> prog re = RSeq (RChar 35) r \<and> \<not> ignoreCase (rflags re)"
    by (simp add: js_eval)
  then show "c = 114 \<or> c = 98 \<Longrightarrow> ?thesis" by (auto simp: match_at_def canonicalize_def)
qed

lemma css_size: "c = 114 \<or> c = 98 \<Longrightarrow> match_at (js_regex (pat ''(`d+)(px|pt|:)'') (lit ''g'')) (c # t) 0 = None"
proof -
  have "\<exists>lo hi n r re. js_regex (pat ''(`d+)(px|pt|:)'') (lit ''g'') = re \<and>
      prog re = RSeq (RGroup n (RSeq (RRep (Suc 0) None True lo hi (RClass False [CDigit])) REmpty)) r" by (simp add: js_eval)
  moreover have "m fl (c # t) (RRep (Suc 0) None True lo hi (RClass False [CDigit])) 0 cs = []" if "c = 114 \<or> c = 98" for fl lo hi cs
    using that by (auto simp: m_rep in_class_def other_case_def is_digit_def)
  ultimately show "c = 114 \<or> c = 98 \<Longrightarrow> ?thesis" by (auto simp: match_at_def)
qed

lemma css_font_programs:
  "\<exists>r1 r2 r3 r4 r5 r6 r7 re. js_regex (GetKeywords css_fonts) (lit ''g'') = re \<and> rflags re = g_flags \<and>
     prog re = RAlt (RSeq RWordB (RSeq (RClass False [CChar 109, CChar 77]) r1)) (RAlt (RSeq RWordB (RSeq (RClass False [CChar 116, CChar 84]) r2))
       (RAlt (RSeq RWordB (RSeq (RClass False [CChar 118, CChar 86]) r3)) (RAlt (RSeq RWordB (RSeq (RClass False [CChar 97, CChar 65]) r4))
       (RAlt (RSeq RWordB (RSeq (RClass False [CChar 104, CChar 72]) r5)) (RAlt (RSeq RWordB (RSeq (RClass False [CChar 115, CChar 83]) r6))
       (RSeq RWordB (RSeq (RClass False [CChar 115, CChar 83]) r7)))))))"
  by (simp add: css_fonts_def js_eval)

lemma css_font: "c = 114 \<or> c = 98 \<Longrightarrow> match_at (js_regex (GetKeywords css_fonts) (lit ''g'')) (c # t) 0 = None"
  using css_font_programs by (auto simp: match_at_def in_class_def)

section \<open>Properties\<close>

text \<open>
  C7: a CSS code that starts with one of the three words that are both in the keyword list and in the value list
  (\<open>right\<close>, \<open>bottom\<close>, \<open>baseline\<close>), followed by nothing or by a character that is neither a word
  character nor a hyphen.  The text that is written begins with the word twice: both matches are written.
\<close>

theorem css_word_twice:
  assumes "w \<in> {lit ''right'', lit ''bottom'', lit ''baseline''}" and "rest = [] \<or> \<not> is_word (hd rest) \<and> hd rest \<noteq> 45"
  shows "prefix (w @ w) (bit_text (highlight_bits (w @ rest) (matches_of CSS (w @ rest))))"
proof -
  let ?cd = "w @ rest" and ?ms = "matches_of CSS (w @ rest)"
  obtain c t where c: "w @ rest = c # t" "c = 114 \<or> c = 98" using assms(1) by (auto simp: lit_def)
  have tk: "take (length w) (c # t) = w" using c(1) by (metis append_eq_conv_conj)
  have w: "list_all is_word w" "w \<in> set (split_str [SP] css_keywords)" "w \<in> set (split_str [SP] css_values)"
    using assms(1) css_common by (auto simp: lit_def is_word_def)
  have f: "\<not> ignoreCase (parse_flags (lit ''gm''))" "\<not> ignoreCase (parse_flags (lit ''g''))" by (simp_all add: js_eval)
  note hit = list_match_start [OF word_list_css_keywords css_chars(1) f(1) w(2,1) assms(2)]
    list_match_start [OF word_list_css_values css_chars(2) f(2) w(3,1) assms(2)]
  have good: "\<forall>r \<in> set (rules CSS). good_rule r" by (rule CSS.good_rules)
  have "filter at_start ?ms = concat (map (\<lambda>r. filter at_start (rule_matches ?cd r)) (rules CSS))"
    by (simp add: CSS.matches_of_rules filter_concat comp_def)
  also have "\<dots> = [new_Match w 0 (lit ''keyword''), new_Match w 0 (lit ''string'')]"
    using good by (simp add: CSS_def CSS_regexList_def rule_start_exact hit [unfolded c(1)] tk css_others css_color css_size css_font c mk_match_def group_of_def slice_def)
  finally have "filter at_start ?ms = [new_Match w 0 (lit ''keyword''), new_Match w 0 (lit ''string'')]" .
  then show ?thesis using highlight_start [of ?ms w ?cd] by (simp add: new_Match_def numeral_2_eq_2)
qed

lemma css_word_twice_witness:
  "prefix (lit ''rightright'') (bit_text (highlight_bits (lit ''right'' @ lit '': 0'') (matches_of CSS (lit ''right'' @ lit '': 0''))))"
  using css_word_twice [of "lit ''right''" "lit '': 0''"] by (simp add: lit_def is_word_def)

text \<open>The same for PHP and the word \<open>empty\<close>, which is both a function and a keyword.\<close>

theorem php_empty_twice:
  assumes "rest = [] \<or> \<not> is_word (hd rest)"
  shows "bit_text (highlight_bits (lit ''empty'' @ rest) (matches_of Php (lit ''empty'' @ rest)))
    \<noteq> lit ''empty'' @ rest"
proof (rule Php.two_rules_duplicate)
  have here: "word_here fl (lit ''empty'' @ rest) 0 (lit ''empty'')" for fl
    using assms by (intro word_start) (simp_all add: lit_def is_word_def)
  show "match_at (js_regex (GetKeywords php_funcs) (lit ''gmi'')) (lit ''empty'' @ rest) 0 \<noteq> None"
    by (rule keyword_at_start [OF word_list_php_funcs php_common(1) here])
  show "match_at (js_regex (GetKeywords php_keywords) (lit ''gm'')) (lit ''empty'' @ rest) 0 \<noteq> None"
    by (rule keyword_at_start [OF word_list_php_keywords php_common(2) here])
  show "rules Php = take 5 Php_regexList @ (js_regex (GetKeywords php_funcs) (lit ''gmi''), lit ''func'') #
      [] @ (js_regex (GetKeywords php_keywords) (lit ''gm''), lit ''keyword'') # []"
    by (simp add: Php_def Php_regexList_def)
qed

lemma php_empty_twice_witness:
  "bit_text (highlight_bits (lit ''empty'' @ lit ''($x)'') (matches_of Php (lit ''empty'' @ lit ''($x)'')))
     \<noteq> lit ''empty'' @ lit ''($x)''"
  by (rule php_empty_twice) (simp add: lit_def is_word_def)

text \<open>An XML attribute whose value is its own name is written twice: \<open>indexOf\<close> finds the
  value where the name stands.\<close>

theorem xml_attribute_twice:
  "bit_text (highlight_bits (lit ''a=a'') (matches_of Xml (lit ''a=a''))) = lit ''aa=a''"
  by (simp add: matches_of_def Xml_def Xml_ProcessRegexList_def push_all_def attribute_matches_def
      tag_name_match_def group_index_def live_def re_cdata_def re_comments_def re_attribute_def
      re_tag_def re_tag_name_def js_eval)

end
