(* ===== verification/HighlighterSpec.thy ===== *)
theory HighlighterSpec
  imports Duplicates
begin

text \<open>
  The properties of the syntax highlighter as a whole: what \<open>Highlight\<close> does with every
  brush, how overlapping matches are resolved, the list of lines, the toolbar, and the pass
  of \<open>HighlightAll\<close> over a page.
\<close>

definition sample_window :: window where
  "sample_window = \<lparr>clipboardData = False, ClipboardSwf = None, stylesheets = [], AboutDialog = [],
     Version = lit ''1.5.1''\<rparr>"

definition sample_code :: jsstr where
  "sample_code = lit ''a'' @ [NL] @ lit ''b''"

lemma Xml_sample: "matches_of Xml (sample_code @ [NL]) = []"
  by (simp add: sample_code_def matches_of_def Xml_def Xml_ProcessRegexList_def push_all_def attribute_matches_def
      tag_name_match_def re_cdata_def re_comments_def re_attribute_def re_tag_def re_tag_name_def js_eval)

lemma Unindent_sample: "Unindent sample_code = sample_code"
  by (simp add: Unindent_eq sample_code_def js_eval indent_def blank_def)

lemma prepare_sample: "prepare new_Highlighter sample_code = sample_code @ [NL]"
  by (simp add: prepare_def Unindent_sample) (simp add: sample_code_def js_eval Chop_eq strip_nl_def)

section \<open>Highlighting\<close>

text \<open>C1: for every registered brush, \<open>Highlight\<close> returns on every input and with every option; the
  code it works on is the prepared source, the text it writes is that code exactly when no two
  matches that survive start at the same position, and the bar with the toolbar is attached
  exactly when there is a match.\<close>

theorem highlight_total:
  assumes "br \<in> set brushes"
  shows "\<exists>h. Highlight w norm br o' fl input = Some h \<and>
    code h = prepare o' (source_of input) \<and>
    (bit_text (bits h) = code h \<longleftrightarrow> distinct (map mindex (survivors (matches_of br (code h))))) \<and>
    (bar_attached h \<longleftrightarrow> matches_of br (code h) \<noteq> [])"
proof -
  note b = brushes_contract [OF assms]
  from matching_brush.highlights [OF b] obtain h where
    "Highlight w norm br o' fl input = Some h" "code h = prepare o' (source_of input)"
    "bits h = highlight_bits (code h) (matches_of br (code h))"
    "bar_attached h = (matches_of br (code h) \<noteq> [])" by blast
  with matching_brush.text_iff [OF b, of "code h"] show ?thesis by auto
qed

lemma highlight_total_witness:
  "\<exists>h. Highlight sample_window html_norm Cpp new_Highlighter None (Some (lit ''int x;'')) = Some h \<and>
    code h = prepare new_Highlighter (source_of (Some (lit ''int x;''))) \<and>
    (bit_text (bits h) = code h \<longleftrightarrow> distinct (map mindex (survivors (matches_of Cpp (code h))))) \<and>
    (bar_attached h \<longleftrightarrow> matches_of Cpp (code h) \<noteq> [])"
  by (rule highlight_total) (simp add: registry_def)

text \<open>C2: one list item per line.  Whenever the text is written as it is and holds no carriage return, no \<open>&#\<close>
  and no \<open>&NewLine;\<close>, the list has as many items as the chopped, unindented source has lines, for every
  browser that reads such text back without new angle brackets and line breaks, and escaped text in its
  place behind a line break tag.\<close>

theorem one_item_per_line:
  assumes "html_fragment norm" and "br \<in> set brushes" and "tabsToSpaces o'"
    and "Highlight w norm br o' fl input = Some h" and "bit_text (bits h) = code h" and "safe_text (code h)"
  shows "length (items (view h)) = length (split_str [NL] (Chop (Unindent (source_of input))))"
proof -
  let ?c = "Chop (Unindent (source_of input))"
  note b = brushes_contract [OF assms(2)]
  from matching_brush.highlights [OF b, of w norm o' fl input] assms(4)
  have h: "code h = ProcessSmartTabs ?c" "bits h = highlight_bits (code h) (matches_of br (code h))"
    "view h = SwitchToList w norm o' (foldl AddBit [] (bits h))"
    using assms(3) by (auto simp: prepare_def Let_def)
  have "length (items (view h)) = count_list (code h) NL"
    using html_fragment.items_count [OF assms(1), of "bits h" w o'] matching_brush.plain [OF b] h assms(5,6) by simp
  also have "\<dots> = length (split_str [NL] ?c)"
    using length_split_single [of NL "code h"] split_ProcessSmartTabs [of ?c] h(1) by simp
  finally show ?thesis .
qed

lemma one_item_per_line_witness:
  "\<exists>h. Highlight sample_window html_norm Xml new_Highlighter None (Some sample_code) = Some h \<and>
     length (items (view h)) = 2"
proof -
  have "Xml \<in> set brushes" by (simp add: registry_def)
  moreover obtain h where h: "Highlight sample_window html_norm Xml new_Highlighter None (Some sample_code) = Some h"
    "code h = prepare new_Highlighter (source_of (Some sample_code))"
    "bits h = highlight_bits (code h) (matches_of Xml (code h))"
    using Xml.highlights by blast
  moreover have "bit_text (bits h) = code h"
    by (simp add: h(2,3) source_of_def prepare_sample Xml_sample highlight_bits_def bit_text_def)
  moreover have "safe_text (code h)" unfolding h(2) source_of_def option.case prepare_sample
    by (simp add: safe_text_def sample_code_def lit_def sublist_Cons_right)
  ultimately have "length (items (view h)) = length (split_str [NL] (Chop (Unindent (source_of (Some sample_code)))))"
    by (intro one_item_per_line [OF browser.html_fragment_axioms]) (auto simp: new_Highlighter_def)
  also have "\<dots> = 2" by (simp add: source_of_def Unindent_sample Chop_eq strip_nl_def) (simp add: sample_code_def js_eval)
  finally show ?thesis using h(1) by blast
qed

text \<open>A character reference in the code is read back as what it stands for: the one line of code \<open>&#10;\<close> becomes two
  items, because \<open>AddBit\<close> does not escape the ampersand.\<close>

definition reference_code :: jsstr where
  "reference_code = lit ''&#10;''"

lemma Xml_reference: "matches_of Xml (reference_code @ [NL]) = []"
  by (simp add: reference_code_def matches_of_def Xml_def Xml_ProcessRegexList_def push_all_def attribute_matches_def
      tag_name_match_def re_cdata_def re_comments_def re_attribute_def re_tag_def re_tag_name_def js_eval)

lemma prepare_reference: "prepare new_Highlighter reference_code = reference_code @ [NL]"
proof -
  have "Unindent reference_code = reference_code" by (simp add: Unindent_eq reference_code_def js_eval indent_def blank_def)
  then show ?thesis by (simp add: prepare_def) (simp add: reference_code_def js_eval Chop_eq strip_nl_def)
qed

lemma read_reference: "html_norm (bit_html (reference_code @ [NL])) = [NL] @ lit ''&nbsp;<br>''"
  unfolding bit_html_esc
  by (simp add: reference_code_def esc_def esc_char_def br_sep_def html_norm.simps read_char_def decimal_ref_def Let_def
      char_refs_def serialized_char_def lit_def is_digit_def digit_value_def)

theorem reference_extra_item:
  "\<exists>h. Highlight sample_window html_norm Xml new_Highlighter None (Some reference_code) = Some h \<and>
     length (split_str [NL] (Chop (Unindent reference_code))) = 1 \<and> length (items (view h)) = 2"
proof -
  obtain h where h: "Highlight sample_window html_norm Xml new_Highlighter None (Some reference_code) = Some h"
    "code h = prepare new_Highlighter (source_of (Some reference_code))"
    "bits h = highlight_bits (code h) (matches_of Xml (code h))"
    "view h = SwitchToList sample_window html_norm new_Highlighter (foldl AddBit [] (bits h))"
    using Xml.highlights by blast
  have "bits h = [(reference_code @ [NL], None)]"
    by (simp add: h(2,3) source_of_def prepare_reference Xml_reference highlight_bits_def)
  then have "foldl AddBit [] (bits h) = [Span None (bit_html (reference_code @ [NL]))]"
    by (simp add: AddBit_plain bit_html_esc)
  then have "innerHTML html_norm (foldl AddBit [] (bits h)) = lit ''<span>'' @ ([NL] @ lit ''&nbsp;<br>'') @ lit ''</span>''"
    by (simp add: innerHTML_def read_reference lit_def)
  moreover have "br_to_nl (lit ''<span>'' @ ([NL] @ lit ''&nbsp;<br>'') @ lit ''</span>'') =
      lit ''<span>'' @ [NL] @ lit ''&nbsp;'' @ [NL] @ lit ''</span>''"
    by (simp add: js_eval re_br_def)
  ultimately have "length (items (view h)) = 2"
    by (simp add: h(4) SwitchToList_def list_items_def length_split_single Let_def) (simp add: lit_def)
  moreover have "length (split_str [NL] (Chop (Unindent reference_code))) = 1"
    by (simp add: Unindent_eq Chop_eq strip_nl_def reference_code_def js_eval indent_def blank_def)
  ultimately show ?thesis using h(1) by blast
qed

text \<open>C3: nested matches.  Of the sorted matches, one is dropped only if it starts strictly inside
  an earlier one that stays; of two that stay, the later starts where the earlier starts or
  after its end.\<close>

theorem nested_matches_resolved:
  assumes "xs = array_sort SortCallback ms" and "kept = null_nested (map Some xs)" and "j < length xs"
  shows "(kept ! j = None \<longrightarrow> (\<exists>i a. i < j \<and> kept ! i = Some a \<and>
            mindex a < mindex (xs ! j) \<and> mindex (xs ! j) < mindex a + mlength a)) \<and>
         (\<forall>b i a. kept ! j = Some b \<and> mlength b \<noteq> 0 \<and> i < j \<and> kept ! i = Some a \<longrightarrow>
            b = xs ! j \<and> (mindex a = mindex b \<or> mindex a + mlength a \<le> mindex b))"
proof -
  have s: "sorted_wrt before xs" by (simp add: assms(1) sort_sorted)
  show ?thesis
    using dropped_inside_survivor [OF s assms(3)] survivors_disjoint [OF s _ assms(3)]
      null_nested_Some [OF assms(3)] unfolding assms(2) starts_inside_def by blast
qed

lemma nested_matches_resolved_witness:
  "let x = new_Match (lit ''ab'') 0 (lit ''string''); y = new_Match (lit ''b'') 1 (lit ''keyword'');
       kept = null_nested (map Some (array_sort SortCallback [y, x]))
   in kept ! 1 = None \<and> (\<exists>i a. i < 1 \<and> kept ! i = Some a \<and> mindex a < 1 \<and> 1 < mindex a + mlength a)"
proof -
  let ?x = "new_Match (lit ''ab'') 0 (lit ''string'')" and ?y = "new_Match (lit ''b'') 1 (lit ''keyword'')"
  have s: "array_sort SortCallback [?y, ?x] = [?x, ?y]" by (simp add: js_eval)
  have k: "null_nested (map Some [?x, ?y]) ! 1 = None" by (simp add: js_eval)
  have m: "mindex ([?x, ?y] ! 1) = 1" by (simp add: new_Match_def)
  have "1 < length [?x, ?y]" by simp
  from nested_matches_resolved [OF s [symmetric] refl this] k m show ?thesis
    by (simp only: Let_def s simp_thms)
qed

text \<open>Sorting.  Sorting with \<open>SortCallback\<close> rearranges the matches into the order of position,
  then length, and keeps matches with the same position and length in the order found.\<close>

theorem sort_matches:
  "mset (array_sort SortCallback ms) = mset ms \<and>
   sorted_wrt (\<lambda>a b. mindex a < mindex b \<or> mindex a = mindex b \<and> mlength a \<le> mlength b)
     (array_sort SortCallback ms) \<and>
   filter (\<lambda>x. mindex x = i \<and> mlength x = l) (array_sort SortCallback ms) =
     filter (\<lambda>x. mindex x = i \<and> mlength x = l) ms"
proof -
  let ?z = "\<lparr>mvalue = [], mindex = i, mlength = l, mcss = []\<rparr>"
  have "(\<lambda>y. before y ?z \<and> before ?z y) = (\<lambda>x. mindex x = i \<and> mlength x = l)"
    by (auto simp: before_def fun_eq_iff)
  with match_order.array_sort_stable [of ?z ms] sort_perm [of ms] sort_sorted [of ms]
  show ?thesis by (simp add: before_def [abs_def])
qed

text \<open>Collecting.  For a global expression that cannot match the empty string, \<open>GetMatches\<close>
  ends, leaves the expression ready for the next code, and appends non-empty, disjoint parts of
  the code from left to right, all with the given class.\<close>

theorem get_matches_result:
  assumes "good_rule (re, css)"
  shows "\<exists>new. GetMatches re css cd ms = Some (ms @ new, re) \<and>
    list_all (\<lambda>x. mvalue x = take (mlength x) (drop (mindex x) cd) \<and> 0 < mlength x \<and>
      mindex x + mlength x \<le> length cd \<and> mcss x = css) new \<and>
    sorted_wrt (\<lambda>a b. mindex a + mlength a \<le> mindex b) new"
  using GetMatches_ordered [OF assms, of cd ms]
  by (auto simp: good_match_def ok_in_def list_all_iff)

lemma get_matches_result_witness:
  "\<exists>new. GetMatches SingleLineCComments (lit ''comment'') (lit ''x //y'') [] = Some ([] @ new, SingleLineCComments) \<and>
    list_all (\<lambda>x. mvalue x = take (mlength x) (drop (mindex x) (lit ''x //y'')) \<and> 0 < mlength x \<and>
      mindex x + mlength x \<le> length (lit ''x //y'') \<and> mcss x = lit ''comment'') new \<and>
    sorted_wrt (\<lambda>a b. mindex a + mlength a \<le> mindex b) new"
  by (rule get_matches_result) (simp add: rule_facts)

text \<open>A blank too many.  A word list with two blanks in a row makes an expression that matches
  the empty string at a word boundary, and the loop of \<open>GetMatches\<close> never ends on a code that
  starts with a word.  (No word list of the brushes has this: \<open>word_lists\<close>.)\<close>

theorem double_blank_hangs:
  "GetMatches (js_regex (GetKeywords (lit ''a  b'')) (lit ''g'')) css (lit ''x'') ms = None"
proof -
  let ?re = "js_regex (GetKeywords (lit ''a  b'')) (lit ''g'')"
  have "exec ?re (lit ''x'') = (Some \<lparr>start_pos = 0, end_pos = 0, group = [Some []]\<rparr>, ?re)"
    by (simp add: js_eval)
  from exec_loop_diverges [OF this] show ?thesis by (simp add: GetMatches_def)
qed

text \<open>C6: a keyword rule.  The expression of a list of literal words separated by single blanks matches at a
  position exactly when one of the words stands there between word boundaries, up to case under the flag \<open>i\<close>, and
  takes the first such word of the list.  (The list of CSS fonts is not such a list: its words are expressions.)\<close>

theorem keyword_rule_exact:
  assumes "word_list kws"
  shows "match_at (js_regex (GetKeywords kws) f) s i =
    (case filter (word_here (parse_flags f) s i) (split_str [SP] kws) of
       [] \<Rightarrow> None
     | w # _ \<Rightarrow> Some (mk_match s i (i + length w) [None]))"
proof -
  have "\<forall>v \<in> set (split_str [SP] kws). v \<noteq> []"
    using word_list_words [OF assms] by (auto simp: keyword_def)
  from match_at_keywords [OF split_str_nonempty this, where re = "js_regex (GetKeywords kws) f" and s = s and i = i]
  show ?thesis by (simp add: RegExp_word_list [OF assms] cong: list.case_cong)
qed

lemma keyword_rule_exact_witness:
  "match_at (js_regex (GetKeywords java_keywords) (lit ''gm'')) (lit ''int'') 0 =
    (case filter (word_here (parse_flags (lit ''gm'')) (lit ''int'') 0) (split_str [SP] java_keywords) of
       [] \<Rightarrow> None
     | w # _ \<Rightarrow> Some (mk_match (lit ''int'') 0 (0 + length w) [None]))"
  by (rule keyword_rule_exact) (rule word_list_java_keywords)

section \<open>The toolbar and the list\<close>

text \<open>Viewing the source.  The text that \<open>ViewSource\<close> writes into the window's text area holds
  no \<open><\<close>, so no code can close the text area early, and a browser that reads \<open>&lt;\<close> as \<open><\<close>
  shows the code.\<close>

theorem view_source_contained:
  "\<exists>t. run_command w enc ViewSource h =
     (h, [OpenWindow (lit ''width=750, height=400, location=0, resizable=1, menubar=0, scrollbars=0''),
          WriteDoc (lit ''<textarea style=\"width:99%;height:99%\">'' @ t @ lit ''</textarea>'')]) \<and>
   60 \<notin> set t \<and> t = concat (map (\<lambda>c. if c = 60 then lit ''&lt;'' else [c]) (originalCode h))"
proof -
  let ?t = "concat (map (\<lambda>c. if c = 60 then lit ''&lt;'' else [c]) (originalCode h))"
  have "60 \<notin> set ?t" by (auto simp: lit_def)
  then show ?thesis by (intro exI [of _ ?t]) (simp add: replace_lt)
qed

text \<open>A command goes to the nearest enclosing highlighter, and expanding a collapsed block leaves
  a class that is no longer collapsed.\<close>

theorem toolbar_command_nearest:
  assumes "\<forall>x \<in> set below. \<not> is_highlighter_div (fst x)"
    and "Highlight w norm br o' fl input = Some hl" and "div_class h = top_class hl"
  shows "\<exists>h' es. Toolbar_Command w enc c (below @ (div_class h, h) # outer) = Some (h', es) \<and>
     (h', es) = run_command w enc c h \<and>
     div_class (fst (run_command w enc ExpandSource h)) =
       lit ''dp-highlighter'' @ (if collapse o' then lit '' '' else []) @ (if noGutter o' then lit '' nogutter'' else [])"
proof -
  have top: "div_class h = lit ''dp-highlighter'' @ (if collapse o' then lit '' collapsed'' else [])
      @ (if noGutter o' then lit '' nogutter'' else [])"
    using assms(2,3) by (auto simp: Highlight_def Let_def split: option.splits)
  then have "is_highlighter_div (div_class h)" by (simp add: js_eval)
  with assms(1) have "Toolbar_Command w enc c (below @ (div_class h, h) # outer) = Some (run_command w enc c h)"
    by (induction below) auto
  moreover have "replace_str (div_class h) (lit ''collapsed'') [] =
      lit ''dp-highlighter'' @ (if collapse o' then lit '' '' else []) @ (if noGutter o' then lit '' nogutter'' else [])"
    unfolding top by (cases "collapse o'"; cases "noGutter o'") (simp_all add: js_eval)
  ultimately show ?thesis by (cases "run_command w enc c h") simp
qed

lemma toolbar_command_nearest_witness:
  "\<exists>hl. Highlight sample_window html_norm Xml (new_Highlighter\<lparr>collapse := True\<rparr>) None (Some sample_code) = Some hl \<and>
     (let h = \<lparr>originalCode = sample_code, div_class = top_class hl, div_html = [], expand_link = True, flashCopier = False\<rparr>
      in div_class (fst (run_command sample_window id ExpandSource h)) = lit ''dp-highlighter '')"
proof -
  obtain hl where hl: "Highlight sample_window html_norm Xml (new_Highlighter\<lparr>collapse := True\<rparr>) None (Some sample_code) = Some hl"
    using Xml.highlights by blast
  let ?h = "\<lparr>originalCode = sample_code, div_class = top_class hl, div_html = [], expand_link = True, flashCopier = False\<rparr>"
  have "\<forall>x \<in> set ([] :: (jsstr \<times> shown) list). \<not> is_highlighter_div (fst x)" by simp
  from toolbar_command_nearest [OF this hl, of ?h id ExpandSource "[]"] hl show ?thesis
    by (auto simp: new_Highlighter_def lit_def)
qed

text \<open>The ruler as it is seen from column \<open>i\<close> on.\<close>

definition ruler_seen :: "nat \<Rightarrow> jsstr" where
  "ruler_seen i = concat (map (\<lambda>p. if p = lit ''&middot;'' then [183] else p) (columns i))"

lemma ruler_dots:
  "i \<le> j \<Longrightarrow> j \<le> 150 \<Longrightarrow> \<forall>k. i \<le> k \<and> k < j \<longrightarrow> k mod 10 \<noteq> 0 \<Longrightarrow>
   ruler_seen i = replicate (j - i) 183 @ ruler_seen j"
proof (induction "j - i" arbitrary: i)
  case (Suc n)
  then have "i < j" "i mod 10 \<noteq> 0" by auto
  moreover from this Suc have "ruler_seen (Suc i) = replicate (j - Suc i) 183 @ ruler_seen j" by auto
  ultimately show ?case
    using Suc.prems(2) by (simp add: ruler_seen_def columns.simps [of i] Suc_diff_Suc [symmetric] del: replicate_Suc)
      (simp add: Suc_diff_Suc [symmetric])
qed simp

lemma ruler_number:
  "i \<le> 150 \<Longrightarrow> i mod 10 = 0 \<Longrightarrow> ruler_seen i = nat_digits i @ ruler_seen (i + length (nat_digits i))"
proof -
  assume i: "i \<le> 150" "i mod 10 = 0"
  have "nat_digits i \<noteq> lit ''&middot;''"
    using is_digit_nat_digits [of i] by (auto simp: lit_def is_digit_def)
  with i show ?thesis by (simp add: ruler_seen_def columns.simps [of i])
qed

lemma length_nat_digits_small: "n < 1000 \<Longrightarrow> length (nat_digits n) \<le> 3"
  by (simp add: nat_digits.simps)

lemma ruler_decade: "1 \<le> k \<Longrightarrow> k \<le> 15 \<Longrightarrow> drop (10 * k - 1) (ruler_seen 1) = ruler_seen (10 * k)"
proof (induction k rule: dec_induct)
  case base
  have "\<forall>k. 1 \<le> k \<and> k < 10 \<longrightarrow> k mod 10 \<noteq> (0::nat)" by presburger
  then show ?case using ruler_dots [of 1 10] by simp
next
  case (step k)
  let ?l = "length (nat_digits (10 * k))"
  have l: "?l \<le> 3" using step by (intro length_nat_digits_small) simp
  then have "\<forall>j. 10 * k + ?l \<le> j \<and> j < 10 * Suc k \<longrightarrow> j mod 10 \<noteq> 0"
    using length_nat_digits_pos [of "10 * k"] by presburger
  then have "ruler_seen (10 * k + ?l) = replicate (10 * Suc k - (10 * k + ?l)) 183 @ ruler_seen (10 * Suc k)"
    using l step by (intro ruler_dots) auto
  then have "drop 10 (ruler_seen (10 * k)) = ruler_seen (10 * Suc k)"
    using ruler_number [of "10 * k"] step l by simp
  moreover have "10 * Suc k - 1 = 10 + (10 * k - 1)" using step.hyps(1) by simp
  then have "drop (10 * Suc k - 1) (ruler_seen 1) = drop 10 (drop (10 * k - 1) (ruler_seen 1))"
    by (simp only: drop_drop)
  moreover have "drop (10 * k - 1) (ruler_seen 1) = ruler_seen (10 * k)" using step by simp
  ultimately show ?case by (simp only:)
qed

text \<open>The ruler.  Read with each \<open>&middot;\<close> as one character, the ruler has every multiple of ten
  up to 150 at its own column.\<close>

theorem ruler_aligned:
  "list_all (\<lambda>k. take (length (nat_digits (10 * k))) (drop (10 * k - 1) (ruler_seen 1)) = nat_digits (10 * k)) [1..<16]"
  using ruler_decade ruler_number by (auto simp: list_all_iff)

text \<open>A code without matches loses its toolbar: \<open>Highlight\<close> fills the bar but returns before it
  attaches it.\<close>

theorem plain_code_loses_toolbar:
  "\<exists>h. Highlight w norm Xml new_Highlighter fl (Some sample_code) = Some h \<and>
     tools (view h) = Some (Toolbar_Create w new_Highlighter) \<and> \<not> bar_attached h"
proof -
  obtain h where h: "Highlight w norm Xml new_Highlighter fl (Some sample_code) = Some h"
    "code h = prepare new_Highlighter (source_of (Some sample_code))"
    "view h = SwitchToList w norm new_Highlighter (foldl AddBit [] (bits h))"
    "bar_attached h = (matches_of Xml (code h) \<noteq> [])"
    using Xml.highlights by blast
  have "code h = sample_code @ [NL]" using h(2) by (simp add: source_of_def prepare_sample)
  then have "\<not> bar_attached h" using h(4) Xml_sample by simp
  moreover have "addControls new_Highlighter" by (simp add: new_Highlighter_def)
  ultimately show ?thesis using h(1,3) by (simp add: SwitchToList_def Let_def)
qed

text \<open>Writing a bit.  A non-empty bit with a class becomes one span per line with a line break
  between, a bit without a class one span; the markup written is the text with blanks, \<open><\<close> and
  newlines replaced character by character.\<close>

theorem add_bit_lines:
  assumes "s \<noteq> []"
  shows "AddBit dv (s, Some c) = dv @ line_spans c (map esc (split_str [NL] s)) \<and>
    AddBit dv (s, None) = dv @ [Span None (esc s)] \<and> bit_html s = concat (map esc_char s)"
  using assms by (simp add: AddBit_css AddBit_plain bit_html_esc esc_def)

lemma add_bit_lines_witness:
  "AddBit [] (sample_code, Some (lit ''k'')) =
     [Span (Some (lit ''k'')) (lit ''a''), Br, Span (Some (lit ''k'')) (lit ''b'')]"
proof -
  have "sample_code \<noteq> []" by (simp add: sample_code_def)
  from add_bit_lines [OF this, of "[]" "lit ''k''"] show ?thesis
    by (simp add: sample_code_def esc_def esc_char_def js_eval)
qed

section \<open>The page\<close>

text \<open>C4: the pass over the page.  The blocks are the highlighted elements, first the \<open>pre\<close>s and then
  the \<open>textarea\<close>s of the given name, whose language is registered, in document order, up to
  the first whose language is the name of an inherited property; exactly these are hidden; the
  pass stops with a \<open>TypeError\<close> exactly if there is such an element, and it never hangs.\<close>

theorem highlight_all_blocks:
  "let els = filter (\<lambda>e. tag e = lit ''pre'' \<and> name_attr e = Some name) doc @
             filter (\<lambda>e. tag e = lit ''textarea'' \<and> name_attr e = Some name) doc;
       shown = filter is_found (takeWhile (\<lambda>e. element_lookup e \<noteq> NoBrush) els);
       p = HighlightAll w norm doc name a
   in map Some (blocks p) = map (block_of w norm a) shown \<and> hidden p = shown \<and>
      status p = (if list_ex (\<lambda>e. element_lookup e = NoBrush) els then TypeError else Running)"
proof -
  let ?els = "filter (\<lambda>e. tag e = lit ''pre'' \<and> name_attr e = Some name) doc @
             filter (\<lambda>e. tag e = lit ''textarea'' \<and> name_attr e = Some name) doc"
  have "map Some (map (\<lambda>e. the (block_of w norm a e)) (before_error ?els)) = map (block_of w norm a) (before_error ?els)"
    using block_of_found [of _ w norm a] by (auto intro!: map_cong simp: comp_def)
  with fold_highlight_element [of "\<lparr>hidden = [], styles_written = [], blocks = [], status = Running\<rparr>" w norm a ?els]
  show ?thesis by (simp add: HighlightAll_def FindTagsByName_def Let_def list_ex_iff)
qed

text \<open>Only two languages raise the error: a language is looked up without a brush only if it is
  \<open>constructor\<close> or \<open>__proto__\<close>, and \<open>constructor\<close> does.\<close>

theorem inherited_language_fails:
  "(find_brush registry lang = NoBrush) = (lang = lit ''constructor'' \<or> lang = lit ''__proto__'')"
proof
  show "find_brush registry lang = NoBrush \<Longrightarrow> lang = lit ''constructor'' \<or> lang = lit ''__proto__''"
    using find_brush_NoBrush by (force simp: inherited_def)
next
  have "register registry (lit ''constructor'') = None" "register registry (lit ''__proto__'') = None"
    by (simp_all add: register_def registry_def Aliases_defs lit_def)
  then show "lang = lit ''constructor'' \<or> lang = lit ''__proto__'' \<Longrightarrow> find_brush registry lang = NoBrush"
    by (auto simp: find_brush_def inherited_def)
qed

text \<open>The first line.  An option \<open>firstline[n]\<close> of the class attribute, after options without a
  closing bracket, numbers the list from \<open>n\<close>; without one the list starts at 1.\<close>

theorem first_line_option:
  assumes "list_all (\<lambda>x. 93 \<notin> set x) pre"
  shows "first_line no_args (pre @ (lit ''firstline['' @ nat_digits n @ lit '']'') # post) = Some (int n) \<and>
    first_line no_args pre = Some 1"
proof -
  have pre: "\<forall>x \<in> set pre. 93 \<notin> set x" using assms by (simp add: list_all_iff)
  have w: "\<forall>c \<in> set (nat_digits n). is_word c"
    using is_digit_nat_digits [of n] by (auto simp: is_digit_def is_word_def)
  have "parseInt (nat_digits n) = Some (int n)"
    using parseInt_int_to_str [of "int n"] by (simp add: int_to_str_def)
  moreover have "parseInt (lit ''1'') = Some 1" by (simp add: js_eval)
  moreover have "lit '']'' = [93]" by (simp add: lit_def)
  ultimately show ?thesis
    using GetOptionValue_given [OF pre nat_digits_nonempty w] GetOptionValue_default [OF pre]
    by (simp add: first_line_def no_args_def)
qed

lemma first_line_option_witness:
  "first_line no_args ([lit ''cpp'', lit ''nogutter''] @ (lit ''firstline['' @ nat_digits 42 @ lit '']'') # []) = Some (int 42) \<and>
   first_line no_args [lit ''cpp'', lit ''nogutter''] = Some 1"
  by (rule first_line_option) (simp add: lit_def)

end
