(* ===== verification/Sh3Text.thy ===== *)
theory Sh3Text
  imports BrushContract
begin

text \<open>
  SyntaxHighlighter 3 (\<open>shCore(1).js\<close>), the functions on text: \<open>splitLines\<close> and
  \<open>eachLine\<close>, the trimming functions, tabs, \<open>fixInputString\<close>, \<open>unindent\<close>, the
  \<open>CDATA\<close> brackets, escaping and padding.  The file is minified: the one-letter names of its
  functions are given in parentheses in the comments here, the names are those of the library.
  \<open>unindent\<close> measures every line that is not blank, so (unlike its predecessor in
  \<open>shCore.js\<close>) it never cuts anything but white space.
\<close>

section \<open>Configuration\<close>

text \<open>The fields of \<open>SyntaxHighlighter.config\<close> that these functions read.\<close>

record sh3_config =
  space :: jsstr
  useScriptTags :: bool
  bloggerMode :: bool
  stripBrs :: bool

definition sh3_defaults :: sh3_config where
  "sh3_defaults = \<lparr>space = lit ''&nbsp;'', useScriptTags = True, bloggerMode = False, stripBrs = False\<rparr>"

section \<open>Lines\<close>

definition re_line_break :: regexp where "re_line_break = js_regex (pat ''`r?`n'') []"

text \<open>\<open>splitLines\<close> (\<open>a\<close>): the pieces between line breaks; the empty text is one empty line.\<close>

definition splitLines :: "jsstr \<Rightarrow> jsstr list" where
  "splitLines str = split_from re_line_break str 0 0"

text \<open>\<open>eachLine\<close> (\<open>y\<close>): a function of each line and its index, joined with carriage return and newline.\<close>

definition eachLine :: "jsstr \<Rightarrow> (jsstr \<Rightarrow> nat \<Rightarrow> jsstr) \<Rightarrow> jsstr" where
  "eachLine str callback =
     join [13, 10] (map (\<lambda>(i, l). callback l i) (enumerate 0 (splitLines str)))"

section \<open>Trimming\<close>

definition re_outer_lines :: regexp where
  "re_outer_lines = js_regex (pat ''^[ ]*[`n]+|[`n]*[ ]*$'') (lit ''g'')"

text \<open>\<open>trimFirstAndLastLines\<close> (\<open>w\<close>) and \<open>trim\<close> (\<open>C\<close>).\<close>

definition trimFirstAndLastLines :: "jsstr \<Rightarrow> jsstr" where
  "trimFirstAndLastLines str = replace_re str re_outer_lines (\<lambda>_. [])"

definition re_outer_space :: regexp where
  "re_outer_space = js_regex (pat ''^`s+|`s+$'') (lit ''g'')"

definition sh3_trim :: "jsstr \<Rightarrow> jsstr" where
  "sh3_trim str = replace_re str re_outer_space (\<lambda>_. [])"

definition CDATA_left :: jsstr where "CDATA_left = lit ''<![CDATA[''"
definition CDATA_right :: jsstr where "CDATA_right = lit '']]>''"

text \<open>\<open>stripCData\<close> (\<open>M\<close>).\<close>

definition stripCData :: "jsstr \<Rightarrow> jsstr" where
  "stripCData original =
     (let copy = sh3_trim original;
          opens = (indexOf copy CDATA_left = 0);
          copy1 = (if opens then substring_from copy (int (length CDATA_left)) else copy);
          copyLength = length copy1;
          closes = (indexOf copy1 CDATA_right = int copyLength - int (length CDATA_right));
          copy2 = (if closes then substring copy1 0 (int copyLength - int (length CDATA_right)) else copy1)
      in if opens \<or> closes then copy2 else original)"

section \<open>Tabs\<close>

definition re_tab3 :: regexp where "re_tab3 = js_regex (pat ''`t'') (lit ''g'')"

text \<open>\<open>processTabs\<close> (\<open>H\<close>): every tab becomes as many blanks as the tab size.\<close>

definition processTabs :: "jsstr \<Rightarrow> nat \<Rightarrow> jsstr" where
  "processTabs str tabSize = replace_re str re_tab3 (\<lambda>_. replicate tabSize SP)"

text \<open>
  \<open>processSmartTabs\<close> (\<open>R\<close>): the first tab of the line is replaced until there is none; the
  blanks come from a string of 1000 of them.  The loop is that of \<open>ProcessLine\<close> with the
  number of blanks bounded.
\<close>

function smart_tab_line :: "nat \<Rightarrow> jsstr \<Rightarrow> jsstr" where
  "smart_tab_line tabSize line =
     (case index_of [TAB] line of
        None \<Rightarrow> line
      | Some pos \<Rightarrow>
          smart_tab_line tabSize (InsertSpaces line pos (min 1000 (tabSize - pos mod tabSize))))"
  by pat_completeness auto
termination
  by (relation "measure (\<lambda>(n, line). count_list line TAB)") (auto simp: InsertSpaces_fewer)

declare smart_tab_line.simps [simp del]

definition processSmartTabs3 :: "jsstr \<Rightarrow> nat \<Rightarrow> jsstr" where
  "processSmartTabs3 str tabSize = eachLine str (\<lambda>line _. smart_tab_line tabSize line)"

section \<open>Unindenting\<close>

definition re_br3 :: regexp where
  "re_br3 = js_regex (pat ''<br`s*`/?>|&lt;br`s*`/?&gt;'') (lit ''gi'')"

text \<open>\<open>fixInputString\<close> (\<open>T\<close>).\<close>

definition fixInputString :: "sh3_config \<Rightarrow> jsstr \<Rightarrow> jsstr" where
  "fixInputString cfg str =
     (let str1 = (if bloggerMode cfg then replace_re str re_br3 (\<lambda>_. [NL]) else str)
      in if stripBrs cfg then replace_re str1 re_br3 (\<lambda>_. []) else str1)"

definition re_indent3 :: regexp where "re_indent3 = js_regex (pat ''^`s*'') []"

text \<open>
  \<open>unindent\<close> (\<open>P\<close>).  The loop ends early when the minimum reaches 0; \<open>None\<close> is the early
  return when the expression finds nothing.
\<close>

fun min_indent :: "nat \<Rightarrow> jsstr list \<Rightarrow> nat option" where
  "min_indent mn [] = Some mn"
| "min_indent mn (l # ls) =
     (if 0 < mn then
        (if length (sh3_trim l) = 0 then min_indent mn ls
         else (case fst (exec re_indent3 l) of
                 None \<Rightarrow> None
               | Some mt \<Rightarrow> min_indent (min (case group_of mt 0 of Some g \<Rightarrow> length g | None \<Rightarrow> 0) mn) ls))
      else Some mn)"

definition unindent3 :: "sh3_config \<Rightarrow> jsstr \<Rightarrow> jsstr" where
  "unindent3 cfg str =
     (let lines = splitLines (fixInputString cfg str)
      in case min_indent 1000 lines of
           None \<Rightarrow> str
         | Some mn \<Rightarrow> join [NL] (if 0 < mn then map (\<lambda>l. substr_from l (int mn)) lines else lines))"

section \<open>Escaping and padding\<close>

text \<open>
  \<open>escapeHtml\<close> (\<open>e\<close>): the text as the browser serialises a text node, then the double quotes.
\<close>

definition escapeHtml :: "jsstr \<Rightarrow> jsstr" where
  "escapeHtml html =
     concat (map (\<lambda>c. if c = 38 then lit ''&amp;'' else if c = 60 then lit ''&lt;''
                      else if c = 62 then lit ''&gt;'' else if c = 160 then lit ''&nbsp;''
                      else if c = 34 then lit ''&quot;'' else [c]) html)"

text \<open>\<open>padNumber\<close> (\<open>S\<close>): zeros in front, up to the length.\<close>

definition padNumber :: "jsstr \<Rightarrow> nat \<Rightarrow> jsstr" where
  "padNumber number len = replicate (len - length number) 48 @ number"


section \<open>Lines, in closed form\<close>

fun break_lines :: "jsstr \<Rightarrow> jsstr list" where
  "break_lines [] = [[]]"
| "break_lines (c # s) =
     (if c = 10 then [] # break_lines s
      else if c = 13 \<and> s \<noteq> [] \<and> hd s = 10 then break_lines s
      else (c # hd (break_lines s)) # tl (break_lines s))"

lemma break_lines_nonempty [simp]: "break_lines s \<noteq> []"
  by (induction s) auto

lemma re_line_break_eq:
  "re_line_break = \<lparr>prog = RSeq (RRep 0 (Some 1) True 1 1 (RChar 13)) (RSeq (RChar 10) REmpty),
     groups = 1, rflags = no_flags, lastIndex = 0\<rparr>"
  by (simp add: re_line_break_def js_eval)

lemma match_line_break:
  "match_at re_line_break s i =
     (if i < length s \<and> s ! i = 13 \<and> Suc i < length s \<and> s ! Suc i = 10 then Some (mk_match s i (Suc (Suc i)) [None])
      else if i < length s \<and> s ! i = 10 then Some (mk_match s i (Suc i) [None]) else None)"
proof -
  have "single s (\<lambda>c. c = 13) (m no_flags s (RChar 13))" using single_RChar [of s no_flags 13] by simp
  from m_optional [OF this] show ?thesis by (simp add: match_at_def re_line_break_eq)
qed

lemma split_break:
  "p \<le> q \<Longrightarrow> q \<le> length s \<Longrightarrow>
   split_from re_line_break s p q = (slice s p q @ hd (break_lines (drop q s))) # tl (break_lines (drop q s))"
proof (induction "length s - q" arbitrary: p q rule: less_induct)
  case less
  show ?case
  proof (cases "q = length s")
    case True
    then show ?thesis by (subst split_from.simps) (simp add: slice_def)
  next
    case False
    with less.prems have q: "q < length s" by simp
    have d: "drop q s = s ! q # drop (Suc q) s" using q by (simp add: Cons_nth_drop_Suc)
    have IH: "split_from re_line_break s p' q' =
        (slice s p' q' @ hd (break_lines (drop q' s))) # tl (break_lines (drop q' s))"
      if "q < q'" "p' \<le> q'" "q' \<le> length s" for p' q'
      by (rule less.hyps) (use that q in auto)
    show ?thesis
    proof (cases "s ! q = 10 \<or> s ! q = 13 \<and> Suc q < length s \<and> s ! Suc q = 10")
      case True
      show ?thesis
      proof (cases "s ! q = 10")
        case nl: True
        then show ?thesis using q IH [of "Suc q" "Suc q"] less.prems
          by (subst split_from.simps) (simp add: match_line_break mk_match_def slice_def d)
      next
        case False
        then have cr: "s ! q = 13" "Suc q < length s" "s ! Suc q = 10" using True by auto
        then have "drop (Suc q) s = 10 # drop (Suc (Suc q)) s" by (metis Cons_nth_drop_Suc)
        then show ?thesis using q cr IH [of "Suc (Suc q)" "Suc (Suc q)"] less.prems
          by (subst split_from.simps) (simp add: match_line_break mk_match_def slice_def d)
      qed
    next
      case False
      have h: "drop (Suc q) s \<noteq> [] \<Longrightarrow> hd (drop (Suc q) s) = s ! Suc q" by (simp add: hd_drop_conv_nth)
      have "slice s p (Suc q) = slice s p q @ [s ! q]"
        using q less.prems by (simp add: slice_def Suc_diff_le take_Suc_conv_app_nth)
      moreover have "match_at re_line_break s q = None" using False by (auto simp: match_line_break)
      moreover have "\<not> (s ! q = 13 \<and> drop (Suc q) s \<noteq> [] \<and> hd (drop (Suc q) s) = 10)" using False h by auto
      ultimately show ?thesis using q False IH [of "Suc q" p] less.prems
        by (subst split_from.simps) (simp add: d)
    qed
  qed
qed

lemma splitLines_eq: "splitLines s = break_lines s"
  using split_break [of 0 0 s] by (simp add: splitLines_def slice_def)

lemma length_break_lines: "length (break_lines s) = Suc (count_list s NL)"
  by (induction s) (auto simp: Suc_diff_1)

lemma break_lines_no_NL: "l \<in> set (break_lines s) \<Longrightarrow> NL \<notin> set l"
proof (induction s arbitrary: l)
  case (Cons c s)
  have "hd (break_lines s) \<in> set (break_lines s)" "set (tl (break_lines s)) \<subseteq> set (break_lines s)"
    by (auto dest: list.set_sel(2) [rotated])
  with Cons show ?case by (auto split: if_splits)
qed simp

section \<open>Trimming, in closed form\<close>

lemma re_outer_space_eq:
  "re_outer_space = \<lparr>prog = RAlt (RSeq RBol (RSeq (RRep 1 None True 1 1 (RClass False [CSpace])) REmpty))
       (RSeq (RRep 1 None True 1 1 (RClass False [CSpace])) (RSeq REol REmpty)),
     groups = 1, rflags = g_flags, lastIndex = 0\<rparr>"
  by (simp add: re_outer_space_def js_eval)

lemma m_space_end:
  assumes "i \<le> length s"
  shows "m g_flags s (RSeq (RRep 1 None True 1 1 (RClass False [CSpace])) (RSeq REol REmpty)) i cs =
    (if i < length s \<and> (\<forall>c \<in> set (drop i s). is_space c) then [(length s, cs)] else [])"
proof (cases "i < length s \<and> is_space (s ! i)")
  case True
  let ?r = "run s is_space (Suc i)"
  have all: "(\<forall>c \<in> set (drop i s). is_space c) \<longleftrightarrow> Suc i + ?r = length s"
    using run_full_iff [of "Suc i" s is_space] True by (simp add: Cons_nth_drop_Suc [symmetric])
  have le: "Suc i + ?r \<le> length s" using run_le [of "Suc i" s is_space] True by simp
  have c: "concat (map (\<lambda>n. if Suc (i + n) = length s then [(Suc (i + n), cs)] else []) (rev [0..<Suc ?r]))
      = (if Suc i + ?r = length s then [(length s, cs)] else [])"
    using le by (auto simp: concat_eq_Nil_conv)
  show ?thesis using True all c
    by (simp add: m_plus_greedy [OF single_space, simplified] comp_def cong: if_cong del: upt_Suc)
next
  case False
  then have "\<not> (i < length s \<and> (\<forall>c \<in> set (drop i s). is_space c))"
    by (auto simp: Cons_nth_drop_Suc [symmetric])
  moreover have "m g_flags s (RRep 1 None True 1 1 (RClass False [CSpace])) i cs = []"
    using False m_plus_greedy [OF single_space, of s 1 i cs] by (simp del: upt_Suc)
  ultimately show ?thesis by auto
qed

lemma match_outer_space:
  assumes "i \<le> length s"
  shows "match_at re_outer_space s i =
    (if i = 0 \<and> 0 < run s is_space 0 then Some (mk_match s 0 (run s is_space 0) [None])
     else if i < length s \<and> (\<forall>c \<in> set (drop i s). is_space c) then Some (mk_match s i (length s) [None]) else None)"
proof -
  let ?a = "RRep 1 None True 1 1 (RClass False [CSpace])"
  have "m g_flags s (prog re_outer_space) i [None] =
      (if i = 0 then m g_flags s ?a 0 [None] else []) @
      (if i < length s \<and> (\<forall>c \<in> set (drop i s). is_space c) then [(length s, [None])] else [])"
    using m_space_end [OF assms] by (simp add: re_outer_space_eq)
  moreover have "m g_flags s ?a 0 [None] =
      (if 0 < run s is_space 0 then (run s is_space 0, [None]) # map (\<lambda>n. (Suc n, [None])) (rev [0..<run s is_space 1]) else [])"
    using m_plus_greedy [OF single_space, of s 1 0 "[None]"] run_step [of 0 s is_space] run_stop [of 0 s is_space]
    by auto
  ultimately show ?thesis by (auto simp: match_at_def re_outer_space_eq)
qed

text \<open>From a position that is not 0 the expression finds the white space at the end.\<close>

lemma matches_outer_tail:
  assumes i: "i \<le> length s" and stop: "i < length s \<Longrightarrow> \<not> is_space (s ! i)"
  shows "matches_from re_outer_space s i =
    (let k = length s - length (takeWhile is_space (rev s))
     in if k < length s \<and> i \<le> k then [mk_match s k (length s) [None]] else [])"
proof -
  let ?k = "length s - length (takeWhile is_space (rev s))"
  have start: "i = 0 \<Longrightarrow> run s is_space 0 = 0" using stop by (intro run_stop) auto
  have at: "match_at re_outer_space s j = (if ?k \<le> j \<and> j < length s then Some (mk_match s j (length s) [None]) else None)"
    if "i \<le> j" "j \<le> length s" for j
    using that start match_outer_space [OF that(2)] trailing_run [of j s is_space] by auto
  have last: "matches_from re_outer_space s (length s) = []"
    using at [of "length s"] i by (subst matches_from.simps) simp
  show ?thesis
  proof (cases "?k < length s \<and> i \<le> ?k")
    case True
    have "search re_outer_space s [i..<Suc (length s)] = Some (mk_match s ?k (length s) [None])"
    proof -
      have "[i..<Suc (length s)] = [i..<?k] @ ?k # [Suc ?k..<Suc (length s)]"
        using True by (intro upt_split) auto
      moreover have "\<forall>j \<in> set [i..<?k]. match_at re_outer_space s j = None" using at True by auto
      ultimately show ?thesis using at [of ?k] True by (simp add: search_skip del: upt_Suc)
    qed
    then show ?thesis using True last i by (subst matches_from.simps) (simp add: mk_match_def Let_def del: upt_Suc)
  next
    case False
    have "match_at re_outer_space s j = None" if "i \<le> j" "j \<le> length s" for j
    proof -
      have "\<not> (?k \<le> i \<and> i < length s)"
        using stop trailing_run [of i s is_space] i
        by (cases "i < length s") (auto simp: Cons_nth_drop_Suc [symmetric])
      with False at [OF that] that show ?thesis by auto
    qed
    then have "search re_outer_space s [i..<Suc (length s)] = None" by (auto simp: search_None)
    then show ?thesis using False by (subst matches_from.simps) (auto simp: Let_def simp del: upt_Suc)
  qed
qed

lemma matches_outer_blank:
  assumes "blank s" "s \<noteq> []"
  shows "matches_from re_outer_space s 0 = [mk_match s 0 (length s) [None]]"
proof -
  have r: "run s is_space 0 = length s" using assms run_full_iff [of 0 s is_space] by (simp add: blank_def)
  have "search re_outer_space s [0..<Suc (length s)] = Some (mk_match s 0 (length s) [None])"
    by (rule search_first [of 0]) (use r assms in \<open>simp_all add: match_outer_space\<close>)
  moreover have "matches_from re_outer_space s (length s) = []"
    using matches_outer_tail [of "length s" s] by (simp add: Let_def)
  ultimately show ?thesis using assms(2) by (subst matches_from.simps) (simp add: mk_match_def del: upt_Suc)
qed

lemma matches_outer_start:
  assumes "0 < run s is_space 0"
  shows "matches_from re_outer_space s 0 =
    mk_match s 0 (run s is_space 0) [None] # matches_from re_outer_space s (run s is_space 0)"
proof -
  have "search re_outer_space s [0..<Suc (length s)] = Some (mk_match s 0 (run s is_space 0) [None])"
    by (rule search_first [of 0]) (use assms in \<open>simp_all add: match_outer_space\<close>)
  then show ?thesis using assms by (subst matches_from.simps) (simp add: mk_match_def del: upt_Suc)
qed

lemma sh3_trim_eq: "sh3_trim s = rstrip (lstrip s)"
proof (cases "blank s")
  case True
  then have "lstrip s = []" by (simp add: lstrip_def blank_def)
  then show ?thesis using matches_outer_blank [OF True]
    by (cases "s = []")
       (simp_all add: sh3_trim_def replace_re_def re_outer_space_eq mk_match_def slice_def rstrip_def js_eval)
next
  case False
  define i where "i = run s is_space 0"
  define k where "k = length s - length (takeWhile is_space (rev s))"
  have l: "lstrip s = drop i s" by (simp add: lstrip_def i_def run_def dropWhile_eq_drop)
  have "0 + run s is_space 0 \<noteq> length s" using False run_full_iff [of 0 s is_space] by (simp add: blank_def)
  then have i: "i < length s" using run_le [of 0 s is_space] by (simp add: i_def)
  then have ns: "\<not> is_space (s ! i)"
    using nth_length_takeWhile [of is_space s] by (simp add: i_def run_def)
  have ik: "i < k"
    using trailing_run [of i s is_space] i ns by (auto simp: k_def Cons_nth_drop_Suc [symmetric])
  have "rev s = rev (drop i s) @ rev (take i s)" by (metis append_take_drop_id rev_append)
  moreover have "s ! i \<in> set (rev (drop i s))" using i by (simp add: Cons_nth_drop_Suc [symmetric])
  ultimately have "takeWhile is_space (rev s) = takeWhile is_space (rev (drop i s))"
    using takeWhile_append1 [of "s ! i" "rev (drop i s)" is_space "rev (take i s)"] ns by (simp only: not_False_eq_True)
  then have "rstrip (drop i s) = take (k - i) (drop i s)"
    using take_strip_end [of "drop i s" is_space] by (simp add: rstrip_def k_def add.commute)
  moreover have "splice_matches s i (matches_from re_outer_space s i) (\<lambda>_. []) = take (k - i) (drop i s)"
    using matches_outer_tail [of i s] i ns ik
    by (auto simp: Let_def k_def mk_match_def slice_def split: if_splits)
  moreover have "splice_matches s 0 (matches_from re_outer_space s 0) (\<lambda>_. []) =
      splice_matches s i (matches_from re_outer_space s i) (\<lambda>_. [])"
    using matches_outer_start [of s] by (cases "i = 0") (simp_all add: i_def mk_match_def slice_def)
  ultimately show ?thesis by (simp add: l sh3_trim_def replace_re_def re_outer_space_eq)
qed

lemma sh3_trim_empty_iff: "sh3_trim s = [] \<longleftrightarrow> blank s"
proof -
  have "blank (dropWhile is_space s) \<longleftrightarrow> blank s"
    by (metis Un_iff blank_def set_append set_takeWhileD takeWhile_dropWhile_id)
  then show ?thesis by (simp add: sh3_trim_eq rstrip_def lstrip_def blank_def)
qed

section \<open>Tabs and indentation, in closed form\<close>

lemma smart_tab_line_expand: "n \<le> 1000 \<Longrightarrow> smart_tab_line n line = expand_tabs n 0 line"
proof (induction n line rule: smart_tab_line.induct)
  case (1 n line)
  show ?case
  proof (cases "index_of [TAB] line")
    case None
    then show ?thesis
      using ProcessLine.simps [of line n] by (simp add: smart_tab_line.simps [of n line] ProcessLine_expand)
  next
    case (Some pos)
    have k: "min 1000 (n - pos mod n) = n - pos mod n" using "1.prems" by simp
    have "smart_tab_line n line = expand_tabs n 0 (InsertSpaces line pos (n - pos mod n))"
      using 1 Some k by (simp add: smart_tab_line.simps [of n line])
    also have "\<dots> = expand_tabs n 0 line"
      using ProcessLine.simps [of line n] Some unfolding ProcessLine_expand by simp
    finally show ?thesis .
  qed
qed

lemma re_indent3_eq: "re_indent3 = re_indent\<lparr>rflags := no_flags\<rparr>"
  by (simp add: re_indent3_def js_eval)

lemma exec_indent3: "fst (exec re_indent3 l) = Some (mk_match l 0 (indent l) [None])"
proof -
  have "single l is_space (m no_flags l (RClass False [CSpace]))"
    using single_RClass [of l no_flags "[CSpace]" False] by (simp add: in_class_def)
  then have "match_at re_indent3 l 0 = Some (mk_match l 0 (indent l) [None])"
    by (simp add: match_at_def re_indent3_eq re_indent_eq m_star_greedy run_def indent_def)
  then have "search re_indent3 l [0..<Suc (length l)] = Some (mk_match l 0 (indent l) [None])"
    by (intro search_first [of 0]) simp_all
  then show ?thesis by (simp add: exec_def re_indent3_eq re_indent_eq del: upt_Suc)
qed

text \<open>The least indentation of the lines that are not blank, and at most 1000.\<close>

definition common_indent :: "jsstr list \<Rightarrow> nat" where
  "common_indent ls = Min (insert 1000 (indent ` {l \<in> set ls. \<not> blank l}))"

lemma min_indent_fold: "min_indent mn ls = Some (fold min (map indent (filter (\<lambda>l. \<not> blank l) ls)) mn)"
proof (induction ls arbitrary: mn)
  case (Cons l ls)
  have zero: "fold min ks 0 = (0::nat)" for ks by (induction ks) auto
  have "length (take (indent l) l) = indent l" using indent_le [of l] by simp
  then show ?case using Cons.IH by (auto simp: sh3_trim_empty_iff exec_indent3 indent_group zero min.commute)
qed simp

lemma min_indent_eq: "min_indent 1000 ls = Some (common_indent ls)"
proof -
  have "fold min ks a = Min (insert a (set ks))" for ks and a :: nat
    using Min.set_eq_fold [of a ks] by (simp add: min.commute)
  then show ?thesis by (simp add: min_indent_fold common_indent_def)
qed

lemma common_indent_le: "l \<in> set ls \<Longrightarrow> \<not> blank l \<Longrightarrow> common_indent ls \<le> indent l"
  by (auto simp: common_indent_def intro!: Min_le)

lemma unindent3_eq:
  "unindent3 cfg s = (let ls = break_lines (fixInputString cfg s) in join [NL] (map (drop (common_indent ls)) ls))"
  by (simp add: unindent3_def Let_def splitLines_eq min_indent_eq substr_from_nat)

section \<open>Properties\<close>

text \<open>
  C10: \<open>unindent\<close> of SyntaxHighlighter 3.  Every line loses the same number of characters, the
  least indentation of the lines that are not blank (1000 at most); so every line keeps
  everything but leading white space, whatever the code.  Its predecessor in \<open>shCore.js\<close> keeps
  this only when the first line that is not blank is the least indented one.
\<close>

theorem unindent3_exact:
  "let ls = splitLines (fixInputString cfg s) in
     split_str [NL] (unindent3 cfg s) = map (drop (common_indent ls)) ls \<and>
     map (dropWhile is_space) (split_str [NL] (unindent3 cfg s)) = map (dropWhile is_space) ls"
proof -
  let ?ls = "break_lines (fixInputString cfg s)"
  have "split_str [NL] (unindent3 cfg s) = map (drop (common_indent ?ls)) ?ls"
    unfolding unindent3_eq Let_def
    by (rule split_join_single) (auto dest: break_lines_no_NL in_set_dropD)
  moreover have "dropWhile is_space (drop (common_indent ?ls) l) = dropWhile is_space l" if "l \<in> set ?ls" for l
    by (rule strip_drop) (use that common_indent_le in blast)
  ultimately show ?thesis by (simp add: splitLines_eq)
qed

lemma trim_id: "s \<noteq> [] \<Longrightarrow> \<not> is_space (hd s) \<Longrightarrow> \<not> is_space (last s) \<Longrightarrow> sh3_trim s = s"
proof -
  assume s: "s \<noteq> []" "\<not> is_space (hd s)" "\<not> is_space (last s)"
  then have "dropWhile is_space s = s" "dropWhile is_space (rev s) = rev s"
    by (metis dropWhile_eq_self_iff hd_rev)+
  then show ?thesis by (simp add: sh3_trim_eq lstrip_def rstrip_def)
qed

lemma indexOf_CDATA_right:
  assumes "\<not> sublist CDATA_right body"
  shows "indexOf (body @ CDATA_right) CDATA_right = int (length body)"
proof -
  have r: "CDATA_right = [93, 93, 62]" by (simp add: CDATA_right_def lit_def)
  have "index_of [93, 93, 62] (b @ [93, 93, 62]) = Some (length b)" if "\<not> sublist [93, 93, 62] b" for b
    using that
  proof (induction b)
    case (Cons c b)
    have "\<not> prefix [93, 93, 62] ((c # b) @ [93, 93, 62])"
    proof
      assume p: "prefix [93, 93, 62] ((c # b) @ [93, 93, 62])"
      show False
      proof (cases "length b < 2")
        case True
        then consider "b = []" | d where "b = [d]" by (cases b) (auto simp: less_Suc_eq numeral_2_eq_2)
        then show False using p by cases auto
      next
        case False
        then have "prefix [93, 93, 62] (c # b)"
          using p by (intro prefix_length_prefix [OF p, of "c # b"]) (auto simp: prefix_def)
        with Cons.prems show False by (meson prefix_imp_sublist)
      qed
    qed
    moreover have "\<not> sublist [93, 93, 62] b" using Cons.prems by (auto simp: sublist_Cons_right)
    ultimately show ?case using Cons.IH by simp
  qed simp
  with assms show ?thesis by (simp add: r indexOf_def indexOf_from_def)
qed

lemma stripCData_brackets:
  assumes "\<not> sublist CDATA_right body"
  shows "stripCData (CDATA_left @ body @ CDATA_right) = body"
proof -
  have "sh3_trim (CDATA_left @ body @ CDATA_right) = CDATA_left @ body @ CDATA_right"
    by (rule trim_id) (simp_all add: CDATA_left_def CDATA_right_def lit_def is_space_def)
  moreover have "indexOf (CDATA_left @ body @ CDATA_right) CDATA_left = 0"
    by (simp add: indexOf_def indexOf_from_def index_of_prefix)
  ultimately show ?thesis
    using indexOf_CDATA_right [OF assms] substring_nat [of 0 "length body" "body @ CDATA_right"]
    by (simp add: stripCData_def Let_def substring_from_nat)
qed

lemma indexOf_longer: "length s < length t \<Longrightarrow> indexOf s t = -1"
  using index_of_bound [of t s] by (cases "index_of t s") (auto simp: indexOf_def indexOf_from_def)

text \<open>
  Codes of two characters are lost.  \<open>stripCData\<close> is applied to every block; it compares the place of
  \<open>]]>\<close> with the place where it should stand, and for a trimmed text of two characters both are -1: the
  text is taken for one that ends with \<open>]]>\<close> and nothing of it is left.  Brackets that are there are removed.
\<close>

theorem two_letter_code_lost:
  assumes "length (sh3_trim s) = 2" and "\<not> sublist CDATA_right body"
  shows "stripCData s = [] \<and> stripCData (CDATA_left @ body @ CDATA_right) = body"
proof -
  have "indexOf (sh3_trim s) CDATA_left = -1" "indexOf (sh3_trim s) CDATA_right = -1"
    using assms(1) by (simp_all add: indexOf_longer CDATA_left_def CDATA_right_def)
  then have "stripCData s = []"
    using assms(1) by (simp add: stripCData_def Let_def CDATA_right_def substring_def clamp_def)
  then show ?thesis using stripCData_brackets [OF assms(2)] by simp
qed

theorem two_letter_code_lost_witness:
  "stripCData (lit ''ls'') = [] \<and> stripCData (CDATA_left @ lit ''ls -l'' @ CDATA_right) = lit ''ls -l''"
proof (rule two_letter_code_lost)
  show "length (sh3_trim (lit ''ls'')) = 2" by (simp add: sh3_trim_eq lstrip_def rstrip_def lit_def is_space_def)
  show "\<not> sublist CDATA_right (lit ''ls -l'')" by (simp add: CDATA_right_def lit_def sublist_Cons_right)
qed

end
