(* ===== verification/Sh3Matches.thy ===== *)
theory Sh3Matches
  imports Sh3Text
begin

text \<open>
  SyntaxHighlighter 3 (\<open>shCore(1).js\<close>), the matches: \<open>getMatches\<close> (\<open>L\<close>) with
  \<open>XRegExp.exec\<close>, \<open>matchesSortCallback\<close> (\<open>k\<close>), \<open>findMatches\<close>,
  \<open>removeNestedMatches\<close> with its two loops over the array of matches, and \<open>getKeywords\<close>.
  The lemmas: the two loops compute the leftmost longest matches (\<open>leftmost_longest\<close>), so what
  survives never overlaps and every dropped match starts inside a surviving one; a rule whose
  expression cannot match the empty string is collected in finitely many steps.
\<close>

section \<open>Collecting\<close>

text \<open>\<open>XRegExp.exec(str, regex, pos)\<close>: the first match at or after the position.\<close>

definition xexec :: "regexp \<Rightarrow> jsstr \<Rightarrow> nat \<Rightarrow> js_match option" where
  "xexec re s pos = (if length s < pos then None else search re s [pos..<Suc (length s)])"

text \<open>
  A rule of a \<open>regexList\<close>: an expression with a class, or with a function that is given the
  match and returns a text (of the class) or a list of matches.
\<close>

record rule3 =
  regex3 :: regexp
  css3 :: jsstr
  func3 :: "(js_match \<Rightarrow> jsstr + Match list) option"

definition whole :: "js_match \<Rightarrow> jsstr" where
  "whole mt = (case group_of mt 0 of Some v \<Rightarrow> v | None \<Rightarrow> [])"

definition resultMatch :: "rule3 \<Rightarrow> js_match \<Rightarrow> Match list" where
  "resultMatch r mt =
     (case (case func3 r of Some f \<Rightarrow> f mt | None \<Rightarrow> Inl (whole mt)) of
        Inl v \<Rightarrow> [new_Match v (start_pos mt) (css3 r)]
      | Inr ms \<Rightarrow> ms)"

text \<open>\<open>None\<close> is a loop that never ends, which an empty match at the position makes it.\<close>

partial_function (option) getMatches_from :: "jsstr \<Rightarrow> rule3 \<Rightarrow> nat \<Rightarrow> Match list option" where
  "getMatches_from str r pos =
     (case xexec (regex3 r) str pos of
        None \<Rightarrow> Some []
      | Some mt \<Rightarrow>
          Option.bind (getMatches_from str r (start_pos mt + length (whole mt)))
            (\<lambda>ms. Some (resultMatch r mt @ ms)))"

definition getMatches :: "jsstr \<Rightarrow> rule3 \<Rightarrow> Match list option" where
  "getMatches str r = getMatches_from str r 0"

fun collect3 :: "rule3 list \<Rightarrow> jsstr \<Rightarrow> Match list option" where
  "collect3 [] str = Some []"
| "collect3 (r # rs) str =
     Option.bind (getMatches str r) (\<lambda>ms. Option.bind (collect3 rs str) (\<lambda>ms'. Some (ms @ ms')))"

definition matchesSortCallback :: "Match \<Rightarrow> Match \<Rightarrow> int" where
  "matchesSortCallback m1 m2 =
     (if mindex m1 < mindex m2 then -1
      else if mindex m1 > mindex m2 then 1
      else if mlength m1 < mlength m2 then -1
      else if mlength m1 > mlength m2 then 1
      else 0)"

section \<open>Nested matches\<close>

text \<open>The inner loop: \<open>r\<close> is the match at position \<open>t\<close>, \<open>a\<close> the position that is examined.\<close>

function nest_inner :: "nat \<Rightarrow> Match \<Rightarrow> nat \<Rightarrow> Match option list \<Rightarrow> Match option list" where
  "nest_inner t r a ms =
     (if a < length ms \<and> ms ! t \<noteq> None then
        (case ms ! a of
           None \<Rightarrow> nest_inner t r (Suc a) ms
         | Some l \<Rightarrow>
             if mindex l > mindex r + mlength r then ms
             else nest_inner t r (Suc a)
               (if mindex l = mindex r \<and> mlength l > mlength r then ms[t := None]
                else if mindex l \<ge> mindex r \<and> mindex r + mlength r > mindex l then ms[a := None]
                else ms))
      else ms)"
  by pat_completeness auto
termination
  by (relation "measure (\<lambda>(t, r, a, ms). length ms - a)") auto

declare nest_inner.simps [simp del]

definition nest_at :: "nat \<Rightarrow> Match option list \<Rightarrow> Match option list" where
  "nest_at t ms = (case ms ! t of None \<Rightarrow> ms | Some r \<Rightarrow> nest_inner t r (Suc t) ms)"

definition removeNestedMatches :: "Match option list \<Rightarrow> Match option list" where
  "removeNestedMatches ms = fold nest_at [0..<length ms] ms"

definition findMatches :: "rule3 list \<Rightarrow> jsstr \<Rightarrow> Match option list option" where
  "findMatches regexList str =
     map_option (\<lambda>ms. removeNestedMatches (map Some (array_sort matchesSortCallback ms))) (collect3 regexList str)"

section \<open>Keywords\<close>

definition re_blanks :: regexp where "re_blanks = js_regex (pat ''`s+'') (lit ''g'')"

definition getKeywords3 :: "jsstr \<Rightarrow> jsstr" where
  "getKeywords3 str =
     pat ''`b(?:'' @ replace_re (replace_re str re_outer_space (\<lambda>_. [])) re_blanks (\<lambda>_. [124]) @ pat '')`b''"

section \<open>The leftmost longest matches\<close>

function leftmost_longest :: "Match list \<Rightarrow> Match list" where
  "leftmost_longest [] = []"
| "leftmost_longest (r # xs) =
     (if list_ex (\<lambda>l. mindex l = mindex r \<and> mlength r < mlength l) xs then leftmost_longest xs
      else r # leftmost_longest (filter (\<lambda>l. mindex r + mlength r \<le> mindex l) xs))"
  by pat_completeness auto
termination
  by (relation "measure length") (auto simp: le_imp_less_Suc)

lemma matchesSortCallback_eq: "matchesSortCallback = SortCallback"
  by (intro ext) (simp add: matchesSortCallback_def SortCallback_def)

text \<open>The two loops on lists: whether a longer match with the same start is found, and the rest of the array.\<close>

fun nest_scan :: "Match \<Rightarrow> Match option list \<Rightarrow> bool \<times> Match option list" where
  "nest_scan r [] = (False, [])"
| "nest_scan r (x # xs) =
     (case x of
        None \<Rightarrow> map_prod id (Cons None) (nest_scan r xs)
      | Some l \<Rightarrow>
          if mindex l > mindex r + mlength r then (False, x # xs)
          else if mindex l = mindex r \<and> mlength l > mlength r then (True, x # xs)
          else map_prod id (Cons (if mindex l \<ge> mindex r \<and> mindex r + mlength r > mindex l then None else x))
                 (nest_scan r xs))"

lemma length_nest_scan [simp]: "length (snd (nest_scan r xs)) = length xs"
  by (induction r xs rule: nest_scan.induct) (auto split: option.splits)

lemma nest_inner_scan:
  "nest_inner (length pre) r (Suc (length pre + length dn)) (pre @ Some r # dn @ xs) =
   (case nest_scan r xs of (k, ys) \<Rightarrow> pre @ (if k then None else Some r) # dn @ ys)"
proof (induction xs arbitrary: dn)
  case Nil
  then show ?case by (subst nest_inner.simps) simp
next
  case (Cons x xs)
  have at: "(pre @ Some r # dn @ x # xs) ! Suc (length pre + length dn) = x"
    by (simp add: nth_append)
  have upd: "(pre @ Some r # dn @ x # xs)[Suc (length pre + length dn) := y] = pre @ Some r # (dn @ [y]) @ xs" for y
    by (simp add: list_update_append)
  have step: "nest_inner (length pre) r (Suc (Suc (length pre + length dn))) (pre @ Some r # (dn @ [y]) @ xs) =
      (case nest_scan r xs of (k, ys) \<Rightarrow> pre @ (if k then None else Some r) # dn @ y # ys)" for y
    using Cons.IH [of "dn @ [y]"] by simp
  have dead: "nest_inner (length pre) r b (pre @ None # zs) = pre @ None # zs" for b zs
    by (subst nest_inner.simps) simp
  show ?case
    using step [of x] step [of None] upd [of None] at dead
    by (subst nest_inner.simps) (auto simp: list_update_append split: option.splits prod.splits)
qed

function resolve :: "Match option list \<Rightarrow> Match option list" where
  "resolve [] = []"
| "resolve (None # xs) = None # resolve xs"
| "resolve (Some r # xs) =
     (case nest_scan r xs of (k, ys) \<Rightarrow> (if k then None else Some r) # resolve ys)"
  by pat_completeness auto
termination
  by (relation "measure length") (auto dest: arg_cong [where f = "length \<circ> snd"])

lemma fold_nest_at: "fold nest_at [length pre..<length pre + length xs] (pre @ xs) = pre @ resolve xs"
proof (induction xs arbitrary: pre rule: resolve.induct)
  case (2 xs)
  have "nest_at (length pre) (pre @ None # xs) = (pre @ [None]) @ xs" by (simp add: nest_at_def)
  then show ?case using 2 [of "pre @ [None]"] by (simp add: upt_conv_Cons del: upt_Suc)
next
  case (3 r xs)
  obtain k ys where s: "nest_scan r xs = (k, ys)" by force
  let ?y = "if k then None else Some r"
  have "nest_at (length pre) (pre @ Some r # xs) = (pre @ [?y]) @ ys"
    using nest_inner_scan [of pre r "[]" xs] s by (simp add: nest_at_def)
  moreover have "length ys = length xs" using length_nest_scan [of r xs] s by simp
  ultimately show ?case using 3 [OF s [symmetric], of "pre @ [?y]"] s by (simp add: upt_conv_Cons del: upt_Suc)
qed simp

lemma removeNestedMatches_resolve: "removeNestedMatches ms = resolve ms"
  using fold_nest_at [of "[]" ms] by (simp add: removeNestedMatches_def)

text \<open>The matches of an array, the null ones left out.\<close>

definition present :: "Match option list \<Rightarrow> Match list" where
  "present ms = map the (filter (\<lambda>x. x \<noteq> None) ms)"

lemma present_simps [simp]:
  "present [] = []" "present (None # ms) = present ms" "present (Some x # ms) = x # present ms"
  by (simp_all add: present_def)

lemma live_present: "live ms = filter (\<lambda>x. mlength x \<noteq> 0) (present ms)"
  by (simp add: live_def present_def)

lemma nest_scan_set: "set (present (snd (nest_scan r xs))) \<subseteq> set (present xs)"
  by (induction r xs rule: nest_scan.induct) (auto split: option.splits)

lemma nest_scan_sorted: "sorted_wrt P (present xs) \<Longrightarrow> sorted_wrt P (present (snd (nest_scan r xs)))"
proof (induction r xs rule: nest_scan.induct)
  case (2 r x xs)
  then show ?case using nest_scan_set [of r xs] by (auto split: option.splits)
qed simp

text \<open>An empty match removes nothing.\<close>

lemma nest_scan_empty:
  "mlength r = 0 \<Longrightarrow> \<forall>l \<in> set (present xs). mindex r \<le> mindex l \<Longrightarrow> snd (nest_scan r xs) = xs"
  by (induction r xs rule: nest_scan.induct) (auto split: option.splits)

text \<open>A match that stays removes what starts before its end.\<close>

lemma nest_scan_stays:
  assumes "\<not> fst (nest_scan r xs)" and "sorted_wrt before (r # present xs)"
  shows "present (snd (nest_scan r xs)) = filter (\<lambda>l. mindex r + mlength r \<le> mindex l) (present xs) \<and>
    \<not> list_ex (\<lambda>l. mindex l = mindex r \<and> mlength r < mlength l) (present xs)"
  using assms
proof (induction r xs rule: nest_scan.induct)
  case (2 r x xs)
  show ?case
  proof (cases x)
    case None
    with 2 show ?thesis by simp
  next
    case (Some l)
    from "2.prems" Some have s: "sorted_wrt before (r # present xs)" "before r l" "\<forall>y \<in> set (present xs). before l y"
      by auto
    show ?thesis
    proof (cases "mindex l > mindex r + mlength r")
      case True
      with s(3) have "\<forall>y \<in> set (present xs). mindex r + mlength r \<le> mindex y \<and> mindex y \<noteq> mindex r"
        by (auto simp: before_def)
      with True Some show ?thesis by (auto simp: list_ex_iff filter_id_conv)
    next
      case False
      with "2.prems"(1) Some have nl: "\<not> (mindex l = mindex r \<and> mlength l > mlength r)" "\<not> fst (nest_scan r xs)"
        by (auto split: if_splits)
      with "2.IH"(2) [OF Some False] s(1)
      have "present (snd (nest_scan r xs)) = filter (\<lambda>l. mindex r + mlength r \<le> mindex l) (present xs)"
        "\<not> list_ex (\<lambda>l. mindex l = mindex r \<and> mlength r < mlength l) (present xs)" by auto
      moreover have "mindex r \<le> mindex l" using s(2) by (auto simp: before_def)
      ultimately show ?thesis using Some False nl(1) by auto
    qed
  qed
qed simp

text \<open>A match that goes removes nothing but matches of the same place and length.\<close>

lemma nest_scan_goes:
  assumes "fst (nest_scan r xs)" and "sorted_wrt before (r # present xs)" and "mlength r \<noteq> 0"
  shows "\<exists>a b. present xs = a @ b \<and> present (snd (nest_scan r xs)) = b \<and>
    (\<forall>l \<in> set a. mindex l = mindex r \<and> mlength l = mlength r) \<and>
    list_ex (\<lambda>l. mindex l = mindex r \<and> mlength r < mlength l) b"
  using assms
proof (induction r xs rule: nest_scan.induct)
  case (2 r x xs)
  show ?case
  proof (cases x)
    case None
    with 2 show ?thesis by simp
  next
    case (Some l)
    from "2.prems" Some have s: "sorted_wrt before (r # present xs)" "before r l" "\<forall>y \<in> set (present xs). before l y"
      by auto
    show ?thesis
    proof (cases "mindex l = mindex r \<and> mlength l > mlength r")
      case True
      with Some show ?thesis by (intro exI [of _ "[]"] exI [of _ "l # present xs"]) auto
    next
      case False
      with "2.prems"(1) Some have ni: "\<not> mindex l > mindex r + mlength r" "fst (nest_scan r xs)"
        by (auto split: if_splits)
      from "2.IH"(2) [OF Some ni(1) False] ni(2) s(1) "2.prems"(3) obtain a b where
        ab: "present xs = a @ b" "present (snd (nest_scan r xs)) = b"
        "\<forall>l \<in> set a. mindex l = mindex r \<and> mlength l = mlength r"
        "list_ex (\<lambda>l. mindex l = mindex r \<and> mlength r < mlength l) b" by auto
      then obtain y where "y \<in> set (present xs)" "mindex y = mindex r" by (auto simp: list_ex_iff)
      with s(2,3) have "mindex l = mindex r" by (fastforce simp: before_def)
      moreover from this s(2) False have "mlength l = mlength r" by (auto simp: before_def)
      ultimately show ?thesis using Some ni(1) ab "2.prems"(3)
        by - (rule exI [of _ "l # a"], rule exI [of _ b], auto)
    qed
  qed
qed simp

lemma leftmost_longest_skip:
  "\<forall>l \<in> set a. mindex l = p \<and> mlength l = n \<Longrightarrow> list_ex (\<lambda>l. mindex l = p \<and> n < mlength l) b \<Longrightarrow>
   leftmost_longest (a @ b) = leftmost_longest b"
  by (induction a) auto

lemma resolve_leftmost_longest:
  "sorted_wrt before (present ms) \<Longrightarrow> live (resolve ms) = leftmost_longest (live ms)"
proof (induction ms rule: resolve.induct)
  case (3 r xs)
  let ?pos = "filter (\<lambda>x. mlength x \<noteq> 0)"
  obtain k ys where s: "nest_scan r xs = (k, ys)" by force
  have sx: "sorted_wrt before (r # present xs)" using "3.prems" by simp
  have IH: "live (resolve ys) = leftmost_longest (live ys)"
    using "3.IH" [OF s [symmetric]] nest_scan_sorted [of before xs r] "3.prems" s by simp
  show ?case
  proof (cases "mlength r = 0")
    case True
    have "\<forall>l \<in> set (present xs). mindex r \<le> mindex l" using sx by (auto simp: before_def)
    with nest_scan_empty [OF True, of xs] s have "ys = xs" by simp
    with IH True s show ?thesis by simp
  next
    case pos: False
    show ?thesis
    proof (cases k)
      case True
      then obtain a b where ab: "present xs = a @ b" "present ys = b"
        "\<forall>l \<in> set a. mindex l = mindex r \<and> mlength l = mlength r"
        "list_ex (\<lambda>l. mindex l = mindex r \<and> mlength r < mlength l) b"
        using nest_scan_goes [of r xs] sx pos s by auto
      then have ex: "list_ex (\<lambda>l. mindex l = mindex r \<and> mlength r < mlength l) (?pos b)"
        by (auto simp: list_ex_iff)
      have "leftmost_longest (live xs) = leftmost_longest (live ys)"
        unfolding live_present ab(1,2) filter_append
        by (rule leftmost_longest_skip [OF _ ex]) (use ab(3) in auto)
      moreover have "list_ex (\<lambda>l. mindex l = mindex r \<and> mlength r < mlength l) (live xs)"
        using ex by (simp add: live_present ab(1))
      ultimately show ?thesis using IH s True pos by simp
    next
      case False
      then have "present ys = filter (\<lambda>l. mindex r + mlength r \<le> mindex l) (present xs)"
        "\<not> list_ex (\<lambda>l. mindex l = mindex r \<and> mlength r < mlength l) (present xs)"
        using nest_scan_stays [of r xs] sx s by auto
      moreover from this(1) have "live ys = filter (\<lambda>l. mindex r + mlength r \<le> mindex l) (live xs)"
        by (simp add: live_present conj_commute)
      moreover from calculation(2) have "\<not> list_ex (\<lambda>l. mindex l = mindex r \<and> mlength r < mlength l) (live xs)"
        by (auto simp: live_present list_ex_iff)
      ultimately show ?thesis using IH s False pos by simp
    qed
  qed
qed simp_all

lemma leftmost_longest_subset: "set (leftmost_longest xs) \<subseteq> set xs"
  by (induction xs rule: leftmost_longest.induct) auto

lemma leftmost_longest_chain:
  "\<forall>x \<in> set xs. p \<le> mindex x \<Longrightarrow> chain p (leftmost_longest xs)"
  by (induction xs arbitrary: p rule: leftmost_longest.induct) auto

text \<open>What is left out starts inside a match that stays, or where a longer one starts.\<close>

lemma leftmost_longest_covers:
  "sorted_wrt before xs \<Longrightarrow> \<forall>x \<in> set xs. mlength x \<noteq> 0 \<Longrightarrow> x \<in> set xs \<Longrightarrow>
   \<exists>y \<in> set (leftmost_longest xs). mindex y \<le> mindex x \<and> mindex x < mindex y + mlength y"
proof (induction xs arbitrary: x rule: leftmost_longest.induct)
  case (2 r xs)
  show ?case
  proof (cases "list_ex (\<lambda>l. mindex l = mindex r \<and> mlength r < mlength l) xs")
    case True
    then obtain l where l: "l \<in> set xs" "mindex l = mindex r" by (auto simp: list_ex_iff)
    obtain z where "z \<in> set xs" "mindex z = mindex x" using "2.prems"(3) l by auto
    with "2.IH"(1) [OF True, of z] "2.prems"(1,2) True show ?thesis by simp
  next
    case False
    show ?thesis
    proof (cases "mindex r + mlength r \<le> mindex x")
      case True
      with "2.prems" have "x \<in> set (filter (\<lambda>l. mindex r + mlength r \<le> mindex l) xs)" by auto
      with "2.IH"(2) [OF False] "2.prems" False show ?thesis by (auto simp: sorted_wrt_filter)
    next
      case nt: False
      have "mindex r \<le> mindex x" using "2.prems" by (auto simp: before_def)
      with False nt show ?thesis by auto
    qed
  qed
qed simp

section \<open>Collecting ends\<close>

lemma xexec_ok:
  assumes "xexec re s pos = Some mt"
  shows "pos \<le> start_pos mt \<and> ok_match s (minlen (prog re)) mt \<and> match_at re s (start_pos mt) = Some mt"
proof -
  from assms have f: "search re s [pos..<Suc (length s)] = Some mt" by (auto simp: xexec_def split: if_splits)
  from search_Some_at [OF this] obtain i where i: "i \<le> length s" "match_at re s i = Some mt"
    by (auto simp: less_Suc_eq_le simp del: upt_Suc)
  then have "start_pos mt = i" using match_at_ok by blast
  with i(2) search_ok [OF f] show ?thesis by (simp del: upt_Suc)
qed

lemma ok_match_whole:
  assumes "ok_match s d mt"
  shows "whole mt = slice s (start_pos mt) (end_pos mt)" "start_pos mt + length (whole mt) = end_pos mt"
  using assms by (auto simp: whole_def ok_match_def slice_def)

lemma ok_in_whole:
  assumes "ok_match s d mt"
  shows "ok_in s (new_Match (whole mt) (start_pos mt) css)"
  using assms ok_match_whole(1) [OF assms] by (auto simp: ok_in_def new_Match_def ok_match_def slice_def)

lemma getMatches_from_ends:
  assumes "0 < minlen (prog (regex3 r))"
  shows "\<exists>ms. getMatches_from s r pos = Some ms \<and>
    (\<forall>x \<in> set ms. \<exists>mt. match_at (regex3 r) s (start_pos mt) = Some mt \<and> start_pos mt \<le> length s \<and>
       x \<in> set (resultMatch r mt))"
proof (induction "Suc (length s) - pos" arbitrary: pos rule: less_induct)
  case less
  show ?case
  proof (cases "xexec (regex3 r) s pos")
    case None
    then show ?thesis by (subst getMatches_from.simps) simp
  next
    case (Some mt)
    let ?e = "start_pos mt + length (whole mt)"
    from xexec_ok [OF Some] have mt: "pos \<le> start_pos mt" "ok_match s (minlen (prog (regex3 r))) mt"
      "match_at (regex3 r) s (start_pos mt) = Some mt" by auto
    have e: "?e = end_pos mt" "start_pos mt < end_pos mt" "end_pos mt \<le> length s"
      using ok_match_whole(2) [OF mt(2)] mt(2) assms by (auto simp: ok_match_def)
    with mt(1) have "Suc (length s) - ?e < Suc (length s) - pos" by linarith
    from less [OF this] obtain ms where ms: "getMatches_from s r ?e = Some ms"
      "\<forall>x \<in> set ms. \<exists>mt. match_at (regex3 r) s (start_pos mt) = Some mt \<and> start_pos mt \<le> length s \<and>
         x \<in> set (resultMatch r mt)" by blast
    have "getMatches_from s r pos = Some (resultMatch r mt @ ms)"
      by (subst getMatches_from.simps) (simp add: Some ms(1))
    moreover have "start_pos mt \<le> length s" using e by linarith
    ultimately show ?thesis using ms(2) mt(3) by auto
  qed
qed

text \<open>
  The contract of a list of rules, and what \<open>findMatches\<close> gives under it: it returns, and the
  code, cut at the matches that remain, is the code.
\<close>

definition bits3 :: "rule3 list \<Rightarrow> jsstr \<Rightarrow> bit list" where
  "bits3 regexList str = (case findMatches regexList str of Some ms \<Rightarrow> cut_bits str 0 ms | None \<Rightarrow> [])"

locale rules3 =
  fixes regexList :: "rule3 list"
  assumes consumes: "r \<in> set regexList \<Longrightarrow> 0 < minlen (prog (regex3 r))"
    and parts: "r \<in> set regexList \<Longrightarrow> match_at (regex3 r) s i = Some mt \<Longrightarrow> i \<le> length s \<Longrightarrow>
      x \<in> set (resultMatch r mt) \<Longrightarrow> ok_in s x \<and> plain_name (mcss x)"
begin

lemma collects: "set rs \<subseteq> set regexList \<Longrightarrow> \<exists>ms. collect3 rs s = Some ms \<and> (\<forall>x \<in> set ms. ok_in s x \<and> plain_name (mcss x))"
proof (induction rs)
  case (Cons r rs)
  then have r: "r \<in> set regexList" by simp
  from getMatches_from_ends [OF consumes [OF r], of s 0] obtain ms where
    ms: "getMatches s r = Some ms" "\<forall>x \<in> set ms. \<exists>mt. match_at (regex3 r) s (start_pos mt) = Some mt \<and>
      start_pos mt \<le> length s \<and> x \<in> set (resultMatch r mt)" by (auto simp: getMatches_def)
  then have "\<forall>x \<in> set ms. ok_in s x \<and> plain_name (mcss x)" using parts [OF r] by blast
  with Cons ms(1) show ?case by auto
qed simp

lemma finds:
  "\<exists>ms. collect3 regexList s = Some ms \<and>
     findMatches regexList s = Some (removeNestedMatches (map Some (array_sort matchesSortCallback ms))) \<and>
     (\<forall>x \<in> set ms. ok_in s x \<and> plain_name (mcss x))"
  using collects [of regexList s] by (auto simp: findMatches_def)

text \<open>What remains: the leftmost longest of the collected matches.\<close>

lemma remains:
  "\<exists>ms xs. findMatches regexList s = Some ms \<and> live ms = leftmost_longest xs \<and>
     (\<forall>x \<in> set xs. ok_in s x \<and> plain_name (mcss x))"
proof -
  from finds obtain ms where ms: "findMatches regexList s = Some (resolve (map Some (array_sort SortCallback ms)))"
    "\<forall>x \<in> set ms. ok_in s x \<and> plain_name (mcss x)" by (auto simp: removeNestedMatches_resolve matchesSortCallback_eq)
  let ?xs = "array_sort SortCallback ms"
  have "present (map Some ?xs) = ?xs" by (simp add: present_def comp_def filter_map)
  then have l: "live (resolve (map Some ?xs)) = leftmost_longest (live (map Some ?xs))"
    by (intro resolve_leftmost_longest) (simp add: sort_sorted)
  have "set (live (map Some ?xs)) \<subseteq> set ms" by (auto simp: live_in set_sort)
  with l ms show ?thesis by blast
qed

lemma text_kept: "bit_text (bits3 regexList s) = s"
proof -
  from remains obtain ms xs where ms: "findMatches regexList s = Some ms" "live ms = leftmost_longest xs"
    "\<forall>x \<in> set xs. ok_in s x" by blast
  then have "\<forall>x \<in> set (leftmost_longest xs). ok_in s x" using leftmost_longest_subset by blast
  from bit_text_iff_chain [OF this] show ?thesis
    by (simp add: bits3_def ms(1,2) cut_bits_live leftmost_longest_chain)
qed

lemma plain_classes: "b \<in> set (bits3 regexList s) \<Longrightarrow> plain_css b"
proof -
  assume b: "b \<in> set (bits3 regexList s)"
  from remains obtain ms xs where ms: "findMatches regexList s = Some ms" "live ms = leftmost_longest xs"
    "\<forall>x \<in> set xs. plain_name (mcss x)" by blast
  then have "\<forall>x \<in> set (live ms). plain_name (mcss x)" using leftmost_longest_subset by auto
  from plain_cut [OF this] b show ?thesis by (simp add: bits3_def ms(1) cut_bits_live)
qed

end

lemma plain_parts:
  assumes "func3 r = None" "match_at (regex3 r) s i = Some mt" "i \<le> length s" "x \<in> set (resultMatch r mt)"
  shows "ok_in s x \<and> mcss x = css3 r"
  using assms match_at_ok [OF assms(2,3)] ok_in_whole [of s _ mt] by (auto simp: resultMatch_def new_Match_def)

section \<open>Properties\<close>

text \<open>
  C8: the nested loops of \<open>removeNestedMatches\<close>, which set entries of the sorted array to null,
  leave the leftmost longest matches: of the matches with the least start the longest (the first
  of them in the order of the rules) stays, what starts before its end goes, and so on.  The
  matches that stay are disjoint and in order, and each non-empty match starts inside one that stays.
\<close>

theorem leftmost_longest_kept:
  "let xs = array_sort matchesSortCallback ms;
       kept = live (removeNestedMatches (map Some xs))
   in kept = leftmost_longest (filter (\<lambda>x. mlength x \<noteq> 0) xs) \<and> chain 0 kept \<and>
      set kept \<subseteq> set ms \<and>
      {x \<in> set ms. mlength x \<noteq> 0} \<subseteq>
        (\<Union>y \<in> set kept. {x. mindex y \<le> mindex x \<and> mindex x < mindex y + mlength y})"
proof -
  let ?xs = "array_sort SortCallback ms" and ?pos = "filter (\<lambda>x :: Match. mlength x \<noteq> 0)"
  have p: "present (map Some ?xs) = ?xs" by (simp add: present_def comp_def filter_map)
  then have l: "live (resolve (map Some ?xs)) = leftmost_longest (?pos ?xs)"
    using resolve_leftmost_longest [of "map Some ?xs"] by (simp add: sort_sorted live_present)
  have "sorted_wrt before (?pos ?xs)" by (simp add: sorted_wrt_filter sort_sorted)
  from leftmost_longest_covers [OF this] have
    "{x \<in> set ms. mlength x \<noteq> 0} \<subseteq> (\<Union>y \<in> set (leftmost_longest (?pos ?xs)).
       {x. mindex y \<le> mindex x \<and> mindex x < mindex y + mlength y})"
    by (auto simp: set_sort)
  moreover have "set (leftmost_longest (?pos ?xs)) \<subseteq> set ms"
    using leftmost_longest_subset [of "?pos ?xs"] by (auto simp: set_sort)
  ultimately show ?thesis
    by (simp add: removeNestedMatches_resolve matchesSortCallback_eq l leftmost_longest_chain Let_def)
qed

end
