(* ===== verification/Sh3Keywords.thy ===== *)
theory Sh3Keywords
  imports Sh3Matches
begin

text \<open>
  The keyword rules of SyntaxHighlighter 3: \<open>getKeywords\<close> turns a list of words into
  \<^verbatim>\<open>\b(?:word1|word2|...)\b\<close>.  For lists of words of letters, digits and underscores
  with one blank between them (\<open>name_list\<close>, one pass over the list) the pattern parses to
  the alternation of the words between two word boundaries, and it matches exactly the listed
  words, as its predecessor's pattern does.
\<close>

section \<open>The pattern\<close>

definition name :: "jsstr \<Rightarrow> bool" where
  "name w \<longleftrightarrow> w \<noteq> [] \<and> list_all is_word w"

lemma is_word_facts: "is_word c \<Longrightarrow> \<not> is_space c \<and> literal_char c"
  by (auto simp: is_word_def is_space_def literal_char_def)

lemma name_chars: "name w \<Longrightarrow> w \<noteq> [] \<and> (\<forall>c \<in> set w. \<not> is_space c) \<and> list_all literal_char w"
  using is_word_facts by (auto simp: name_def list_all_iff)

lemma re_blanks_eq:
  "re_blanks = \<lparr>prog = RSeq (RRep 1 None True 1 1 (RClass False [CSpace])) REmpty, groups = 1,
     rflags = g_flags, lastIndex = 0\<rparr>"
  by (simp add: re_blanks_def js_eval)

lemma re_blanks_local: "ahead_only (prog re_blanks)" "global (rflags re_blanks)" "0 < minlen (prog re_blanks)"
  by (simp_all add: re_blanks_eq)

abbreviation bars :: "jsstr \<Rightarrow> jsstr" where
  "bars s \<equiv> replace_re s re_blanks (\<lambda>_. [124])"

lemma match_blanks:
  "match_at re_blanks s i =
     (if i < length s \<and> is_space (s ! i) then Some (mk_match s i (Suc i + run s is_space (Suc i)) [None]) else None)"
proof -
  have "m g_flags s (RRep 1 None True 1 1 (RClass False [CSpace])) i [None] =
      (if i < length s \<and> is_space (s ! i)
       then map (\<lambda>n. (Suc i + n, [None])) (rev [0..<Suc (run s is_space (Suc i))]) else [])"
    by (rule m_plus_greedy [OF single_space])
  then show ?thesis by (simp add: match_at_def re_blanks_eq)
qed

lemma bars_word: "\<forall>c \<in> set w. \<not> is_space c \<Longrightarrow> bars (w @ s) = w @ bars s"
proof (induction w)
  case (Cons c w)
  have "match_at re_blanks (c # w @ s) 0 = None" using Cons.prems by (simp add: match_blanks)
  with Cons replace_skip [OF re_blanks_local(1,2)] show ?case by simp
qed simp

lemma bars_blank: "c # s = SP # s \<Longrightarrow> s \<noteq> [] \<Longrightarrow> \<not> is_space (hd s) \<Longrightarrow> bars (SP # s) = 124 # bars s"
proof -
  assume s: "s \<noteq> []" "\<not> is_space (hd s)"
  then have "run (SP # s) is_space 1 = 0" by (intro run_stop) (simp add: hd_conv_nth)
  then have "match_at re_blanks ([SP] @ s) 0 = Some (mk_match ([SP] @ s) 0 1 [None])"
    by (simp add: match_blanks is_space_def)
  from replace_hit [OF re_blanks_local(1,2) this, of "[124]"] show ?thesis by (simp add: mk_match_def)
qed

lemma bars_words:
  "ws \<noteq> [] \<Longrightarrow> \<forall>w \<in> set ws. name w \<Longrightarrow> bars (join [SP] ws) = join [124] ws"
proof (induction ws rule: induct_list012)
  case (2 w)
  then show ?case
    using bars_word [of w "[]"] name_chars [of w] replace_Nil [OF re_blanks_local(2,3)] by simp
next
  case (3 w w' ws)
  have "join [SP] (w' # ws) \<noteq> [] \<and> hd (join [SP] (w' # ws)) = hd w'"
    using "3.prems" name_chars [of w'] by (cases ws) auto
  moreover have "\<not> is_space (hd w')" using "3.prems" name_chars [of w'] by auto
  ultimately have "bars (SP # join [SP] (w' # ws)) = 124 # bars (join [SP] (w' # ws))"
    by (intro bars_blank) auto
  with 3 bars_word [of w] name_chars [of w] show ?case by simp
qed simp

lemma trim_words:
  assumes "ws \<noteq> []" "\<forall>w \<in> set ws. name w"
  shows "sh3_trim (join [SP] ws) = join [SP] ws"
proof -
  have "join [SP] ws \<noteq> [] \<and> \<not> is_space (hd (join [SP] ws)) \<and> \<not> is_space (last (join [SP] ws))"
    using assms
  proof (induction ws rule: induct_list012)
    case (2 w)
    then show ?case using name_chars [of w] by (auto simp: hd_in_set last_in_set)
  next
    case (3 w w' ws)
    then show ?case using name_chars [of w] by (auto simp: hd_in_set)
  qed simp
  then obtain c s d t where "join [SP] ws = c # s" "\<not> is_space c" "rev (join [SP] ws) = d # t" "\<not> is_space d"
    by (metis hd_rev list.collapse rev_is_Nil_conv)
  then show ?thesis by (simp add: sh3_trim_eq lstrip_def rstrip_def) (metis rev.simps(2) rev_rev_ident)
qed

lemma getKeywords3_join:
  assumes "ws \<noteq> []" "\<forall>w \<in> set ws. name w"
  shows "getKeywords3 (join [SP] ws) = pat ''`b(?:'' @ join [124] ws @ pat '')`b''"
  using trim_words [OF assms] bars_words [OF assms] by (simp add: getKeywords3_def sh3_trim_def)

section \<open>The expression\<close>

fun plain_alts :: "jsstr list \<Rightarrow> regex" where
  "plain_alts [] = REmpty"
| "plain_alts [w] = seq_chars w REmpty"
| "plain_alts (w # w' # ws) = RAlt (seq_chars w REmpty) (plain_alts (w' # ws))"

definition names_regex :: "jsstr list \<Rightarrow> regex" where
  "names_regex ws = RSeq RWordB (RSeq (plain_alts ws) (RSeq RWordB REmpty))"

lemma parse_plain_word:
  "list_all literal_char w \<Longrightarrow> prefix [41] rest \<or> prefix [124] rest \<Longrightarrow>
   parse_alt (length w + Suc k) (w @ rest) n = Some (seq_chars w REmpty, rest, n)"
proof (induction w)
  case Nil
  then show ?case by auto
next
  case (Cons c w)
  have "case w @ rest of [] \<Rightarrow> True | d # _ \<Rightarrow> d \<noteq> 42 \<and> d \<noteq> 43 \<and> d \<noteq> 63 \<and> d \<noteq> 123"
    using Cons.prems by (cases w) (auto simp: prefix_def dest: literal_char_simps)
  then have t: "parse_term (Suc k') (c # w @ rest) n = Some (RChar c, w @ rest, n)" for k'
    using Cons.prems by (intro parse_literal) auto
  have "parse_alt (Suc (length w + Suc k)) (c # w @ rest) n = Some (RSeq (RChar c) (seq_chars w REmpty), rest, n)"
    by (rule parse_alt_step [OF t [of "length w + k", folded add_Suc_right] Cons.IH])
       (use Cons.prems literal_char_simps [of c] in auto)
  then show ?case by (simp del: parse_alt.simps)
qed

lemma parse_plain_word_ge:
  assumes "list_all literal_char w" "prefix [41] rest \<or> prefix [124] rest" "length w < k"
  shows "parse_alt k (w @ rest) n = Some (seq_chars w REmpty, rest, n)"
  using parse_fuel_ge(2) [OF _ parse_plain_word [OF assms(1,2), of 0 n], of k] assms(3) by simp

lemma parse_plain_alts:
  "ws \<noteq> [] \<Longrightarrow> \<forall>w \<in> set ws. list_all literal_char w \<Longrightarrow> length (join [124] ws) < k \<Longrightarrow>
   parse_disj (Suc k) (join [124] ws @ 41 # rest) n = Some (plain_alts ws, 41 # rest, n)"
proof (induction ws arbitrary: k rule: induct_list012)
  case (2 w)
  then have "parse_alt k (w @ 41 # rest) n = Some (seq_chars w REmpty, 41 # rest, n)"
    by (intro parse_plain_word_ge) auto
  then show ?case by (simp del: parse_alt.simps)
next
  case (3 w w' ws)
  let ?rest = "join [124] (w' # ws) @ 41 # rest"
  have k: "length w + length (join [124] (w' # ws)) + 1 < k" using "3.prems"(3) by simp
  have a: "parse_alt k (w @ 124 # ?rest) n = Some (seq_chars w REmpty, 124 # ?rest, n)"
    by (rule parse_plain_word_ge) (use "3.prems"(2) k in auto)
  obtain k' where k': "k = Suc k'" using k by (cases k) auto
  have d: "parse_disj k ?rest n = Some (plain_alts (w' # ws), 41 # rest, n)"
    unfolding k' by (rule "3.IH"(2)) (use "3.prems"(2) k k' in auto)
  show ?case using parse_disj_more [OF a d] by (simp del: parse_alt.simps parse_disj.simps)
qed simp

lemma parse_names:
  assumes "ws \<noteq> []" "\<forall>w \<in> set ws. list_all literal_char w"
  shows "parse_pattern (pat ''`b(?:'' @ join [124] ws @ pat '')`b'') = Some (names_regex ws, 1)"
proof -
  let ?body = "join [124] ws" and ?tail = "[92, 98] :: jsstr"
  let ?p = "92 # 98 # 40 # 63 # 58 # ?body @ 41 # ?tail"
  define k where "k = length ?body + 1"
  have p: "pat ''`b(?:'' @ ?body @ pat '')`b'' = ?p" by (simp add: pat_def)
  have f: "Suc (Suc (Suc (Suc (Suc k)))) \<le> fuel_of ?p" using fuel_of_ge [of ?p] by (simp add: k_def)
  have "parse_disj (Suc k) (?body @ 41 # ?tail) 1 = Some (plain_alts ws, 41 # ?tail, 1)"
    by (rule parse_plain_alts [OF assms]) (simp add: k_def)
  then have g: "parse_term (Suc (Suc k)) (40 # 63 # 58 # ?body @ 41 # ?tail) 1 = Some (plain_alts ws, ?tail, 1)"
    by (simp add: quantify_none del: parse_disj.simps)
  have e: "parse_alt (Suc (Suc k)) ?tail 1 = Some (RSeq RWordB REmpty, [], 1)" by simp
  have "parse_alt (Suc (Suc (Suc k))) (40 # 63 # 58 # ?body @ 41 # ?tail) 1 =
      Some (RSeq (plain_alts ws) (RSeq RWordB REmpty), [], 1)"
    by (rule parse_alt_step [OF g e]) auto
  then have "parse_alt (Suc (Suc (Suc (Suc k)))) ?p 1 = Some (names_regex ws, [], 1)"
    unfolding names_regex_def by (intro parse_alt_step) (auto simp del: parse_alt.simps)
  then have "parse_disj (Suc (Suc (Suc (Suc (Suc k))))) ?p 1 = Some (names_regex ws, [], 1)"
    by (rule parse_disj_last)
  from parse_fuel_ge(1) [OF f this] show ?thesis
    unfolding p parse_pattern_def by (simp del: parse_disj.simps fuel_of.simps)
qed

lemma m_plain_alts:
  "ws \<noteq> [] \<Longrightarrow> \<forall>w \<in> set ws. w \<noteq> [] \<Longrightarrow>
   m fl s (plain_alts ws) i cs = map (\<lambda>w. (i + length w, cs))
     (filter (\<lambda>w. i + length w \<le> length s \<and>
        map (canonicalize fl) (take (length w) (drop i s)) = map (canonicalize fl) w) ws)"
  by (induction ws rule: induct_list012) (auto simp: m_seq_chars)

lemma m_names:
  assumes "ws \<noteq> []" "\<forall>w \<in> set ws. w \<noteq> []"
  shows "m fl s (names_regex ws) i cs = map (\<lambda>w. (i + length w, cs)) (filter (word_here fl s i) ws)"
proof -
  have "concat (map (\<lambda>w. if word_boundary s (i + length w) then [(i + length w, cs)] else []) (filter P ws)) =
      map (\<lambda>w. (i + length w, cs)) (filter (\<lambda>w. P w \<and> word_boundary s (i + length w)) ws)" for P
    by (induction ws) auto
  then show ?thesis
    using assms by (auto simp: names_regex_def m_plain_alts comp_def word_here_def [abs_def])
qed

section \<open>Lists of names\<close>

text \<open>One pass over the list, as \<open>word_step\<close>, for words of letters, digits and underscores.\<close>

fun name_step :: "jschar \<Rightarrow> bool option \<Rightarrow> bool option" where
  "name_step c None = None"
| "name_step c (Some b) =
     (if c = 32 then (if b then Some False else None)
      else if is_word c then Some True else None)"

definition name_list :: "jsstr \<Rightarrow> bool" where
  "name_list s \<longleftrightarrow> fold name_step s (Some False) = Some True"

lemma fold_name_None: "fold name_step s None = None"
  by (induction s) auto

lemma name_step_word:
  "fold name_step s (Some b) = Some b' \<Longrightarrow>
   fold word_step s (Some b) = Some b' \<and> (\<forall>c \<in> set s. c = SP \<or> is_word c)"
proof (induction s arbitrary: b)
  case (Cons c s)
  then show ?case using is_word_facts [of c] by (auto simp: fold_name_None split: if_splits)
qed simp

lemma name_list_words:
  assumes "name_list kws"
  shows "\<forall>w \<in> set (split_str [SP] kws). name w"
proof
  fix w assume w: "w \<in> set (split_str [SP] kws)"
  have l: "word_list kws" "\<forall>c \<in> set kws. c = SP \<or> is_word c"
    using assms name_step_word [of kws False True] by (auto simp: name_list_def word_list_def)
  have "v \<in> set ws \<Longrightarrow> set v \<subseteq> set (join [SP] ws)" for v ws
    by (induction ws rule: induct_list012) auto
  from this [OF w] have "set w \<subseteq> set kws" by (simp add: join_split)
  moreover have "SP \<notin> set w" using split_single_pieces [OF w] .
  moreover have "w \<noteq> []" using word_list_words [OF l(1)] w by (auto simp: keyword_def)
  ultimately show "name w" using l(2) by (auto simp: name_def list_all_iff)
qed

lemma RegExp_names:
  assumes "name_list kws"
  shows "js_regex (getKeywords3 kws) f =
    \<lparr>prog = names_regex (split_str [SP] kws), groups = 1, rflags = parse_flags f, lastIndex = 0\<rparr>"
proof -
  have ws: "split_str [SP] kws \<noteq> []" "\<forall>w \<in> set (split_str [SP] kws). name w"
    using name_list_words [OF assms] by (simp_all add: split_str_nonempty)
  have "getKeywords3 kws = pat ''`b(?:'' @ join [124] (split_str [SP] kws) @ pat '')`b''"
    using getKeywords3_join [OF ws] by (simp add: join_split)
  moreover have "\<forall>w \<in> set (split_str [SP] kws). list_all literal_char w" using ws(2) name_chars by blast
  ultimately show ?thesis using parse_names [OF ws(1)] by (simp add: js_regex_def RegExp_def)
qed

lemma match_at_names:
  assumes "name_list kws"
  shows "match_at (js_regex (getKeywords3 kws) f) s i =
    (case filter (word_here (parse_flags f) s i) (split_str [SP] kws) of
       [] \<Rightarrow> None
     | w # _ \<Rightarrow> Some (mk_match s i (i + length w) [None]))"
proof -
  have "\<forall>w \<in> set (split_str [SP] kws). w \<noteq> []" using name_list_words [OF assms] by (auto simp: name_def)
  then show ?thesis
    by (simp add: match_at_def RegExp_names [OF assms] m_names split_str_nonempty split: list.splits)
qed

lemma minlen_names: "ws \<noteq> [] \<Longrightarrow> \<forall>w \<in> set ws. name w \<Longrightarrow> 0 < minlen (names_regex ws)"
proof -
  assume "ws \<noteq> []" "\<forall>w \<in> set ws. name w"
  then have "0 < minlen (plain_alts ws)"
    by (induction ws rule: induct_list012) (auto simp: minlen_seq_chars name_def)
  then show ?thesis by (simp add: names_regex_def)
qed

lemma minlen_keywords3:
  assumes "name_list kws"
  shows "0 < minlen (prog (js_regex (getKeywords3 kws) f))"
  using minlen_names [OF split_str_nonempty name_list_words [OF assms]] by (simp add: RegExp_names [OF assms])

text \<open>A word that stands alone is matched as a whole: inside it there is no word boundary.\<close>

lemma inner_no_boundary: "name w \<Longrightarrow> 0 < k \<Longrightarrow> k < length w \<Longrightarrow> \<not> word_boundary w k"
  by (simp add: word_boundary_def word_at_def name_def list_all_iff)

lemma alone_here:
  assumes "name w" "name v" and "word_here no_case w 0 v" and "\<not> ignoreCase no_case"
  shows "v = w"
proof -
  from assms(3,4) have v: "length v \<le> length w" "take (length v) w = v" "word_boundary w (length v)"
    by (auto simp: word_here_def canonicalize_def map_idI)
  have "0 < length v" using assms(2) by (auto simp: name_def)
  with inner_no_boundary [OF assms(1)] v(1,3) have "length v = length w" by (meson le_neq_implies_less)
  with v(2) show ?thesis by simp
qed

lemma here_alone:
  assumes "name w" and "\<not> ignoreCase fl"
  shows "word_here fl w 0 w"
  using assms by (auto simp: word_here_def word_boundary_def word_at_def name_def list_all_iff last_conv_nth)

text \<open>The texts that a keyword rule highlights, over all codes and positions, are the listed words.\<close>

definition highlighted_words :: "regexp \<Rightarrow> jsstr set" where
  "highlighted_words re = {whole mt | s i mt. i \<le> length s \<and> match_at re s i = Some mt}"

lemma highlighted_names:
  assumes "name_list kws" and "\<not> ignoreCase (parse_flags f)"
  shows "highlighted_words (js_regex (getKeywords3 kws) f) = set (split_str [SP] kws)"
proof (intro set_eqI iffI)
  fix v assume "v \<in> highlighted_words (js_regex (getKeywords3 kws) f)"
  then obtain s i mt where mt: "i \<le> length s" "match_at (js_regex (getKeywords3 kws) f) s i = Some mt" "v = whole mt"
    by (auto simp: highlighted_words_def)
  then obtain w rest where w: "filter (word_here (parse_flags f) s i) (split_str [SP] kws) = w # rest"
    "mt = mk_match s i (i + length w) [None]" by (auto simp: match_at_names [OF assms(1)] split: list.splits)
  then have "w \<in> set (split_str [SP] kws)" "word_here (parse_flags f) s i w"
    by (metis (no_types, lifting) filter_eq_ConsD in_set_conv_decomp)+
  then show "v \<in> set (split_str [SP] kws)"
    using mt(3) w(2) assms(2) by (simp add: whole_def group_of_def mk_match_def slice_def word_here_def canonicalize_def map_idI)
next
  fix w assume w: "w \<in> set (split_str [SP] kws)"
  have n: "name w" using name_list_words [OF assms(1)] w by blast
  let ?ws = "filter (word_here (parse_flags f) w 0) (split_str [SP] kws)"
  have "w \<in> set ?ws" using here_alone [OF n assms(2)] w by simp
  moreover have "\<forall>v \<in> set ?ws. v = w"
    using alone_here [OF n _ _ assms(2)] name_list_words [OF assms(1)] by auto
  ultimately obtain rest where "?ws = w # rest" by (cases ?ws) auto
  then have "match_at (js_regex (getKeywords3 kws) f) w 0 = Some (mk_match w 0 (length w) [None])"
    by (simp add: match_at_names [OF assms(1)])
  moreover have "whole (mk_match w 0 (length w) [None]) = w"
    by (simp add: whole_def group_of_def mk_match_def slice_def)
  ultimately show "w \<in> highlighted_words (js_regex (getKeywords3 kws) f)"
    unfolding highlighted_words_def by (metis (mono_tags, lifting) mem_Collect_eq zero_le)
qed

end
