(* ===== verification/Sh3Brushes.thy ===== *)
theory Sh3Brushes
  imports Sh3Keywords RegexCaps
begin

text \<open>
  The brushes of SyntaxHighlighter 3: \<open>SyntaxHighlighter.regexLib\<close> as far as they use it
  (\<open>shCore(1).js\<close>), C++ (\<open>shBrushCpp(1).js\<close> and the older copy \<open>shBrushCpp.js\<close> of another
  page) and Bash (\<open>shBrushBash.js\<close>) with the function \<open>hereDocProcess\<close> that cuts a here-document
  into its tag, its text and its end tag.  The brushes take the expressions and \<open>getKeywords\<close> from
  the core that the page loads; the core of the page with the older copy is packed and cannot be read,
  so both are parameters of the rule lists.  Every rule consumes at least one character and every match it
  gives is a part of the code, so the brushes meet the contract \<open>rules3\<close>: the code that is
  displayed is the code that was given.
\<close>

section \<open>The expressions of the core\<close>

record regexLib3 =
  multiLineCComments :: regexp
  singleLineCComments :: regexp
  singleLinePerlComments :: regexp
  doubleQuotedString :: regexp
  singleQuotedString :: regexp

text \<open>
  \<open>XRegExp\<close> with the flag \<open>s\<close> writes every dot as \<^verbatim>\<open>[\s\S]\<close> and drops the flag.
\<close>

definition sh3_regexLib :: regexLib3 where
  \<open>sh3_regexLib = \<lparr>
     multiLineCComments = js_regex (pat ''/`*[`s`S]*?`*/'') (lit ''g''),
     singleLineCComments = js_regex (pat ''`/`/.*$'') (lit ''gm''),
     singleLinePerlComments = js_regex (pat ''#.*$'') (lit ''gm''),
     doubleQuotedString = js_regex (pat ''"([^``"`n]|``.)*"'') (lit ''g''),
     singleQuotedString = js_regex (pat ''~([^``~`n]|``.)*~'') (lit ''g'')\<rparr>\<close>

section \<open>The word lists\<close>

definition cpp3_datatypes :: jsstr where
  "cpp3_datatypes = lit (
     ''ATOM BOOL BOOLEAN BYTE CHAR COLORREF DWORD DWORDLONG DWORD_PTR '' @
     ''DWORD32 DWORD64 FLOAT HACCEL HALF_PTR HANDLE HBITMAP HBRUSH '' @
     ''HCOLORSPACE HCONV HCONVLIST HCURSOR HDC HDDEDATA HDESK HDROP HDWP '' @
     ''HENHMETAFILE HFILE HFONT HGDIOBJ HGLOBAL HHOOK HICON HINSTANCE HKEY '' @
     ''HKL HLOCAL HMENU HMETAFILE HMODULE HMONITOR HPALETTE HPEN HRESULT '' @
     ''HRGN HRSRC HSZ HWINSTA HWND INT INT_PTR INT32 INT64 LANGID LCID LCTYPE '' @
     ''LGRPID LONG LONGLONG LONG_PTR LONG32 LONG64 LPARAM LPBOOL LPBYTE LPCOLORREF '' @
     ''LPCSTR LPCTSTR LPCVOID LPCWSTR LPDWORD LPHANDLE LPINT LPLONG LPSTR LPTSTR '' @
     ''LPVOID LPWORD LPWSTR LRESULT PBOOL PBOOLEAN PBYTE PCHAR PCSTR PCTSTR PCWSTR '' @
     ''PDWORDLONG PDWORD_PTR PDWORD32 PDWORD64 PFLOAT PHALF_PTR PHANDLE PHKEY PINT '' @
     ''PINT_PTR PINT32 PINT64 PLCID PLONG PLONGLONG PLONG_PTR PLONG32 PLONG64 POINTER_32 '' @
     ''POINTER_64 PSHORT PSIZE_T PSSIZE_T PSTR PTBYTE PTCHAR PTSTR PUCHAR PUHALF_PTR '' @
     ''PUINT PUINT_PTR PUINT32 PUINT64 PULONG PULONGLONG PULONG_PTR PULONG32 PULONG64 '' @
     ''PUSHORT PVOID PWCHAR PWORD PWSTR SC_HANDLE SC_LOCK SERVICE_STATUS_HANDLE SHORT '' @
     ''SIZE_T SSIZE_T TBYTE TCHAR UCHAR UHALF_PTR UINT UINT_PTR UINT32 UINT64 ULONG '' @
     ''ULONGLONG ULONG_PTR ULONG32 ULONG64 USHORT USN VOID WCHAR WORD WPARAM WPARAM WPARAM '' @
     ''char char16_t char32_t bool short int __int32 __int64 __int8 __int16 long float double __wchar_t '' @
     ''clock_t _complex _dev_t _diskfree_t div_t ldiv_t _exception _EXCEPTION_POINTERS '' @
     ''FILE _finddata_t _finddatai64_t _wfinddata_t _wfinddatai64_t __finddata64_t '' @
     ''__wfinddata64_t _FPIEEE_RECORD fpos_t _HEAPINFO _HFILE lconv intptr_t '' @
     ''jmp_buf mbstate_t _off_t _onexit_t _PNH ptrdiff_t _purecall_handler '' @
     ''sig_atomic_t size_t _stat __stat64 _stati64 terminate_function '' @
     ''time_t __time64_t _timeb __timeb64 tm uintptr_t _utimbuf '' @
     ''va_list wchar_t wctrans_t wctype_t wint_t signed'')"

definition cpp3_keywords :: jsstr where
  "cpp3_keywords = lit (
     ''alignas alignof auto break case catch class const constexpr decltype __finally __exception __try '' @
     ''const_cast continue private public protected __declspec '' @
     ''default delete deprecated dllexport dllimport do dynamic_cast '' @
     ''else enum explicit extern if for friend goto inline '' @
     ''mutable naked namespace new noinline noreturn nothrow noexcept nullptr '' @
     ''ref register reinterpret_cast return selectany '' @
     ''sizeof static static_cast static_assert struct switch template this '' @
     ''thread thread_local throw true false try typedef typeid typename union '' @
     ''using uuid virtual void volatile whcar_t while'')"

definition cpp3_functions :: jsstr where
  "cpp3_functions = lit (
     ''assert isalnum isalpha iscntrl isdigit isgraph islower isprint'' @
     ''ispunct isspace isupper isxdigit tolower toupper errno localeconv '' @
     ''setlocale acos asin atan atan2 ceil cos cosh exp fabs floor fmod '' @
     ''frexp ldexp log log10 modf pow sin sinh sqrt tan tanh jmp_buf '' @
     ''longjmp setjmp raise signal sig_atomic_t va_arg va_end va_start '' @
     ''clearerr fclose feof ferror fflush fgetc fgetpos fgets fopen '' @
     ''fprintf fputc fputs fread freopen fscanf fseek fsetpos ftell '' @
     ''fwrite getc getchar gets perror printf putc putchar puts remove '' @
     ''rename rewind scanf setbuf setvbuf sprintf sscanf tmpfile tmpnam '' @
     ''ungetc vfprintf vprintf vsprintf abort abs atexit atof atoi atol '' @
     ''bsearch calloc div exit free getenv labs ldiv malloc mblen mbstowcs '' @
     ''mbtowc qsort rand realloc srand strtod strtol strtoul system '' @
     ''wcstombs wctomb memchr memcmp memcpy memmove memset strcat strchr '' @
     ''strcmp strcoll strcpy strcspn strerror strlen strncat strncmp '' @
     ''strncpy strpbrk strrchr strspn strstr strtok strxfrm asctime '' @
     ''clock ctime difftime gmtime localtime mktime strftime time'')"

definition cpp3old_datatypes :: jsstr where
  "cpp3old_datatypes = lit (
     ''ATOM BOOL BOOLEAN BYTE CHAR COLORREF DWORD DWORDLONG DWORD_PTR '' @
     ''DWORD32 DWORD64 FLOAT HACCEL HALF_PTR HANDLE HBITMAP HBRUSH '' @
     ''HCOLORSPACE HCONV HCONVLIST HCURSOR HDC HDDEDATA HDESK HDROP HDWP '' @
     ''HENHMETAFILE HFILE HFONT HGDIOBJ HGLOBAL HHOOK HICON HINSTANCE HKEY '' @
     ''HKL HLOCAL HMENU HMETAFILE HMODULE HMONITOR HPALETTE HPEN HRESULT '' @
     ''HRGN HRSRC HSZ HWINSTA HWND INT INT_PTR INT32 INT64 LANGID LCID LCTYPE '' @
     ''LGRPID LONG LONGLONG LONG_PTR LONG32 LONG64 LPARAM LPBOOL LPBYTE LPCOLORREF '' @
     ''LPCSTR LPCTSTR LPCVOID LPCWSTR LPDWORD LPHANDLE LPINT LPLONG LPSTR LPTSTR '' @
     ''LPVOID LPWORD LPWSTR LRESULT PBOOL PBOOLEAN PBYTE PCHAR PCSTR PCTSTR PCWSTR '' @
     ''PDWORDLONG PDWORD_PTR PDWORD32 PDWORD64 PFLOAT PHALF_PTR PHANDLE PHKEY PINT '' @
     ''PINT_PTR PINT32 PINT64 PLCID PLONG PLONGLONG PLONG_PTR PLONG32 PLONG64 POINTER_32 '' @
     ''POINTER_64 PSHORT PSIZE_T PSSIZE_T PSTR PTBYTE PTCHAR PTSTR PUCHAR PUHALF_PTR '' @
     ''PUINT PUINT_PTR PUINT32 PUINT64 PULONG PULONGLONG PULONG_PTR PULONG32 PULONG64 '' @
     ''PUSHORT PVOID PWCHAR PWORD PWSTR SC_HANDLE SC_LOCK SERVICE_STATUS_HANDLE SHORT '' @
     ''SIZE_T SSIZE_T TBYTE TCHAR UCHAR UHALF_PTR UINT UINT_PTR UINT32 UINT64 ULONG '' @
     ''ULONGLONG ULONG_PTR ULONG32 ULONG64 USHORT USN VOID WCHAR WORD WPARAM WPARAM WPARAM '' @
     ''char bool short int __int32 __int64 __int8 __int16 long float double __wchar_t '' @
     ''clock_t _complex _dev_t _diskfree_t div_t ldiv_t _exception _EXCEPTION_POINTERS '' @
     ''FILE _finddata_t _finddatai64_t _wfinddata_t _wfinddatai64_t __finddata64_t '' @
     ''__wfinddata64_t _FPIEEE_RECORD fpos_t _HEAPINFO _HFILE lconv intptr_t '' @
     ''jmp_buf mbstate_t _off_t _onexit_t _PNH ptrdiff_t _purecall_handler '' @
     ''sig_atomic_t size_t _stat __stat64 _stati64 terminate_function '' @
     ''time_t __time64_t _timeb __timeb64 tm uintptr_t _utimbuf '' @
     ''va_list wchar_t wctrans_t wctype_t wint_t signed'')"

definition cpp3old_keywords :: jsstr where
  "cpp3old_keywords = lit (
     ''break case catch class const __finally __exception __try '' @
     ''const_cast continue private public protected __declspec '' @
     ''default delete deprecated dllexport dllimport do dynamic_cast '' @
     ''else enum explicit extern if for friend goto inline '' @
     ''mutable naked namespace new noinline noreturn nothrow '' @
     ''register reinterpret_cast return selectany '' @
     ''sizeof static static_cast struct switch template this '' @
     ''thread throw true false try typedef typeid typename union '' @
     ''using uuid virtual void volatile whcar_t while'')"

definition cpp3old_functions :: jsstr where
  "cpp3old_functions = lit (
     ''assert isalnum isalpha iscntrl isdigit isgraph islower isprint'' @
     ''ispunct isspace isupper isxdigit tolower toupper errno localeconv '' @
     ''setlocale acos asin atan atan2 ceil cos cosh exp fabs floor fmod '' @
     ''frexp ldexp log log10 modf pow sin sinh sqrt tan tanh jmp_buf '' @
     ''longjmp setjmp raise signal sig_atomic_t va_arg va_end va_start '' @
     ''clearerr fclose feof ferror fflush fgetc fgetpos fgets fopen '' @
     ''fprintf fputc fputs fread freopen fscanf fseek fsetpos ftell '' @
     ''fwrite getc getchar gets perror printf putc putchar puts remove '' @
     ''rename rewind scanf setbuf setvbuf sprintf sscanf tmpfile tmpnam '' @
     ''ungetc vfprintf vprintf vsprintf abort abs atexit atof atoi atol '' @
     ''bsearch calloc div exit free getenv labs ldiv malloc mblen mbstowcs '' @
     ''mbtowc qsort rand realloc srand strtod strtol strtoul system '' @
     ''wcstombs wctomb memchr memcmp memcpy memmove memset strcat strchr '' @
     ''strcmp strcoll strcpy strcspn strerror strlen strncat strncmp '' @
     ''strncpy strpbrk strrchr strspn strstr strtok strxfrm asctime '' @
     ''clock ctime difftime gmtime localtime mktime strftime time'')"

definition bash3_keywords :: jsstr where
  "bash3_keywords = lit (
     ''if fi then elif else for do done until while break continue case esac function return in eq ne ge le'')"

definition bash3_commands :: jsstr where
  "bash3_commands = lit (
     ''alias apropos awk basename base64 bash bc bg builtin bzip2 cal cat cd cfdisk chgrp chmod chown chroot'' @
     ''cksum clear cmp comm command cp cron crontab crypt csplit cut date dc dd ddrescue declare df '' @
     ''diff diff3 dig dir dircolors dirname dirs du echo egrep eject enable env ethtool eval '' @
     ''exec exit expand export expr false fdformat fdisk fg fgrep file find fmt fold format '' @
     ''free fsck ftp gawk gcc gdb getconf getopts grep groups gzip hash head history hostname id ifconfig '' @
     ''import install join kill less let ln local locate logname logout look lpc lpr lprint '' @
     ''lprintd lprintq lprm ls lsof make man mkdir mkfifo mkisofs mknod more mount mtools '' @
     ''mv nasm nc ndisasm netstat nice nl nohup nslookup objdump od open op passwd paste pathchk ping popd pr printcap '' @
     ''printenv printf ps pushd pwd quota quotacheck quotactl ram rcp read readonly renice '' @
     ''remsync rm rmdir rsync screen scp sdiff sed select seq set sftp shift shopt shutdown '' @
     ''sleep sort source split ssh strace strings su sudo sum symlink sync tail tar tee test time '' @
     ''times touch top traceroute trap tr true tsort tty type ulimit umask umount unalias '' @
     ''uname unexpand uniq units unset unshar useradd usermod users uuencode uudecode v vdir '' @
     ''vi watch wc whereis which who whoami Wget xargs xxd yes chsh'')"

section \<open>The rules\<close>

record brush3 =
  regexList3 :: "rule3 list"
  aliases3 :: "jsstr list"

definition css_rule :: "regexp \<Rightarrow> jsstr \<Rightarrow> rule3" where
  "css_rule re css = \<lparr>regex3 = re, css3 = css, func3 = None\<rparr>"

definition cpp_rules3 :: "regexLib3 \<Rightarrow> (jsstr \<Rightarrow> jsstr) \<Rightarrow> jsstr \<Rightarrow> jsstr \<Rightarrow> jsstr \<Rightarrow> rule3 list" where
  "cpp_rules3 lib getKw datatypes functions keywords =
     [css_rule (singleLineCComments lib) (lit ''comments''),
      css_rule (multiLineCComments lib) (lit ''comments''),
      css_rule (doubleQuotedString lib) (lit ''string''),
      css_rule (singleQuotedString lib) (lit ''string''),
      css_rule (js_regex (pat ''^ *#.*'') (lit ''gm'')) (lit ''preprocessor''),
      css_rule (js_regex (getKw datatypes) (lit ''gm'')) (lit ''color1 bold''),
      css_rule (js_regex (getKw functions) (lit ''gm'')) (lit ''functions bold''),
      css_rule (js_regex (getKw keywords) (lit ''gm'')) (lit ''keyword bold'')]"

definition Cpp3 :: "regexLib3 \<Rightarrow> (jsstr \<Rightarrow> jsstr) \<Rightarrow> brush3" where
  "Cpp3 lib getKw = \<lparr>
     regexList3 = cpp_rules3 lib getKw cpp3_datatypes cpp3_functions cpp3_keywords,
     aliases3 = map lit [''cpp'', ''cc'', ''c++'', ''c'', ''h'', ''hpp'', ''h++'']\<rparr>"

definition Cpp3old :: "regexLib3 \<Rightarrow> (jsstr \<Rightarrow> jsstr) \<Rightarrow> brush3" where
  "Cpp3old lib getKw = \<lparr>
     regexList3 = cpp_rules3 lib getKw cpp3old_datatypes cpp3old_functions cpp3old_keywords,
     aliases3 = map lit [''cpp'', ''c'']\<rparr>"

text \<open>\<open>String.prototype.lastIndexOf\<close>: the last position at which the text stands, or -1.\<close>

definition lastIndexOf :: "jsstr \<Rightarrow> jsstr \<Rightarrow> int" where
  "lastIndexOf s t =
     (case find (\<lambda>k. prefix t (drop k s)) (rev [0..<Suc (length s)]) of None \<Rightarrow> -1 | Some k \<Rightarrow> int k)"

text \<open>
  The named groups of the expression, numbered as \<open>XRegExp\<close> numbers them: \<open>full_tag\<close> is 1,
  \<open>tag\<close> 3, \<open>here_doc\<close> 4 and \<open>end_tag\<close> 5; \<^verbatim>\<open>\k<tag>\<close> becomes \<^verbatim>\<open>\3\<close>.
\<close>

definition re_here_doc :: regexp where
  "re_here_doc = js_regex (pat ''((&lt;|<){2}(`w+)) .*$([`s`S]*)(^`3$)'') (lit ''gm'')"

definition hereDocProcess :: "js_match \<Rightarrow> Match list" where
  "hereDocProcess mt =
     (case group_of mt 4 of
        Some here_doc \<Rightarrow> [new_Match here_doc (nat (int (start_pos mt) + indexOf (whole mt) here_doc)) (lit ''string'')]
      | None \<Rightarrow> []) @
     (case group_of mt 1 of
        Some full_tag \<Rightarrow> [new_Match full_tag (start_pos mt) (lit ''preprocessor'')]
      | None \<Rightarrow> []) @
     (case group_of mt 5 of
        Some end_tag \<Rightarrow> [new_Match end_tag (nat (int (start_pos mt) + lastIndexOf (whole mt) end_tag)) (lit ''preprocessor'')]
      | None \<Rightarrow> [])"

definition here_doc_rule :: rule3 where
  "here_doc_rule = \<lparr>regex3 = re_here_doc, css3 = [], func3 = Some (Inr \<circ> hereDocProcess)\<rparr>"

definition Bash3 :: "regexLib3 \<Rightarrow> (jsstr \<Rightarrow> jsstr) \<Rightarrow> brush3" where
  "Bash3 lib getKw = \<lparr>
     regexList3 =
       [css_rule (js_regex (pat ''^#!.*$'') (lit ''gm'')) (lit ''preprocessor bold''),
        css_rule (js_regex (pat ''`/[`w-`/]+'') (lit ''gm'')) (lit ''plain''),
        css_rule (singleLinePerlComments lib) (lit ''comments''),
        css_rule (doubleQuotedString lib) (lit ''string''),
        css_rule (singleQuotedString lib) (lit ''string''),
        css_rule (js_regex (getKw bash3_keywords) (lit ''gm'')) (lit ''keyword''),
        css_rule (js_regex (getKw bash3_commands) (lit ''gm'')) (lit ''functions''),
        here_doc_rule],
     aliases3 = map lit [''bash'', ''shell'', ''sh'']\<rparr>"

section \<open>The word lists are lists of names\<close>

lemma name_list_cpp3_datatypes: "name_list cpp3_datatypes"
  unfolding name_list_def cpp3_datatypes_def word_pass by (simp add: lit_def is_word_def)

lemma name_list_cpp3_keywords: "name_list cpp3_keywords"
  unfolding name_list_def cpp3_keywords_def word_pass by (simp add: lit_def is_word_def)

lemma name_list_cpp3_functions: "name_list cpp3_functions"
  unfolding name_list_def cpp3_functions_def word_pass by (simp add: lit_def is_word_def)

lemma name_list_cpp3old_datatypes: "name_list cpp3old_datatypes"
  unfolding name_list_def cpp3old_datatypes_def word_pass by (simp add: lit_def is_word_def)

lemma name_list_cpp3old_keywords: "name_list cpp3old_keywords"
  unfolding name_list_def cpp3old_keywords_def word_pass by (simp add: lit_def is_word_def)

lemma name_list_cpp3old_functions: "name_list cpp3old_functions"
  unfolding name_list_def cpp3old_functions_def word_pass by (simp add: lit_def is_word_def)

lemma name_list_bash3_keywords: "name_list bash3_keywords"
  unfolding name_list_def bash3_keywords_def word_pass by (simp add: lit_def is_word_def)

lemma name_list_bash3_commands: "name_list bash3_commands"
  unfolding name_list_def bash3_commands_def word_pass by (simp add: lit_def is_word_def)

lemmas name_lists3 =
  name_list_cpp3_datatypes name_list_cpp3_keywords name_list_cpp3_functions
  name_list_cpp3old_datatypes name_list_cpp3old_keywords name_list_cpp3old_functions
  name_list_bash3_keywords name_list_bash3_commands

section \<open>Here-documents\<close>

abbreviation gm_flags :: flags where
  "gm_flags \<equiv> \<lparr>global = True, ignoreCase = False, multiline = True\<rparr>"

definition tag_regex :: regex where
  "tag_regex =
     RSeq (RRep 2 (Some 2) True 2 3 (RGroup 2 (RAlt
       (RSeq (RChar 38) (RSeq (RChar 108) (RSeq (RChar 116) (RSeq (RChar 59) REmpty))))
       (RSeq (RChar 60) REmpty))))
     (RSeq (RGroup 3 (RSeq (RRep 1 None True 4 4 (RClass False [CWord])) REmpty)) REmpty)"

lemma re_here_doc_eq:
  "re_here_doc = \<lparr>prog = RSeq (RGroup 1 tag_regex) (RSeq (RChar 32) (RSeq (RRep 0 None True 4 4 RAny) (RSeq REol
      (RSeq (RGroup 4 (RSeq (RRep 0 None True 5 5 (RClass False [CSpace, CNotSpace])) REmpty))
      (RSeq (RGroup 5 (RSeq RBol (RSeq (RBackref 3) (RSeq REol REmpty)))) REmpty))))),
     groups = 6, rflags = gm_flags, lastIndex = 0\<rparr>"
  by (simp add: re_here_doc_def tag_regex_def js_eval eval_nat_numeral)

lemma tag_regex_chars: "only_chars gm_flags (\<lambda>c. \<not> is_line_end c) tag_regex"
  by (auto simp: tag_regex_def is_line_end_def in_class_def is_word_def)

lemma star_any: "(j, cs') \<in> set (m fl s (RRep 0 None True lo lo a) i cs) \<Longrightarrow> single s P (m fl s a) \<Longrightarrow>
   cs' = cs \<and> i \<le> j \<and> j \<le> i + run s P i"
  by (auto simp: m_star_greedy)

lemma in_RSeq:
  "(j, cs') \<in> set (m fl s (RSeq a b) i cs) \<longleftrightarrow>
   (\<exists>k cs1. (k, cs1) \<in> set (m fl s a i cs) \<and> (j, cs') \<in> set (m fl s b k cs1))"
  by auto

lemma in_RGroup:
  "(j, cs') \<in> set (m fl s (RGroup n a) i cs) \<longleftrightarrow> (\<exists>cs1. (j, cs1) \<in> set (m fl s a i cs) \<and> cs' = cs1[n := Some (i, j)])"
  by auto

lemma in_end_tag:
  assumes "(j, cs') \<in> set (m gm_flags s (RGroup 5 (RSeq RBol (RSeq (RBackref 3) (RSeq REol REmpty)))) q cs)" "q \<le> length s"
  shows "(q = 0 \<or> is_line_end (s ! (q - 1))) \<and> q \<le> j \<and> j \<le> length s \<and> cs' = cs[5 := Some (q, j)]"
proof -
  have "q \<le> j" "j \<le> length s" using m_bounds [OF assms] by auto
  then show ?thesis using assms(1) by (auto split: if_splits option.splits)
qed

text \<open>
  Where the parts of a match stand: the opening tag from \<open>i\<close> to \<open>a\<close>, the rest of its line up to
  \<open>p\<close>, the text from the line break at \<open>p\<close> up to \<open>q\<close>, the end tag from \<open>q\<close> to the end.
\<close>

lemma here_doc_prog:
  assumes "(j, cs) \<in> set (m gm_flags s (prog re_here_doc) i (replicate 6 None))" and i: "i \<le> length s"
  shows "\<exists>a p q cs1. (a, cs1) \<in> set (m gm_flags s tag_regex i (replicate 6 None)) \<and> i \<le> a \<and> s ! a = 32 \<and>
    a < p \<and> p \<le> Suc a + run s (\<lambda>c. \<not> is_line_end c) (Suc a) \<and> (p = length s \<or> is_line_end (s ! p)) \<and>
    p \<le> q \<and> (q = 0 \<or> is_line_end (s ! (q - 1))) \<and> q \<le> j \<and> j \<le> length s \<and>
    length cs1 = 6 \<and> cs = cs1[1 := Some (i, a), 4 := Some (p, q), 5 := Some (q, j)]"
proof -
  from assms(1) obtain a cs1 a' csa p csp p' csp' q csq q' csq' where
    a: "(a, cs1) \<in> set (m gm_flags s tag_regex i (replicate 6 None))" and
    sp: "(a', csa) \<in> set (m gm_flags s (RChar 32) a (cs1[1 := Some (i, a)]))" and
    p: "(p, csp) \<in> set (m gm_flags s (RRep 0 None True 4 4 RAny) a' csa)" and
    eol: "(p', csp') \<in> set (m gm_flags s REol p csp)" and
    q: "(q, csq) \<in> set (m gm_flags s (RRep 0 None True 5 5 (RClass False [CSpace, CNotSpace])) p' csp')" and
    tag: "(j, cs) \<in> set (m gm_flags s (RGroup 5 (RSeq RBol (RSeq (RBackref 3) (RSeq REol REmpty)))) q (csq[4 := Some (p', q)]))"
    unfolding re_here_doc_eq regexp.simps in_RSeq in_RGroup by (auto simp del: m.simps(5,7,9-14)) (metis prod.inject)
  have 1: "a < length s" "s ! a = 32" "a' = Suc a" "csa = cs1[1 := Some (i, a)]" using sp by (auto split: if_splits)
  from m_bounds [OF a i] have ia: "i \<le> a" "length cs1 = 6" by auto
  have 2: "csp = csa" "Suc a \<le> p" "p \<le> Suc a + run s (\<lambda>c. \<not> is_line_end c) (Suc a)"
    using star_any [OF p single_RAny] 1(3) by auto
  have 3: "p' = p" "csp' = csp" "p = length s \<or> is_line_end (s ! p)" using eol by (auto split: if_splits)
  have pl: "p \<le> length s" using m_bounds [OF p] 1 by simp
  have 4: "csq = csp" "p \<le> q" using star_any [OF q single_RClass] 3 by auto
  have ql: "q \<le> length s" using m_bounds [OF q] 3(1) pl by simp
  have 5: "q = 0 \<or> is_line_end (s ! (q - 1))" "q \<le> j" "j \<le> length s"
    "cs = csq[4 := Some (p, q), 5 := Some (q, j)]" using in_end_tag [OF tag ql] 3(1) by auto
  show ?thesis
    by (rule exI [of _ a], rule exI [of _ p], rule exI [of _ q], rule exI [of _ cs1])
       (use a 1 2 3(3) 4 5 ia in auto)
qed

lemma here_doc_match:
  assumes mt: "match_at re_here_doc s i = Some mt" and i: "i \<le> length s"
  shows "\<exists>a p q. i \<le> a \<and> a < p \<and> p < q \<and> q \<le> end_pos mt \<and> end_pos mt \<le> length s \<and> start_pos mt = i \<and>
    (\<forall>c \<in> set (slice s i p). \<not> is_line_end c) \<and> is_line_end (s ! p) \<and>
    group_of mt 1 = Some (slice s i a) \<and> group_of mt 4 = Some (slice s p q) \<and>
    group_of mt 5 = Some (slice s q (end_pos mt))"
proof -
  obtain j cs rest where h: "m gm_flags s (prog re_here_doc) i (replicate 6 None) = (j, cs) # rest"
    and mk: "mt = mk_match s i j cs"
    using mt by (auto simp: match_at_def re_here_doc_eq split: list.splits)
  then have "(j, cs) \<in> set (m gm_flags s (prog re_here_doc) i (replicate 6 None))" by simp
  from here_doc_prog [OF this i] obtain a p q cs1 where
    a: "(a, cs1) \<in> set (m gm_flags s tag_regex i (replicate 6 None))" "i \<le> a" "s ! a = 32" and
    p: "a < p" "p \<le> Suc a + run s (\<lambda>c. \<not> is_line_end c) (Suc a)" "p = length s \<or> is_line_end (s ! p)" and
    q: "p \<le> q" "q = 0 \<or> is_line_end (s ! (q - 1))" "q \<le> j" "j \<le> length s" and
    cs: "length cs1 = 6" "cs = cs1[1 := Some (i, a), 4 := Some (p, q), 5 := Some (q, j)]" by blast
  have line: "\<not> is_line_end (s ! k)" if "i \<le> k" "k < p" for k
  proof -
    consider "k < a" | "k = a" | "Suc a \<le> k" by linarith
    then show ?thesis
    proof cases
      case 1
      then show ?thesis
        using consumes_onlyD [OF m_consumes_only [OF tag_regex_chars] a(1) i that(1)] by simp
    next
      case 2
      then show ?thesis using a(3) by (simp add: is_line_end_def)
    next
      case 3
      then show ?thesis using run_all [of "Suc a" s "\<lambda>c. \<not> is_line_end c"] that(2) p(2) by auto
    qed
  qed
  have pq: "p < q" using q(1,2) line [of "p - 1"] a(2) p(1) by (metis Suc_pred' le_neq_implies_less le_trans less_Suc_eq_le lessI not_less_zero gr_zeroI)
  then have "is_line_end (s ! p)" using p(3) q(3,4) by auto
  moreover have "\<forall>c \<in> set (slice s i p). \<not> is_line_end c"
    using line q pq by (auto simp: slice_def in_set_conv_nth)
  moreover have "group_of mt 1 = Some (slice s i a)" "group_of mt 4 = Some (slice s p q)" "group_of mt 5 = Some (slice s q j)"
    using cs by (simp_all add: mk group_of_def mk_match_def nth_list_update)
  ultimately show ?thesis using a(2) p(1) pq q(3,4) by (auto simp: mk mk_match_def)
qed

lemma slice_glue: "i \<le> p \<Longrightarrow> p \<le> q \<Longrightarrow> slice s i p @ slice s p q = slice s i q"
  by (simp add: slice_def take_drop_glue)

lemma lastIndexOf_suffix: "lastIndexOf (u @ t) t = int (length u)"
proof -
  have "[0..<Suc (length (u @ t))] = [0..<Suc (length u)] @ [Suc (length u)..<Suc (length (u @ t))]"
    by (metis upt_add_eq_append add_Suc length_append zero_le)
  moreover have "find P (xs @ ys) = find P ys" if "\<forall>x \<in> set xs. \<not> P x" for P and xs ys :: "nat list"
    using that by (induction xs) auto
  moreover have "\<forall>k \<in> set (rev [Suc (length u)..<Suc (length (u @ t))]). \<not> prefix t (drop k (u @ t))"
    by (auto dest!: prefix_length_le)
  ultimately have "find (\<lambda>k. prefix t (drop k (u @ t))) (rev [0..<Suc (length (u @ t))]) = Some (length u)"
    by (simp del: upt_Suc add: upt_Suc_append)
  then show ?thesis by (simp add: lastIndexOf_def)
qed

lemma indexOf_first_break:
  assumes "\<forall>c \<in> set u. \<not> is_line_end c" and "t \<noteq> []" "is_line_end (hd t)"
  shows "indexOf (u @ t @ v) t = int (length u)"
proof -
  obtain c t' where t: "t = c # t'" using assms(2) by (cases t) auto
  with assms have "c \<notin> set u" by auto
  from index_of_mark [OF this, of "[]" t' v] t show ?thesis by (simp add: indexOf_def indexOf_from_def)
qed

text \<open>What \<open>hereDocProcess\<close> gives: the three parts, each where it stands.\<close>

lemma hereDocProcess_parts:
  assumes mt: "match_at re_here_doc s i = Some mt" and i: "i \<le> length s"
  shows "\<exists>a p q. i \<le> a \<and> a < p \<and> p < q \<and> q \<le> end_pos mt \<and> end_pos mt \<le> length s \<and>
    (\<forall>c \<in> set (slice s i p). \<not> is_line_end c) \<and> is_line_end (s ! p) \<and>
    hereDocProcess mt =
      [new_Match (slice s p q) p (lit ''string''),
       new_Match (slice s i a) i (lit ''preprocessor''),
       new_Match (slice s q (end_pos mt)) q (lit ''preprocessor'')]"
proof -
  from here_doc_match [OF assms] obtain a p q where
    b: "i \<le> a" "a < p" "p < q" "q \<le> end_pos mt" "end_pos mt \<le> length s" "start_pos mt = i" and
    l: "\<forall>c \<in> set (slice s i p). \<not> is_line_end c" "is_line_end (s ! p)" and
    g: "group_of mt 1 = Some (slice s i a)" "group_of mt 4 = Some (slice s p q)" "group_of mt 5 = Some (slice s q (end_pos mt))"
    by blast
  let ?e = "end_pos mt"
  have "whole mt = slice s i ?e" using match_at_ok [OF assms] ok_match_whole(1) [of s _ mt] b(6) by auto
  also have "\<dots> = slice s i p @ slice s p q @ slice s q ?e"
    using b slice_glue [of i p q s] slice_glue [of i q ?e s] by (metis append.assoc less_imp_le le_trans)
  finally have w: "whole mt = slice s i p @ slice s p q @ slice s q ?e" .
  have "slice s p q \<noteq> []" "hd (slice s p q) = s ! p" using b by (auto simp: slice_def hd_drop_conv_nth)
  then have "indexOf (whole mt) (slice s p q) = int (p - i)"
    using indexOf_first_break [OF l(1)] l(2) w b by (simp add: length_slice)
  moreover have "lastIndexOf (whole mt) (slice s q ?e) = int (q - i)"
    using lastIndexOf_suffix [of "slice s i p @ slice s p q" "slice s q ?e"] w b by (simp add: length_slice)
  ultimately have "hereDocProcess mt =
      [new_Match (slice s p q) p (lit ''string''), new_Match (slice s i a) i (lit ''preprocessor''),
       new_Match (slice s q ?e) q (lit ''preprocessor'')]"
    using b g by (simp add: hereDocProcess_def)
  with b l show ?thesis by blast
qed

lemma ok_in_slice: "a \<le> b \<Longrightarrow> b \<le> length s \<Longrightarrow> ok_in s (new_Match (slice s a b) a css)"
  by (simp add: ok_in_def new_Match_def length_slice) (simp add: slice_def)

lemma new_Match_css: "mcss (new_Match v i c) = c"
  by (simp add: new_Match_def)

lemma plain_names3: "plain_name (lit ''string'')" "plain_name (lit ''preprocessor'')"
  by (simp_all add: plain_name_def lit_def)

lemma here_doc_rule_parts:
  assumes "match_at (regex3 here_doc_rule) s i = Some mt" "i \<le> length s" "x \<in> set (resultMatch here_doc_rule mt)"
  shows "ok_in s x \<and> plain_name (mcss x)"
proof -
  have mt: "match_at re_here_doc s i = Some mt" using assms(1) by (simp add: here_doc_rule_def)
  have "x \<in> set (hereDocProcess mt)" using assms(3) by (simp add: here_doc_rule_def resultMatch_def)
  with hereDocProcess_parts [OF mt assms(2)] show ?thesis
    using plain_names3 by (auto intro!: ok_in_slice simp: new_Match_css)
qed

section \<open>The brushes meet the contract\<close>

abbreviation the_Cpp3 :: brush3 where "the_Cpp3 \<equiv> Cpp3 sh3_regexLib getKeywords3"
abbreviation Bash :: brush3 where "Bash \<equiv> Bash3 sh3_regexLib getKeywords3"

lemma lib_consumes:
  "0 < minlen (prog (singleLineCComments sh3_regexLib))" "0 < minlen (prog (multiLineCComments sh3_regexLib))"
  "0 < minlen (prog (doubleQuotedString sh3_regexLib))" "0 < minlen (prog (singleQuotedString sh3_regexLib))"
  "0 < minlen (prog (singleLinePerlComments sh3_regexLib))"
  by (simp_all add: sh3_regexLib_def js_eval)

lemma own_consumes:
  "0 < minlen (prog (js_regex (pat ''^ *#.*'') (lit ''gm'')))" "0 < minlen (prog (js_regex (pat ''^#!.*$'') (lit ''gm'')))"
  "0 < minlen (prog (js_regex (pat ''`/[`w-`/]+'') (lit ''gm'')))" "0 < minlen (prog re_here_doc)"
  by (simp_all add: js_eval re_here_doc_def)

lemmas rules_consume = lib_consumes own_consumes name_lists3 [THEN minlen_keywords3]

lemma plain_classes3: "\<forall>r \<in> set (regexList3 the_Cpp3) \<union> set (regexList3 Bash). plain_name (css3 r)"
  by (simp add: Cpp3_def cpp_rules3_def Bash3_def css_rule_def here_doc_rule_def plain_name_def lit_def)

interpretation cpp3: rules3 "regexList3 the_Cpp3"
proof
  fix r s i mt x
  assume r: "r \<in> set (regexList3 the_Cpp3)"
  then have f: "func3 r = None" by (auto simp: Cpp3_def cpp_rules3_def css_rule_def)
  show "0 < minlen (prog (regex3 r))"
    using r rules_consume by (auto simp: Cpp3_def cpp_rules3_def css_rule_def)
  show "ok_in s x \<and> plain_name (mcss x)"
    if "match_at (regex3 r) s i = Some mt" "i \<le> length s" "x \<in> set (resultMatch r mt)"
    using plain_parts [OF f that] plain_classes3 r by simp
qed

interpretation bash3: rules3 "regexList3 Bash"
proof
  fix r s i mt x
  assume r: "r \<in> set (regexList3 Bash)"
  then have f: "func3 r = None \<or> r = here_doc_rule" by (auto simp: Bash3_def css_rule_def)
  show "0 < minlen (prog (regex3 r))"
    using r rules_consume by (auto simp: Bash3_def css_rule_def here_doc_rule_def)
  show "ok_in s x \<and> plain_name (mcss x)"
    if "match_at (regex3 r) s i = Some mt" "i \<le> length s" "x \<in> set (resultMatch r mt)"
    using f plain_parts [OF _ that] here_doc_rule_parts that plain_classes3 r by auto
qed

section \<open>Properties\<close>

text \<open>
  C9: with the C++ and the Bash brush of SyntaxHighlighter 3 collecting the matches of a code ends
  for every code, and the bits that are written are the code, cut: no text is lost, doubled or
  moved.  (With its predecessor some brushes write words twice.)
\<close>

theorem sh3_text_kept:
  "(\<exists>ms. findMatches (regexList3 the_Cpp3) str = Some ms) \<and> bit_text (bits3 (regexList3 the_Cpp3) str) = str \<and>
   (\<exists>ms. findMatches (regexList3 Bash) str = Some ms) \<and> bit_text (bits3 (regexList3 Bash) str) = str"
  using cpp3.finds [of str] bash3.finds [of str] cpp3.text_kept bash3.text_kept by auto

text \<open>
  A here-document.  \<open>hereDocProcess\<close> looks up its parts with \<open>indexOf\<close> and \<open>lastIndexOf\<close>; what
  it finds is where the parts stand: the opening tag at the start of the match, the text from the
  first line break up to the end tag, the end tag at the end.
\<close>

theorem here_doc_parts:
  assumes "match_at re_here_doc s i = Some mt" and "i \<le> length s"
  shows "\<exists>a p q. i \<le> a \<and> a < p \<and> p < q \<and> q \<le> end_pos mt \<and> end_pos mt \<le> length s \<and>
    (\<forall>c \<in> set (slice s i p). \<not> is_line_end c) \<and> is_line_end (s ! p) \<and>
    hereDocProcess mt =
      [new_Match (slice s p q) p (lit ''string''),
       new_Match (slice s i a) i (lit ''preprocessor''),
       new_Match (slice s q (end_pos mt)) q (lit ''preprocessor'')]"
  by (rule hereDocProcess_parts [OF assms])

definition small_here_doc :: jsstr where
  "small_here_doc = lit ''<<E x'' @ [NL] @ lit ''a'' @ [NL] @ lit ''E''"

lemma small_here_doc_match: "\<exists>mt. match_at re_here_doc small_here_doc 0 = Some mt"
  by (simp add: re_here_doc_def small_here_doc_def js_eval)

theorem here_doc_parts_witness:
  "\<exists>mt a p q. match_at re_here_doc small_here_doc 0 = Some mt \<and> a < p \<and> p < q \<and> q \<le> end_pos mt \<and>
    hereDocProcess mt =
      [new_Match (slice small_here_doc p q) p (lit ''string''),
       new_Match (slice small_here_doc 0 a) 0 (lit ''preprocessor''),
       new_Match (slice small_here_doc q (end_pos mt)) q (lit ''preprocessor'')]"
proof -
  obtain mt where "match_at re_here_doc small_here_doc 0 = Some mt" using small_here_doc_match by blast
  then show ?thesis using here_doc_parts [of small_here_doc 0 mt] by auto
qed

text \<open>
  Two here-documents with the same tag.  The text of a here-document is matched greedily, so the
  first one runs to the end tag of the last: everything between, commands included, is shown as its text.
\<close>

theorem here_docs_merged:
  "let doc = (\<lambda>t. lit ''<<E '' @ [NL] @ lit t @ [NL] @ lit ''E'');
       str = doc ''x'' @ [NL] @ lit ''ls'' @ [NL] @ doc ''y''
   in map_option (map (\<lambda>x. (mvalue x, mcss x))) (getMatches str here_doc_rule) =
      Some [([NL] @ lit ''x'' @ [NL] @ lit ''E'' @ [NL] @ lit ''ls'' @ [NL] @ lit ''<<E '' @ [NL] @ lit ''y'' @ [NL], lit ''string''),
            (lit ''<<E'', lit ''preprocessor''), (lit ''E'', lit ''preprocessor'')]"
  by (simp add: Let_def getMatches_def getMatches_from.simps xexec_def here_doc_rule_def re_here_doc_def resultMatch_def hereDocProcess_def whole_def lastIndexOf_def js_eval upt_rec)

lemma seek_functions:
  "lit ''isprint'' \<notin> set (split_str [SP] cpp3_functions)" "lit ''ispunct'' \<notin> set (split_str [SP] cpp3_functions)"
  "lit ''isprintispunct'' \<in> set (split_str [SP] cpp3_functions)"
  unfolding word_seek_set cpp3_functions_def word_pass by (simp_all add: lit_def)

lemma seek_commands:
  "lit ''chroot'' \<notin> set (split_str [SP] bash3_commands)" "lit ''cksum'' \<notin> set (split_str [SP] bash3_commands)"
  "lit ''chrootcksum'' \<in> set (split_str [SP] bash3_commands)"
  unfolding word_seek_set bash3_commands_def word_pass by (simp_all add: lit_def)

text \<open>
  Words lost between two lines of a list.  The last word of a line of the C++ list of functions and
  the first of the next are written without a blank between them, and so are two words of the Bash list of
  commands: none of the four is ever highlighted by its rule, the two concatenations are.
\<close>

theorem sh3_words_lost:
  "let functions = highlighted_words (js_regex (getKeywords3 cpp3_functions) (lit ''gm''));
       commands = highlighted_words (js_regex (getKeywords3 bash3_commands) (lit ''gm''))
   in functions = set (split_str [SP] cpp3_functions) \<and> commands = set (split_str [SP] bash3_commands) \<and>
      lit ''isprint'' \<notin> functions \<and> lit ''ispunct'' \<notin> functions \<and> lit ''isprintispunct'' \<in> functions \<and>
      lit ''chroot'' \<notin> commands \<and> lit ''cksum'' \<notin> commands \<and> lit ''chrootcksum'' \<in> commands"
proof -
  have "\<not> ignoreCase (parse_flags (lit ''gm''))" by (simp add: js_eval)
  then show ?thesis
    using seek_functions seek_commands
    by (simp add: Let_def highlighted_names name_list_cpp3_functions name_list_bash3_commands)
qed

end
