(* ===== verification/Sh3Html.thy ===== *)
theory Sh3Html
  imports Sh3Brushes
begin

text \<open>
  SyntaxHighlighter 3 (\<open>shCore(1).js\<close>), the markup: \<open>wrapLinesWithCode\<close> (\<open>N\<close>),
  \<open>processUrls\<close> (\<open>I\<close>), the methods of \<open>Highlighter.prototype\<close> that write lines, line numbers, the
  title and the whole table, and the toolbar.  The parameters of a block are a record of the
  values that \<open>getParam\<close> gives, read the way the code reads them (\<open>1 == x\<close>, \<open>parseInt\<close>).
\<close>

section \<open>Parameters\<close>

datatype padding = PadAuto | PadTo nat

text \<open>\<open>None\<close> is the number \<open>NaN\<close>.\<close>

type_synonym number = "int option"

definition number_text3 :: "number \<Rightarrow> jsstr" where
  "number_text3 n = (case n of Some i \<Rightarrow> int_to_str i | None \<Rightarrow> lit ''NaN'')"

text \<open>
  The gutter is read in two ways: it is shown where the value counts as true, and the class \<open>nogutter\<close> is given
  where \<open>0 == gutter\<close>.
\<close>

record params3 =
  brush_name :: jsstr
  class_name :: jsstr
  first_line :: number
  pad_line_numbers :: padding
  marked_lines :: "jsstr list"
  block_title :: jsstr
  smart_tabs :: bool
  tab_size :: nat
  with_gutter :: bool
  no_gutter :: bool
  with_toolbar :: bool
  collapsed :: bool
  auto_links :: bool
  light :: bool
  unindented :: bool

section \<open>Code in tags\<close>

definition re_lt3 :: regexp where "re_lt3 = js_regex (lit ''<'') (lit ''g'')"
definition re_spaces3 :: regexp where "re_spaces3 = js_regex (lit '' {2,}'') (lit ''g'')"
definition re_lead3 :: regexp where "re_lead3 = js_regex (lit ''^(&nbsp;| )+'') []"

definition code_tag :: "jsstr \<Rightarrow> jsstr \<Rightarrow> jsstr" where
  \<open>code_tag css str = lit ''<code class="'' @ css @ lit ''">'' @ str @ lit ''</code>''\<close>

text \<open>One line: the white space at its start stays outside the tag.\<close>

definition wrap_line :: "jsstr \<Rightarrow> jsstr \<Rightarrow> jsstr" where
  "wrap_line css line =
     (if length line = 0 then []
      else let spaces = (case search re_lead3 line [0..<Suc (length line)] of None \<Rightarrow> [] | Some mt \<Rightarrow> whole mt);
               line1 = replace_re line re_lead3 (\<lambda>_. [])
           in if length line1 = 0 then spaces else spaces @ code_tag css line1)"

definition wrapLinesWithCode :: "sh3_config \<Rightarrow> jsstr \<Rightarrow> jsstr option \<Rightarrow> jsstr" where
  "wrapLinesWithCode cfg str css =
     (if length str = 0 \<or> str = [NL] then str
      else let str1 = replace_re str re_lt3 (\<lambda>_. lit ''&lt;'');
               str2 = replace_re str1 re_spaces3
                        (\<lambda>mt. concat (replicate (length (whole mt) - 1) (space cfg)) @ [SP])
           in case css of None \<Rightarrow> str2 | Some c \<Rightarrow> eachLine str2 (\<lambda>line _. wrap_line c line))"

definition bit_class :: "jsstr \<Rightarrow> jsstr option \<Rightarrow> jsstr" where
  "bit_class brush css =
     (if brush = [] then [] else brush @ [SP]) @ (case css of None \<Rightarrow> lit ''plain'' | Some c \<Rightarrow> c)"

definition getMatchesHtml :: "sh3_config \<Rightarrow> jsstr \<Rightarrow> jsstr \<Rightarrow> Match option list \<Rightarrow> jsstr" where
  "getMatchesHtml cfg brush str matches =
     concat (map (\<lambda>(t, css). wrapLinesWithCode cfg t (Some (bit_class brush css))) (cut_bits str 0 matches))"

section \<open>Lines\<close>

definition line_number :: "number \<Rightarrow> nat \<Rightarrow> number" where
  "line_number first i = map_option (\<lambda>f. f + int i) first"

definition figureOutLineNumbers :: "params3 \<Rightarrow> jsstr \<Rightarrow> number list" where
  "figureOutLineNumbers ps str = map (line_number (first_line ps)) [0..<length (splitLines str)]"

definition isLineHighlighted :: "params3 \<Rightarrow> number \<Rightarrow> bool" where
  "isLineHighlighted ps n = list_ex (\<lambda>l. l = number_text3 n) (marked_lines ps)"

definition getLineHtml :: "params3 \<Rightarrow> nat \<Rightarrow> number \<Rightarrow> jsstr \<Rightarrow> jsstr" where
  \<open>getLineHtml ps lineIndex lineNumber str =
     (let classes = [lit ''line'', lit ''number'' @ number_text3 lineNumber, lit ''index'' @ nat_digits lineIndex,
            lit ''alt'' @ (if (case lineNumber of Some n \<Rightarrow> n mod 2 = 0 | None \<Rightarrow> False) then lit ''1'' else lit ''2'')]
            @ (if isLineHighlighted ps lineNumber then [lit ''highlighted''] else [])
            @ (if lineNumber = Some 0 then [lit ''break''] else [])
      in lit ''<div class="'' @ join [SP] classes @ lit ''">'' @ str @ lit ''</div>'')\<close>

definition pad_length :: "params3 \<Rightarrow> nat \<Rightarrow> nat" where
  "pad_length ps linesCount =
     (case pad_line_numbers ps of
        PadAuto \<Rightarrow> length (number_text3 (map_option (\<lambda>f. f + int linesCount - 1) (first_line ps)))
      | PadTo n \<Rightarrow> n)"

definition number_lines :: "sh3_config \<Rightarrow> params3 \<Rightarrow> jsstr \<Rightarrow> jsstr list" where
  "number_lines cfg ps str =
     (let linesCount = length (splitLines str); pad = pad_length ps linesCount
      in map (\<lambda>i. let n = line_number (first_line ps) i
                  in getLineHtml ps i n (if n = Some 0 then space cfg else padNumber (number_text3 n) pad))
           [0..<linesCount])"

definition getLineNumbersHtml :: "sh3_config \<Rightarrow> params3 \<Rightarrow> jsstr \<Rightarrow> jsstr" where
  "getLineNumbersHtml cfg ps str = concat (number_lines cfg ps str)"

definition re_line_space :: regexp where "re_line_space = js_regex (pat ''^(&nbsp;|`s)+'') []"

text \<open>
  \<open>numbers\<close> are the line numbers when there is a gutter; an index past its end would give
  \<open>undefined\<close>, which the property on lines and line numbers below excludes.
\<close>

definition code_line :: "sh3_config \<Rightarrow> params3 \<Rightarrow> number list option \<Rightarrow> nat \<Rightarrow> jsstr \<Rightarrow> jsstr" where
  \<open>code_line cfg ps numbers i line =
     (let indent = map_option whole (search re_line_space line [0..<Suc (length line)]);
          lineNumber = (case numbers of Some ns \<Rightarrow> ns ! i | None \<Rightarrow> line_number (first_line ps) i);
          line1 = (case indent of Some sp \<Rightarrow> substr_from line (int (length sp)) | None \<Rightarrow> line);
          spaces = map_option (\<lambda>sp. replace_str sp [SP] (space cfg)) indent;
          line2 = sh3_trim line1;
          line3 = (if length line2 = 0 then space cfg else line2)
      in getLineHtml ps i lineNumber
           ((case spaces of Some sp \<Rightarrow> lit ''<code class="'' @ brush_name ps @ lit '' spaces">'' @ sp @ lit ''</code>'' | None \<Rightarrow> [])
            @ line3))\<close>

definition code_lines :: "sh3_config \<Rightarrow> params3 \<Rightarrow> jsstr \<Rightarrow> number list option \<Rightarrow> jsstr list" where
  "code_lines cfg ps html numbers =
     map (\<lambda>(i, line). code_line cfg ps numbers i line) (enumerate 0 (splitLines (sh3_trim html)))"

definition getCodeLinesHtml :: "sh3_config \<Rightarrow> params3 \<Rightarrow> jsstr \<Rightarrow> number list option \<Rightarrow> jsstr" where
  "getCodeLinesHtml cfg ps html numbers = concat (code_lines cfg ps html numbers)"

definition re_url :: regexp where "re_url = js_regex (pat ''`w+:`/`/[`w-.`/?%&=:@;#]*'') (lit ''g'')"
definition re_entity_tail :: regexp where "re_entity_tail = js_regex (lit ''(.*)((&gt;|&lt;).*)'') []"

definition processUrls :: "jsstr \<Rightarrow> jsstr" where
  \<open>processUrls str =
     replace_re str re_url (\<lambda>mt.
       let url = whole mt;
           (url1, suffix) = (case fst (exec re_entity_tail url) of
              Some mt' \<Rightarrow> (the (group_of mt' 1), the (group_of mt' 2))
            | None \<Rightarrow> (url, []))
       in lit ''<a href="'' @ url1 @ lit ''">'' @ url1 @ lit ''</a>'' @ suffix)\<close>

section \<open>The block\<close>

definition getTitleHtml :: "jsstr \<Rightarrow> jsstr" where
  "getTitleHtml title = (if title = [] then [] else lit ''<caption>'' @ escapeHtml title @ lit ''</caption>'')"

definition getButtonHtml :: "jsstr \<Rightarrow> jsstr \<Rightarrow> jsstr" where
  \<open>getButtonHtml commandName label =
     (let name = escapeHtml commandName
      in lit ''<span><a href="#" class="toolbar_item command_'' @ name @ [SP] @ name @ lit ''">''
         @ escapeHtml label @ lit ''</a></span>'')\<close>

definition toolbarHtml :: "params3 \<Rightarrow> jsstr" where
  \<open>toolbarHtml ps =
     lit ''<div class="toolbar">''
     @ (if collapsed ps
        then getButtonHtml (lit ''expandSource'') (if block_title ps = [] then lit ''expand source'' else block_title ps)
        else [])
     @ getButtonHtml (lit ''help'') (lit ''?'') @ lit ''</div>''\<close>

definition re_cr :: regexp where "re_cr = js_regex (pat ''`r'') (lit ''g'')"

text \<open>The code as \<open>getHtml\<close> prepares it for the brush.\<close>

definition prepare3 :: "sh3_config \<Rightarrow> params3 \<Rightarrow> jsstr \<Rightarrow> jsstr" where
  "prepare3 cfg ps str =
     (let str1 = replace_re (trimFirstAndLastLines str) re_cr (\<lambda>_. [SP]);
          str2 = (if smart_tabs ps then processSmartTabs3 str1 (tab_size ps) else processTabs str1 (tab_size ps))
      in if unindented ps then unindent3 cfg str2 else str2)"

definition block_classes :: "params3 \<Rightarrow> bool \<Rightarrow> jsstr list" where
  "block_classes ps ie =
     [lit ''syntaxhighlighter''] @ (if collapsed ps then [lit ''collapsed''] else [])
     @ (if light ps \<or> no_gutter ps then [lit ''nogutter''] else []) @ [class_name ps, brush_name ps]
     @ (if ie then [lit ''ie''] else [])"

text \<open>\<open>None\<close>: the brush's matches are never all collected.\<close>

definition getHtml3 :: "sh3_config \<Rightarrow> bool \<Rightarrow> jsstr \<Rightarrow> rule3 list \<Rightarrow> params3 \<Rightarrow> jsstr \<Rightarrow> jsstr option" where
  \<open>getHtml3 cfg ie blockId regexList ps str =
     (let gutter = (with_gutter ps \<and> \<not> light ps); toolbar = (with_toolbar ps \<and> \<not> light ps);
          str1 = prepare3 cfg ps str;
          numbers = (if gutter then Some (figureOutLineNumbers ps str1) else None)
      in case findMatches regexList str1 of
           None \<Rightarrow> None
         | Some matches \<Rightarrow>
             (let html1 = getCodeLinesHtml cfg ps (getMatchesHtml cfg (brush_name ps) str1 matches) numbers;
                  html2 = (if auto_links ps then processUrls html1 else html1)
              in Some (lit ''<div id="'' @ blockId @ lit ''" class="'' @ escapeHtml (join [SP] (block_classes ps ie)) @ lit ''">''
                   @ (if toolbar then toolbarHtml ps else [])
                   @ lit ''<table border="0" cellpadding="0" cellspacing="0">'' @ getTitleHtml (block_title ps)
                   @ lit ''<tbody><tr>''
                   @ (if gutter then lit ''<td class="gutter">'' @ getLineNumbersHtml cfg ps str1 @ lit ''</td>'' else [])
                   @ lit ''<td class="code"><div class="container">'' @ html2 @ lit ''</div></td></tr></tbody></table></div>'')))\<close>

section \<open>No line is added or lost\<close>

lemma count_join_breaks:
  "xs \<noteq> [] \<Longrightarrow> \<forall>x \<in> set xs. NL \<notin> set x \<Longrightarrow> count_list (join [13, 10] xs) NL = length xs - 1"
  by (induction xs rule: induct_list012) auto

lemma count_eachLine:
  assumes "\<And>l i. l \<in> set (break_lines str) \<Longrightarrow> NL \<notin> set (f l i)"
  shows "count_list (eachLine str f) NL = count_list str NL"
proof -
  let ?xs = "map (\<lambda>(i, l). f l i) (enumerate 0 (break_lines str))"
  have "NL \<notin> set x" if "x \<in> set ?xs" for x
  proof -
    from that obtain i l where "(i, l) \<in> set (enumerate 0 (break_lines str))" "x = f l i" by auto
    moreover from this(1) have "l \<in> set (break_lines str)" by (auto simp: in_set_enumerate_eq)
    ultimately show ?thesis using assms by simp
  qed
  moreover have "?xs \<noteq> []" by (simp add: enumerate_eq_zip)
  ultimately show ?thesis
    using count_join_breaks [of ?xs] by (simp add: eachLine_def splitLines_eq length_break_lines)
qed

lemma re_lt3_eq: "re_lt3 = \<lparr>prog = RSeq (RChar 60) REmpty, groups = 1, rflags = g_flags, lastIndex = 0\<rparr>"
  by (simp add: re_lt3_def js_eval)

lemma re_spaces3_eq:
  "re_spaces3 = \<lparr>prog = RSeq (RRep 2 None True 1 1 (RChar 32)) REmpty, groups = 1, rflags = g_flags, lastIndex = 0\<rparr>"
  by (simp add: re_spaces3_def js_eval)

lemma match_slice_only:
  assumes "match_at re s i = Some mt" "i \<le> length s" "only_chars (rflags re) P (prog re)" "\<not> ignoreCase (rflags re)"
  shows "\<forall>c \<in> set (slice s i (end_pos mt)). P c"
proof -
  obtain j cs rest where "m (rflags re) s (prog re) i (replicate (groups re) None) = (j, cs) # rest" "mt = mk_match s i j cs"
    using assms(1) by (auto simp: match_at_def split: list.splits)
  then have "(j, cs) \<in> set (m (rflags re) s (prog re) i (replicate (groups re) None))" "end_pos mt = j"
    by (simp_all add: mk_match_def)
  with m_only_slice [OF assms(3,4) _ assms(2)] show ?thesis by blast
qed

lemma count_lt3: "count_list (replace_re s re_lt3 (\<lambda>_. lit ''&lt;'')) NL = count_list s NL"
proof (rule count_replace)
  fix i mt assume "i \<le> length s" "match_at re_lt3 s i = Some mt"
  then have "\<forall>c \<in> set (slice s i (end_pos mt)). c = 60"
    using match_slice_only [of re_lt3 s i mt "\<lambda>c. c = 60"] by (simp add: re_lt3_eq)
  then show "NL \<notin> set (slice s i (end_pos mt)) \<and> NL \<notin> set (lit ''&lt;'')" by (auto simp: lit_def)
qed (simp add: re_lt3_eq)

lemma count_spaces3:
  assumes "NL \<notin> set sp"
  shows "count_list (replace_re s re_spaces3 (\<lambda>mt. concat (replicate (n mt) sp) @ [SP])) NL = count_list s NL"
proof (rule count_replace)
  fix i mt assume "i \<le> length s" "match_at re_spaces3 s i = Some mt"
  then have "\<forall>c \<in> set (slice s i (end_pos mt)). c = 32"
    using match_slice_only [of re_spaces3 s i mt "\<lambda>c. c = 32"] by (simp add: re_spaces3_eq)
  then show "NL \<notin> set (slice s i (end_pos mt)) \<and> NL \<notin> set (concat (replicate (n mt) sp) @ [SP])"
    using assms by auto
qed (simp add: re_spaces3_eq)

lemma splice_subset: "set (splice_matches s p ms (\<lambda>_. [])) \<subseteq> set s"
proof (induction ms arbitrary: p)
  case (Cons mt ms)
  then show ?case using set_slice by fastforce
qed (auto dest: in_set_dropD)

lemma whole_subset:
  assumes "search re s is = Some mt" "\<forall>i \<in> set is. i \<le> length s"
  shows "set (whole mt) \<subseteq> set s"
  using search_ok [OF assms] ok_match_whole(1) [of s _ mt] set_slice [of s "start_pos mt" "end_pos mt"] by auto

lemma wrap_line_NL:
  assumes "NL \<notin> set line" "NL \<notin> set css"
  shows "NL \<notin> set (wrap_line css line)"
proof -
  have "NL \<notin> set (replace_re line re_lead3 (\<lambda>_. []))"
    using assms(1) by (auto simp: replace_re_def simp del: upt_Suc dest: splice_subset [THEN subsetD])
  moreover have "NL \<notin> set (whole mt)" if "search re_lead3 line [0..<Suc (length line)] = Some mt" for mt
    using whole_subset [OF that] assms(1) by (auto simp del: upt_Suc)
  ultimately show ?thesis
    using assms(2) by (auto simp: wrap_line_def Let_def code_tag_def lit_def simp del: upt_Suc split: option.splits)
qed

lemma count_wrapLines:
  assumes "NL \<notin> set (space cfg)" "NL \<notin> set css"
  shows "count_list (wrapLinesWithCode cfg str (Some css)) NL = count_list str NL"
proof -
  have "count_list (eachLine t (\<lambda>line _. wrap_line css line)) NL = count_list t NL" for t
    by (rule count_eachLine) (use wrap_line_NL [OF break_lines_no_NL assms(2)] in blast)
  then show ?thesis
    by (simp add: wrapLinesWithCode_def Let_def count_spaces3 [OF assms(1)] count_lt3)
qed

lemma count_MatchesHtml:
  assumes "NL \<notin> set (space cfg)" "NL \<notin> set brush" "\<forall>b \<in> set (cut_bits str 0 ms). plain_css b"
  shows "count_list (getMatchesHtml cfg brush str ms) NL = count_list (bit_text (cut_bits str 0 ms)) NL"
proof -
  have "count_list (concat (map (\<lambda>(t, css). wrapLinesWithCode cfg t (Some (bit_class brush css))) bs)) NL =
      count_list (bit_text bs) NL" if "\<forall>b \<in> set bs. plain_css b" for bs
    using that
  proof (induction bs)
    case (Cons b bs)
    obtain t css where b: "b = (t, css)" by (cases b)
    have "NL \<notin> set (bit_class brush css)"
      using assms(2) Cons.prems b by (auto simp: bit_class_def lit_def plain_css_def split: option.splits)
    with Cons b show ?case by (simp add: count_wrapLines [OF assms(1)])
  qed (simp add: bit_text_def)
  from this [OF assms(3)] show ?thesis by (simp add: getMatchesHtml_def)
qed

lemma count_trim_le: "count_list (sh3_trim s) c \<le> count_list s c"
proof -
  have "count_list (rev (dropWhile P (rev t))) c \<le> count_list t c" for P t
    by (metis count_list_append count_list_rev le_add2 takeWhile_dropWhile_id)
  moreover have "count_list (dropWhile P t) c \<le> count_list t c" for P t
    by (metis count_list_append le_add2 takeWhile_dropWhile_id)
  ultimately show ?thesis unfolding sh3_trim_eq rstrip_def lstrip_def by (meson le_trans)
qed

lemma length_code_lines: "length (code_lines cfg ps html ns) = Suc (count_list (sh3_trim html) NL)"
  by (simp add: code_lines_def splitLines_eq length_break_lines)

lemma length_number_lines: "length (number_lines cfg ps str) = Suc (count_list str NL)"
  by (simp add: number_lines_def Let_def splitLines_eq length_break_lines)

context rules3
begin

lemma lines_within_gutter:
  assumes "NL \<notin> set (space cfg)" "NL \<notin> set (brush_name ps)" "findMatches regexList str = Some ms"
  shows "length (code_lines cfg ps (getMatchesHtml cfg (brush_name ps) str ms) ns) \<le> length (number_lines cfg ps str)"
proof -
  have "bits3 regexList str = cut_bits str 0 ms" using assms(3) by (simp add: bits3_def)
  then have "count_list (getMatchesHtml cfg (brush_name ps) str ms) NL = count_list str NL"
    using count_MatchesHtml [OF assms(1,2), of str ms] plain_classes text_kept by (metis)
  then show ?thesis
    using count_trim_le [of "getMatchesHtml cfg (brush_name ps) str ms" NL]
    by (simp add: length_code_lines length_number_lines)
qed

end

section \<open>Properties\<close>

text \<open>How the tag of a line begins: with its number and its index, both counted from the line's position.\<close>

definition line_head :: "number \<Rightarrow> nat \<Rightarrow> jsstr" where
  \<open>line_head first i = lit ''<div class="line number'' @ number_text3 (map_option (\<lambda>f. f + int i) first) @ lit '' index'' @ nat_digits i @ [SP]\<close>

lemma getLineHtml_head: "prefix (line_head (first_line ps) i) (getLineHtml ps i (line_number (first_line ps) i) t)"
  by (simp add: getLineHtml_def line_head_def line_number_def Let_def lit_def)

lemma code_lines_head:
  assumes "i < length (code_lines cfg ps html (Some (figureOutLineNumbers ps str)))" "i < length (figureOutLineNumbers ps str)"
  shows "prefix (line_head (first_line ps) i) (code_lines cfg ps html (Some (figureOutLineNumbers ps str)) ! i)"
  using assms getLineHtml_head by (simp add: code_lines_def nth_enumerate_eq code_line_def figureOutLineNumbers_def Let_def)

lemma number_lines_head:
  "i < length (number_lines cfg ps str) \<Longrightarrow> prefix (line_head (first_line ps) i) (number_lines cfg ps str ! i)"
  using getLineHtml_head by (simp add: number_lines_def Let_def)

text \<open>
  C11: lines and line numbers, for the two brushes that the page loads and a brush name and space without a line break.
  The matches of every code are found; the gutter has one number per line of the prepared code; the code cell never
  has more lines than the gutter has numbers; and the i-th line of the code cell and the i-th of the gutter
  carry the same number, the first line's number plus i.
\<close>

theorem gutter_covers_lines:
  assumes "rs = regexList3 the_Cpp3 \<or> rs = regexList3 Bash" and "NL \<notin> set (space cfg)" and "NL \<notin> set (brush_name ps)"
  shows "\<exists>ms. findMatches rs str = Some ms \<and>
     (let codes = code_lines cfg ps (getMatchesHtml cfg (brush_name ps) str ms) (Some (figureOutLineNumbers ps str));
          gutter = number_lines cfg ps str
      in length gutter = Suc (count_list str NL) \<and> length codes \<le> length gutter \<and>
         (\<forall>i < length gutter. prefix (line_head (first_line ps) i) (gutter ! i)) \<and>
         (\<forall>i < length codes. prefix (line_head (first_line ps) i) (codes ! i)))"
proof -
  have "\<exists>ms. findMatches rs str = Some ms \<and>
      (\<forall>ns. length (code_lines cfg ps (getMatchesHtml cfg (brush_name ps) str ms) ns) \<le> length (number_lines cfg ps str))"
    using assms(1) cpp3.finds [of str] bash3.finds [of str] cpp3.lines_within_gutter [OF assms(2,3)] bash3.lines_within_gutter [OF assms(2,3)]
    by metis
  then obtain ms where ms: "findMatches rs str = Some ms"
    "\<And>ns. length (code_lines cfg ps (getMatchesHtml cfg (brush_name ps) str ms) ns) \<le> length (number_lines cfg ps str)" by blast
  moreover have "length (figureOutLineNumbers ps str) = length (number_lines cfg ps str)"
    by (simp add: number_lines_def figureOutLineNumbers_def Let_def)
  ultimately show ?thesis
    using code_lines_head [of _ cfg ps _ str] number_lines_head [of _ cfg ps str]
    by (intro exI [of _ ms]) (simp add: Let_def length_number_lines order.strict_trans2)
qed

definition plain_params :: params3 where
  "plain_params = \<lparr>brush_name = lit ''cpp'', class_name = [], first_line = Some 1, pad_line_numbers = PadTo 0,
     marked_lines = [], block_title = [], smart_tabs = True, tab_size = 4, with_gutter = True, no_gutter = False, with_toolbar = True,
     collapsed = False, auto_links = True, light = False, unindented = True\<rparr>"

theorem gutter_covers_lines_witness:
  "\<exists>ms. findMatches (regexList3 Bash) (lit ''echo'') = Some ms \<and>
     length (code_lines sh3_defaults plain_params (getMatchesHtml sh3_defaults (brush_name plain_params) (lit ''echo'') ms)
       (Some (figureOutLineNumbers plain_params (lit ''echo'')))) \<le> length (number_lines sh3_defaults plain_params (lit ''echo''))"
proof -
  have "NL \<notin> set (space sh3_defaults)" "NL \<notin> set (brush_name plain_params)" by (simp_all add: sh3_defaults_def plain_params_def lit_def)
  from gutter_covers_lines [OF disjI2 [OF refl] this, of "lit ''echo''"] show ?thesis by (auto simp: Let_def)
qed

lemma prepared_blank:
  "prepare3 sh3_defaults plain_params ([SP, NL, SP, NL] @ lit ''x'') = [SP, NL, 120]"
proof -
  have "trimFirstAndLastLines ([SP, NL, SP, NL] @ lit ''x'') = [SP, NL, 120]"
    by (simp add: trimFirstAndLastLines_def re_outer_lines_def js_eval upt_rec)
  moreover have "replace_re [SP, NL, 120] re_cr (\<lambda>_. [SP]) = [SP, NL, 120]"
    by (simp add: re_cr_def js_eval upt_rec)
  moreover have "processSmartTabs3 [SP, NL, 120] 4 = [SP, 13, NL, 120]"
    by (simp add: processSmartTabs3_def eachLine_def splitLines_eq smart_tab_line_expand enumerate_eq_zip upt_rec)
  moreover have "unindent3 sh3_defaults [SP, 13, NL, 120] = [SP, NL, 120]"
    by (simp add: unindent3_def splitLines_eq fixInputString_def sh3_defaults_def min_indent_fold blank_def indent_def is_space_def)
  ultimately show ?thesis by (simp add: prepare3_def plain_params_def Let_def)
qed

text \<open>
  Line numbers without lines.  When the code begins with two blank lines of one blank each, the first
  is removed before the lines are counted and the second after: the gutter shows two numbers beside one line.
\<close>

theorem gutter_longer:
  "let str = prepare3 sh3_defaults plain_params ([SP, NL, SP, NL] @ lit ''x'')
   in length (number_lines sh3_defaults plain_params str) = 2 \<and>
      length (code_lines sh3_defaults plain_params (getMatchesHtml sh3_defaults (lit ''cpp'') str []) None) = 1"
proof -
  have w: "wrap_line css [SP] = [SP]" "wrap_line css [120] = code_tag css [120]" for css
    by (simp_all add: wrap_line_def re_lead3_def whole_def js_eval upt_rec)
  have "replace_re [SP, NL, 120] re_lt3 (\<lambda>_. t) = [SP, NL, 120]"
    "replace_re [SP, NL, 120] re_spaces3 f = [SP, NL, 120]" for t f
    by (simp_all add: re_lt3_def re_spaces3_def js_eval upt_rec)
  then have "getMatchesHtml sh3_defaults (lit ''cpp'') [SP, NL, 120] [] =
      [SP, 13, NL] @ code_tag (lit ''cpp plain'') [120]"
    by (simp add: getMatchesHtml_def wrapLinesWithCode_def eachLine_def splitLines_eq w enumerate_eq_zip upt_rec
          substr_from_def substr_def bit_class_def lit_def)
  moreover have "sh3_trim ([SP, 13, NL] @ code_tag (lit ''cpp plain'') [120]) = code_tag (lit ''cpp plain'') [120]"
    by (simp add: sh3_trim_eq lstrip_def rstrip_def code_tag_def lit_def is_space_def)
  moreover have "count_list (code_tag (lit ''cpp plain'') [120]) NL = 0"
    by (simp add: code_tag_def lit_def)
  ultimately show ?thesis
    unfolding prepared_blank Let_def length_number_lines length_code_lines by simp
qed

end
