(* ===== verification/RegexFirst.thy ===== *)
theory RegexFirst
  imports RegExpObj
begin

text \<open>
  The preferred end of a match.  \<open>first_end fl s r i cs j cs'\<close>: among the ends that the matcher lists, the first
  is \<open>j\<close>, with the groups \<open>cs'\<close>.  The rules follow the structure of an expression, so that the match of a text
  of known shape is derived step by step.
\<close>

definition first_end :: "flags \<Rightarrow> jsstr \<Rightarrow> regex \<Rightarrow> nat \<Rightarrow> caps \<Rightarrow> nat \<Rightarrow> caps \<Rightarrow> bool" where
  "first_end fl s r i cs j cs' \<longleftrightarrow> (\<exists>rest. m fl s r i cs = (j, cs') # rest)"

lemma first_end_match:
  "first_end (rflags re) s (prog re) i (replicate (groups re) None) j cs \<Longrightarrow> match_at re s i = Some (mk_match s i j cs)"
  by (auto simp: first_end_def match_at_def)

lemma first_Empty: "first_end fl s REmpty i cs i cs"
  by (simp add: first_end_def)

lemma first_Char: "i < length s \<Longrightarrow> s ! i = c \<Longrightarrow> first_end fl s (RChar c) i cs (Suc i) cs"
  by (simp add: first_end_def)

lemma first_Seq:
  "first_end fl s a i cs j cs1 \<Longrightarrow> first_end fl s b j cs1 k cs2 \<Longrightarrow> first_end fl s (RSeq a b) i cs k cs2"
  by (auto simp: first_end_def)

lemma first_Group: "first_end fl s a i cs j cs' \<Longrightarrow> first_end fl s (RGroup n a) i cs j (cs'[n := Some (i, j)])"
  by (auto simp: first_end_def)

lemma first_Alt_left: "first_end fl s a i cs j cs' \<Longrightarrow> first_end fl s (RAlt a b) i cs j cs'"
  by (auto simp: first_end_def)

lemma first_Alt_right: "m fl s a i cs = [] \<Longrightarrow> first_end fl s b i cs j cs' \<Longrightarrow> first_end fl s (RAlt a b) i cs j cs'"
  by (auto simp: first_end_def)

lemma first_star:
  "single s P (m fl s a) \<Longrightarrow> j = i + run s P i \<Longrightarrow> first_end fl s (RRep 0 None True lo lo a) i cs j cs"
  by (auto simp: first_end_def m_star_greedy)

lemma first_plus:
  assumes "single s P (m fl s a)" "0 < run s P i"
  shows "first_end fl s (RRep 1 None True lo lo a) i cs (i + run s P i) cs"
proof -
  have "i < length s \<and> P (s ! i)" using assms(2) run_stop [of i s P] by auto
  then show ?thesis unfolding first_end_def m_plus_greedy [OF assms(1)] using run_step [of i s P] by auto
qed

lemma first_optional:
  "single s P (m fl s a) \<Longrightarrow> i < length s \<Longrightarrow> P (s ! i) \<Longrightarrow> first_end fl s (RRep 0 (Some 1) True lo lo a) i cs (Suc i) cs"
  "single s P (m fl s a) \<Longrightarrow> \<not> (i < length s \<and> P (s ! i)) \<Longrightarrow> first_end fl s (RRep 0 (Some 1) True lo lo a) i cs i cs"
  unfolding first_end_def by (subst m_optional, assumption, force)+

text \<open>
  What stands before tries the ends \<open>i\<close>, \<open>i + 1\<close>, \<dots> in this order, as a lazy run does, alone or in groups: the first
  from which the rest can match is taken.
\<close>

lemma first_ascending:
  assumes "m fl s a i cs = map (\<lambda>k. (i + k, f k)) [0..<Suc r]" "n \<le> r" "\<And>k. k < n \<Longrightarrow> m fl s b (i + k) (f k) = []"
    and "first_end fl s b (i + n) (f n) j cs'"
  shows "first_end fl s (RSeq a b) i cs j cs'"
proof -
  have u: "[0..<Suc r] = [0..<n] @ n # [Suc n..<Suc r]" by (rule upt_split_at [OF assms(2)])
  have e: "concat (map (\<lambda>k. m fl s b (i + k) (f k)) [0..<n]) = []" using assms(3) by simp
  obtain rest where "m fl s b (i + n) (f n) = (j, cs') # rest" using assms(4) by (auto simp: first_end_def)
  then show ?thesis
    unfolding first_end_def m.simps(5) assms(1) map_map comp_def prod.case u map_append concat_append e by simp
qed

lemmas first_lazy = first_ascending [OF m_star_lazy]

text \<open>Runs in a text of known shape.\<close>

lemma run_prefix:
  assumes "drop i s = xs @ ys" "\<forall>x \<in> set xs. P x" "ys = [] \<or> \<not> P (hd ys)"
  shows "run s P i = length xs"
proof -
  have "takeWhile P (xs @ ys) = xs" using assms(2,3) by (cases ys) (auto simp: takeWhile_append2)
  then show ?thesis by (simp add: run_def assms(1))
qed

lemma drop_shape: "drop i s = xs @ ys \<Longrightarrow> drop (i + length xs) s = ys"
  by (metis append_eq_conv_conj drop_drop add.commute)

lemma drop_head: "drop i s = y # ys \<Longrightarrow> i < length s \<and> s ! i = y \<and> drop (Suc i) s = ys"
  by (metis drop_eq_Nil hd_drop_conv_nth list.distinct(1) list.sel(1,3) not_le tl_drop drop_Suc)

lemma slice_shape: "drop i s = xs @ ys \<Longrightarrow> slice s i (i + length xs) = xs"
  by (simp add: slice_def)

end
