(* ===== verification/Calendar.thy ===== *)
theory Calendar
  imports Prelude
begin

text \<open>
  The clock of the traffic counter (\<open>tongji.js\<close>, \<open>lz_get_stm\<close>): seconds since the start of
  1970 from the fields of a \<open>Date\<close>, by summing years, months and days.  The reference is a
  clock that ticks: \<open>next_second\<close> carries from seconds up to years by the calendar, and the
  function counts its ticks (\<open>lz_get_stm_counts\<close>).
\<close>

record date =
  getFullYear :: nat
  getMonth :: nat
  getDate :: nat
  getHours :: nat
  getMinutes :: nat
  getSeconds :: nat

definition leap_test :: "nat \<Rightarrow> bool" where
  "leap_test i \<longleftrightarrow> (i mod 4 = 0 \<and> i mod 100 \<noteq> 0) \<or> (i mod 100 = 0 \<and> i mod 400 = 0)"

definition year_seconds :: "nat \<Rightarrow> nat" where
  "year_seconds i = (if leap_test i then 31622400 else 31536000)"

definition month_seconds :: "nat \<Rightarrow> nat \<Rightarrow> nat" where
  "month_seconds yy i =
     (if i = 1 \<or> i = 3 \<or> i = 5 \<or> i = 7 \<or> i = 8 \<or> i = 10 \<or> i = 12 then 2678400
      else if i = 2 then (if leap_test yy then 2505600 else 2419200)
      else 2592000)"

definition lz_get_stm :: "date \<Rightarrow> nat" where
  "lz_get_stm d =
     (let yy = getFullYear d; mm = getMonth d + 1;
          tm = foldl (\<lambda>tm i. tm + year_seconds i) 0 [1970..<yy];
          tm = foldl (\<lambda>tm i. tm + month_seconds yy i) tm [1..<mm];
          tm = tm + (getDate d - 1) * 86400;
          tm = tm + getHours d * 3600;
          tm = tm + getMinutes d * 60
      in tm + getSeconds d)"

section \<open>A ticking clock\<close>

definition leap_year :: "nat \<Rightarrow> bool" where
  "leap_year y \<longleftrightarrow> 4 dvd y \<and> (100 dvd y \<longrightarrow> 400 dvd y)"

definition days_in_month :: "nat \<Rightarrow> nat \<Rightarrow> nat" where
  "days_in_month y mo = [31, if leap_year y then 29 else 28, 31, 30, 31, 30, 31, 31, 30, 31, 30, 31] ! mo"

definition next_second :: "date \<Rightarrow> date" where
  "next_second d =
     (if getSeconds d < 59 then d\<lparr>getSeconds := getSeconds d + 1\<rparr>
      else let d = d\<lparr>getSeconds := 0\<rparr> in
      if getMinutes d < 59 then d\<lparr>getMinutes := getMinutes d + 1\<rparr>
      else let d = d\<lparr>getMinutes := 0\<rparr> in
      if getHours d < 23 then d\<lparr>getHours := getHours d + 1\<rparr>
      else let d = d\<lparr>getHours := 0\<rparr> in
      if getDate d < days_in_month (getFullYear d) (getMonth d) then d\<lparr>getDate := getDate d + 1\<rparr>
      else let d = d\<lparr>getDate := 1\<rparr> in
      if getMonth d < 11 then d\<lparr>getMonth := getMonth d + 1\<rparr>
      else d\<lparr>getMonth := 0, getFullYear := getFullYear d + 1\<rparr>)"

definition epoch :: date where
  "epoch = \<lparr>getFullYear = 1970, getMonth = 0, getDate = 1, getHours = 0, getMinutes = 0, getSeconds = 0\<rparr>"

definition valid_date :: "date \<Rightarrow> bool" where
  "valid_date d \<longleftrightarrow> 1970 \<le> getFullYear d \<and> getMonth d < 12 \<and> 1 \<le> getDate d \<and>
     getDate d \<le> days_in_month (getFullYear d) (getMonth d) \<and>
     getHours d < 24 \<and> getMinutes d < 60 \<and> getSeconds d < 60"

lemma leap_test_iff: "leap_test y \<longleftrightarrow> leap_year y"
proof -
  have "(100::nat) dvd y \<Longrightarrow> 4 dvd y" by (rule dvd_trans [of 4 100]) simp_all
  then show ?thesis by (auto simp: leap_test_def leap_year_def dvd_eq_mod_eq_0)
qed

lemma month_cases:
  assumes "m < (12::nat)"
  shows "m \<in> {0, 1, 2, 3, 4, 5, 6, 7, 8, 9, 10, 11}"
  using assms by (simp add: less_Suc_eq numeral_eq_Suc)

lemma month_seconds_days: "m < 12 \<Longrightarrow> month_seconds y (Suc m) = days_in_month y m * 86400"
  by (drule month_cases) (auto simp: month_seconds_def days_in_month_def leap_test_iff)

lemma months_total: "foldl (\<lambda>tm i. tm + month_seconds y i) t [1..<13] = t + year_seconds y"
  by (simp add: month_seconds_def year_seconds_def upt_rec)

lemma days_in_month_pos: "m < 12 \<Longrightarrow> 28 \<le> days_in_month y m"
  by (drule month_cases) (auto simp: days_in_month_def)

lemma valid_next: "valid_date d \<Longrightarrow> valid_date (next_second d)"
  using days_in_month_pos [of "Suc (getMonth d)" "getFullYear d"] days_in_month_pos [of 0 "Suc (getFullYear d)"]
  by (auto simp: valid_date_def next_second_def Let_def)

text \<open>The two carries that the loops are about: into the next month and into the next year.\<close>

lemma stm_month_carry:
  assumes "m < 11"
  shows "foldl (\<lambda>tm i. tm + month_seconds y i) t [1..<Suc (Suc m)] =
    foldl (\<lambda>tm i. tm + month_seconds y i) t [1..<Suc m] + days_in_month y m * 86400"
  using month_seconds_days [of m y] assms by simp

lemma stm_year_carry:
  assumes "1970 \<le> y"
  shows "foldl (\<lambda>tm i. tm + year_seconds i) 0 [1970..<Suc y] =
    foldl (\<lambda>tm i. tm + month_seconds y i) (foldl (\<lambda>tm i. tm + year_seconds i) 0 [1970..<y]) [1..<12]
      + days_in_month y 11 * 86400"
proof -
  have "[1..<13] = [1..<12] @ [12::nat]" by (simp add: upt_rec)
  moreover have "month_seconds y 12 = days_in_month y 11 * 86400" using month_seconds_days [of 11 y] by simp
  ultimately show ?thesis
    using assms months_total [of y "foldl (\<lambda>tm i. tm + year_seconds i) 0 [1970..<y]"] by simp
qed

lemma stm_next:
  assumes "valid_date d"
  shows "lz_get_stm (next_second d) = lz_get_stm d + 1"
proof -
  consider (day) "getSeconds d < 59 \<or> getMinutes d < 59 \<or> getHours d < 23 \<or>
      getDate d < days_in_month (getFullYear d) (getMonth d)"
    | (month) "getSeconds d = 59" "getMinutes d = 59" "getHours d = 23"
      "getDate d = days_in_month (getFullYear d) (getMonth d)" "getMonth d < 11"
    | (year) "getSeconds d = 59" "getMinutes d = 59" "getHours d = 23"
      "getDate d = days_in_month (getFullYear d) 11" "getMonth d = 11"
  proof -
    assume d: "getSeconds d < 59 \<or> getMinutes d < 59 \<or> getHours d < 23 \<or>
        getDate d < days_in_month (getFullYear d) (getMonth d) \<Longrightarrow> thesis"
      and m: "getSeconds d = 59 \<Longrightarrow> getMinutes d = 59 \<Longrightarrow> getHours d = 23 \<Longrightarrow>
        getDate d = days_in_month (getFullYear d) (getMonth d) \<Longrightarrow> getMonth d < 11 \<Longrightarrow> thesis"
      and y: "getSeconds d = 59 \<Longrightarrow> getMinutes d = 59 \<Longrightarrow> getHours d = 23 \<Longrightarrow>
        getDate d = days_in_month (getFullYear d) 11 \<Longrightarrow> getMonth d = 11 \<Longrightarrow> thesis"
    show thesis
    proof (cases "getSeconds d < 59 \<or> getMinutes d < 59 \<or> getHours d < 23 \<or>
        getDate d < days_in_month (getFullYear d) (getMonth d)")
      case False
      with assms have "getSeconds d = 59" "getMinutes d = 59" "getHours d = 23"
        "getDate d = days_in_month (getFullYear d) (getMonth d)" "getMonth d \<le> 11"
        by (auto simp: valid_date_def)
      with m y show thesis by (cases "getMonth d = 11") auto
    qed (rule d)
  qed
  then show ?thesis
  proof cases
    case day
    have "getSeconds d < 59 \<or> getSeconds d = 59" "getMinutes d < 59 \<or> getMinutes d = 59"
      "getHours d < 23 \<or> getHours d = 23" "1 \<le> getDate d"
      using assms by (auto simp: valid_date_def)
    with day show ?thesis
      by (elim disjE) (simp_all add: lz_get_stm_def next_second_def Let_def diff_mult_distrib del: upt_Suc)
  next
    case month
    then show ?thesis
      using assms stm_month_carry [of "getMonth d" "getFullYear d"]
        days_in_month_pos [of "getMonth d" "getFullYear d"]
      by (simp add: lz_get_stm_def next_second_def valid_date_def Let_def diff_mult_distrib del: upt_Suc)
  next
    case year
    then show ?thesis
      using assms stm_year_carry [of "getFullYear d"] days_in_month_pos [of 11 "getFullYear d"]
      by (simp add: lz_get_stm_def next_second_def valid_date_def Let_def diff_mult_distrib del: upt_Suc)
  qed
qed

text \<open>C22: the clock.  Let a clock tick \<open>n\<close> times from midnight on 1 January 1970, carrying by
  the Gregorian calendar; its fields make \<open>lz_get_stm\<close> return \<open>n\<close>.\<close>

theorem lz_get_stm_counts: "lz_get_stm ((next_second ^^ n) epoch) = n"
proof -
  have "valid_date ((next_second ^^ n) epoch) \<and> lz_get_stm ((next_second ^^ n) epoch) = n"
  proof (induction n)
    case 0
    show ?case by (simp add: epoch_def valid_date_def days_in_month_def lz_get_stm_def)
  next
    case (Suc n)
    then show ?case by (simp add: valid_next stm_next)
  qed
  then show ?thesis by simp
qed

end
