(* ===== verification/Tongji.thy ===== *)
theory Tongji
  imports Keywords Calendar
begin

text \<open>
  The helpers of the traffic counter (\<open>tongji.js\<close>): escaping, what it reads from the browser,
  the domain of a host, reading and writing a cookie, and the fields of a session string.
  The browser (screen, navigator) is a record; \<open>document.cookie\<close> is a string that is read and
  a string that is assigned.  The lemmas: \<open>lz_encode\<close> and \<open>escape\<close> are undone by \<open>unescape\<close>
  and leave only characters that are safe in a URL.
\<close>

section \<open>Escaping\<close>

definition escape_keeps :: "jschar \<Rightarrow> bool" where
  "escape_keeps c \<longleftrightarrow> is_digit c \<or> 65 \<le> c \<and> c \<le> 90 \<or> 97 \<le> c \<and> c \<le> 122 \<or>
     c = 64 \<or> c = 42 \<or> c = 95 \<or> c = 43 \<or> c = 45 \<or> c = 46 \<or> c = 47"

definition hex_digit :: "nat \<Rightarrow> jschar" where
  "hex_digit n = (if n < 10 then 48 + n else 55 + n)"

definition escape_char :: "jschar \<Rightarrow> jsstr" where
  "escape_char c =
     (if escape_keeps c then [c]
      else if c < 256 then [37, hex_digit (c div 16), hex_digit (c mod 16)]
      else [37, 117, hex_digit (c div 4096), hex_digit (c div 256 mod 16),
            hex_digit (c div 16 mod 16), hex_digit (c mod 16)])"

definition escape :: "jsstr \<Rightarrow> jsstr" where
  "escape s = concat (map escape_char s)"

definition lz_encode :: "jsstr \<Rightarrow> jsstr" where
  "lz_encode str = foldl (\<lambda>e c. if c \<le> 255 then e @ escape [c] else e @ [c]) [] str"

section \<open>What the browser tells\<close>

record browser =
  screen :: "(nat \<times> nat \<times> nat) option"
  nav_language :: "jsstr option"
  browserLanguage :: "jsstr option"
  userAgent :: "jsstr option"
  javaEnabled :: bool
  cookieEnabled :: bool
  plugins :: "(jsstr \<times> jsstr) list option"
  ActiveXFlash :: "(nat \<Rightarrow> bool) option"
  appName :: "jsstr option"

text \<open>A property that is missing or the empty string is false in a condition.\<close>

definition truthy :: "jsstr option \<Rightarrow> bool" where
  "truthy x \<longleftrightarrow> (case x of None \<Rightarrow> False | Some s \<Rightarrow> s \<noteq> [])"

definition lz_get_screen :: "browser \<Rightarrow> jsstr" where
  "lz_get_screen b =
     (case screen b of None \<Rightarrow> [] | Some (w, h, _) \<Rightarrow> nat_digits w @ lit ''x'' @ nat_digits h)"

definition lz_get_color :: "browser \<Rightarrow> jsstr" where
  "lz_get_color b = (case screen b of None \<Rightarrow> [] | Some (_, _, c) \<Rightarrow> nat_digits c @ lit ''-bit'')"

definition lz_get_language :: "browser \<Rightarrow> jsstr" where
  "lz_get_language b =
     (if truthy (nav_language b) then toLowerCase (the (nav_language b))
      else if truthy (browserLanguage b) then toLowerCase (the (browserLanguage b))
      else [])"

definition lz_get_agent :: "browser \<Rightarrow> jsstr" where
  "lz_get_agent b = (if truthy (userAgent b) then the (userAgent b) else [])"

definition lz_get_jvm_enabled :: "browser \<Rightarrow> nat" where
  "lz_get_jvm_enabled b = (if javaEnabled b then 1 else 0)"

definition lz_get_cookie_enabled :: "browser \<Rightarrow> nat" where
  "lz_get_cookie_enabled b = (if cookieEnabled b then 1 else 0)"

text \<open>\<open>None\<close> is \<open>undefined\<close>: a description without the marker.\<close>

fun flash_plugin :: "(jsstr \<times> jsstr) list \<Rightarrow> jsstr option" where
  "flash_plugin [] = Some []"
| "flash_plugin ((name, description) # ps) =
     (if indexOf name (lit ''Shockwave Flash'') \<noteq> -1
      then (let parts = split_str (lit ''Shockwave Flash '') description
            in if 1 < length parts then Some (parts ! 1) else None)
      else flash_plugin ps)"

fun flash_activex :: "(nat \<Rightarrow> bool) \<Rightarrow> nat list \<Rightarrow> jsstr option" where
  "flash_activex has [] = Some []"
| "flash_activex has (ii # is) = (if has ii then Some (nat_digits ii @ lit ''.0'') else flash_activex has is)"

definition lz_get_flash_ver :: "browser \<Rightarrow> jsstr option" where
  "lz_get_flash_ver b =
     (case plugins b of
        Some (p # ps) \<Rightarrow> flash_plugin (p # ps)
      | _ \<Rightarrow> (case ActiveXFlash b of None \<Rightarrow> Some [] | Some has \<Rightarrow> flash_activex has (rev [2..<11])))"

definition lz_get_app :: "browser \<Rightarrow> jsstr" where
  "lz_get_app b = (if truthy (appName b) then the (appName b) else [])"

section \<open>Domains\<close>

text \<open>
  The two pattern constants are the alternatives \<open>^w$\<close>, joined by bars, between \<open>/\<close> and
  \<open>/i\<close>, all inside one string: the slashes and the \<open>i\<close> are characters of the pattern.
\<close>

definition top_domain_words :: jsstr where
  "top_domain_words = lit (
     ''aero cat coop int museum pro travel xxx com net gov org mil edu biz info name ac mil co '' @
     ''ed gv nt bj hz sh tj cq he nm ln jl hl js zj ah hb hn gd gx hi sc gz yn xz sn gs qh nx '' @
     ''xj tw hk mo fj ha jx sd sx'')"

definition country_words :: jsstr where
  "country_words = lit (
     ''ac ad ae af ag ai al am an ao aq ar as at au aw az ba bb bd be bf bg bh bi bj bm bo br '' @
     ''bs bt bv bw by bz ca cc cd cf cg ch ci ck cl cm cn co cr cs cu cv cx cy cz de dj dk dm '' @
     ''do dz ec ee eg eh er es et eu fi fj fk fm fo fr ly hk hm hn hr ht hu id ie il im in io '' @
     ''ir is it je jm jo jp ke kg kh ki km kn kp kr kw ky kz la lb lc li lk lr ls lt lu lv ly '' @
     ''ga gb gd ge gf gg gh gi gl gm gn gp gq gr gs gt gu gw gy ma mc md mg mh mk ml mm mn mo '' @
     ''mp mq mr ms mt mu mv mw mx my mz na nc ne nf ng ni nl no np nr nu nz om re ro ru rw pa '' @
     ''pe pf pg ph pk pl pm pr ps pt pw py qa wf ws sa sb sc sd se sg sh si sj sk sl sm sn so '' @
     ''sr st su sv sy sz tc td tf th tg tj tk tm tn to tp tr tt tv tw tz ua ug uk um us uy uz '' @
     ''va vc ve vg vi vn vu ye yt yu za zm zr zw'')"

definition slashed_pattern :: "jsstr \<Rightarrow> jsstr" where
  "slashed_pattern words =
     lit ''/'' @ join (lit ''|'') (map (\<lambda>w. lit ''^'' @ w @ lit ''$'') (split_str [SP] words)) @ lit ''/i''"

text \<open>\<open>str.match(p)\<close> with a string makes an expression without flags.\<close>

definition str_match :: "jsstr \<Rightarrow> jsstr \<Rightarrow> bool" where
  "str_match s p = test (js_regex p []) s"

definition lz_c_ctry_top_domain :: "jsstr \<Rightarrow> nat" where
  "lz_c_ctry_top_domain str = (if str_match str (slashed_pattern top_domain_words) then 1 else 0)"

definition lz_c_ctry_domain :: "jsstr \<Rightarrow> nat" where
  "lz_c_ctry_domain str = (if str_match str (slashed_pattern country_words) then 1 else 0)"

definition re_www :: regexp where
  "re_www = js_regex (pat ''^www`.'') []"

text \<open>In the string constant the backslash before a dot is dropped.\<close>

definition ip_pat :: jsstr where
  "ip_pat = lit ''^[0-9]*.[0-9]*.[0-9]*.[0-9]*$''"

definition lz_get_domain :: "jsstr \<Rightarrow> jsstr" where
  "lz_get_domain host =
     (let d = replace_re host re_www (\<lambda>_. []);
          ss = split_str (lit ''.'') d;
          l = length ss
      in if l = 3 then
           (if lz_c_ctry_top_domain (ss ! 1) \<noteq> 0 \<and> lz_c_ctry_domain (ss ! 2) \<noteq> 0 then d
            else ss ! 1 @ lit ''.'' @ ss ! 2)
         else if 3 \<le> l then
           (if str_match host ip_pat then d
            else if lz_c_ctry_top_domain (ss ! (l - 2)) \<noteq> 0 \<and> lz_c_ctry_domain (ss ! (l - 1)) \<noteq> 0
            then ss ! (l - 3) @ lit ''.'' @ ss ! (l - 2) @ lit ''.'' @ ss ! (l - 1)
            else ss ! (l - 2) @ lit ''.'' @ ss ! (l - 1))
         else d)"

section \<open>Cookies\<close>

definition lz_get_cookie :: "jsstr \<Rightarrow> jsstr \<Rightarrow> jsstr" where
  "lz_get_cookie co name =
     (let mn = name @ lit ''='' in
      if mn = lit ''='' then co
      else let b = indexOf co mn in
        if b < 0 then []
        else let e = indexOf_from co (lit '';'') (b + int (length name)) in
          if e < 0 then substring_from co (b + int (length name) + 1)
          else substring co (b + int (length name) + 1) e)"

text \<open>
  The string that is assigned to \<open>document.cookie\<close>; \<open>in_years\<close> and \<open>in_hours\<close> are the
  \<open>toGMTString()\<close> of the date ten years and one hour ahead.
\<close>

definition lz_set_cookie :: "jsstr \<Rightarrow> jsstr \<Rightarrow> jsstr \<Rightarrow> jsstr \<Rightarrow> jsstr \<Rightarrow> nat \<Rightarrow> jsstr" where
  "lz_set_cookie in_years in_hours document_domain name val cotp =
     (let cookie =
            (if cotp = 0 then name @ lit ''='' @ val @ lit '';''
             else if cotp = 1 then name @ lit ''='' @ val @ lit '';expires='' @ in_years @ lit '';''
             else if cotp = 2 then name @ lit ''='' @ val @ lit '';expires='' @ in_hours @ lit '';''
             else []);
          d = lz_get_domain document_domain
      in cookie @ (if d \<noteq> [] then lit ''domain='' @ d @ lit '';'' else []) @ lit ''path='' @ lit ''/;'')"

section \<open>Session strings\<close>

definition str_reverse :: "jsstr \<Rightarrow> jsstr" where
  "str_reverse str =
     foldl (\<lambda>temp i. if str ! i = 46 then temp @ lit ''#'' else temp @ [str ! i]) [] (rev [0..<length str])"

definition after_mark :: "jsstr \<Rightarrow> jsstr" where
  "after_mark str = substring_from str (indexOf str (lit ''_'') + 1)"

definition lz_get_ss_id :: "jsstr \<Rightarrow> jsstr" where
  "lz_get_ss_id str = after_mark (after_mark str)"

definition lz_get_ss_no :: "jsstr \<Rightarrow> int option" where
  "lz_get_ss_no str = parseInt (substring str 0 (indexOf str (lit ''_'')))"

text \<open>\<open>parseInt(str, 10)\<close>: base ten, whatever the prefix.\<close>

definition parseInt10 :: "jsstr \<Rightarrow> int option" where
  "parseInt10 s =
     (case dropWhile is_space s of
        [] \<Rightarrow> None
      | c # t \<Rightarrow> if c = 45 then map_option uminus (parse_digits t)
                 else if c = 43 then parse_digits t
                 else parse_digits (c # t))"

definition lz_get_ctm :: "jsstr \<Rightarrow> int option" where
  "lz_get_ctm str =
     (let str = after_mark str in parseInt10 (substring str 0 (indexOf str (lit ''_''))))"

end
