(* ===== verification/TongjiDomain.thy ===== *)
theory TongjiDomain
  imports Tongji
begin

text \<open>
  What the domain functions of \<open>tongji.js\<close> compute.  The two pattern strings are alternations
  of anchored words, except that the slashes inside the string spoil the first and the last
  alternative: \<open>slashed_match\<close> says that exactly the words in between are recognised, in lower
  case only.  From it: the domain of a host is a suffix of the host, an address of four
  numbers is kept whole, and two-level country domains are handled except under the spoiled
  words.
\<close>

section \<open>Patterns of characters and anchors\<close>

definition flat_char :: "jschar \<Rightarrow> bool" where
  "flat_char c \<longleftrightarrow> c = 94 \<or> c = 36 \<or> literal_char c"

fun flat :: "jsstr \<Rightarrow> regex" where
  "flat [] = REmpty"
| "flat (c # s) = RSeq (if c = 94 then RBol else if c = 36 then REol else RChar c) (flat s)"

fun alternatives :: "(jsstr \<Rightarrow> regex) \<Rightarrow> jsstr list \<Rightarrow> regex" where
  "alternatives f [] = REmpty"
| "alternatives f [p] = f p"
| "alternatives f (p # p' # ps) = RAlt (f p) (alternatives f (p' # ps))"

lemma flat_char_simps:
  "flat_char c \<Longrightarrow> c \<noteq> 42 \<and> c \<noteq> 43 \<and> c \<noteq> 63 \<and> c \<noteq> 123 \<and> c \<noteq> 124 \<and> c \<noteq> 41"
  by (auto simp: flat_char_def literal_char_def)

lemma parse_flat_term:
  assumes "flat_char c" and "case s of [] \<Rightarrow> True | d # _ \<Rightarrow> d \<noteq> 42 \<and> d \<noteq> 43 \<and> d \<noteq> 63 \<and> d \<noteq> 123"
  shows "parse_term (Suc k) (c # s) n =
    Some (if c = 94 then RBol else if c = 36 then REol else RChar c, s, n)"
proof (cases "c = 94 \<or> c = 36")
  case False
  with assms show ?thesis using parse_literal [of c s k n] by (simp add: flat_char_def del: parse_term.simps)
qed auto

lemma parse_flat:
  "list_all flat_char p \<Longrightarrow> rest = [] \<or> prefix [124] rest \<Longrightarrow>
   parse_alt (length p + Suc (Suc k)) (p @ rest) n = Some (flat p, rest, n)"
proof (induction p)
  case Nil
  then show ?case by auto
next
  case (Cons c p)
  have "case p @ rest of [] \<Rightarrow> True | d # _ \<Rightarrow> d \<noteq> 42 \<and> d \<noteq> 43 \<and> d \<noteq> 63 \<and> d \<noteq> 123"
    using Cons.prems by (cases p; cases rest) (auto dest: flat_char_simps)
  then have t: "parse_term (Suc k') (c # p @ rest) n =
      Some (if c = 94 then RBol else if c = 36 then REol else RChar c, p @ rest, n)" for k'
    using Cons.prems by (intro parse_flat_term) auto
  have "parse_alt (Suc (length p + Suc (Suc k))) (c # p @ rest) n = Some (flat (c # p), rest, n)"
    unfolding flat.simps
    by (rule parse_alt_step [OF t [of "length p + Suc k", folded add_Suc_right] Cons.IH])
       (use Cons.prems flat_char_simps [of c] in auto)
  then show ?case by (simp del: parse_alt.simps)
qed

lemma parse_flat_fuel:
  assumes "list_all flat_char p" and "rest = [] \<or> prefix [124] rest" and "length p + 2 \<le> k"
  shows "parse_alt k (p @ rest) n = Some (flat p, rest, n)"
  using parse_flat [OF assms(1,2), of 0 n] by (rule parse_fuel_ge(2) [rotated]) (use assms(3) in simp)

lemma parse_flat_alternatives:
  "ps \<noteq> [] \<Longrightarrow> \<forall>p \<in> set ps. list_all flat_char p \<Longrightarrow> length (join [124] ps) + 2 \<le> k \<Longrightarrow>
   parse_disj (Suc k) (join [124] ps) n = Some (alternatives flat ps, [], n)"
proof (induction ps arbitrary: k rule: induct_list012)
  case (2 p)
  then have "parse_alt k p n = Some (flat p, [], n)" using parse_flat_fuel [of p "[]" k n] by simp
  then show ?case using parse_disj_last by simp
next
  case (3 p p' ps)
  let ?rest = "join [124] (p' # ps)"
  have a: "parse_alt k (p @ 124 # ?rest) n = Some (flat p, 124 # ?rest, n)"
    by (rule parse_flat_fuel) (use "3.prems" in auto)
  obtain k' where k': "k = Suc k'" using "3.prems"(3) by (cases k) auto
  have d: "parse_disj k ?rest n = Some (alternatives flat (p' # ps), [], n)"
    unfolding k' by (rule "3.IH"(2)) (use "3.prems" k' in auto)
  show ?case using parse_disj_more [OF a d] by (simp del: parse_alt.simps parse_disj.simps)
qed simp

lemma js_regex_flat:
  assumes "ps \<noteq> []" and "\<forall>p \<in> set ps. list_all flat_char p"
  shows "js_regex (join [124] ps) f =
    \<lparr>prog = alternatives flat ps, groups = 1, rflags = parse_flags f, lastIndex = 0\<rparr>"
proof -
  let ?p = "join [124] ps"
  have "fuel_of ?p = Suc (3 * length ?p + 2)" using fuel_of_ge [of ?p] by simp
  moreover have "parse_disj (Suc (3 * length ?p + 2)) ?p 1 = Some (alternatives flat ps, [], 1)"
    by (rule parse_flat_alternatives [OF assms]) simp
  ultimately have "parse_pattern ?p = Some (alternatives flat ps, 1)"
    by (simp add: parse_pattern_def del: parse_disj.simps)
  then show ?thesis by (simp add: js_regex_def RegExp_def)
qed

section \<open>What they match\<close>

lemma m_alternatives:
  "ps \<noteq> [] \<Longrightarrow> m fl s (alternatives flat ps) i cs = concat (map (\<lambda>p. m fl s (flat p) i cs) ps)"
  by (induction ps rule: induct_list012) auto

lemma flat_word: "list_all literal_char w \<Longrightarrow> flat (w @ p) = seq_chars w (flat p)"
  by (induction w) (auto simp: literal_char_def)

text \<open>Without flags: an anchored word matches the word alone; the two spoiled alternatives never.\<close>

lemma m_anchored:
  assumes "list_all literal_char w" and "i \<le> length s"
  shows "m no_flags s (flat (94 # w @ [36])) i cs = (if i = 0 \<and> s = w then [(length w, cs)] else [])"
proof (cases "i = 0")
  case True
  let ?c = "length w \<le> length s \<and> take (length w) s = w"
  have "m no_flags s (flat (94 # w @ [36])) 0 cs = (if ?c \<and> length w = length s then [(length w, cs)] else [])"
    using assms(1) by (cases "w = []"; cases ?c) (simp_all add: flat_word m_seq_chars, blast)
  moreover have "?c \<and> length w = length s \<longleftrightarrow> s = w" by (metis take_all order_refl)
  ultimately show ?thesis using True by (simp only: simp_thms)
qed simp

lemma m_slash_first: "i \<le> length s \<Longrightarrow> m no_flags s (flat (47 # 94 # p)) i cs = []"
  by simp

lemma m_slash_last:
  assumes "list_all literal_char w" and "i \<le> length s"
  shows "m no_flags s (flat (94 # w @ 36 # 47 # p)) i cs = []"
  using assms by (auto simp: flat_word m_seq_chars)

lemma join_prefix_suffix:
  "p @ join sep (a # mid @ [z]) @ q = join sep ((p @ a) # mid @ [z @ q])"
proof -
  have suf: "join sep (xs @ [z]) @ q = join sep (xs @ [z @ q])" for xs
    by (induction xs rule: induct_list012) (auto simp: join_Cons_nonempty)
  have "join sep (a # mid @ [z]) = a @ sep @ join sep (mid @ [z])" "join sep ((p @ a) # mid @ [z @ q]) = p @ a @ sep @ join sep (mid @ [z @ q])"
    by (simp_all add: join_Cons_nonempty)
  with suf show ?thesis by simp
qed

lemma slashed_match:
  assumes "word_list kws" and kws: "split_str [SP] kws = a # mid @ [z]"
  shows "str_match s (slashed_pattern kws) \<longleftrightarrow> s \<in> set mid"
proof -
  let ?anch = "\<lambda>w. 94 # w @ [36]"
  let ?ps = "(47 # ?anch a) # map ?anch mid @ [?anch z @ [47, 105]]"
  have words: "\<forall>w \<in> set (a # mid @ [z]). list_all literal_char w"
    using word_list_words [OF assms(1)] kws by (auto simp: keyword_def)
  have fl: "literal_char c \<Longrightarrow> flat_char c" for c by (simp add: flat_char_def)
  have "\<forall>p \<in> set ?ps. list_all flat_char p"
    using words fl by (auto simp: list_all_iff flat_char_def literal_char_def)
  from js_regex_flat [OF _ this, of "[]"]
  have re: "js_regex (join [124] ?ps) [] =
      \<lparr>prog = alternatives flat ?ps, groups = 1, rflags = no_flags, lastIndex = 0\<rparr>"
    by (simp add: parse_flags_def)
  have pat: "slashed_pattern kws = join [124] ?ps"
    using join_prefix_suffix [of "[47]" "[124]" "?anch a" "map ?anch mid" "?anch z" "[47, 105]"]
    by (simp add: slashed_pattern_def kws lit_def)
  have none: "m no_flags s (flat (94 # z @ [36, 47, 105])) i cs = []" if "i \<le> length s" for i cs
    using m_slash_last [of z i s "[105]"] words that by simp
  have key: "m no_flags s (alternatives flat ?ps) i cs \<noteq> [] \<longleftrightarrow> i = 0 \<and> s \<in> set mid" if "i \<le> length s" for i cs
    using that words none [OF that] m_slash_first [OF that] m_anchored [OF _ that]
    by (auto simp: m_alternatives simp del: flat.simps split: if_splits)
  have "test (js_regex (join [124] ?ps) []) s \<longleftrightarrow>
      (\<exists>i \<le> length s. m no_flags s (alternatives flat ?ps) i [None] \<noteq> [])"
    unfolding re by (subst test_no_flags) (simp_all only: regexp.simps replicate_Suc replicate_0 One_nat_def)
  also have "\<dots> \<longleftrightarrow> s \<in> set mid" using key by (metis zero_le)
  finally show ?thesis unfolding str_match_def pat .
qed

section \<open>The two word tables\<close>

lemma word_list_top: "word_list top_domain_words"
  unfolding word_list_def top_domain_words_def word_pass by (simp add: lit_def literal_char_def)

lemma word_list_country: "word_list country_words"
  unfolding word_list_def country_words_def word_pass by (simp add: lit_def literal_char_def)

lemma middle_words:
  assumes "SP \<in> set kws"
  shows "split_str [SP] kws = hd (split_str [SP] kws) # butlast (tl (split_str [SP] kws)) @ [last (split_str [SP] kws)]"
proof -
  have "2 \<le> length (split_str [SP] kws)"
    using assms count_list_0_iff [of kws SP] by (cases "count_list kws SP") (simp_all add: length_split_single)
  then obtain a b ws where "split_str [SP] kws = a # b # ws"
    by (metis Suc_le_length_iff numeral_2_eq_2)
  then show ?thesis by (simp add: append_butlast_last_id)
qed

lemma has_blank: "SP \<in> set top_domain_words" "SP \<in> set country_words"
  by (simp_all add: top_domain_words_def country_words_def lit_def)

lemma top_domain_exact:
  "lz_c_ctry_top_domain s = (if s \<in> set (butlast (tl (split_str [SP] top_domain_words))) then 1 else 0)"
  using slashed_match [OF word_list_top middle_words [OF has_blank(1)]] by (simp add: lz_c_ctry_top_domain_def)

lemma country_exact:
  "lz_c_ctry_domain s = (if s \<in> set (butlast (tl (split_str [SP] country_words))) then 1 else 0)"
  using slashed_match [OF word_list_country middle_words [OF has_blank(2)]] by (simp add: lz_c_ctry_domain_def)

text \<open>For a word other than the first one, the search over the whole list decides.\<close>

lemma middle_seek:
  assumes "SP \<in> set kws" and "s \<noteq> hd (split_str [SP] kws)"
  shows "s \<in> set (butlast (tl (split_str [SP] kws))) \<longleftrightarrow> snd (fold (word_seek s) kws (Some s, False))"
proof -
  let ?ws = "split_str [SP] kws"
  have "butlast ?ws = hd ?ws # butlast (tl ?ws)"
    using middle_words [OF assms(1)] by (metis butlast_snoc append_Cons)
  with assms(2) show ?thesis by (simp add: word_seek_iff)
qed

lemma first_words: "hd (split_str [SP] top_domain_words) = lit ''aero''" "hd (split_str [SP] country_words) = lit ''ac''"
proof -
  have h: "hd (split_str [SP] (a @ SP # b)) = a" if "SP \<notin> set a" for a b
    using that by (simp add: split_single_append)
  have "\<exists>b. top_domain_words = lit ''aero'' @ SP # b" "\<exists>b. country_words = lit ''ac'' @ SP # b"
    by (simp_all add: top_domain_words_def country_words_def lit_append) (simp_all add: lit_def)
  moreover have "SP \<notin> set (lit ''aero'')" "SP \<notin> set (lit ''ac'')" by (simp_all add: lit_def)
  ultimately show "hd (split_str [SP] top_domain_words) = lit ''aero''" "hd (split_str [SP] country_words) = lit ''ac''"
    using h by metis+
qed

lemma country_seek:
  "s \<noteq> lit ''ac'' \<Longrightarrow> lz_c_ctry_domain s = (if snd (fold (word_seek s) country_words (Some s, False)) then 1 else 0)"
  using middle_seek [OF has_blank(2)] by (simp add: country_exact first_words)

lemma top_domain_seek:
  "s \<noteq> lit ''aero'' \<Longrightarrow> lz_c_ctry_top_domain s = (if snd (fold (word_seek s) top_domain_words (Some s, False)) then 1 else 0)"
  using middle_seek [OF has_blank(1)] by (simp add: top_domain_exact first_words)

section \<open>The domain of a host\<close>

lemma re_www_eq:
  "re_www = \<lparr>prog = RSeq RBol (seq_chars (lit ''www.'') REmpty), groups = 1, rflags = no_flags, lastIndex = 0\<rparr>"
  by (simp add: re_www_def js_eval)

lemma match_www:
  "match_at re_www s i =
    (if i = 0 \<and> prefix (lit ''www.'') s then Some (mk_match s 0 4 [None]) else None)"
proof (cases "i = 0")
  case True
  have len: "length (lit ''www.'') = 4" by simp
  have "4 \<le> length s \<and> take 4 s = lit ''www.'' \<longleftrightarrow> prefix (lit ''www.'') s"
    unfolding prefix_take len
  proof
    assume t: "take 4 s = lit ''www.''"
    have "length (take 4 s) = 4" unfolding t by (rule len)
    then have "4 \<le> length s" by (simp add: min_def split: if_splits)
    with t show "4 \<le> length s \<and> take 4 s = lit ''www.''" by blast
  qed simp
  moreover have "lit ''www.'' \<noteq> []" by (simp add: lit_def)
  ultimately show ?thesis
    using True by (simp add: match_at_def re_www_eq m_seq_chars len del: length_lit)
qed (simp add: match_at_def re_www_eq)

lemma strip_www: "replace_re s re_www (\<lambda>_. []) = (if prefix (lit ''www.'') s then drop 4 s else s)"
proof -
  have "search re_www s [0..<Suc (length s)] = (if prefix (lit ''www.'') s then Some (mk_match s 0 4 [None]) else None)"
    by (subst upt_conv_Cons) (auto simp: match_www search_None simp del: upt_Suc)
  moreover have "\<not> global (rflags re_www)" by (simp add: re_www_eq)
  ultimately show ?thesis by (simp add: replace_re_def mk_match_def slice_def del: upt_Suc)
qed

lemma join_suffix: "ys \<noteq> [] \<Longrightarrow> suffix (join sep ys) (join sep (xs @ ys))"
proof (induction xs)
  case (Cons x xs)
  then have "join sep ((x # xs) @ ys) = (x @ sep) @ join sep (xs @ ys)" by (simp add: join_Cons_nonempty)
  with Cons show ?case by (metis suffix_appendI)
qed simp

lemma last_parts:
  assumes "k < length ss"
  shows "suffix (join sep (drop k ss)) (join sep ss)"
  using join_suffix [of "drop k ss" sep "take k ss"] assms by simp

lemma join_three:
  assumes "3 \<le> length ss"
  shows "ss ! (length ss - 3) @ sep @ ss ! (length ss - 2) @ sep @ ss ! (length ss - 1) = join sep (drop (length ss - 3) ss)"
    and "ss ! (length ss - 2) @ sep @ ss ! (length ss - 1) = join sep (drop (length ss - 2) ss)"
proof -
  have "length xs = 3 \<Longrightarrow> \<exists>a b c. xs = [a, b, c]" for xs :: "'a list list"
    by (auto simp: numeral_eq_Suc length_Suc_conv)
  moreover have "length (drop (length ss - 3) ss) = 3" using assms by simp
  ultimately obtain a b c where abc: "drop (length ss - 3) ss = [a, b, c]" by blast
  define xs where "xs = take (length ss - 3) ss"
  have "ss = xs @ [a, b, c]" unfolding xs_def by (metis abc append_take_drop_id)
  then show "ss ! (length ss - 3) @ sep @ ss ! (length ss - 2) @ sep @ ss ! (length ss - 1) = join sep (drop (length ss - 3) ss)"
    and "ss ! (length ss - 2) @ sep @ ss ! (length ss - 1) = join sep (drop (length ss - 2) ss)"
    by (simp_all add: nth_append)
qed

text \<open>The domain is the host without a leading \<open>www.\<close>, or its last two or three parts.\<close>

lemma lz_get_domain_parts:
  defines "d \<equiv> (\<lambda>host. if prefix (lit ''www.'') host then drop 4 host else host)"
  shows "\<exists>k < length (split_str (lit ''.'') (d host)). lz_get_domain host = join (lit ''.'') (drop k (split_str (lit ''.'') (d host)))"
proof -
  let ?ss = "split_str (lit ''.'') (d host)"
  have d: "replace_re host re_www (\<lambda>_. []) = d host" by (simp add: strip_www d_def)
  have dot: "lit ''.'' \<noteq> []" by (simp add: lit_def)
  have whole: "d host = join (lit ''.'') (drop 0 ?ss)" "0 < length ?ss"
    using join_split [OF dot] split_str_nonempty [OF dot] by simp_all
  have "lz_get_domain host = d host \<or> 3 \<le> length ?ss \<and>
      (lz_get_domain host = ?ss ! (length ?ss - 3) @ lit ''.'' @ ?ss ! (length ?ss - 2) @ lit ''.'' @ ?ss ! (length ?ss - 1) \<or>
       lz_get_domain host = ?ss ! (length ?ss - 2) @ lit ''.'' @ ?ss ! (length ?ss - 1))"
    by (cases "length ?ss = 3") (simp_all add: lz_get_domain_def d Let_def)
  with join_three [of ?ss "lit ''.''"]
  consider (three) "3 \<le> length ?ss" "lz_get_domain host = join (lit ''.'') (drop (length ?ss - 3) ?ss)"
    | (two) "3 \<le> length ?ss" "lz_get_domain host = join (lit ''.'') (drop (length ?ss - 2) ?ss)"
    | (whole) "lz_get_domain host = d host"
    by metis
  then show ?thesis
  proof cases
    case three
    then show ?thesis by (intro exI [of _ "length ?ss - 3"]) simp
  next
    case two
    then show ?thesis by (intro exI [of _ "length ?ss - 2"]) simp
  next
    case whole
    with \<open>d host = join (lit ''.'') (drop 0 ?ss)\<close> \<open>0 < length ?ss\<close> show ?thesis by metis
  qed
qed

section \<open>Properties\<close>

text \<open>C24: the tables.  Each of the two tests accepts exactly the words of its table other than the
  first and the last one, in lower case: the slashes around the list are characters of the
  pattern and spoil the alternatives at its ends.\<close>

theorem domain_tables_exact:
  "(lz_c_ctry_top_domain s = 1) = (s \<in> set (butlast (tl (split_str [SP] top_domain_words)))) \<and>
   (lz_c_ctry_domain s = 1) = (s \<in> set (butlast (tl (split_str [SP] country_words))))"
  by (simp add: top_domain_exact country_exact)

text \<open>The domain of a host is always a suffix of the host, so a cookie is never set for a domain
  that the page is not in.\<close>

theorem domain_is_suffix: "suffix (lz_get_domain host) host"
proof -
  let ?d = "if prefix (lit ''www.'') host then drop 4 host else host"
  have dot: "lit ''.'' \<noteq> []" by (simp add: lit_def)
  obtain k where "k < length (split_str (lit ''.'') ?d)" "lz_get_domain host = join (lit ''.'') (drop k (split_str (lit ''.'') ?d))"
    using lz_get_domain_parts [of host] by blast
  then have "suffix (lz_get_domain host) ?d"
    using last_parts [of k _ "lit ''.''"] join_split [OF dot] by metis
  moreover have "suffix ?d host" by (simp add: suffix_drop)
  ultimately show ?thesis using suffix_order.trans by blast
qed

text \<open>Two-level country domains.  A shop under \<open>co.uk\<close> keeps its own domain; under \<open>co.zw\<close>, whose
  country is the spoiled last entry of the table, the domain is \<open>co.zw\<close> itself, shared with
  every other site there.\<close>

theorem country_domain_lost:
  "lz_get_domain (lit ''www.shop.co.uk'') = lit ''shop.co.uk'' \<and>
   lz_get_domain (lit ''www.shop.co.zw'') = lit ''co.zw''"
proof -
  have co: "lz_c_ctry_top_domain (lit ''co'') = 1"
    by (subst top_domain_seek) (simp add: lit_def, unfold top_domain_words_def word_pass, simp add: lit_def)
  have uk: "lz_c_ctry_domain (lit ''uk'') = 1"
    by (subst country_seek) (simp add: lit_def, unfold country_words_def word_pass, simp add: lit_def)
  have zw: "lz_c_ctry_domain (lit ''zw'') = 0"
    by (subst country_seek) (simp add: lit_def, unfold country_words_def word_pass, simp add: lit_def)
  have "split_str (lit ''.'') (lit ''shop.co.uk'') = [lit ''shop'', lit ''co'', lit ''uk'']"
    "split_str (lit ''.'') (lit ''shop.co.zw'') = [lit ''shop'', lit ''co'', lit ''zw'']"
    by (simp_all add: js_eval)
  moreover have "replace_re (lit ''www.shop.co.uk'') re_www (\<lambda>_. []) = lit ''shop.co.uk''"
    "replace_re (lit ''www.shop.co.zw'') re_www (\<lambda>_. []) = lit ''shop.co.zw''"
    by (simp_all add: strip_www lit_def)
  moreover have "lit ''co'' @ lit ''.'' @ lit ''zw'' = lit ''co.zw''" by (simp add: lit_def)
  ultimately show ?thesis using co uk zw by (simp add: lz_get_domain_def Let_def)
qed

end
