(* ===== verification/TongjiVisits.thy ===== *)
theory TongjiVisits
  imports TongjiText Complex_Main
begin

text \<open>
  The main function of the traffic counter (\<open>tongji.js\<close>, \<open>lz_main\<close>): the visitor cookie, the
  session cookie, the filter, the request and the click map.  \<open>uv_visit\<close> and \<open>ss_visit\<close> are the
  two cookie blocks; \<open>lz_main\<close> composes them with the rest.

  The site id is an argument of the blocks (the script is served per site and the cookies are
  shared by the sites of a domain) and a constant of \<open>lz_main\<close>.  \<open>Math.random()\<close> is a draw
  \<open>d < 2^53\<close> read as the fraction \<open>d / 2^53\<close>; \<open>scaled d n\<close> is \<open>parseInt(Math.random() * n)\<close>.
  The clock is read where the code reads it.  The cookie store of the browser is a parameter:
  \<open>read\<close> gives \<open>document.cookie\<close>, \<open>assign\<close> is an assignment to it.
\<close>

section \<open>Numbers\<close>

definition scaled :: "nat \<Rightarrow> nat \<Rightarrow> nat" where
  "scaled d n = d * n div 2 ^ 53"

text \<open>The language's conversion of a string to a number, as the subtraction uses it.\<close>

datatype js_num = NaN | Num rat | Infinite bool

definition decimal :: "jsstr \<Rightarrow> js_num" where
  "decimal s =
     (let ds = takeWhile is_digit s; t = dropWhile is_digit s;
          fs = (if prefix [46] t then takeWhile is_digit (drop 1 t) else []);
          u = (if prefix [46] t then dropWhile is_digit (drop 1 t) else t);
          n = of_nat (digit_value (ds @ fs)) / 10 ^ length fs
      in if ds @ fs = [] then NaN
         else if u = [] then Num n
         else if prefix [101] u \<or> prefix [69] u then
           (let v = drop 1 u; neg = prefix [45] v;
                es = (if neg \<or> prefix [43] v then drop 1 v else v)
            in if es = [] \<or> \<not> list_all is_digit es then NaN
               else if neg then Num (n / 10 ^ digit_value es) else Num (n * 10 ^ digit_value es))
         else NaN)"

definition Number :: "jsstr \<Rightarrow> js_num" where
  "Number str =
     (let s = rev (dropWhile is_space (rev (dropWhile is_space str)))
      in if s = [] then Num 0
         else if prefix (lit ''0x'') s \<or> prefix (lit ''0X'') s then
           (if 2 < length s \<and> list_all is_hex (drop 2 s) then Num (of_nat (hex_value (drop 2 s))) else NaN)
         else let neg = prefix [45] s; t = (if neg \<or> prefix [43] s then drop 1 s else s) in
           if t = lit ''Infinity'' then Infinite (\<not> neg)
           else case decimal t of Num n \<Rightarrow> Num (if neg then - n else n) | x \<Rightarrow> x)"

text \<open>\<open>now - stm > limit\<close>: false when the string is not a number.\<close>

definition older :: "nat \<Rightarrow> jsstr \<Rightarrow> nat \<Rightarrow> bool" where
  "older now stm limit =
     (case Number stm of
        NaN \<Rightarrow> False
      | Num n \<Rightarrow> of_nat now - n > of_nat limit
      | Infinite pos \<Rightarrow> \<not> pos)"

definition number_str :: "int option \<Rightarrow> jsstr" where
  "number_str n = (case n of None \<Rightarrow> lit ''NaN'' | Some i \<Rightarrow> int_to_str i)"

section \<open>The visitor cookie\<close>

fun has_uid :: "jsstr \<Rightarrow> jsstr list \<Rightarrow> bool" where
  "has_uid unit_id [] = False"
| "has_uid unit_id (uid # uids) = (if uid = unit_id then True else has_uid unit_id uids)"

text \<open>
  The visitor id, whether the visitor is new to the site, and the value to write, if any.
  \<open>None\<close> is the \<open>TypeError\<close> of splitting \<open>undefined\<close>.
\<close>

definition uv_visit :: "jsstr \<Rightarrow> nat \<Rightarrow> nat \<Rightarrow> jsstr \<Rightarrow> (jsstr \<times> nat \<times> jsstr option) option" where
  "uv_visit unit_id d1 d2 uv_str =
     (if uv_str = [] then
        (let uv_id = nat_digits (scaled d1 4000000000) @ nat_digits (scaled d2 4000000000)
         in Some (uv_id, 1, Some (uv_id @ lit ''|'' @ unit_id)))
      else
        (let arr = split_str (lit ''|'') uv_str; uv_id = arr ! 0
         in if length arr < 2 then None
            else let uids = split_str (lit ''@'') (arr ! 1); uid_num = length uids
              in if has_uid unit_id uids then Some (uv_id, 0, None)
                 else Some (uv_id, 1, Some (if 100 \<le> uid_num then uv_id @ lit ''|'' @ unit_id
                                            else uv_str @ lit ''@'' @ unit_id))))"

section \<open>The session cookie\<close>

fun find_session :: "jsstr \<Rightarrow> nat \<Rightarrow> jsstr list \<Rightarrow> nat option" where
  "find_session unit_id pos [] = None"
| "find_session unit_id pos (ss_info # arr) =
     (let items = split_str (lit ''_'') ss_info
      in if 3 < length items \<and> items ! 3 = unit_id then Some pos
         else find_session unit_id (Suc pos) arr)"

definition session_value :: "jsstr \<Rightarrow> jsstr \<Rightarrow> nat \<Rightarrow> jsstr \<Rightarrow> jsstr" where
  "session_value ss_id no stm unit_id =
     ss_id @ lit ''_'' @ no @ lit ''_'' @ nat_digits stm @ lit ''_'' @ unit_id"

text \<open>\<open>arr[pos] = value\<close> for a position at most one past the end.\<close>

definition set_at :: "'a list \<Rightarrow> nat \<Rightarrow> 'a \<Rightarrow> 'a list" where
  "set_at arr pos x = (if pos < length arr then arr[pos := x] else arr @ [x])"

text \<open>The session id, the number of the page in the session, and the value to write.\<close>

definition ss_visit :: "jsstr \<Rightarrow> nat \<Rightarrow> nat \<Rightarrow> nat \<Rightarrow> nat \<Rightarrow> jsstr \<Rightarrow> jsstr \<times> int option \<times> jsstr" where
  "ss_visit unit_id d_id d_pos now1 now2 ss_str =
     (let rand_id = nat_digits (scaled d_id 4000000000) in
      if ss_str = [] then (rand_id, Some 0, session_value rand_id (lit ''0'') now1 unit_id)
      else
        (let arr = split_str (lit ''|'') ss_str; ss_num = length arr
         in case find_session unit_id 0 arr of
              Some pos \<Rightarrow>
                (let items = split_str (lit ''_'') (arr ! pos);
                     expired = older now1 (items ! 2) 1800;
                     ss_no = (if expired then Some 0 else map_option (\<lambda>n. n + 1) (parseInt (items ! 1)));
                     ss_id = (if expired then rand_id else items ! 0);
                     value = session_value ss_id (number_str ss_no) now2 unit_id
                 in (ss_id, ss_no, join (lit ''|'') (arr[pos := value])))
            | None \<Rightarrow>
                (let value = session_value rand_id (lit ''0'') now1 unit_id;
                     pos = (if 20 \<le> ss_num then scaled d_pos ss_num else ss_num)
                 in (rand_id, Some 0, join (lit ''|'') (set_at arr pos value)))))"

section \<open>The main function\<close>

definition domain_filters :: "jsstr list" where
  "domain_filters = map lit
    [''gro#tra763'', ''moc#olzd'', ''moc#tra763'', ''moc#df571'', ''ten#oog1'', ''nc#ppk1'',
     ''nc#osnaknak'', ''nc#emocwww'', ''nc#psalla'', ''moc#oesii'', ''moc#kh0083'', ''nc#kpwww'',
     ''nc#moc#zw001'', ''nc#kpemoc'', ''moc#eyiq063'', ''moc#qqa4'', ''ten#aboakoak'', ''moc#ecilliw'',
     ''nc#moc#ibeea'', ''moc#ibeea'', ''nc#tra763'', ''moc#025sns'', ''moc#og321oah'', ''moc#9zznc'',
     ''nc#9zznc'', ''moc#d135'', ''moc#ridzoog'', ''ten#rqrq'', ''moc#195nak'', ''moc#uynijtn'',
     ''moc#falwen'', ''nc#moc#njyhxj'']"

record visit =
  host :: jsstr
  document_domain :: jsstr
  referrer :: jsstr
  document_URL :: jsstr
  document_title :: jsstr
  document_charset :: "jsstr option"
  href :: jsstr
  navigator :: browser
  now1 :: date
  now2 :: date
  draw1 :: nat
  draw2 :: nat
  draw3 :: nat
  draw4 :: nat
  random1 :: jsstr
  random2 :: jsstr
  in_years :: jsstr
  in_hours :: jsstr

definition unit_id :: jsstr where "unit_id = lit ''2033179''"
definition server_time :: jsstr where "server_time = lit ''1431691560''"
definition verify_code :: jsstr where "verify_code = lit ''3fc15b9f''"
definition dest_path :: jsstr where
  "dest_path = lit ''http://dt.tongji.linezing.com/tongji.do?unit_id='' @ unit_id"

definition hashval :: "jsstr \<Rightarrow> nat" where
  "hashval domain = foldl (+) 0 domain"

definition filtered :: "jsstr \<Rightarrow> nat" where
  "filtered domain =
     foldl (\<lambda>f d. if d = str_reverse domain then 1 else f) 0 domain_filters"

definition or_undefined :: "jsstr option \<Rightarrow> jsstr" where
  "or_undefined x = (case x of None \<Rightarrow> lit ''undefined'' | Some s \<Rightarrow> s)"

definition dest :: "visit \<Rightarrow> jsstr \<Rightarrow> jsstr \<Rightarrow> nat \<Rightarrow> jsstr \<Rightarrow> int option \<Rightarrow> jsstr" where
  "dest v domain uv_id uv_new ss_id ss_no =
     dest_path @ lit ''&uv_id='' @ uv_id @ lit ''&uv_new='' @ nat_digits uv_new
       @ lit ''&cna=&cg=&mid=&mmland=&ade=&adtm=&sttm=&cpa=&ss_id='' @ ss_id
       @ lit ''&ss_no='' @ number_str ss_no
       @ lit ''&ec='' @ lz_encode (nat_digits (lz_get_cookie_enabled (navigator v)))
       @ lit ''&ref='' @ lz_encode (referrer v) @ lit ''&url='' @ lz_encode (document_URL v)
       @ lit ''&title='' @ escape (document_title v)
       @ lit ''&charset='' @ lz_encode (or_undefined (document_charset v))
       @ lit ''&domain='' @ domain @ lit ''&hashval='' @ nat_digits (hashval domain)
       @ lit ''&filtered='' @ nat_digits (filtered domain)
       @ lit ''&app='' @ lz_encode (lz_get_app (navigator v))
       @ lit ''&agent='' @ lz_encode (lz_get_agent (navigator v))
       @ lit ''&color='' @ lz_encode (lz_get_color (navigator v))
       @ lit ''&screen='' @ lz_encode (lz_get_screen (navigator v))
       @ lit ''&lg='' @ lz_encode (lz_get_language (navigator v))
       @ lit ''&je='' @ lz_encode (nat_digits (lz_get_jvm_enabled (navigator v)))
       @ lit ''&fv='' @ lz_encode (or_undefined (lz_get_flash_ver (navigator v)))
       @ lit ''&st='' @ server_time @ lit ''&vc='' @ verify_code
       @ lit ''&ut=0'' @ lit ''&url_id='' @ nat_digits 0 @ lit ''&cnu='' @ random1 v"

definition re_quote :: regexp where "re_quote = js_regex (pat ''([`/~])'') (lit ''g'')"
definition re_not_token :: regexp where "re_not_token = js_regex (pat ''[^`w`.`/]'') (lit ''ig'')"

definition click_token :: "jsstr \<Rightarrow> jsstr" where
  "click_token cur_url =
     (let token = substr cur_url (indexOf cur_url (lit ''#lzclickmap='')) 44;
          token = replace_re token re_quote (\<lambda>mt. 92 # or_undefined (group_of mt 1))
      in replace_re token re_not_token (\<lambda>_. []))"

text \<open>What is written to the page; \<open>url_id\<close> is 0 here, so the last branch of the code is dead.\<close>

definition page_writes :: "visit \<Rightarrow> jsstr \<Rightarrow> jsstr list" where
  "page_writes v dst =
     [lit ''<img src=\"'' @ dst @ lit ''\" border=\"0\" width=\"1\" height=\"1\" />''] @
     (if indexOf (href v) (lit ''#lzclickmap='') > -1
      then [pat ''<script src=~http://tongji.linezing.com/clickmap/load_clickmap.html?r='' @ random2 v
              @ click_token (href v) @ pat ''~></script>'']
      else [])"

definition lz_main ::
  "('j \<Rightarrow> jsstr) \<Rightarrow> (jsstr \<Rightarrow> 'j \<Rightarrow> 'j) \<Rightarrow> visit \<Rightarrow> 'j \<Rightarrow> ('j \<times> jsstr list) option" where
  "lz_main read assign v jar =
     (let domain = lz_get_domain (toLowerCase (host v));
          set = (\<lambda>name val cotp. lz_set_cookie (in_years v) (in_hours v) (document_domain v) name val cotp)
      in case uv_visit unit_id (draw1 v) (draw2 v) (lz_get_cookie (read jar) (lit ''lzstat_uv'')) of
           None \<Rightarrow> None
         | Some (uv_id, uv_new, uv_write) \<Rightarrow>
             (let jar1 = (case uv_write of None \<Rightarrow> jar | Some value \<Rightarrow> assign (set (lit ''lzstat_uv'') value 1) jar);
                  (ss_id, ss_no, ss_str) = ss_visit unit_id (draw3 v) (draw4 v) (lz_get_stm (now1 v)) (lz_get_stm (now2 v))
                    (lz_get_cookie (read jar1) (lit ''lzstat_ss''));
                  jar2 = assign (set (lit ''lzstat_ss'') ss_str 0) jar1
              in Some (jar2, page_writes v (dest v domain uv_id uv_new ss_id ss_no))))"

end
