(* ===== verification/CommaSplit.thy ===== *)
theory CommaSplit
  imports Keywords
begin

text \<open>
  Splitting at commas with the white space around them, \<^verbatim>\<open>split(/\s*,\s*/)\<close>, as the filter of tags and the
  parameters of SyntaxHighlighter 3 do it.
\<close>

definition re_comma :: regexp where "re_comma = js_regex (pat ''`s*,`s*'') []"

lemma re_comma_eq:
  "re_comma = \<lparr>prog = RSeq (RRep 0 None True 1 1 (RClass False [CSpace])) (RSeq (RChar 44)
      (RSeq (RRep 0 None True 1 1 (RClass False [CSpace])) REmpty)), groups = 1, rflags = no_flags, lastIndex = 0\<rparr>"
  by (simp add: re_comma_def js_eval)

section \<open>What the pieces are\<close>

text \<open>The pieces between commas, without the white space next to a comma.\<close>

fun trim_pieces :: "jsstr list \<Rightarrow> jsstr list" where
  "trim_pieces [] = []"
| "trim_pieces [x] = [x]"
| "trim_pieces (x # y # ys) = rstrip x # trim_pieces (lstrip y # ys)"

lemma single_space_no: "single s is_space (m no_flags s (RClass False [CSpace]))"
  using single_RClass [of s no_flags "[CSpace]" False] by (simp add: in_class_def)

lemma match_comma:
  "match_at re_comma s q =
     (let j = q + run s is_space q
      in if j < length s \<and> s ! j = 44 then Some (mk_match s q (Suc j + run s is_space (Suc j)) [None]) else None)"
proof -
  let ?r = "run s is_space q"
  let ?f = "\<lambda>i cs. m no_flags s (RSeq (RChar 44) (RSeq (RRep 0 None True 1 1 (RClass False [CSpace])) REmpty)) i cs"
  have low: "?f (q + n) cs = []" if "n < ?r" for n cs
  proof -
    have "is_space (s ! (q + n))" using run_all [of q s is_space] that by simp
    then have "s ! (q + n) \<noteq> 44" by (auto simp: is_space_def)
    then show ?thesis by simp
  qed
  have "concat (map (\<lambda>n. ?f (q + n) cs) (rev [0..<Suc ?r])) = ?f (q + ?r) cs" for cs
    using low by (simp add: concat_eq_Nil_conv)
  then have "m no_flags s (prog re_comma) q cs = ?f (q + ?r) cs" for cs
    unfolding re_comma_eq by (simp add: m_star_greedy [OF single_space_no] comp_def del: upt_Suc)
  moreover have "?f (q + ?r) cs = (if q + ?r < length s \<and> s ! (q + ?r) = 44
      then map (\<lambda>n. (Suc (q + ?r) + n, cs)) (rev [0..<Suc (run s is_space (Suc (q + ?r)))]) else [])" for cs
    by (simp add: m_star_greedy [OF single_space_no] comp_def del: upt_Suc)
  ultimately show ?thesis
    by (simp add: match_at_def re_comma_eq Let_def)
qed

lemma split_skip:
  "\<lbrakk>\<And>i. q \<le> i \<Longrightarrow> i < k \<Longrightarrow> match_at re s i = None; q \<le> k; k \<le> length s\<rbrakk> \<Longrightarrow> split_from re s p q = split_from re s p k"
proof (induction "k - q" arbitrary: q)
  case (Suc x)
  then have "match_at re s q = None" "q < length s" by auto
  then have "split_from re s p q = split_from re s p (Suc q)" by (subst split_from.simps) simp
  moreover have "split_from re s p (Suc q) = split_from re s p k" using Suc by (intro Suc.hyps) auto
  ultimately show ?case by simp
qed simp

lemma split_lstrip:
  "split_str [44] (lstrip b) = (case split_str [44] b of [] \<Rightarrow> [] | y # ys \<Rightarrow> lstrip y # ys)"
proof (cases "44 \<in> set b")
  case True
  then obtain y z where b: "b = y @ 44 # z" "44 \<notin> set y" by (meson split_list_first)
  have "lstrip b = lstrip y @ 44 # z" by (simp add: b lstrip_def dropWhile_append3 is_space_def)
  moreover have "44 \<notin> set (lstrip y)" using b(2) set_dropWhileD by (fastforce simp: lstrip_def)
  ultimately show ?thesis using b by (simp add: split_single_append)
next
  case False
  then have "44 \<notin> set (lstrip b)" using set_dropWhileD by (fastforce simp: lstrip_def)
  with False show ?thesis by (simp add: split_single_none)
qed

lemma no_comma_inside:
  assumes "drop q s = r @ rest" and "r \<noteq> []" and "\<not> is_space (last r)" and "44 \<notin> set r"
  shows "match_at re_comma s q = None"
proof -
  have "takeWhile is_space (r @ rest) = takeWhile is_space r"
    using takeWhile_append1 [of "last r" r is_space rest] assms(2,3) by simp
  then have run: "run s is_space q = length (takeWhile is_space r)" by (simp add: run_def assms(1))
  have "takeWhile is_space r \<noteq> r" using assms(2,3) by (metis last_in_set set_takeWhileD)
  then have "length (takeWhile is_space r) < length r"
    by (metis length_takeWhile_le le_neq_implies_less takeWhile_eq_take take_all_iff order_refl)
  then have "drop q s ! length (takeWhile is_space r) \<in> set r" by (simp add: assms(1) nth_append)
  moreover have "q \<le> length s" using assms(1,2) by (metis append_is_Nil_conv drop_all nat_le_linear)
  ultimately have "s ! (q + run s is_space q) \<noteq> 44" using assms(4) by (metis nth_drop run)
  then show ?thesis by (simp add: match_comma Let_def)
qed

lemma comma_after_spaces:
  assumes "drop q s = sp @ 44 # b" and "\<forall>c \<in> set sp. is_space c"
  shows "match_at re_comma s q = Some (mk_match s q (q + length sp + 1 + length (takeWhile is_space b)) [None])"
proof -
  have r: "run s is_space q = length sp" using assms by (simp add: run_def is_space_def [of 44] takeWhile_append)
  have q: "q + length sp < length s" using arg_cong [OF assms(1), of length] by simp
  have "s ! (q + length sp) = 44" using assms(1) q by (metis nth_append_length nth_drop order_less_imp_le add_leD1)
  moreover have "drop (Suc (q + length sp)) s = b"
    using assms(1) by (metis add_Suc_right append_Cons append_Nil append_eq_conv_conj append.assoc drop_drop length_append_singleton add.commute)
  moreover from this have "run s is_space (Suc (q + length sp)) = length (takeWhile is_space b)" by (simp add: run_def)
  ultimately show ?thesis using q by (simp add: match_comma r Let_def)
qed

text \<open>One piece: up to the white space before the next comma; the next piece starts after the white space behind it.\<close>

lemma split_piece:
  assumes t: "drop p s = a @ 44 # b" and a: "44 \<notin> set a"
  defines "e \<equiv> p + length a + 1 + length (takeWhile is_space b)"
  shows "split_from re_comma s p p = rstrip a # split_from re_comma s e e" and "drop e s = lstrip b" and "p < e" and "e \<le> length s"
proof -
  let ?r = "rstrip a" and ?sp = "rev (takeWhile is_space (rev a))"
  let ?k = "p + length ?r"
  have sp: "a = ?r @ ?sp" unfolding rstrip_def by (metis rev_append rev_rev_ident takeWhile_dropWhile_id)
  then have la: "length a = length ?r + length ?sp" by (metis length_append)
  have len: "length s = p + length a + 1 + length b" using arg_cong [OF t, of length] by simp
  have none: "match_at re_comma s q = None" if q: "p \<le> q" "q < ?k" for q
  proof (rule no_comma_inside)
    have "drop q s = drop (q - p) (drop p s)" using q by simp
    also have "\<dots> = drop (q - p) ?r @ ?sp @ 44 # b" using q by (subst t, subst sp) simp
    finally show "drop q s = drop (q - p) ?r @ ?sp @ 44 # b" .
    show ne: "drop (q - p) ?r \<noteq> []" using q by simp
    then have "?r \<noteq> []" by auto
    then have "\<not> is_space (last ?r)" unfolding rstrip_def by (metis hd_dropWhile last_rev rev_is_Nil_conv)
    then show "\<not> is_space (last (drop (q - p) ?r))" using q by simp
    have "set ?r \<subseteq> set a" using sp by (metis set_append sup_ge1)
    then show "44 \<notin> set (drop (q - p) ?r)" using a set_drop_subset [of "q - p" ?r] by blast
  qed
  have dk: "drop ?k s = ?sp @ 44 # b"
  proof -
    have "drop ?k s = drop (length ?r) (drop p s)" by (simp add: add.commute)
    also have "\<dots> = ?sp @ 44 # b" by (subst t, subst sp) simp
    finally show ?thesis .
  qed
  have m: "match_at re_comma s ?k = Some (mk_match s ?k e [None])"
  proof -
    have "\<forall>c \<in> set ?sp. is_space c" by (auto dest: set_takeWhileD)
    from comma_after_spaces [OF dk this] la show ?thesis by (simp add: e_def add.assoc)
  qed
  have "split_from re_comma s p p = split_from re_comma s p ?k" by (rule split_skip) (use none len la in auto)
  also have "\<dots> = slice s p ?k # split_from re_comma s e e"
    using m len la by (subst split_from.simps) (simp add: mk_match_def e_def)
  also have "slice s p ?k = ?r"
  proof -
    have "slice s p ?k = take (length ?r) (drop p s)" by (simp add: slice_def)
    also have "\<dots> = ?r" by (subst t, subst sp) simp
    finally show ?thesis .
  qed
  finally show "split_from re_comma s p p = ?r # split_from re_comma s e e" .
  have "drop e s = drop (length (takeWhile is_space b)) (drop (length a + 1) (drop p s))"
    by (simp add: e_def algebra_simps)
  also have "\<dots> = lstrip b" by (simp add: t lstrip_def dropWhile_eq_drop)
  finally show "drop e s = lstrip b" .
  show "p < e" by (simp add: e_def)
  show "e \<le> length s" using len length_takeWhile_le [of is_space b] by (simp add: e_def)
qed

lemma split_commas: "p \<le> length s \<Longrightarrow> split_from re_comma s p p = trim_pieces (split_str [44] (drop p s))"
proof (induction "length s - p" arbitrary: p rule: less_induct)
  case less
  show ?case
  proof (cases "44 \<in> set (drop p s)")
    case True
    then obtain a b where t: "drop p s = a @ 44 # b" "44 \<notin> set a" by (meson split_list_first)
    define e where "e = p + length a + 1 + length (takeWhile is_space b)"
    note piece = split_piece [OF t, folded e_def]
    have "split_from re_comma s e e = trim_pieces (split_str [44] (drop e s))"
      by (rule less.hyps) (use piece(3,4) in auto)
    moreover obtain y ys where y: "split_str [44] b = y # ys" using split_str_nonempty [of "[44]" b] by (cases "split_str [44] b") auto
    ultimately show ?thesis using piece(1,2) t by (simp add: split_lstrip split_single_append)
  next
    case False
    have none: "match_at re_comma s i = None" if "p \<le> i" for i
    proof -
      have "s ! j \<noteq> 44" if "j < length s" "p \<le> j" for j
      proof -
        have "drop p s ! (j - p) \<in> set (drop p s)" using that by (intro nth_mem) auto
        with False that show ?thesis by auto
      qed
      then show ?thesis using \<open>p \<le> i\<close> by (auto simp: match_comma Let_def)
    qed
    have "split_from re_comma s p p = split_from re_comma s p (length s)"
      by (rule split_skip) (use none less.prems in auto)
    also have "\<dots> = [drop p s]" by (subst split_from.simps) simp
    finally show ?thesis using False by (simp add: split_single_none)
  qed
qed

end
