(* ===== verification/Sh3Params.thy ===== *)
theory Sh3Params
  imports Sh3Html RegexFirst TongjiVisits CommaSplit "HOL-Library.AList"
begin

text \<open>
  SyntaxHighlighter 3 (\<open>shCore(1).js\<close>), the parameters of a block: \<open>parseParams\<close> (\<open>E\<close>), which reads them
  from a class attribute such as \<^verbatim>\<open>brush: cpp; first-line: 10; highlight: [2, 4]\<close>, \<open>merge\<close> (\<open>p\<close>),
  \<open>toBoolean\<close> (\<open>d\<close>), \<open>getParam\<close>, and the ways in which the code reads a value (as a truth value,
  compared with 1 or 0, as a number, as a text).
\<close>

section \<open>Values\<close>

text \<open>\<open>Inherited k\<close> is what an object literal inherits under the name \<open>k\<close>.\<close>

datatype pval = PNull | PBool bool | PNum nat | PStr jsstr | PList "jsstr list" | Inherited jsstr

type_synonym params = "(jsstr \<times> pval) list"

definition inherited_names :: "jsstr list" where
  "inherited_names = map lit [''constructor'', ''hasOwnProperty'', ''isPrototypeOf'', ''propertyIsEnumerable'',
     ''toLocaleString'', ''toString'', ''valueOf'', ''__proto__'', ''__defineGetter__'', ''__defineSetter__'',
     ''__lookupGetter__'', ''__lookupSetter__'']"

definition pval_text :: "pval \<Rightarrow> jsstr" where
  "pval_text v =
     (case v of
        PNull \<Rightarrow> lit ''null'' | PBool b \<Rightarrow> (if b then lit ''true'' else lit ''false'') | PNum n \<Rightarrow> nat_digits n
      | PStr s \<Rightarrow> s | PList xs \<Rightarrow> join (lit '','') xs
      | Inherited k \<Rightarrow> if k = lit ''__proto__'' then lit ''[object Object]''
                       else lit ''function '' @ k @ lit ''() { [native code] }'')"

definition truthy3 :: "pval \<Rightarrow> bool" where
  "truthy3 v = (case v of PNull \<Rightarrow> False | PBool b \<Rightarrow> b | PNum n \<Rightarrow> n \<noteq> 0 | PStr s \<Rightarrow> s \<noteq> [] | _ \<Rightarrow> True)"

text \<open>The comparison \<open>n == v\<close> with a number.\<close>

definition loosely :: "rat \<Rightarrow> pval \<Rightarrow> bool" where
  "loosely n v =
     (case v of
        PNull \<Rightarrow> False | PBool b \<Rightarrow> n = (if b then 1 else 0) | PNum k \<Rightarrow> n = of_nat k
      | _ \<Rightarrow> Number (pval_text v) = Num n)"

section \<open>Reading a class attribute\<close>

text \<open>The named groups \<open>name\<close>, \<open>value\<close> and \<open>values\<close> are the groups 1, 2 and 1 of the native expressions.\<close>

definition re_param :: regexp where
  \<open>re_param = js_regex (pat ''([`w-]+)`s*:`s*([`w%#-]+|`[.*?`]|".*?"|~.*?~)`s*;?'') (lit ''g'')\<close>

definition re_values :: regexp where
  "re_values = js_regex (pat ''^`[((.*?))`]$'') []"

definition re_quotes :: regexp where
  \<open>re_quotes = js_regex (pat ''^[~"]|[~"]$'') (lit ''g'')\<close>

definition re_list_comma :: regexp where
  "re_list_comma = js_regex (pat ''`s*,`s*'') []"

definition param_value :: "jsstr \<Rightarrow> pval" where
  "param_value v =
     (let l = replace_re v re_quotes (\<lambda>_. [])
      in case fst (exec re_values l) of
           None \<Rightarrow> PStr l
         | Some mt \<Rightarrow>
             (let values = the (group_of mt 1)
              in PList (if 0 < length values then split_from re_list_comma values 0 0 else [])))"

text \<open>
  Storing in the object.  A text stored as \<open>__proto__\<close> is ignored; a list there becomes the prototype, which
  would only add parameters named by numbers, that nothing reads.
\<close>

definition set_param :: "jsstr \<Rightarrow> pval \<Rightarrow> params \<Rightarrow> params" where
  "set_param k v ps = (if k = lit ''__proto__'' then ps else AList.update k v ps)"

section \<open>The expression of a parameter\<close>

abbreviation spaces_regex :: "nat \<Rightarrow> regex" where
  "spaces_regex n \<equiv> RRep 0 None True n n (RClass False [CSpace])"

definition delimited :: "nat \<Rightarrow> nat \<Rightarrow> regex" where
  "delimited a b = RSeq (RChar a) (RSeq (RRep 0 None False 3 3 RAny) (RSeq (RChar b) REmpty))"

definition value_regex :: regex where
  "value_regex =
     RAlt (RSeq (RRep 1 None True 3 3 (RClass False [CWord, CChar 37, CChar 35, CChar 45])) REmpty)
       (RAlt (delimited 91 93) (RAlt (delimited 34 34) (delimited 39 39)))"

lemma re_param_eq:
  "re_param = \<lparr>prog =
     RSeq (RGroup 1 (RSeq (RRep 1 None True 2 2 (RClass False [CWord, CChar 45])) REmpty))
       (RSeq (spaces_regex 2) (RSeq (RChar 58) (RSeq (spaces_regex 2) (RSeq (RGroup 2 value_regex)
         (RSeq (spaces_regex 3) (RSeq (RRep 0 (Some 1) True 3 3 (RChar 59)) REmpty)))))),
     groups = 3, rflags = g_flags, lastIndex = 0\<rparr>"
  by (simp add: re_param_def js_eval value_regex_def delimited_def)

function parse_params_from :: "jsstr \<Rightarrow> nat \<Rightarrow> params \<Rightarrow> params" where
  "parse_params_from s pos ps =
     (case xexec re_param s pos of
        None \<Rightarrow> ps
      | Some mt \<Rightarrow> parse_params_from s (end_pos mt) (set_param (the (group_of mt 1)) (param_value (the (group_of mt 2))) ps))"
  by pat_completeness auto
termination
proof (relation "measure (\<lambda>(s, pos, ps). Suc (length s) - pos)")
  fix s pos mt and ps :: params
  assume "xexec re_param s pos = Some mt"
  then have "pos \<le> start_pos mt" "start_pos mt < end_pos mt" "end_pos mt \<le> length s"
    using xexec_ok [of re_param s pos mt] by (auto simp: ok_match_def re_param_eq)
  then show "((s, end_pos mt, set_param (the (group_of mt 1)) (param_value (the (group_of mt 2))) ps), (s, pos, ps))
      \<in> measure (\<lambda>(s, pos, ps). Suc (length s) - pos)" by simp
qed simp

declare parse_params_from.simps [simp del]

definition parseParams :: "jsstr \<Rightarrow> params" where
  "parseParams s = parse_params_from s 0 []"

section \<open>Matching a parameter\<close>

definition name_char :: "jschar \<Rightarrow> bool" where
  "name_char c \<longleftrightarrow> is_word c \<or> c = 45"

definition value_char :: "jschar \<Rightarrow> bool" where
  "value_char c \<longleftrightarrow> is_word c \<or> c = 37 \<or> c = 35 \<or> c = 45"

lemma single_name: "single s name_char (m g_flags s (RClass False [CWord, CChar 45]))"
  by (auto simp: single_def in_class_def name_char_def)

lemma single_value: "single s value_char (m g_flags s (RClass False [CWord, CChar 37, CChar 35, CChar 45]))"
  by (auto simp: single_def in_class_def value_char_def)

lemma single_blank: "single s is_space (m g_flags s (RClass False [CSpace]))"
  by (auto simp: single_def in_class_def)

lemma single_semicolon: "single s (\<lambda>c. c = 59) (m g_flags s (RChar 59))"
  by (auto simp: single_def canonicalize_def)

text \<open>The forms of a value.\<close>

definition plain_value :: "jsstr \<Rightarrow> bool" where
  "plain_value v \<longleftrightarrow> v \<noteq> [] \<and> list_all value_char v"

definition bracketed :: "jsstr \<Rightarrow> bool" where
  "bracketed v \<longleftrightarrow> (\<exists>u. v = 91 # u @ [93] \<and> 93 \<notin> set u \<and> list_all (\<lambda>c. \<not> is_line_end c) u)"

definition quoted :: "jsstr \<Rightarrow> bool" where
  "quoted v \<longleftrightarrow> (\<exists>u. v = 34 # u @ [34] \<and> 34 \<notin> set u \<and> list_all (\<lambda>c. \<not> is_line_end c) u)"

lemma value_not_special: "\<not> value_char 59" "\<not> value_char 91" "\<not> is_space 59" "\<not> is_space 58" "\<not> name_char 58" "\<not> name_char 32"
  by (simp_all add: value_char_def name_char_def is_word_def is_space_def)

lemma first_plain_value:
  assumes "plain_value v" "drop i s = v @ 59 # t"
  shows "first_end g_flags s value_regex i cs (i + length v) cs"
proof -
  have r: "run s value_char i = length v"
    using assms value_not_special by (intro run_prefix [OF assms(2)]) (auto simp: plain_value_def list_all_iff)
  have "0 < run s value_char i" using assms(1) r by (simp add: plain_value_def)
  from first_plus [OF single_value this, of 3 cs] show ?thesis
    unfolding value_regex_def r by (intro first_Alt_left first_Seq [OF _ first_Empty])
qed

lemma first_delimited:
  assumes "drop i s = a # u @ b # t" "b \<notin> set u" "list_all (\<lambda>c. \<not> is_line_end c) u"
  shows "first_end g_flags s (delimited a b) i cs (i + length u + 2) cs"
proof -
  have d: "i < length s" "s ! i = a" "drop (Suc i) s = u @ b # t"
    using drop_head [OF assms(1)] by auto
  have e: "Suc i + length u < length s" "s ! (Suc i + length u) = b"
    using drop_head [OF drop_shape [OF d(3)]] by auto
  have "s ! (Suc i + k) \<noteq> b" if "k < length u" for k
  proof -
    have "s ! (Suc i + k) = drop (Suc i) s ! k" using d(1) by (intro nth_drop [symmetric]) simp
    also have "\<dots> = u ! k" using that by (simp add: d(3) nth_append)
    finally show ?thesis using that assms(2) by (metis nth_mem)
  qed
  then have no: "m g_flags s (RSeq (RChar b) REmpty) (Suc i + k) cs = []" if "k < length u" for k
    using that by (simp add: canonicalize_def)
  have "length u \<le> run s (\<lambda>c. \<not> is_line_end c) (Suc i)"
    using assms(3) by (simp add: run_def d(3) list_all_iff takeWhile_append2)
  from first_lazy [OF single_RAny this no first_Seq [OF first_Char [OF e] first_Empty]] show ?thesis
    unfolding delimited_def using d(1,2) by (intro first_Seq [OF first_Char]) simp_all
qed

lemma no_plain_value:
  "s ! i = c \<Longrightarrow> \<not> value_char c \<Longrightarrow>
   m g_flags s (RSeq (RRep 1 None True 3 3 (RClass False [CWord, CChar 37, CChar 35, CChar 45])) REmpty) i cs = []"
  by (simp only: m.simps(5) m_plus_greedy [OF single_value]) simp

lemma first_bracketed:
  assumes "bracketed v" "drop i s = v @ t"
  shows "first_end g_flags s value_regex i cs (i + length v) cs"
proof -
  obtain u where v: "v = 91 # u @ [93]" "93 \<notin> set u" "list_all (\<lambda>c. \<not> is_line_end c) u"
    using assms(1) by (auto simp: bracketed_def)
  then have d: "drop i s = 91 # u @ 93 # t" using assms(2) by simp
  have "first_end g_flags s (delimited 91 93) i cs (i + length v) cs"
    using first_delimited [OF d v(2,3)] v(1) by simp
  then show ?thesis
    unfolding value_regex_def using drop_head [OF d] value_not_special(2)
    by (intro first_Alt_right [OF no_plain_value] first_Alt_left) simp_all
qed

lemma first_quoted:
  assumes "quoted v" "drop i s = v @ t"
  shows "first_end g_flags s value_regex i cs (i + length v) cs"
proof -
  obtain u where v: "v = 34 # u @ [34]" "34 \<notin> set u" "list_all (\<lambda>c. \<not> is_line_end c) u"
    using assms(1) by (auto simp: quoted_def)
  then have d: "drop i s = 34 # u @ 34 # t" using assms(2) by simp
  note h = drop_head [OF d]
  have "first_end g_flags s (delimited 34 34) i cs (i + length v) cs"
    using first_delimited [OF d v(2,3)] v(1) by simp
  moreover have "m g_flags s (delimited 91 93) i cs = []" using h by (simp add: delimited_def canonicalize_def)
  ultimately show ?thesis
    unfolding value_regex_def using h
    by (intro first_Alt_right [OF no_plain_value [of s i 34]] first_Alt_right [of g_flags s "delimited 91 93"] first_Alt_left)
      (simp_all add: value_char_def is_word_def)
qed

lemma first_value:
  "plain_value v \<or> bracketed v \<or> quoted v \<Longrightarrow> drop i s = v @ 59 # t \<Longrightarrow> first_end g_flags s value_regex i cs (i + length v) cs"
  using first_plain_value first_bracketed first_quoted by blast

text \<open>One parameter, as a class attribute usually has it: name, colon, blank, value, semicolon.\<close>

definition param_text :: "jsstr \<Rightarrow> jsstr \<Rightarrow> jsstr" where
  "param_text n v = n @ [58, 32] @ v @ [59]"

lemma param_match:
  assumes n: "n \<noteq> []" "list_all name_char n" and v: "plain_value v \<or> bracketed v \<or> quoted v"
    and d: "drop i s = param_text n v @ t"
  shows "match_at re_param s i = Some (mk_match s i (i + length (param_text n v))
    [None, Some (i, i + length n), Some (i + length n + 2, i + length n + 2 + length v)])"
proof -
  let ?b = "i + length n" and ?e = "i + length n + 2 + length v"
  have d0: "drop i s = n @ 58 # 32 # v @ 59 # t" using d by (simp add: param_text_def)
  have d1: "drop ?b s = 58 # 32 # v @ 59 # t" by (rule drop_shape [OF d0])
  note h1 = drop_head [OF d1]
  note h2 = drop_head [of "Suc ?b" s 32 "v @ 59 # t"]
  have d2: "drop (Suc ?b) s = [32] @ v @ 59 # t" using h1 by simp
  have d3: "drop (?b + 2) s = v @ 59 # t" using drop_shape [OF d2] by simp
  have d4: "drop ?e s = 59 # t" by (rule drop_shape [OF d3])
  note h4 = drop_head [OF d4]
  have r1: "run s name_char i = length n"
    using n value_not_special by (intro run_prefix [OF d0]) (auto simp: list_all_iff)
  have r2: "run s is_space ?b = 0" using d1 value_not_special by (simp add: run_def)
  have "v \<noteq> [] \<and> \<not> is_space (hd v)"
    using v by (auto simp: plain_value_def bracketed_def quoted_def value_char_def is_word_def is_space_def neq_Nil_conv)
  then have r3: "run s is_space (Suc ?b) = 1" using run_prefix [OF d2, of is_space] by (simp add: is_space_def)
  have r4: "run s is_space ?e = 0" using d4 value_not_special by (simp add: run_def)
  have p: "0 < run s name_char i" using n r1 by simp
  have "first_end g_flags s (prog re_param) i [None, None, None] (Suc ?e) [None, Some (i, ?b), Some (?b + 2, ?e)]"
    unfolding re_param_eq regexp.simps
  proof (rule first_Seq)
    show "first_end g_flags s (RGroup 1 (RSeq (RRep 1 None True 2 2 (RClass False [CWord, CChar 45])) REmpty)) i
        [None, None, None] ?b [None, Some (i, ?b), None]"
      using first_Group [OF first_Seq [OF first_plus [OF single_name p] first_Empty], of 1 2 "[None, None, None]"] r1 by simp
    show "first_end g_flags s (RSeq (spaces_regex 2) (RSeq (RChar 58) (RSeq (spaces_regex 2) (RSeq (RGroup 2 value_regex)
         (RSeq (spaces_regex 3) (RSeq (RRep 0 (Some 1) True 3 3 (RChar 59)) REmpty)))))) ?b [None, Some (i, ?b), None]
         (Suc ?e) [None, Some (i, ?b), Some (?b + 2, ?e)]"
    proof (intro first_Seq)
      show "first_end g_flags s (spaces_regex 2) ?b [None, Some (i, ?b), None] ?b [None, Some (i, ?b), None]"
        by (rule first_star [OF single_blank]) (simp add: r2)
      show "first_end g_flags s (RChar 58) ?b [None, Some (i, ?b), None] (Suc ?b) [None, Some (i, ?b), None]"
        by (rule first_Char) (use h1 in simp_all)
      show "first_end g_flags s (spaces_regex 2) (Suc ?b) [None, Some (i, ?b), None] (?b + 2) [None, Some (i, ?b), None]"
        by (rule first_star [OF single_blank]) (simp add: r3)
      show "first_end g_flags s (RGroup 2 value_regex) (?b + 2) [None, Some (i, ?b), None] ?e [None, Some (i, ?b), Some (?b + 2, ?e)]"
        using first_Group [OF first_value [OF v d3], of 2 "[None, Some (i, ?b), None]"] by simp
      show "first_end g_flags s (spaces_regex 3) ?e [None, Some (i, ?b), Some (?b + 2, ?e)] ?e [None, Some (i, ?b), Some (?b + 2, ?e)]"
        by (rule first_star [OF single_blank]) (use r4 in simp)
      show "first_end g_flags s (RRep 0 (Some 1) True 3 3 (RChar 59)) ?e [None, Some (i, ?b), Some (?b + 2, ?e)] (Suc ?e)
          [None, Some (i, ?b), Some (?b + 2, ?e)]"
        by (rule first_optional [OF single_semicolon]) (use h4 in simp_all)
    qed (rule first_Empty)
  qed
  then have "match_at re_param s i = Some (mk_match s i (Suc ?e) [None, Some (i, ?b), Some (?b + 2, ?e)])"
    by (intro first_end_match) (simp add: re_param_eq eval_nat_numeral)
  moreover have "Suc ?e = i + length (param_text n v)" by (simp add: param_text_def)
  ultimately show ?thesis by (simp only:)
qed

section \<open>Reading a value\<close>

lemma re_quotes_eq:
  "re_quotes = \<lparr>prog = RAlt (RSeq RBol (RSeq (RClass False [CChar 39, CChar 34]) REmpty))
      (RSeq (RClass False [CChar 39, CChar 34]) (RSeq REol REmpty)), groups = 1, rflags = g_flags, lastIndex = 0\<rparr>"
  by (simp add: re_quotes_def js_eval)

lemma re_values_eq:
  "re_values = \<lparr>prog = RSeq RBol (RSeq (RChar 91)
      (RSeq (RGroup 1 (RSeq (RGroup 2 (RSeq (RRep 0 None False 3 3 RAny) REmpty)) REmpty)) (RSeq (RChar 93) (RSeq REol REmpty)))),
      groups = 3, rflags = no_flags, lastIndex = 0\<rparr>"
  by (simp add: re_values_def js_eval)

lemma re_list_comma_eq: "re_list_comma = re_comma"
  by (simp add: re_list_comma_def re_comma_def)

text \<open>One quotation mark is taken away at each end, whichever the two are.\<close>

definition is_quote :: "jschar \<Rightarrow> bool" where
  "is_quote c \<longleftrightarrow> c = 39 \<or> c = 34"

definition unquote :: "jsstr \<Rightarrow> jsstr" where
  "unquote s = (let t = if s \<noteq> [] \<and> is_quote (hd s) then tl s else s
                in if t \<noteq> [] \<and> is_quote (last t) then butlast t else t)"

lemma match_quote:
  "i \<le> length s \<Longrightarrow> match_at re_quotes s i =
     (if i < length s \<and> is_quote (s ! i) \<and> (i = 0 \<or> Suc i = length s) then Some (mk_match s i (Suc i) [None]) else None)"
  by (simp add: match_at_def re_quotes_eq in_class_def is_quote_def canonicalize_def)

lemma search_quote:
  assumes "0 < i" "i \<le> length s"
  shows "search re_quotes s [i..<Suc (length s)] =
    (if i < length s \<and> is_quote (last s) then Some (mk_match s (length s - 1) (length s) [None]) else None)"
proof (cases "i < length s \<and> is_quote (last s)")
  case True
  then have l: "s ! (length s - 1) = last s" by (intro last_conv_nth [symmetric]) auto
  have u: "[i..<Suc (length s)] = [i..<length s - 1] @ (length s - 1) # [Suc (length s - 1)..<Suc (length s)]"
    using True by (intro upt_split) auto
  have "\<forall>k \<in> set [i..<length s - 1]. match_at re_quotes s k = None" using assms by (fastforce simp: match_quote)
  then have "search re_quotes s [i..<Suc (length s)] = search re_quotes s ((length s - 1) # [Suc (length s - 1)..<Suc (length s)])"
    unfolding u by (rule search_skip)
  moreover have "match_at re_quotes s (length s - 1) = Some (mk_match s (length s - 1) (length s) [None])"
    using True l assms(1) match_quote [of "length s - 1" s] by auto
  ultimately show ?thesis using True by (simp del: upt_Suc)
next
  case False
  have "match_at re_quotes s k = None" if "k \<in> set [i..<Suc (length s)]" for k
  proof -
    have "is_quote (last s)" if "k < length s" "Suc k = length s" "is_quote (s ! k)"
      using that last_conv_nth [of s] by (metis diff_Suc_1 length_0_conv not_less_zero)
    with that assms False show ?thesis by (auto simp: match_quote)
  qed
  then have "search re_quotes s [i..<Suc (length s)] = None" unfolding search_None by blast
  with False show ?thesis by argo
qed

lemma matches_quote:
  assumes "0 < i" "i \<le> length s"
  shows "matches_from re_quotes s i =
    (if i < length s \<and> is_quote (last s) then [mk_match s (length s - 1) (length s) [None]] else [])"
proof -
  have e: "matches_from re_quotes s (length s) = []"
    using search_quote [of "length s" s] assms by (intro matches_from_None) (force simp del: upt_Suc)
  show ?thesis
  proof (cases "i < length s \<and> is_quote (last s)")
    case True
    with matches_from_Some [of s i re_quotes] search_quote [OF assms] e show ?thesis by (auto simp: mk_match_def)
  next
    case False
    then show ?thesis using search_quote [OF assms] by (subst matches_from_None) auto
  qed
qed

lemma splice_quote:
  assumes "i \<le> length s" "0 < i"
  shows "splice_matches s i (matches_from re_quotes s i) (\<lambda>_. []) =
    (let t = drop i s in if t \<noteq> [] \<and> is_quote (last t) then butlast t else t)"
proof -
  have "slice s i (length s - 1) = butlast (drop i s)" by (simp add: slice_def butlast_conv_take)
  then show ?thesis using assms by (auto simp: matches_quote mk_match_def Let_def)
qed

lemma replace_quotes: "replace_re s re_quotes (\<lambda>_. []) = unquote s"
proof (cases s)
  case Nil
  have "matches_from re_quotes [] 0 = []" by (rule matches_from_None) (simp add: match_quote)
  with Nil show ?thesis by (simp add: replace_re_def re_quotes_eq unquote_def)
next
  case (Cons c t)
  have g: "replace_re s re_quotes (\<lambda>_. []) = splice_matches s 0 (matches_from re_quotes s 0) (\<lambda>_. [])"
    by (simp add: replace_re_def re_quotes_eq)
  have u: "[0..<Suc (length s)] = 0 # [1..<Suc (length s)]" by (simp add: upt_rec [of 0] del: upt_Suc)
  show ?thesis
  proof (cases "is_quote c")
    case True
    then have "search re_quotes s [0..<Suc (length s)] = Some (mk_match s 0 1 [None])"
      unfolding u using Cons by (simp add: match_quote del: upt_Suc)
    then have "matches_from re_quotes s 0 = mk_match s 0 1 [None] # matches_from re_quotes s 1"
      using matches_from_Some [of s 0 re_quotes "mk_match s 0 1 [None]"] by (simp add: mk_match_def del: upt_Suc)
    with True Cons g splice_quote [of 1 s] show ?thesis
      by (simp add: unquote_def mk_match_def slice_def)
  next
    case False
    then have "search re_quotes s [0..<Suc (length s)] = search re_quotes s [1..<Suc (length s)]"
      unfolding u using Cons by (simp add: match_quote del: upt_Suc)
    then have "matches_from re_quotes s 0 = matches_from re_quotes s 1"
      using Cons by (subst (1 2) matches_from.simps) (simp del: upt_Suc)
    moreover have "slice s 0 (length s - 1) = butlast s" by (simp add: slice_def butlast_conv_take)
    ultimately show ?thesis using False Cons g by (auto simp: unquote_def mk_match_def matches_quote Let_def)
  qed
qed

text \<open>A list is recognised by its brackets, whatever stands between them on one line.\<close>

definition in_brackets :: "jsstr \<Rightarrow> bool" where
  "in_brackets s \<longleftrightarrow> 2 \<le> length s \<and> hd s = 91 \<and> last s = 93 \<and> list_all (\<lambda>c. \<not> is_line_end c) (butlast (tl s))"

lemma in_brackets_shape: "in_brackets s \<longleftrightarrow> (\<exists>u. s = 91 # u @ [93] \<and> list_all (\<lambda>c. \<not> is_line_end c) u)"
proof
  assume b: "in_brackets s"
  then obtain c t where s: "s = c # t" "t \<noteq> []" by (cases s; cases "tl s") (auto simp: in_brackets_def)
  have "s = 91 # butlast t @ [93]" using b s append_butlast_last_id [OF s(2)] by (simp add: in_brackets_def)
  with b s show "\<exists>u. s = 91 # u @ [93] \<and> list_all (\<lambda>c. \<not> is_line_end c) u"
    by (intro exI [of _ "butlast t"]) (simp add: in_brackets_def)
qed (auto simp: in_brackets_def)

lemma lazy_groups:
  "m no_flags s (RGroup 1 (RSeq (RGroup 2 (RSeq (RRep 0 None False 3 3 RAny) REmpty)) REmpty)) i cs =
     map (\<lambda>k. (i + k, cs[2 := Some (i, i + k), 1 := Some (i, i + k)])) [0..<Suc (run s (\<lambda>c. \<not> is_line_end c) i)]"
  by (simp add: m_star_lazy [OF single_RAny] comp_def concat_map_singleton del: upt_Suc)

lemma exec_values_list:
  assumes "list_all (\<lambda>c. \<not> is_line_end c) u"
  shows "\<exists>mt. fst (exec re_values (91 # u @ [93])) = Some mt \<and> group_of mt 1 = Some u"
proof -
  let ?s = "91 # u @ [93]" and ?cs = "[None, None, None] :: caps"
  let ?n = "length u" and ?f = "\<lambda>k. ?cs[2 := Some (1, 1 + k), 1 := Some (1, 1 + k)]"
  let ?b = "RSeq (RChar 93) (RSeq REol REmpty)"
  have r: "?n \<le> run ?s (\<lambda>c. \<not> is_line_end c) 1"
    using assms by (simp add: run_def list_all_iff takeWhile_append2)
  have "first_end no_flags ?s ?b (1 + ?n) (?f ?n) (2 + ?n) (?f ?n)" by (simp add: first_end_def nth_append)
  moreover have "m no_flags ?s ?b (1 + k) (?f k) = []" if "k < ?n" for k using that by simp
  ultimately have "first_end no_flags ?s (RSeq (RGroup 1 (RSeq (RGroup 2 (RSeq (RRep 0 None False 3 3 RAny) REmpty)) REmpty)) ?b)
      1 ?cs (2 + ?n) (?f ?n)"
    by (intro first_ascending [OF lazy_groups r])
  then have "first_end no_flags ?s (prog re_values) 0 ?cs (2 + ?n) (?f ?n)"
    unfolding re_values_eq by (auto simp: first_end_def)
  then have "match_at re_values ?s 0 = Some (mk_match ?s 0 (2 + ?n) (?f ?n))"
    by (intro first_end_match) (simp add: re_values_eq eval_nat_numeral)
  moreover have "slice ?s 1 (1 + ?n) = u" by (simp add: slice_def)
  ultimately show ?thesis
    by (simp add: exec_def re_values_eq upt_rec [of 0] mk_match_def group_of_def del: upt_Suc)
qed

lemma exec_values_none:
  assumes "\<not> in_brackets s"
  shows "fst (exec re_values s) = None"
proof -
  have "match_at re_values s i = None" for i
  proof (rule ccontr)
    assume "match_at re_values s i \<noteq> None"
    then obtain j cs where "(j, cs) \<in> set (m no_flags s (prog re_values) i (replicate 3 None))"
      by (cases "m no_flags s (prog re_values) i (replicate 3 None)") (auto simp: match_at_def re_values_eq simp del: m.simps)
    then obtain k where i: "i = 0" and h: "s \<noteq> []" "s ! 0 = 91" and k: "k \<le> run s (\<lambda>c. \<not> is_line_end c) 1"
      and e: "1 + k < length s" "s ! (1 + k) = 93" "Suc (1 + k) = length s"
      unfolding re_values_eq regexp.simps m.simps(5) lazy_groups
      by (auto simp: less_Suc_eq_le split: if_splits simp del: upt_Suc)
    have "list_all (\<lambda>c. \<not> is_line_end c) (take k (drop 1 s))"
      using k e(3) run_all [of 1 s "\<lambda>c. \<not> is_line_end c"] by (simp add: list_all_length)
    moreover have "take k (drop 1 s) = butlast (tl s)" using e(3) by (simp add: butlast_conv_take drop_Suc flip: e(3))
    ultimately show False
      using assms h e by (simp add: in_brackets_def hd_conv_nth last_conv_nth flip: e(3))
  qed
  then have "search re_values s xs = None" for xs by (simp add: search_None)
  then show ?thesis by (simp add: exec_def re_values_eq del: upt_Suc)
qed

text \<open>What a value is: a list where the text, less its quotation marks, stands in brackets; otherwise that text.\<close>

definition value_items :: "jsstr \<Rightarrow> jsstr list" where
  "value_items u = (if u = [] then [] else trim_pieces (split_str [44] u))"

lemma param_value_eq:
  "param_value v = (let l = unquote v in if in_brackets l then PList (value_items (butlast (tl l))) else PStr l)"
proof (cases "in_brackets (unquote v)")
  case True
  let ?l = "unquote v"
  let ?u = "butlast (tl ?l)"
  from True have l: "?l = 91 # ?u @ [93]" and u: "list_all (\<lambda>c. \<not> is_line_end c) ?u" by (auto simp: in_brackets_shape)
  obtain mt where "fst (exec re_values ?l) = Some mt" "group_of mt 1 = Some ?u"
    using exec_values_list [OF u] l by metis
  then show ?thesis
    using True split_commas [of 0 ?u] by (simp add: param_value_def replace_quotes value_items_def re_list_comma_eq Let_def)
next
  case False
  then show ?thesis by (simp add: param_value_def replace_quotes exec_values_none)
qed

section \<open>Writing parameters and reading them back\<close>

definition show_pval :: "pval \<Rightarrow> jsstr" where
  "show_pval v =
     (case v of PStr s \<Rightarrow> (if plain_value s then s else 34 # s @ [34])
      | PList xs \<Rightarrow> 91 # join [44, 32] xs @ [93] | _ \<Rightarrow> [])"

definition list_item :: "jsstr \<Rightarrow> bool" where
  "list_item x \<longleftrightarrow> 44 \<notin> set x \<and> 93 \<notin> set x \<and> list_all (\<lambda>c. \<not> is_line_end c) x \<and> lstrip x = x \<and> rstrip x = x"

definition showable :: "pval \<Rightarrow> bool" where
  "showable v \<longleftrightarrow>
     (case v of PStr s \<Rightarrow> 34 \<notin> set s \<and> list_all (\<lambda>c. \<not> is_line_end c) s \<and> \<not> in_brackets s
      | PList xs \<Rightarrow> list_all list_item xs \<and> xs \<noteq> [[]] | _ \<Rightarrow> False)"

definition valid_name :: "jsstr \<Rightarrow> bool" where
  "valid_name n \<longleftrightarrow> n \<noteq> [] \<and> list_all name_char n \<and> n \<noteq> lit ''__proto__''"

definition params_text :: "params \<Rightarrow> jsstr" where
  "params_text ps = join [32] (map (\<lambda>(k, v). param_text k (show_pval v)) ps)"

lemma lstrip_id: "lstrip (c # t) = c # t \<longleftrightarrow> \<not> is_space c"
  by (auto simp: lstrip_def) (metis impossible_Cons length_dropWhile_le)

lemma lstrip_join: "list_item y \<Longrightarrow> lstrip (join [44, 32] (y # ys)) = join [44, 32] (y # ys)"
  by (cases y; cases ys) (simp_all add: list_item_def lstrip_id, simp_all add: lstrip_def is_space_def)

lemma trim_join: "xs \<noteq> [] \<Longrightarrow> list_all list_item xs \<Longrightarrow> trim_pieces (split_str [44] (join [44, 32] xs)) = xs"
proof (induction "[44, 32] :: jsstr" xs rule: join.induct)
  case (3 x y ys)
  let ?j = "join [44, 32] (y # ys)"
  from 3 have x: "44 \<notin> set x" "rstrip x = x" by (auto simp: list_item_def)
  obtain z zs where z: "split_str [44] (32 # ?j) = z # zs"
    using split_str_nonempty [of "[44]"] by (meson list.exhaust not_Cons_self2)
  have "lstrip z # zs = split_str [44] (lstrip (32 # ?j))" by (simp add: split_lstrip z)
  also have "lstrip (32 # ?j) = ?j" using lstrip_join [of y ys] 3(3) by (simp add: lstrip_def is_space_def)
  finally have "trim_pieces (lstrip z # zs) = y # ys" using 3 by simp
  with x z show ?case by (simp add: split_single_append)
qed (auto simp: list_item_def split_single_none)

text \<open>The value that a written value is read as.\<close>

lemma unquote_plain:
  assumes "plain_value s"
  shows "unquote s = s" "\<not> in_brackets s"
proof -
  have "s \<noteq> []" "value_char (hd s)" "value_char (last s)" using assms by (auto simp: plain_value_def list_all_iff)
  moreover have "\<not> value_char 91" "value_char c \<Longrightarrow> \<not> is_quote c" for c
    by (auto simp: value_char_def is_word_def is_quote_def)
  ultimately show "unquote s = s" "\<not> in_brackets s" by (auto simp: unquote_def in_brackets_def)
qed

lemma unquote_quoted: "unquote (34 # s @ [34]) = s"
  by (simp add: unquote_def is_quote_def)

lemma value_items_join: "list_all list_item xs \<Longrightarrow> xs \<noteq> [[]] \<Longrightarrow> value_items (join [44, 32] xs) = xs"
  using trim_join [of xs] by (cases xs; cases "tl xs") (auto simp: value_items_def)

lemma join_line: "list_all list_item xs \<Longrightarrow> 93 \<notin> set (join [44, 32] xs) \<and> list_all (\<lambda>c. \<not> is_line_end c) (join [44, 32] xs)"
  by (induction "[44, 32] :: jsstr" xs rule: join.induct) (auto simp: list_item_def is_line_end_def)

lemma param_value_show: "showable v \<Longrightarrow> param_value (show_pval v) = v"
proof (cases v)
  case (PStr s)
  assume "showable v"
  with PStr show ?thesis
    by (auto simp: param_value_eq show_pval_def showable_def unquote_plain unquote_quoted)
next
  case (PList xs)
  assume "showable v"
  with PList have "list_all list_item xs" "xs \<noteq> [[]]" by (auto simp: showable_def)
  note j = join_line [OF this(1)] value_items_join [OF this]
  let ?t = "91 # join [44, 32] xs @ [93]"
  have "unquote ?t = ?t" by (simp add: unquote_def is_quote_def)
  moreover have "in_brackets ?t" using j(1) by (auto simp: in_brackets_shape)
  ultimately show ?thesis using PList j(2) by (simp add: param_value_eq show_pval_def)
qed (auto simp: showable_def)

lemma show_forms: "showable v \<Longrightarrow> plain_value (show_pval v) \<or> bracketed (show_pval v) \<or> quoted (show_pval v)"
  using join_line by (cases v) (auto simp: showable_def show_pval_def bracketed_def quoted_def)

text \<open>The loop, over one parameter, over the blank between two, and at the end.\<close>

lemma no_param_at:
  assumes "\<not> (i < length s \<and> name_char (s ! i))"
  shows "match_at re_param s i = None"
proof -
  have "m g_flags s (RRep 1 None True 2 2 (RClass False [CWord, CChar 45])) i cs = []" for cs
    unfolding m_plus_greedy [OF single_name] using assms by (rule if_not_P)
  then show ?thesis unfolding match_at_def re_param_eq by simp
qed

lemma parse_step:
  assumes n: "valid_name n" and v: "showable v" and d: "drop i s = param_text n (show_pval v) @ t"
  shows "parse_params_from s i ps = parse_params_from s (i + length (param_text n (show_pval v))) (AList.update n v ps)"
proof -
  let ?v = "show_pval v" and ?b = "i + length n + 2"
  have d0: "drop i s = n @ 58 # 32 # ?v @ 59 # t" using d by (simp add: param_text_def)
  have "slice s i (i + length n) = n" by (rule slice_shape [OF d0])
  moreover have "drop ?b s = ?v @ 59 # t" using drop_shape [of i s "n @ [58, 32]"] d0 by simp
  then have "slice s ?b (?b + length ?v) = ?v" by (rule slice_shape)
  moreover have "i < length s" using d by (cases "i < length s") (auto simp: param_text_def)
  moreover have "match_at re_param s i = Some (mk_match s i (i + length (param_text n ?v))
      [None, Some (i, i + length n), Some (?b, ?b + length ?v)])"
    using n by (intro param_match [OF _ _ show_forms [OF v] d]) (simp_all add: valid_name_def)
  ultimately show ?thesis
    using n param_value_show [OF v]
    by (subst parse_params_from.simps)
      (simp add: xexec_def upt_rec [of i "Suc (length s)"] mk_match_def group_of_def set_param_def valid_name_def del: upt_Suc)
qed

lemma parse_blank:
  assumes "drop i s = 32 # t"
  shows "parse_params_from s i ps = parse_params_from s (Suc i) ps"
proof -
  note h = drop_head [OF assms]
  then have "match_at re_param s i = None" using value_not_special(6) by (intro no_param_at) simp
  then have "xexec re_param s i = xexec re_param s (Suc i)"
    using h by (simp add: xexec_def upt_rec [of i "Suc (length s)"] del: upt_Suc)
  then show ?thesis by (subst (1 2) parse_params_from.simps) simp
qed

lemma parse_end: "parse_params_from s (length s) ps = ps"
  by (subst parse_params_from.simps) (simp add: xexec_def no_param_at)

lemma parse_params_text:
  "list_all (\<lambda>(k, v). valid_name k \<and> showable v) qs \<Longrightarrow> i \<le> length s \<Longrightarrow> drop i s = params_text qs \<Longrightarrow>
   parse_params_from s i ps = fold (\<lambda>(k, v). AList.update k v) qs ps"
proof (induction qs arbitrary: i ps)
  case Nil
  then show ?case using parse_end [of s ps] by (simp add: params_text_def)
next
  case (Cons q qs)
  obtain k v where q: "q = (k, v)" by (cases q)
  let ?p = "param_text k (show_pval v)"
  let ?i = "i + length ?p"
  have kv: "valid_name k" "showable v" using Cons.prems q by auto
  show ?case
  proof (cases qs)
    case Nil
    then have d: "drop i s = ?p @ []" using Cons.prems(3) q by (simp add: params_text_def)
    then have "length s - i = length ?p" by (metis append_Nil2 length_drop)
    then have "?i = length s" using Cons.prems(2) by simp
    with parse_step [OF kv d] parse_end [of s] Nil q show ?thesis by simp
  next
    case (Cons q' qs')
    have d: "drop i s = ?p @ 32 # params_text qs"
      using Cons.prems(3) q by (simp add: params_text_def Cons)
    note b = drop_shape [OF d]
    note h = drop_head [OF b]
    have "parse_params_from s i ps = parse_params_from s (Suc ?i) (AList.update k v ps)"
      using parse_step [OF kv d] parse_blank [OF b] by simp
    then show ?thesis using Cons.IH [of "Suc ?i"] Cons.prems(1) h q by simp
  qed
qed

lemma update_distinct: "distinct (map fst (ps @ qs)) \<Longrightarrow> fold (\<lambda>(k, v). AList.update k v) qs ps = ps @ qs"
proof (induction qs arbitrary: ps)
  case (Cons q qs)
  obtain k v where q: "q = (k, v)" by (cases q)
  have "k \<notin> fst ` set ps" using Cons.prems q by auto
  then have "AList.update k v ps = ps @ [(k, v)]" by (induction ps) auto
  then show ?case using Cons.IH [of "ps @ [(k, v)]"] Cons.prems q by simp
qed simp

lemma parse_text_fold:
  "list_all (\<lambda>(k, v). valid_name k \<and> showable v) qs \<Longrightarrow>
   parseParams (params_text qs) = fold (\<lambda>(k, v). AList.update k v) qs []"
  unfolding parseParams_def by (rule parse_params_text) simp_all

lemma parse_text_map:
  assumes "list_all (\<lambda>(k, v). valid_name k \<and> showable v) qs"
  shows "map_of (parseParams (params_text qs)) = map_of (rev qs)"
proof -
  have "map_of (fold (\<lambda>(k, v). AList.update k v) qs ps) = map_of (rev qs @ ps)" for ps
    by (induction qs arbitrary: ps) (auto simp: update_conv' split_beta)
  then show ?thesis unfolding parse_text_fold [OF assms] by simp
qed

lemma parse_text:
  "list_all (\<lambda>(k, v). valid_name k \<and> showable v) qs \<Longrightarrow> distinct (map fst qs) \<Longrightarrow> parseParams (params_text qs) = qs"
  using parse_text_fold update_distinct [of "[]" qs] by simp

text \<open>
  C12: writing parameters and reading them with \<open>parseParams\<close> gives them back, a later parameter winning over an
  earlier one of the same name: for names of letters, digits, underscores and hyphens other than \<open>__proto__\<close>, for
  texts on one line without double quotation marks that do not themselves stand in brackets, and for lists of trimmed
  items without commas and closing brackets.
\<close>

theorem parse_params_roundtrip:
  assumes "list_all (\<lambda>(k, v). valid_name k \<and> showable v) qs"
  shows "map_of (parseParams (params_text qs)) = map_of (rev qs) \<and>
    (distinct (map fst qs) \<longrightarrow> parseParams (params_text qs) = qs)"
  using parse_text_map [OF assms] parse_text [OF assms] by simp

definition sample_params :: params where
  "sample_params = [(lit ''brush'', PStr (lit ''cpp'')), (lit ''highlight'', PList [lit ''2'', lit ''14'']),
     (lit ''title'', PStr (lit ''a b''))]"

lemmas params_eval = valid_name_def showable_def show_pval_def plain_value_def in_brackets_def list_item_def
  params_text_def param_text_def name_char_def value_char_def is_word_def is_line_end_def is_space_def lstrip_def rstrip_def js_eval

lemma parse_params_roundtrip_witness:
  "parseParams (params_text sample_params) = sample_params \<and>
   params_text sample_params = lit ''brush: cpp; highlight: [2, 14]; title: '' @ [34] @ lit ''a b'' @ [34, 59]"
  using parse_params_roundtrip [of sample_params]
  by (simp add: sample_params_def params_eval)

end
