(* ===== verification/Sh3Options.thy ===== *)
theory Sh3Options
  imports Sh3Params
begin

text \<open>
  SyntaxHighlighter 3 (\<open>shCore(1).js\<close>), from the parameters of a block to the values that the markup uses:
  \<open>merge\<close> (\<open>p\<close>), \<open>toBoolean\<close> (\<open>d\<close>), \<open>defaults\<close>, \<open>getParam\<close>, \<open>init\<close>, and the ways in which \<open>getHtml\<close>
  and its helpers read a value: as a truth value, compared with 1 or 0, with \<open>parseInt\<close>, as a number, as a text.
\<close>

section \<open>Objects\<close>

definition merge3 :: "params \<Rightarrow> params \<Rightarrow> params" where
  "merge3 a b = fold (\<lambda>(k, v). set_param k v) b (fold (\<lambda>(k, v). set_param k v) a [])"

text \<open>Reading a property: \<open>PNull\<close> is also what a missing one gives.\<close>

definition lookup3 :: "params \<Rightarrow> jsstr \<Rightarrow> pval" where
  "lookup3 ps k =
     (case map_of ps k of
        Some v \<Rightarrow> v
      | None \<Rightarrow> if List.member inherited_names k then Inherited k else PNull)"

text \<open>
  \<open>toBoolean\<close> looks the value up in an object literal, which has every text as a key and inherits some.
\<close>

definition toBoolean :: "pval \<Rightarrow> pval" where
  "toBoolean v =
     (let k = pval_text v
      in if k = lit ''true'' then PBool True
         else if k = lit ''false'' then PBool False
         else if List.member inherited_names k then Inherited k else v)"

definition getParam :: "params \<Rightarrow> jsstr \<Rightarrow> pval \<Rightarrow> pval" where
  "getParam ps k dflt = (let n = lookup3 ps k in toBoolean (if n = PNull then dflt else n))"

definition param_defaults :: params where
  "param_defaults =
     [(lit ''class-name'', PStr []), (lit ''first-line'', PNum 1), (lit ''pad-line-numbers'', PBool False),
      (lit ''highlight'', PNull), (lit ''title'', PNull), (lit ''smart-tabs'', PBool True), (lit ''tab-size'', PNum 4),
      (lit ''gutter'', PBool True), (lit ''toolbar'', PBool True), (lit ''quick-code'', PBool True),
      (lit ''collapse'', PBool False), (lit ''auto-links'', PBool True), (lit ''light'', PBool False),
      (lit ''unindent'', PBool True), (lit ''html-script'', PBool False)]"

definition is_light :: "params \<Rightarrow> bool" where
  "is_light ps \<longleftrightarrow> loosely 1 (getParam ps (lit ''light'') PNull)"

definition init_params :: "params \<Rightarrow> params" where
  "init_params c =
     (let ps = merge3 param_defaults c
      in if is_light ps
         then set_param (lit ''toolbar'') (PBool False) (set_param (lit ''gutter'') (PBool False) ps)
         else ps)"

section \<open>Reading values\<close>

definition to_number :: "pval \<Rightarrow> js_num" where
  "to_number v =
     (case v of PNull \<Rightarrow> Num 0 | PBool b \<Rightarrow> Num (if b then 1 else 0) | PNum n \<Rightarrow> Num (of_nat n)
      | _ \<Rightarrow> Number (pval_text v))"

text \<open>
  The width of a tab.  A number below 0, and what is not a number, gives no blanks, like 0.  \<open>None\<close>: a fraction,
  or infinity, with which the loop that writes the blanks would not end.
\<close>

definition read_tab :: "pval \<Rightarrow> nat option" where
  "read_tab v =
     (case to_number v of
        NaN \<Rightarrow> Some 0
      | Num q \<Rightarrow> if of_int \<lfloor>q\<rfloor> = q then Some (nat \<lfloor>q\<rfloor>) else None
      | Infinite p \<Rightarrow> if p then None else Some 0)"

text \<open>The width of line numbers; \<open>None\<close>: infinity, to which \<open>padNumber\<close> never fills up.\<close>

definition read_padding :: "pval \<Rightarrow> padding option" where
  "read_padding v =
     (if loosely 1 v then Some PadAuto
      else case to_number v of
             NaN \<Rightarrow> Some (PadTo 0)
           | Num q \<Rightarrow> Some (PadTo (nat \<lceil>q\<rceil>))
           | Infinite p \<Rightarrow> if p then None else Some (PadTo 0))"

text \<open>
  The marked lines, which are compared with the texts of line numbers.  What is not an object is put in a list; the
  value true equals the text 1 and false the text 0; an object without a length has no items.
\<close>

definition read_marked :: "pval \<Rightarrow> jsstr list" where
  "read_marked v =
     (case v of
        PNull \<Rightarrow> [] | PBool b \<Rightarrow> [if b then lit ''1'' else lit ''0''] | PNum n \<Rightarrow> [nat_digits n] | PStr s \<Rightarrow> [s]
      | PList xs \<Rightarrow> xs | Inherited k \<Rightarrow> if k = lit ''__proto__'' then [] else [pval_text v])"

text \<open>A title that counts as true but has no text (an empty list) would give an empty caption.\<close>

definition read_title :: "pval \<Rightarrow> jsstr option" where
  "read_title v = (if truthy3 v then (if pval_text v = [] then None else Some (pval_text v)) else Some [])"

definition read_params :: "params \<Rightarrow> params3 option" where
  "read_params ps =
     (let get = (\<lambda>k. getParam ps (lit k) PNull); class_value = get ''class-name''; gutter = get ''gutter''
      in case (read_padding (get ''pad-line-numbers''), read_title (get ''title''), read_tab (get ''tab-size'')) of
           (Some pad, Some title, Some tab) \<Rightarrow>
             Some \<lparr>brush_name = pval_text (getParam ps (lit ''brush'') (PStr [])),
               class_name = (if class_value = PNull then [] else pval_text class_value),
               first_line = parseInt (pval_text (get ''first-line'')), pad_line_numbers = pad,
               marked_lines = read_marked (getParam ps (lit ''highlight'') (PList [])), block_title = title,
               smart_tabs = loosely 1 (get ''smart-tabs''), tab_size = tab,
               with_gutter = truthy3 gutter, no_gutter = loosely 0 gutter, with_toolbar = truthy3 (get ''toolbar''),
               collapsed = loosely 1 (get ''collapse''), auto_links = truthy3 (get ''auto-links''), light = is_light ps,
               unindented = truthy3 (get ''unindent'')\<rparr>
         | _ \<Rightarrow> None)"

section \<open>What a block is given\<close>

lemma map_of_fold_set:
  "k \<noteq> lit ''__proto__'' \<Longrightarrow>
   map_of (fold (\<lambda>(k, v). set_param k v) b ps) k = (case map_of (rev b) k of Some v \<Rightarrow> Some v | None \<Rightarrow> map_of ps k)"
  by (induction b arbitrary: ps) (auto simp: set_param_def update_conv' map_add_def split: option.splits)

lemma lookup_merge:
  "k \<noteq> lit ''__proto__'' \<Longrightarrow>
   lookup3 (merge3 a b) k = (case map_of (rev b) k of Some v \<Rightarrow> v | None \<Rightarrow> lookup3 (rev a) k)"
  by (auto simp: lookup3_def merge3_def map_of_fold_set split: option.splits)

lemma lookup_set:
  "k' \<noteq> lit ''__proto__'' \<Longrightarrow> lookup3 (set_param k' v ps) k = (if k = k' then v else lookup3 ps k)"
  by (simp add: lookup3_def set_param_def update_conv')

text \<open>The value of an option: what the block says, or the default, with the texts true and false as truth values.\<close>

definition option_of :: "params \<Rightarrow> jsstr \<Rightarrow> pval \<Rightarrow> pval" where
  "option_of c k dflt = toBoolean (case map_of (rev c) k of Some v \<Rightarrow> v | None \<Rightarrow> dflt)"

lemma get_init:
  assumes "k \<noteq> lit ''__proto__''" "lookup3 (rev param_defaults) k = dflt" "map_of (rev c) k \<noteq> Some PNull"
    and "\<not> is_light (merge3 param_defaults c) \<or> k \<noteq> lit ''gutter'' \<and> k \<noteq> lit ''toolbar''"
  shows "getParam (init_params c) k d = option_of c k (if dflt = PNull then d else dflt)"
proof -
  have "lit ''gutter'' \<noteq> lit ''__proto__''" "lit ''toolbar'' \<noteq> lit ''__proto__''" by (simp_all add: lit_def)
  then have "lookup3 (init_params c) k = lookup3 (merge3 param_defaults c) k"
    using assms(4) by (auto simp: init_params_def Let_def lookup_set)
  then show ?thesis
    using assms(2,3) by (auto simp: getParam_def lookup_merge [OF assms(1)] option_of_def Let_def split: option.splits)
qed

lemma lit_inject: "lit a = lit b \<longleftrightarrow> a = b"
  by (simp add: lit_def inj_map_eq_map inj_on_def)

lemma default_lookup:
  "lookup3 (rev param_defaults) (lit ''class-name'') = PStr []"
  "lookup3 (rev param_defaults) (lit ''first-line'') = PNum 1"
  "lookup3 (rev param_defaults) (lit ''pad-line-numbers'') = PBool False"
  "lookup3 (rev param_defaults) (lit ''highlight'') = PNull"
  "lookup3 (rev param_defaults) (lit ''title'') = PNull"
  "lookup3 (rev param_defaults) (lit ''smart-tabs'') = PBool True"
  "lookup3 (rev param_defaults) (lit ''tab-size'') = PNum 4"
  "lookup3 (rev param_defaults) (lit ''gutter'') = PBool True"
  "lookup3 (rev param_defaults) (lit ''toolbar'') = PBool True"
  "lookup3 (rev param_defaults) (lit ''collapse'') = PBool False"
  "lookup3 (rev param_defaults) (lit ''auto-links'') = PBool True"
  "lookup3 (rev param_defaults) (lit ''light'') = PBool False"
  "lookup3 (rev param_defaults) (lit ''unindent'') = PBool True"
  "lookup3 (rev param_defaults) (lit ''brush'') = PNull"
  by (simp_all add: lookup3_def param_defaults_def inherited_names_def lit_inject)

lemma light_init:
  assumes "\<forall>k. map_of (rev c) k \<noteq> Some PNull"
  shows "is_light (init_params c) = loosely 1 (option_of c (lit ''light'') (PBool False))"
    and "is_light (merge3 param_defaults c) = loosely 1 (option_of c (lit ''light'') (PBool False))"
proof -
  have "getParam (init_params c) (lit ''light'') PNull = option_of c (lit ''light'') (PBool False)"
    using get_init [of "lit ''light''" "PBool False" c PNull] assms by (simp add: lit_inject default_lookup)
  then show "is_light (init_params c) = loosely 1 (option_of c (lit ''light'') (PBool False))" by (simp add: is_light_def)
  have "getParam (merge3 param_defaults c) (lit ''light'') PNull = option_of c (lit ''light'') (PBool False)"
    using lookup_merge [of "lit ''light''" param_defaults c] assms
    by (auto simp: getParam_def option_of_def default_lookup lit_inject Let_def split: option.splits)
  then show "is_light (merge3 param_defaults c) = loosely 1 (option_of c (lit ''light'') (PBool False))" by (simp add: is_light_def)
qed

lemma gutter_init:
  assumes "\<forall>k. map_of (rev c) k \<noteq> Some PNull" and k: "k = lit ''gutter'' \<or> k = lit ''toolbar''"
  shows "getParam (init_params c) k PNull =
    (if loosely 1 (option_of c (lit ''light'') (PBool False)) then PBool False else option_of c k (PBool True))"
proof (cases "is_light (merge3 param_defaults c)")
  case True
  have "toBoolean (PBool False) = PBool False" by (simp add: toBoolean_def pval_text_def lit_inject)
  with True k have "getParam (init_params c) k PNull = PBool False"
    by (auto simp: getParam_def init_params_def lookup_set lit_inject)
  then show ?thesis using True light_init(2) [OF assms(1)] by simp
next
  case False
  then have "getParam (init_params c) k PNull = option_of c k (PBool True)"
    using k assms(1) by (subst get_init [where dflt = "PBool True"]) (auto simp: default_lookup lit_inject)
  then show ?thesis using False light_init(2) [OF assms(1)] by simp
qed

text \<open>Whatever the class attribute is, its parameters have distinct names and are not null.\<close>

definition proper_params :: "params \<Rightarrow> bool" where
  "proper_params ps \<longleftrightarrow> distinct (map fst ps) \<and> list_all (\<lambda>(k, v). k \<noteq> lit ''__proto__'' \<and> v \<noteq> PNull) ps"

lemma proper_update:
  assumes "proper_params ps" "v \<noteq> PNull"
  shows "proper_params (set_param k v ps)"
proof -
  have "list_all (\<lambda>(k, v). k \<noteq> lit ''__proto__'' \<and> v \<noteq> PNull) (AList.update k v ps)" if "k \<noteq> lit ''__proto__''"
    using that assms by (induction ps) (auto simp: proper_params_def)
  then show ?thesis using assms(1) distinct_update [of ps k v] by (auto simp: proper_params_def set_param_def)
qed

lemma param_value_not_null: "param_value v \<noteq> PNull"
  by (simp add: param_value_eq Let_def)

lemma proper_parse_from: "proper_params ps \<Longrightarrow> proper_params (parse_params_from s i ps)"
proof (induction s i ps rule: parse_params_from.induct)
  case (1 s pos ps)
  have "proper_params (parse_params_from s (end_pos mt) (set_param (the (group_of mt 1)) (param_value (the (group_of mt 2))) ps))"
    if "xexec re_param s pos = Some mt" for mt
    using "1.IH" [OF that] proper_update [OF "1.prems" param_value_not_null] .
  with "1.prems" show ?case by (subst parse_params_from.simps) (simp split: option.split)
qed

lemma proper_parse: "proper_params (parseParams s)"
  unfolding parseParams_def by (rule proper_parse_from) (simp add: proper_params_def)

lemma proper_rev:
  assumes "proper_params ps"
  shows "map_of (rev ps) = map_of ps" "\<forall>k. map_of (rev ps) k \<noteq> Some PNull"
proof -
  have "distinct (map fst ps)" "distinct (map fst (rev ps))" using assms by (simp_all add: proper_params_def rev_map [symmetric])
  then have "map_of (rev ps) k = map_of ps k" for k
    by (metis map_of_eq_None_iff map_of_eq_Some_iff not_None_eq set_rev)
  then show r: "map_of (rev ps) = map_of ps" by (rule ext)
  show "\<forall>k. map_of (rev ps) k \<noteq> Some PNull"
    unfolding r using assms by (auto simp: proper_params_def list_all_iff dest!: map_of_SomeD)
qed

lemma option_of_text:
  assumes "list_all (\<lambda>(k, v). valid_name k \<and> showable v) qs"
  shows "option_of (parseParams (params_text qs)) = option_of qs"
proof -
  have "map_of (parseParams (params_text qs)) = map_of (rev qs)" by (rule parse_text_map [OF assms])
  then have "map_of (rev (parseParams (params_text qs))) = map_of (rev qs)"
    using proper_rev(1) [OF proper_parse] by simp
  then show ?thesis by (intro ext) (simp add: option_of_def)
qed

text \<open>The options whose reading may fail.\<close>

lemma readable_init:
  assumes "proper_params c"
  shows "(\<exists>r. read_params (init_params c) = Some r) \<longleftrightarrow>
    read_padding (option_of c (lit ''pad-line-numbers'') (PBool False)) \<noteq> None \<and>
    read_title (option_of c (lit ''title'') PNull) \<noteq> None \<and> read_tab (option_of c (lit ''tab-size'') (PNum 4)) \<noteq> None"
proof -
  have g: "getParam (init_params c) k PNull = option_of c k dflt"
    if "lookup3 (rev param_defaults) k = dflt" "k \<noteq> lit ''__proto__''" "k \<noteq> lit ''gutter''" "k \<noteq> lit ''toolbar''" for k dflt
    using get_init [OF that(2,1), of c PNull] proper_rev(2) [OF assms] that(3,4) by auto
  note g = g [OF default_lookup(3)] g [OF default_lookup(5)] g [OF default_lookup(7)]
  show ?thesis by (auto simp: read_params_def Let_def g lit_inject split: option.splits)
qed

section \<open>Properties\<close>

text \<open>
  C13: the options of a block whose parameters can be read (\<open>readable_init\<close> says when).  Written in a class attribute and read by \<open>parseParams\<close>, merged with the defaults by \<open>init\<close>
  and read by \<open>getParam\<close>, each option reaches the markup with the value that the attribute gives, the last one if it
  gives several, and otherwise with its default; the option \<open>light\<close> takes gutter and toolbar away whatever
  the attribute says of them.
\<close>

theorem options_reach_block:
  assumes "list_all (\<lambda>(k, v). valid_name k \<and> showable v) qs"
    and "read_params (init_params (parseParams (params_text qs))) = Some r"
  shows "brush_name r = pval_text (option_of qs (lit ''brush'') (PStr [])) \<and>
    class_name r = (case option_of qs (lit ''class-name'') (PStr []) of PNull \<Rightarrow> [] | v \<Rightarrow> pval_text v) \<and>
    first_line r = parseInt (pval_text (option_of qs (lit ''first-line'') (PNum 1))) \<and>
    marked_lines r = read_marked (option_of qs (lit ''highlight'') (PList [])) \<and>
    Some (block_title r) = read_title (option_of qs (lit ''title'') PNull) \<and>
    Some (tab_size r) = read_tab (option_of qs (lit ''tab-size'') (PNum 4)) \<and>
    Some (pad_line_numbers r) = read_padding (option_of qs (lit ''pad-line-numbers'') (PBool False)) \<and>
    smart_tabs r = loosely 1 (option_of qs (lit ''smart-tabs'') (PBool True)) \<and>
    collapsed r = loosely 1 (option_of qs (lit ''collapse'') (PBool False)) \<and>
    auto_links r = truthy3 (option_of qs (lit ''auto-links'') (PBool True)) \<and>
    unindented r = truthy3 (option_of qs (lit ''unindent'') (PBool True)) \<and>
    light r = loosely 1 (option_of qs (lit ''light'') (PBool False)) \<and>
    with_gutter r = (\<not> light r \<and> truthy3 (option_of qs (lit ''gutter'') (PBool True))) \<and>
    no_gutter r = (light r \<or> loosely 0 (option_of qs (lit ''gutter'') (PBool True))) \<and>
    with_toolbar r = (\<not> light r \<and> truthy3 (option_of qs (lit ''toolbar'') (PBool True)))"
proof -
  let ?c = "parseParams (params_text qs)"
  note nn = proper_rev(2) [OF proper_parse, of "params_text qs"]
  note o = option_of_text [OF assms(1)]
  have g: "getParam (init_params ?c) k d = option_of qs k (if dflt = PNull then d else dflt)"
    if "lookup3 (rev param_defaults) k = dflt" "k \<noteq> lit ''__proto__''" "k \<noteq> lit ''gutter''" "k \<noteq> lit ''toolbar''" for k d dflt
    using get_init [OF that(2,1), of ?c d] nn that(3,4) o by simp
  note g = g [OF default_lookup(1)] g [OF default_lookup(14)] g [OF default_lookup(2)] g [OF default_lookup(3)] g [OF default_lookup(4)] g [OF default_lookup(5)]
    g [OF default_lookup(6)] g [OF default_lookup(7)] g [OF default_lookup(10)] g [OF default_lookup(11)] g [OF default_lookup(13)]
  note l = light_init(1) [OF nn, unfolded o] gutter_init [OF nn, unfolded o]
  have t: "truthy3 (PBool False) = False" "loosely 0 (PBool False)" by (simp_all add: truthy3_def loosely_def)
  from assms(2) show ?thesis
    by (auto simp: read_params_def Let_def g l t lit_inject split: option.splits if_splits pval.splits)
qed

definition sample_options :: params where
  "sample_options = [(lit ''brush'', PStr (lit ''cpp'')), (lit ''first-line'', PStr (lit ''10'')), (lit ''gutter'', PStr (lit ''false'')),
     (lit ''highlight'', PList [lit ''11'', lit ''12''])]"

lemma sample_options_ok: "list_all (\<lambda>(k, v). valid_name k \<and> showable v) sample_options"
  by (simp add: sample_options_def params_eval)

lemma sample_option:
  "option_of sample_options (lit ''brush'') (PStr []) = PStr (lit ''cpp'')" "option_of sample_options (lit ''class-name'') (PStr []) = PStr []"
  "option_of sample_options (lit ''first-line'') (PNum 1) = PStr (lit ''10'')"
  "option_of sample_options (lit ''gutter'') (PBool True) = PBool False"
  "option_of sample_options (lit ''toolbar'') (PBool True) = PBool True"
  "option_of sample_options (lit ''light'') (PBool False) = PBool False"
  "option_of sample_options (lit ''highlight'') (PList []) = PList [lit ''11'', lit ''12'']"
  "option_of sample_options (lit ''title'') PNull = PNull"
  "option_of sample_options (lit ''tab-size'') (PNum 4) = PNum 4"
  "option_of sample_options (lit ''pad-line-numbers'') (PBool False) = PBool False"
  by (simp_all add: option_of_def sample_options_def lit_inject toBoolean_def pval_text_def inherited_names_def Let_def js_eval)

lemma sample_options_read:
  "\<exists>r. read_params (init_params (parseParams (params_text sample_options))) = Some r"
  by (subst readable_init [OF proper_parse])
    (simp add: option_of_text [OF sample_options_ok] sample_option read_padding_def read_title_def read_tab_def
      loosely_def to_number_def truthy3_def)

lemma options_reach_block_witness:
  "\<exists>r. read_params (init_params (parseParams (params_text sample_options))) = Some r \<and>
     brush_name r = lit ''cpp'' \<and> class_name r = [] \<and> first_line r = Some 10 \<and> \<not> with_gutter r \<and> no_gutter r \<and> with_toolbar r \<and> marked_lines r = [lit ''11'', lit ''12'']"
proof -
  obtain r where r: "read_params (init_params (parseParams (params_text sample_options))) = Some r"
    using sample_options_read by blast
  have "parseInt (lit ''10'') = Some 10" by (simp add: parseInt_def parse_number_def parse_digits_def lit_def is_digit_def is_space_def digit_value_def)
  with r options_reach_block [OF sample_options_ok r] show ?thesis
    by (simp add: sample_option [unfolded One_nat_def] pval_text_def truthy3_def loosely_def read_marked_def)
qed

text \<open>The gutter \<open>0\<close> is shown, and the block has the class \<open>nogutter\<close> all the same.\<close>

theorem gutter_zero:
  "\<exists>r. read_params (init_params [(lit ''gutter'', PStr (lit ''0''))]) = Some r \<and> with_gutter r \<and> no_gutter r"
proof -
  let ?c = "[(lit ''gutter'', PStr (lit ''0''))]"
  have p: "proper_params ?c" by (simp add: proper_params_def lit_inject)
  have o: "option_of ?c (lit ''gutter'') (PBool True) = PStr (lit ''0'')" "option_of ?c (lit ''light'') (PBool False) = PBool False"
    "option_of ?c (lit ''title'') PNull = PNull" "option_of ?c (lit ''tab-size'') (PNum 4) = PNum 4"
    "option_of ?c (lit ''pad-line-numbers'') (PBool False) = PBool False"
    by (simp_all add: option_of_def lit_inject toBoolean_def pval_text_def inherited_names_def Let_def js_eval)
  obtain r where r: "read_params (init_params ?c) = Some r"
    using readable_init [OF p] by (auto simp: o read_padding_def read_title_def read_tab_def loosely_def to_number_def truthy3_def)
  have g: "getParam (init_params ?c) (lit ''gutter'') PNull = PStr (lit ''0'')"
    using gutter_init [OF proper_rev(2) [OF p]] by (simp add: o loosely_def)
  have "Number (lit ''0'') = Num 0"
    by (simp add: Number_def decimal_def lit_def is_space_def is_digit_def digit_value_def)
  then have "truthy3 (PStr (lit ''0''))" "loosely 0 (PStr (lit ''0''))"
    by (simp_all add: truthy3_def loosely_def pval_text_def lit_def)
  with r g show ?thesis by (auto simp: read_params_def Let_def split: option.splits)
qed

end
