(* ===== verification/Sh3Page.thy ===== *)
theory Sh3Page
  imports Sh3Options
begin

text \<open>
  SyntaxHighlighter 3 (\<open>shCore(1).js\<close>), the page: \<open>findBrush\<close> (\<open>b\<close>) with its table of aliases, \<open>getSyntaxHighlighterScriptTags\<close>
  (\<open>A\<close>), \<open>findElements\<close>, \<open>highlight\<close>, and \<open>init\<close> and \<open>getDiv\<close> of a highlighter.
\<close>

section \<open>State\<close>

record elem3 =
  tag3 :: jsstr
  type3 :: jsstr
  class3 :: jsstr
  title3 :: jsstr
  id3 :: jsstr
  inner3 :: jsstr

text \<open>The element that takes the place of a block: the id it takes over, its markup, its handlers.\<close>

record div3 =
  div_id :: jsstr
  div_html :: jsstr
  toolbar_click :: bool
  code_dblclick :: bool

datatype item3 = Elem elem3 | Block div3

text \<open>
  \<open>vars\<close>: the table of aliases, filled at the first search, and the highlighters under their ids; \<open>drawn\<close> counts the
  random numbers that \<open>guid\<close> (\<open>f\<close>) has taken.
\<close>

record page3 =
  nodes3 :: "item3 list"
  discoveredBrushes :: "(jsstr \<times> jsstr) list option"
  highlighters :: "(jsstr \<times> params) list"
  drawn :: nat

record env3 =
  config3 :: sh3_config
  is_ie :: bool
  brushes3 :: "(jsstr \<times> brush3) list"
  random3 :: "nat \<Rightarrow> nat"

text \<open>
  How a pass ends: \<open>Raised\<close> with a \<open>TypeError\<close>, \<open>Unread\<close> with a parameter that \<open>read_params\<close> does not read or
  a brush whose matches are never all collected.
\<close>

datatype ending3 = Done | Raised | Unread

section \<open>Brushes\<close>

definition discover :: "(jsstr \<times> brush3) list \<Rightarrow> (jsstr \<times> jsstr) list" where
  "discover bs = fold (\<lambda>(k, b) n. fold (\<lambda>a. AList.update a k) (aliases3 b) n) bs []"

definition findBrush :: "env3 \<Rightarrow> pval \<Rightarrow> page3 \<Rightarrow> brush3 option \<times> page3" where
  "findBrush env alias pg =
     (let n = (case discoveredBrushes pg of Some n \<Rightarrow> n | None \<Rightarrow> discover (brushes3 env))
      in (Option.bind (map_of n (pval_text alias)) (map_of (brushes3 env)), pg\<lparr>discoveredBrushes := Some n\<rparr>))"

section \<open>Elements\<close>

definition positions :: "(elem3 \<Rightarrow> bool) \<Rightarrow> item3 list \<Rightarrow> (nat \<times> elem3) list" where
  "positions P its = List.map_filter (\<lambda>(i, it). case it of Elem e \<Rightarrow> if P e then Some (i, e) else None | Block d \<Rightarrow> None)
     (enumerate 0 its)"

definition scriptTags :: "item3 list \<Rightarrow> (nat \<times> elem3) list" where
  "scriptTags = positions (\<lambda>e. tag3 e = lit ''script'' \<and> type3 e = lit ''syntaxhighlighter'')"

text \<open>An element may be given; the script tags of the page are added to it all the same.\<close>

definition findElements :: "env3 \<Rightarrow> params \<Rightarrow> (nat \<times> elem3) option \<Rightarrow> item3 list \<Rightarrow> (nat \<times> elem3 \<times> params) list" where
  "findElements env globals given its =
     (let els = (case given of Some t \<Rightarrow> [t] | None \<Rightarrow> positions (\<lambda>e. tag3 e = lit ''pre'') its)
                @ (if useScriptTags (config3 env) then scriptTags its else [])
      in filter (\<lambda>(_, _, ps). lookup3 ps (lit ''brush'') \<noteq> PNull)
           (map (\<lambda>(i, e). (i, e, merge3 globals (parseParams (class3 e)))) els))"

section \<open>A highlighter\<close>

definition highlighter_id :: "jsstr \<Rightarrow> jsstr" where
  "highlighter_id s = (if prefix (lit ''highlighter_'') s then s else lit ''highlighter_'' @ s)"

definition getDiv :: "env3 \<Rightarrow> jsstr \<Rightarrow> brush3 \<Rightarrow> params \<Rightarrow> jsstr \<Rightarrow> div3 option" where
  "getDiv env hid b ps str =
     Option.bind (read_params ps) (\<lambda>r.
       map_option (\<lambda>html. \<lparr>div_id = [], div_html = html, toolbar_click = truthy3 (getParam ps (lit ''toolbar'') PNull),
           code_dblclick = truthy3 (getParam ps (lit ''quick-code'') PNull)\<rparr>)
         (getHtml3 (config3 env) (is_ie env) (highlighter_id hid) (regexList3 b) r str))"

definition html_script :: "params \<Rightarrow> bool" where
  "html_script ps \<longleftrightarrow>
     (case lookup3 ps (lit ''html-script'') of PStr s \<Rightarrow> s = lit ''true'' | PList xs \<Rightarrow> join (lit '','') xs = lit ''true'' | _ \<Rightarrow> False)"

definition block_params :: "elem3 \<Rightarrow> params \<Rightarrow> params" where
  "block_params e c =
     init_params (set_param (lit ''brush'') (lookup3 c (lit ''brush''))
       (if title3 e = [] then c else set_param (lit ''title'') (PStr (title3 e)) c))"

definition block_code :: "env3 \<Rightarrow> elem3 \<Rightarrow> jsstr" where
  "block_code env e = (if useScriptTags (config3 env) then stripCData (inner3 e) else inner3 e)"

text \<open>
  One element.  The mixed brush for \<open>html-script\<close> begins with \<^verbatim>\<open>new B.brushes.Xml\<close>, which fails where no such
  brush is loaded.  An element that has already been replaced has no parent, and \<^verbatim>\<open>u.parentNode.replaceChild\<close> fails.
\<close>

definition highlight_one :: "env3 \<Rightarrow> nat \<times> elem3 \<times> params \<Rightarrow> page3 \<Rightarrow> page3 \<times> ending3" where
  "highlight_one env t pg =
     (case t of (i, e, c) \<Rightarrow>
        (case findBrush env (lookup3 c (lit ''brush'')) pg of
           (found, pg1) \<Rightarrow>
             if html_script c then (pg1, if map_of (brushes3 env) (lit ''Xml'') = None then Raised else Unread)
             else case found of
                    None \<Rightarrow> (pg1, Done)
                  | Some b \<Rightarrow>
                      (let hid = nat_digits (random3 env (drawn pg1)); ps = block_params e c;
                           pg2 = pg1\<lparr>drawn := Suc (drawn pg1), highlighters := AList.update (highlighter_id hid) ps (highlighters pg1)\<rparr>
                       in case getDiv env hid b ps (block_code env e) of
                            None \<Rightarrow> (pg2, Unread)
                          | Some d \<Rightarrow>
                              (case nodes3 pg2 ! i of
                                 Elem _ \<Rightarrow> (pg2\<lparr>nodes3 := (nodes3 pg2)[i := Block (d\<lparr>div_id := id3 e\<rparr>)]\<rparr>, Done)
                               | Block _ \<Rightarrow> (pg2, Raised)))))"

fun highlight_all :: "env3 \<Rightarrow> (nat \<times> elem3 \<times> params) list \<Rightarrow> page3 \<Rightarrow> page3 \<times> ending3" where
  "highlight_all env [] pg = (pg, Done)"
| "highlight_all env (t # ts) pg =
     (case highlight_one env t pg of (pg1, Done) \<Rightarrow> highlight_all env ts pg1 | r \<Rightarrow> r)"

definition highlight :: "env3 \<Rightarrow> params \<Rightarrow> (nat \<times> elem3) option \<Rightarrow> page3 \<Rightarrow> page3 \<times> ending3" where
  "highlight env globals given pg = highlight_all env (findElements env globals given (nodes3 pg)) pg"

section \<open>One element\<close>

text \<open>The brush that the table of aliases gives, and the block that an element becomes with the \<open>n\<close>-th random number.\<close>

definition brush_for :: "env3 \<Rightarrow> params \<Rightarrow> brush3 option" where
  "brush_for env c =
     Option.bind (map_of (discover (brushes3 env)) (pval_text (lookup3 c (lit ''brush'')))) (map_of (brushes3 env))"

definition block_at :: "env3 \<Rightarrow> nat \<Rightarrow> elem3 \<Rightarrow> params \<Rightarrow> div3 option" where
  "block_at env n e c =
     Option.bind (brush_for env c) (\<lambda>b.
       map_option (\<lambda>d. d\<lparr>div_id := id3 e\<rparr>)
         (getDiv env (nat_digits (random3 env n)) b (block_params e c) (block_code env e)))"

definition table_ok :: "env3 \<Rightarrow> page3 \<Rightarrow> bool" where
  "table_ok env pg \<longleftrightarrow> discoveredBrushes pg = None \<or> discoveredBrushes pg = Some (discover (brushes3 env))"

lemma findBrush_table:
  "table_ok env pg \<Longrightarrow>
   findBrush env (lookup3 c (lit ''brush'')) pg = (brush_for env c, pg\<lparr>discoveredBrushes := Some (discover (brushes3 env))\<rparr>)"
  by (auto simp: findBrush_def brush_for_def table_ok_def Let_def)

text \<open>An element is skipped where its brush is not known; otherwise its block takes its place.\<close>

lemma one_skipped:
  assumes "table_ok env pg" "\<not> html_script c" "brush_for env c = None"
  shows "highlight_one env (i, e, c) pg = (pg\<lparr>discoveredBrushes := Some (discover (brushes3 env))\<rparr>, Done)"
  using assms by (simp add: highlight_one_def findBrush_table)

lemma one_replaced:
  assumes "table_ok env pg" "\<not> html_script c" "block_at env (drawn pg) e c = Some d" "nodes3 pg ! i = Elem e'"
  shows "\<exists>pg'. highlight_one env (i, e, c) pg = (pg', Done) \<and> table_ok env pg' \<and>
    nodes3 pg' = (nodes3 pg)[i := Block d] \<and> drawn pg' = Suc (drawn pg) \<and>
    highlighters pg' = AList.update (highlighter_id (nat_digits (random3 env (drawn pg)))) (block_params e c) (highlighters pg)"
  using assms
  by (auto simp: highlight_one_def findBrush_table block_at_def table_ok_def Let_def split: option.splits bind_splits)

lemma one_gone:
  assumes "table_ok env pg" "\<not> html_script c" "block_at env (drawn pg) e c = Some d" "nodes3 pg ! i = Block d'"
  shows "\<exists>pg'. highlight_one env (i, e, c) pg = (pg', Raised) \<and> nodes3 pg' = nodes3 pg"
  using assms
  by (auto simp: highlight_one_def findBrush_table block_at_def table_ok_def Let_def split: option.splits bind_splits)

section \<open>A pass over several elements\<close>

text \<open>The elements whose brush is known, each of which draws a random number when its turn comes.\<close>

definition known :: "env3 \<Rightarrow> (nat \<times> elem3 \<times> params) list \<Rightarrow> (nat \<times> elem3 \<times> params) list" where
  "known env ts = filter (\<lambda>(_, _, c). brush_for env c \<noteq> None) ts"

definition placed :: "page3 \<Rightarrow> (nat \<times> elem3 \<times> params) list \<Rightarrow> bool" where
  "placed pg ts \<longleftrightarrow> distinct (map fst ts) \<and> list_all (\<lambda>(i, e, _). i < length (nodes3 pg) \<and> nodes3 pg ! i = Elem e) ts"

definition plain_target :: "env3 \<Rightarrow> nat \<times> elem3 \<times> params \<Rightarrow> bool" where
  "plain_target env t = (case t of (_, e, c) \<Rightarrow>
     \<not> html_script c \<and> (brush_for env c \<noteq> None \<longrightarrow> (\<forall>n. block_at env n e c \<noteq> None)))"

definition page_highlighted :: "env3 \<Rightarrow> nat \<Rightarrow> (nat \<times> elem3 \<times> params) list \<Rightarrow> item3 list \<Rightarrow> item3 list \<Rightarrow> bool" where
  "page_highlighted env n ks its its' \<longleftrightarrow>
     length its' = length its \<and>
     (\<forall>k < length ks. case ks ! k of (i, e, c) \<Rightarrow> \<exists>d. block_at env (n + k) e c = Some d \<and> its' ! i = Block d) \<and>
     (\<forall>i. i \<notin> fst ` set ks \<longrightarrow> its' ! i = its ! i)"

lemma page_highlighted_Cons:
  assumes "page_highlighted env (Suc n) ks (its[i := Block d]) its'" "block_at env n e c = Some d" "i < length its"
    and "i \<notin> fst ` set ks"
  shows "page_highlighted env n ((i, e, c) # ks) its its'"
  unfolding page_highlighted_def
proof (intro conjI allI impI)
  show "length its' = length its" using assms(1) by (simp add: page_highlighted_def)
  fix k assume k: "k < length ((i, e, c) # ks)"
  show "case ((i, e, c) # ks) ! k of (i, e, c) \<Rightarrow> \<exists>d. block_at env (n + k) e c = Some d \<and> its' ! i = Block d"
  proof (cases k)
    case 0
    with assms show ?thesis by (auto simp: page_highlighted_def)
  next
    case (Suc k')
    with assms(1) k show ?thesis by (simp add: page_highlighted_def)
  qed
next
  fix j assume "j \<notin> fst ` set ((i, e, c) # ks)"
  with assms(1) show "its' ! j = its ! j" by (auto simp: page_highlighted_def)
qed

lemma pass_done:
  "table_ok env pg \<Longrightarrow> placed pg ts \<Longrightarrow> list_all (plain_target env) ts \<Longrightarrow>
   \<exists>pg'. highlight_all env ts pg = (pg', Done) \<and> table_ok env pg' \<and>
     page_highlighted env (drawn pg) (known env ts) (nodes3 pg) (nodes3 pg') \<and> drawn pg' = drawn pg + length (known env ts)"
proof (induction ts arbitrary: pg)
  case Nil
  then show ?case by (simp add: page_highlighted_def known_def)
next
  case (Cons t ts)
  obtain i e c where t: "t = (i, e, c)" by (cases t)
  have h: "\<not> html_script c" and it: "i < length (nodes3 pg)" "nodes3 pg ! i = Elem e" and d: "i \<notin> fst ` set ts"
    and pl: "placed pg ts"
    using Cons.prems t by (auto simp: plain_target_def placed_def)
  have ok: "list_all (plain_target env) ts" using Cons.prems(3) by simp
  show ?case
  proof (cases "brush_for env c")
    case None
    let ?pg = "pg\<lparr>discoveredBrushes := Some (discover (brushes3 env))\<rparr>"
    have "table_ok env ?pg" "placed ?pg ts" using pl by (simp_all add: table_ok_def placed_def)
    from Cons.IH [OF this ok] one_skipped [OF Cons.prems(1) h None, of i e] None t show ?thesis
      by (simp add: known_def)
  next
    case (Some b)
    then obtain dv where dv: "block_at env (drawn pg) e c = Some dv" using Cons.prems(3) t by (auto simp: plain_target_def)
    from one_replaced [OF Cons.prems(1) h this it(2)] obtain pg1 where
      pg1: "highlight_one env (i, e, c) pg = (pg1, Done)" "table_ok env pg1" "nodes3 pg1 = (nodes3 pg)[i := Block dv]"
        "drawn pg1 = Suc (drawn pg)" by blast
    have "i \<noteq> j" if "(j, x) \<in> set ts" for j x using d that by force
    then have "placed pg1 ts" using pl by (fastforce simp: placed_def pg1(3) list_all_iff)
    from Cons.IH [OF pg1(2) this ok] obtain pg' where pg': "highlight_all env ts pg1 = (pg', Done)" "table_ok env pg'"
      "page_highlighted env (Suc (drawn pg)) (known env ts) ((nodes3 pg)[i := Block dv]) (nodes3 pg')"
      "drawn pg' = Suc (drawn pg) + length (known env ts)" unfolding pg1(3,4) by blast
    have "i \<notin> fst ` set (known env ts)" using d by (auto simp: known_def)
    from page_highlighted_Cons [OF pg'(3) dv it(1) this] pg1(1) pg'(1,2,4) Some t show ?thesis
      by (simp add: known_def)
  qed
qed

text \<open>A failing element ends the pass; the elements behind it stay as they are.\<close>

lemma pass_ended:
  assumes "highlight_all env as pg = (pg1, Done)" "highlight_one env t pg1 = (pg2, r)" "r \<noteq> Done"
  shows "highlight_all env (as @ t # bs) pg = (pg2, r)"
  using assms(1)
proof (induction as arbitrary: pg)
  case Nil
  then show ?case using assms(2,3) by (cases r) simp_all
next
  case (Cons a as)
  then show ?case by (auto split: prod.splits ending3.splits)
qed

section \<open>The elements of a page\<close>

lemma enumerate_mem: "(i, x) \<in> set (enumerate 0 xs) \<longleftrightarrow> i < length xs \<and> x = xs ! i"
  by (auto simp: in_set_enumerate_eq)

lemma map_filter_mem: "y \<in> set (List.map_filter f xs) \<longleftrightarrow> (\<exists>x \<in> set xs. f x = Some y)"
  by (force simp: map_filter_def image_iff)

lemma positions_mem: "(i, e) \<in> set (positions P its) \<longleftrightarrow> i < length its \<and> its ! i = Elem e \<and> P e"
  unfolding positions_def map_filter_mem
  by (auto simp: enumerate_mem split: item3.splits if_splits intro!: bexI [of _ "(i, Elem e)"])

lemma map_filter_fst:
  assumes "\<And>x y. f x = Some y \<Longrightarrow> fst y = fst x" "distinct (map fst xs)"
  shows "distinct (map fst (List.map_filter f xs))"
  using assms(2)
proof (induction xs)
  case (Cons x xs)
  have "fst ` set (List.map_filter f xs) \<subseteq> fst ` set xs"
    using assms(1) by (force simp: map_filter_mem)
  with Cons assms(1) show ?case by (auto simp: map_filter_simps split: option.splits)
qed (simp add: map_filter_simps)

lemma positions_distinct: "distinct (map fst (positions P its))"
  unfolding positions_def by (rule map_filter_fst) (auto split: item3.splits if_splits simp: map_fst_enumerate)

lemma placed_map:
  assumes "distinct (map fst els)" "list_all (\<lambda>(i, e). i < length (nodes3 pg) \<and> nodes3 pg ! i = Elem e) els"
  shows "placed pg (filter Q (map (\<lambda>(i, e). (i, e, f e)) els))"
proof -
  have "distinct (map fst (map (\<lambda>(i, e). (i, e, f e)) els))" using assms(1) by (simp add: comp_def split_beta)
  then have "distinct (map fst (filter Q (map (\<lambda>(i, e). (i, e, f e)) els)))" by (rule distinct_map_filter)
  then show ?thesis using assms(2) by (auto simp: placed_def list_all_iff)
qed

lemma findElements_placed: "placed pg (findElements env globals None (nodes3 pg))"
proof -
  let ?pre = "positions (\<lambda>e. tag3 e = lit ''pre'') (nodes3 pg)"
  let ?els = "?pre @ (if useScriptTags (config3 env) then scriptTags (nodes3 pg) else [])"
  have "lit ''pre'' \<noteq> lit ''script''" by (simp add: lit_inject)
  then have "fst ` set ?pre \<inter> fst ` set (scriptTags (nodes3 pg)) = {}"
    by (auto simp: scriptTags_def positions_mem)
  then have "distinct (map fst ?els)"
    using positions_distinct by (simp add: scriptTags_def)
  moreover have "list_all (\<lambda>(i, e). i < length (nodes3 pg) \<and> nodes3 pg ! i = Elem e) ?els"
    by (auto simp: list_all_iff scriptTags_def positions_mem)
  ultimately show ?thesis unfolding findElements_def Let_def option.case by (rule placed_map)
qed

lemma findElements_mem:
  "(i, e, c) \<in> set (findElements env globals None its) \<longleftrightarrow>
     i < length its \<and> its ! i = Elem e \<and> c = merge3 globals (parseParams (class3 e)) \<and> lookup3 c (lit ''brush'') \<noteq> PNull \<and>
     (tag3 e = lit ''pre'' \<or> useScriptTags (config3 env) \<and> tag3 e = lit ''script'' \<and> type3 e = lit ''syntaxhighlighter'')"
  by (auto simp: findElements_def scriptTags_def positions_mem Let_def)

text \<open>What is left to find after a pass are the elements without a known brush.\<close>

lemma left_over:
  assumes "page_highlighted env n (known env (findElements env globals None its)) its its'"
    and "(i, e, c) \<in> set (findElements env globals None its')"
  shows "(i, e, c) \<in> set (findElements env globals None its) \<and> brush_for env c = None"
proof -
  let ?ks = "known env (findElements env globals None its)"
  from assms(2) have i: "i < length its'" "its' ! i = Elem e" by (auto simp: findElements_mem)
  have "i \<notin> fst ` set ?ks"
  proof
    assume "i \<in> fst ` set ?ks"
    then obtain k e' c' where "k < length ?ks" "?ks ! k = (i, e', c')" by (auto simp: in_set_conv_nth)
    then have "\<exists>d. its' ! i = Block d" using assms(1) by (fastforce simp: page_highlighted_def)
    with i show False by simp
  qed
  then have "its' ! i = its ! i" "length its' = length its" using assms(1) by (auto simp: page_highlighted_def)
  then have mem: "(i, e, c) \<in> set (findElements env globals None its)" using assms(2) by (auto simp: findElements_mem)
  then have "brush_for env c = None" using \<open>i \<notin> fst ` set ?ks\<close> by (force simp: known_def)
  with mem show ?thesis ..
qed

section \<open>Brushes that always return\<close>

text \<open>An element whose parameters the pass can read.\<close>

definition readable_target :: "env3 \<Rightarrow> nat \<times> elem3 \<times> params \<Rightarrow> bool" where
  "readable_target env t = (case t of (_, e, c) \<Rightarrow>
     \<not> html_script c \<and> (brush_for env c \<noteq> None \<longrightarrow> read_params (block_params e c) \<noteq> None))"

locale total_brushes =
  fixes env :: env3
  assumes brush_returns: "b \<in> snd ` set (brushes3 env) \<Longrightarrow> \<exists>ms. findMatches (regexList3 b) str = Some ms"
    and no_Xml: "map_of (brushes3 env) (lit ''Xml'') = None"
begin

lemma block_made:
  assumes "brush_for env c = Some b" "read_params (block_params e c) = Some r"
  shows "\<exists>d. block_at env n e c = Some d"
proof -
  have "b \<in> snd ` set (brushes3 env)"
    using assms(1) by (force simp: brush_for_def Option.bind_eq_Some_conv dest: map_of_SomeD)
  then have "\<exists>h. getHtml3 (config3 env) (is_ie env) hid (regexList3 b) r str = Some h" for hid str
    using brush_returns [of b "prepare3 (config3 env) r str"] by (auto simp: getHtml3_def Let_def)
  then show ?thesis using assms by (auto simp: block_at_def getDiv_def)
qed

lemma plain_readable: "readable_target env t \<Longrightarrow> plain_target env t"
  using block_made by (fastforce simp: readable_target_def plain_target_def split: prod.splits)

lemma pass_returns:
  assumes "table_ok env pg" "placed pg ts" "list_all (readable_target env) ts"
  shows "\<exists>pg'. highlight_all env ts pg = (pg', Done) \<and> table_ok env pg' \<and>
     page_highlighted env (drawn pg) (known env ts) (nodes3 pg) (nodes3 pg') \<and> drawn pg' = drawn pg + length (known env ts)"
  using assms plain_readable by (intro pass_done) (auto simp: list_all_iff)

lemma pass_twice:
  assumes "table_ok env pg" "list_all (readable_target env) (findElements env globals None (nodes3 pg))"
  shows "\<exists>pg'. highlight env globals None pg = (pg', Done) \<and>
     page_highlighted env (drawn pg) (known env (findElements env globals None (nodes3 pg))) (nodes3 pg) (nodes3 pg') \<and>
     (\<exists>pg''. highlight env globals None pg' = (pg'', Done) \<and> nodes3 pg'' = nodes3 pg')"
proof -
  let ?ts = "findElements env globals None (nodes3 pg)"
  from pass_returns [OF assms(1) findElements_placed assms(2)] obtain pg' where pg': "highlight_all env ?ts pg = (pg', Done)"
    "table_ok env pg'" "page_highlighted env (drawn pg) (known env ?ts) (nodes3 pg) (nodes3 pg')" by blast
  let ?us = "findElements env globals None (nodes3 pg')"
  have left: "t \<in> set ?ts \<and> brush_for env (snd (snd t)) = None" if "t \<in> set ?us" for t
    using left_over [OF pg'(3), of "fst t" "fst (snd t)" "snd (snd t)"] that by simp
  then have "known env ?us = []" by (force simp: known_def filter_empty_conv)
  moreover have "list_all (readable_target env) ?us" using left assms(2) by (auto simp: list_all_iff)
  ultimately obtain pg'' where "highlight_all env ?us pg' = (pg'', Done)" "page_highlighted env (drawn pg') [] (nodes3 pg') (nodes3 pg'')"
    using pass_returns [OF pg'(2) findElements_placed, of env globals] by auto
  moreover from this(2) have "nodes3 pg'' = nodes3 pg'" by (auto simp: page_highlighted_def intro: nth_equalityI)
  ultimately show ?thesis using pg' by (auto simp: highlight_def)
qed

lemma html_script_raises:
  assumes "table_ok env pg" "findElements env globals None (nodes3 pg) = as @ (i, e, c) # bs"
    and "list_all (readable_target env) as" "html_script c"
  shows "\<exists>pg'. highlight env globals None pg = (pg', Raised) \<and>
     (\<forall>j \<in> fst ` set ((i, e, c) # bs). nodes3 pg' ! j = nodes3 pg ! j)"
proof -
  have pl: "placed pg (as @ (i, e, c) # bs)" using findElements_placed [of pg env globals] assms(2) by simp
  then have "placed pg as" by (auto simp: placed_def)
  from pass_returns [OF assms(1) this assms(3)] obtain pg1 where pg1: "highlight_all env as pg = (pg1, Done)"
    "table_ok env pg1" "page_highlighted env (drawn pg) (known env as) (nodes3 pg) (nodes3 pg1)" by blast
  let ?pg = "pg1\<lparr>discoveredBrushes := Some (discover (brushes3 env))\<rparr>"
  have "highlight_one env (i, e, c) pg1 = (?pg, Raised)"
    using assms(4) no_Xml by (simp add: highlight_one_def findBrush_table [OF pg1(2)])
  from pass_ended [OF pg1(1) this] have "highlight env globals None pg = (?pg, Raised)" by (simp add: highlight_def assms(2))
  moreover have "j \<notin> fst ` set (known env as)" if "j \<in> fst ` set ((i, e, c) # bs)" for j
    using pl that by (auto simp: placed_def known_def)
  then have "\<forall>j \<in> fst ` set ((i, e, c) # bs). nodes3 ?pg ! j = nodes3 pg ! j" using pg1(3) by (auto simp: page_highlighted_def)
  ultimately show ?thesis by blast
qed

end

section \<open>The page of the article\<close>

text \<open>The brushes that the page loads for this highlighter: \<open>shBrushBash.js\<close> and \<open>shBrushCpp(1).js\<close>.\<close>

definition coolshell_env :: "sh3_config \<Rightarrow> bool \<Rightarrow> (nat \<Rightarrow> nat) \<Rightarrow> env3" where
  "coolshell_env cfg ie rnd = \<lparr>config3 = cfg, is_ie = ie, brushes3 = [(lit ''Bash'', Bash), (lit ''Cpp'', the_Cpp3)], random3 = rnd\<rparr>"

interpretation coolshell3: total_brushes "coolshell_env cfg ie rnd" for cfg ie rnd
proof
  fix b str
  assume "b \<in> snd ` set (brushes3 (coolshell_env cfg ie rnd))"
  then have "b = Bash \<or> b = the_Cpp3" by (auto simp: coolshell_env_def)
  then show "\<exists>ms. findMatches (regexList3 b) str = Some ms" using cpp3.finds bash3.finds by blast
next
  show "map_of (brushes3 (coolshell_env cfg ie rnd)) (lit ''Xml'') = None" by (simp add: coolshell_env_def lit_inject)
qed

text \<open>
  C14: a pass of \<open>highlight\<close> over a page on which no block asks for \<open>html-script\<close> and the parameters of every block
  with a known brush can be read.  The pass returns.  Every block of code whose class names an alias of a loaded brush is
  replaced, in its place, by the table that its own parameters and code give, with the random numbers handed out in
  the order of the elements, the \<^verbatim>\<open>pre\<close> elements before the script tags; all other elements stay as they are; and
  a second pass finds nothing more to replace.
\<close>

theorem highlight_pass:
  assumes "table_ok (coolshell_env cfg ie rnd) pg"
    and "list_all (readable_target (coolshell_env cfg ie rnd)) (findElements (coolshell_env cfg ie rnd) globals None (nodes3 pg))"
  shows "\<exists>pg'. highlight (coolshell_env cfg ie rnd) globals None pg = (pg', Done) \<and>
     page_highlighted (coolshell_env cfg ie rnd) (drawn pg)
       (known (coolshell_env cfg ie rnd) (findElements (coolshell_env cfg ie rnd) globals None (nodes3 pg))) (nodes3 pg) (nodes3 pg') \<and>
     (\<exists>pg''. highlight (coolshell_env cfg ie rnd) globals None pg' = (pg'', Done) \<and> nodes3 pg'' = nodes3 pg')"
  using assms by (rule coolshell3.pass_twice)

text \<open>
  C15: a block that asks for \<open>html-script\<close> ends the pass with a \<open>TypeError\<close>, since the mixed brush needs an XML
  brush of this highlighter and the page loads none: that block and all that would have followed stay plain.
\<close>

theorem html_script_ends_pass:
  assumes "table_ok (coolshell_env cfg ie rnd) pg"
    and "findElements (coolshell_env cfg ie rnd) globals None (nodes3 pg) = as @ (i, e, c) # bs"
    and "list_all (readable_target (coolshell_env cfg ie rnd)) as" "html_script c"
  shows "\<exists>pg'. highlight (coolshell_env cfg ie rnd) globals None pg = (pg', Raised) \<and>
     (\<forall>j \<in> fst ` set ((i, e, c) # bs). nodes3 pg' ! j = nodes3 pg ! j)"
  using assms by (rule coolshell3.html_script_raises)

text \<open>
  A script tag that is given to \<open>highlight\<close> is found once more among the script tags of the page: its block takes its
  place, and the second turn fails.
\<close>

theorem given_script_raises:
  assumes "table_ok (coolshell_env cfg ie rnd) pg" "nodes3 pg = [Elem e]" "tag3 e = lit ''script''" "type3 e = lit ''syntaxhighlighter''"
    and "useScriptTags cfg" "lookup3 (merge3 globals (parseParams (class3 e))) (lit ''brush'') \<noteq> PNull"
    and "readable_target (coolshell_env cfg ie rnd) (0, e, merge3 globals (parseParams (class3 e)))"
    and "brush_for (coolshell_env cfg ie rnd) (merge3 globals (parseParams (class3 e))) \<noteq> None"
  shows "\<exists>pg' d. highlight (coolshell_env cfg ie rnd) globals (Some (0, e)) pg = (pg', Raised) \<and> nodes3 pg' = [Block d]"
proof -
  let ?env = "coolshell_env cfg ie rnd" and ?c = "merge3 globals (parseParams (class3 e))"
  have f: "findElements ?env globals (Some (0, e)) (nodes3 pg) = [(0, e, ?c), (0, e, ?c)]"
    using assms by (simp add: findElements_def scriptTags_def positions_def map_filter_def enumerate_eq_zip coolshell_env_def)
  have p: "\<not> html_script ?c" "\<exists>d. block_at ?env n e ?c = Some d" for n
    using coolshell3.plain_readable [OF assms(7)] assms(8) by (auto simp: plain_target_def)
  obtain d where d: "block_at ?env (drawn pg) e ?c = Some d" using p(2) by blast
  have "nodes3 pg ! 0 = Elem e" by (simp add: assms(2))
  from one_replaced [OF assms(1) p(1) d this] obtain pg1 where pg1: "highlight_one ?env (0, e, ?c) pg = (pg1, Done)"
    "table_ok ?env pg1" "nodes3 pg1 = [Block d]" by (auto simp: assms(2))
  obtain d' where d': "block_at ?env (drawn pg1) e ?c = Some d'" using p(2) by blast
  have "nodes3 pg1 ! 0 = Block d" by (simp add: pg1(3))
  from one_gone [OF pg1(2) p(1) d' this] pg1 show ?thesis by (auto simp: highlight_def f)
qed

section \<open>Witnesses\<close>

abbreviation sample_env :: env3 where
  "sample_env \<equiv> coolshell_env sh3_defaults False (\<lambda>n. n)"

definition pre_element :: "params \<Rightarrow> elem3" where
  "pre_element ps = \<lparr>tag3 = lit ''pre'', type3 = [], class3 = params_text ps, title3 = [], id3 = [], inner3 = lit ''int i;''\<rparr>"

definition page_of :: "params list \<Rightarrow> page3" where
  "page_of pss = \<lparr>nodes3 = map (Elem \<circ> pre_element) pss, discoveredBrushes = None, highlighters = [], drawn = 0\<rparr>"

lemma table_page_of: "table_ok env (page_of pss)"
  by (simp add: table_ok_def page_of_def)

lemma page_of_start: "drawn (page_of pss) = 0" "nodes3 (page_of [ps]) ! 0 = Elem (pre_element ps)"
  by (simp_all add: page_of_def)

lemma merge_nothing:
  assumes "list_all (\<lambda>(k, v). valid_name k \<and> showable v) ps" "distinct (map fst ps)"
  shows "merge3 [] (parseParams (params_text ps)) = ps"
proof -
  have "fold (\<lambda>(k, v). set_param k v) ps qs = fold (\<lambda>(k, v). AList.update k v) ps qs" for qs
    using assms(1) by (induction ps arbitrary: qs) (auto simp: set_param_def valid_name_def)
  then show ?thesis using update_distinct [of "[]" ps] assms(2) by (simp add: merge3_def parse_text [OF assms])
qed

lemma merge_sample: "merge3 [] (parseParams (params_text sample_options)) = sample_options"
  by (rule merge_nothing [OF sample_options_ok]) (simp add: sample_options_def lit_inject)

lemma found_single:
  assumes "merge3 [] (parseParams (params_text ps)) = ps" "lookup3 ps (lit ''brush'') \<noteq> PNull"
  shows "findElements sample_env [] None (nodes3 (page_of [ps])) = [(0, pre_element ps, ps)]"
  using assms
  by (simp add: findElements_def positions_def scriptTags_def map_filter_def page_of_def pre_element_def lit_inject
      coolshell_env_def sh3_defaults_def enumerate_eq_zip)

lemma sample_lookup: "lookup3 sample_options (lit ''brush'') = PStr (lit ''cpp'')" "\<not> html_script sample_options"
  by (simp_all add: lookup3_def sample_options_def html_script_def inherited_names_def lit_inject)

lemma sample_brush: "brush_for sample_env sample_options = Some the_Cpp3"
  by (simp add: brush_for_def coolshell_env_def discover_def Cpp3_def Bash3_def sample_lookup pval_text_def lit_inject)

lemma sample_block: "block_params (pre_element sample_options) sample_options = init_params sample_options"
proof -
  have "set_param (lit ''brush'') (PStr (lit ''cpp'')) sample_options = sample_options"
    by (simp add: set_param_def sample_options_def lit_inject)
  then show ?thesis by (simp add: block_params_def sample_lookup pre_element_def)
qed

lemma highlight_pass_witness:
  "\<exists>pg' d. highlight sample_env [] None (page_of [sample_options]) = (pg', Done) \<and> nodes3 pg' = [Block d] \<and>
     block_at sample_env 0 (pre_element sample_options) sample_options = Some d"
proof -
  note f = found_single [OF merge_sample, simplified sample_lookup, simplified]
  have "parseParams (params_text sample_options) = sample_options"
    by (rule parse_text [OF sample_options_ok]) (simp add: sample_options_def lit_inject)
  then have "\<exists>r. read_params (init_params sample_options) = Some r" using sample_options_read by simp
  then have r: "readable_target sample_env (0, pre_element sample_options, sample_options)"
    by (auto simp: readable_target_def sample_lookup sample_block)
  have k: "known sample_env [(0, pre_element sample_options, sample_options)] = [(0, pre_element sample_options, sample_options)]"
    by (simp add: known_def sample_brush)
  obtain pg' where pg': "highlight sample_env [] None (page_of [sample_options]) = (pg', Done)"
    "page_highlighted sample_env 0 [(0, pre_element sample_options, sample_options)] (nodes3 (page_of [sample_options])) (nodes3 pg')"
    using highlight_pass [OF table_page_of, of sh3_defaults False "\<lambda>n. n" "[]" "[sample_options]"] r
    by (auto simp: f k page_of_start)
  then obtain d where "block_at sample_env 0 (pre_element sample_options) sample_options = Some d" "nodes3 pg' ! 0 = Block d"
    "length (nodes3 pg') = 1" by (auto simp: page_highlighted_def page_of_def)
  then show ?thesis using pg'(1) by (auto simp: length_Suc_conv)
qed

definition html_options :: params where
  "html_options = [(lit ''brush'', PStr (lit ''cpp'')), (lit ''html-script'', PStr (lit ''true''))]"

lemma html_script_ends_pass_witness:
  "\<exists>pg'. highlight sample_env [] None (page_of [html_options]) = (pg', Raised) \<and> nodes3 pg' ! 0 = Elem (pre_element html_options)"
proof -
  have "merge3 [] (parseParams (params_text html_options)) = html_options"
    by (rule merge_nothing) (simp_all add: html_options_def lit_inject params_eval)
  moreover have "lookup3 html_options (lit ''brush'') \<noteq> PNull" "html_script html_options"
    by (simp_all add: lookup3_def html_options_def html_script_def lit_inject)
  ultimately show ?thesis
    using html_script_ends_pass [OF table_page_of, of sh3_defaults False "\<lambda>n. n" "[]" "[html_options]" "[]" 0 "pre_element html_options" html_options "[]"]
    by (auto simp: found_single page_of_start)
qed

end
