(* ===== verification/Sh3Events.thy ===== *)
theory Sh3Events
  imports Sh3Page
begin

text \<open>
  SyntaxHighlighter 3 (\<open>shCore(1).js\<close>), what a reader does with a block: \<open>findParentElement\<close> (\<open>g\<close>), the handler of the
  toolbar with its commands \<open>expandSource\<close> and \<open>help\<close>, and the view of the source that a double click opens
  (\<open>quickCodeHandler\<close>, \<open>X\<close>) and that leaving its text field closes.
\<close>

section \<open>Classes\<close>

definition sh3_hasClass :: "jsstr \<Rightarrow> jsstr \<Rightarrow> bool" where
  "sh3_hasClass cls c \<longleftrightarrow> indexOf cls c \<noteq> -1"

definition sh3_addClass :: "jsstr \<Rightarrow> jsstr \<Rightarrow> jsstr" where
  "sh3_addClass cls c = (if sh3_hasClass cls c then cls else cls @ [SP] @ c)"

definition sh3_removeClass :: "jsstr \<Rightarrow> jsstr \<Rightarrow> jsstr" where
  "sh3_removeClass cls c = replace_str cls c []"

text \<open>An element is searched from the target upwards by a part of its class attribute.\<close>

record node3 =
  node_class :: jsstr
  node_id :: jsstr

definition findParentElement :: "node3 list \<Rightarrow> jsstr \<Rightarrow> node3 option" where
  "findParentElement upward c = find (\<lambda>n. sh3_hasClass (node_class n) c) upward"

section \<open>The toolbar\<close>

text \<open>The class attributes of the blocks under their ids, and how many windows of help were opened.\<close>

record toolbar3 =
  block_class :: "(jsstr \<times> jsstr) list"
  helps :: nat

definition re_command :: regexp where
  "re_command = js_regex (pat ''command_(`w+)'') []"

definition command_of :: "jsstr \<Rightarrow> jsstr option" where
  "command_of cls = map_option (\<lambda>mt. the (group_of mt 1)) (fst (exec re_command cls))"

text \<open>\<open>None\<close>: a \<open>TypeError\<close>, for a command that is not in \<open>items\<close> or a block that is not on the page.\<close>

definition execute_command :: "jsstr \<Rightarrow> jsstr \<Rightarrow> toolbar3 \<Rightarrow> toolbar3 option" where
  "execute_command cmd key st =
     (if cmd = lit ''expandSource'' then
        (case map_of (block_class st) key of
           None \<Rightarrow> None
         | Some cls \<Rightarrow> Some (st\<lparr>block_class := AList.update key (sh3_removeClass cls (lit ''collapsed'')) (block_class st)\<rparr>))
      else if cmd = lit ''help'' then Some (st\<lparr>helps := Suc (helps st)\<rparr>)
      else None)"

definition toolbar_handler :: "(jsstr \<times> params) list \<Rightarrow> node3 list \<Rightarrow> toolbar3 \<Rightarrow> toolbar3 option" where
  "toolbar_handler hs upward st =
     (case findParentElement upward (lit ''syntaxhighlighter'') of
        None \<Rightarrow> None
      | Some a \<Rightarrow>
          (let key = highlighter_id (node_id a)
           in case (map_of hs key, command_of (node_class (hd upward))) of
                (Some _, Some cmd) \<Rightarrow> execute_command cmd key st
              | _ \<Rightarrow> Some st))"

section \<open>The view of the source\<close>

record source_view =
  view_class :: jsstr
  line_texts :: "jsstr list"
  text_field :: "jsstr option"

definition source_text :: "jsstr list \<Rightarrow> jsstr" where
  "source_text ls = map (\<lambda>c. if c = 160 then SP else c) (join [13] ls)"

definition quickCodeHandler :: "source_view \<Rightarrow> source_view" where
  "quickCodeHandler v =
     (if text_field v = None
      then v\<lparr>view_class := sh3_addClass (view_class v) (lit ''source''), text_field := Some (source_text (line_texts v))\<rparr>
      else v)"

definition leave_field :: "source_view \<Rightarrow> source_view" where
  "leave_field v = v\<lparr>view_class := sh3_removeClass (view_class v) (lit ''source''), text_field := None\<rparr>"

inductive view_step :: "source_view \<Rightarrow> source_view \<Rightarrow> bool" where
  dblclick: "view_step v (quickCodeHandler v)"
| blur: "text_field v \<noteq> None \<Longrightarrow> view_step v (leave_field v)"

section \<open>The class of an open view\<close>

lemma source_word: "lit ''source'' \<noteq> []" "SP \<notin> set (lit ''source'')"
  by (simp_all add: lit_def)

lemma hasClass_sublist: "sh3_hasClass cls c \<longleftrightarrow> sublist c cls"
  using index_of_None [of c cls] by (auto simp: sh3_hasClass_def indexOf_def indexOf_from_def split: option.splits)

lemma sublist_blanks: "t \<noteq> [] \<Longrightarrow> SP \<notin> set t \<Longrightarrow> sublist t (cls @ replicate n SP) \<longleftrightarrow> sublist t (cls :: jsstr)"
proof (induction n arbitrary: cls)
  case (Suc n)
  have "cls @ replicate (Suc n) SP = (cls @ [SP]) @ replicate n SP" by simp
  moreover have "sublist t (cls @ [SP]) \<longleftrightarrow> sublist t cls" using sublist_past_mark [OF Suc.prems, of cls "[]"] Suc.prems(1) by simp
  ultimately show ?case using Suc by metis
qed simp

lemma remove_appended: "\<not> sublist (lit ''source'') cls \<Longrightarrow> sh3_removeClass (cls @ [SP] @ lit ''source'') (lit ''source'') = cls @ [SP]"
proof -
  assume n: "\<not> sublist (lit ''source'') cls"
  have "index_of (lit ''source'') (lit ''source'') = Some 0" by (simp add: lit_def)
  then show ?thesis
    using index_of_past_mark [OF source_word n, of "lit ''source''"] by (simp add: sh3_removeClass_def replace_str_def)
qed

text \<open>What the steps keep: the lines, the classes up to blanks, and that the class \<open>source\<close> stands there while the field is open.\<close>

definition view_ok :: "source_view \<Rightarrow> source_view \<Rightarrow> bool" where
  "view_ok v0 v \<longleftrightarrow>
     line_texts v = line_texts v0 \<and>
     (text_field v = None \<or> text_field v = Some (source_text (line_texts v0))) \<and>
     (\<exists>n. view_class v = view_class v0 @ replicate n SP @ (if text_field v = None then [] else [SP] @ lit ''source''))"

lemma view_ok_step:
  assumes "\<not> sublist (lit ''source'') (view_class v0)" "view_step v w" "view_ok v0 v"
  shows "view_ok v0 w"
proof -
  obtain n where n: "view_class v = (view_class v0 @ replicate n SP) @ (if text_field v = None then [] else [SP] @ lit ''source'')"
    using assms(3) by (auto simp: view_ok_def)
  have free: "\<not> sublist (lit ''source'') (view_class v0 @ replicate n SP)"
    using assms(1) sublist_blanks [OF source_word, of "view_class v0" n] by blast
  from assms(2) show ?thesis
  proof (cases rule: view_step.cases)
    case dblclick
    show ?thesis
    proof (cases "text_field v")
      case None
      then have "view_class w = view_class v0 @ replicate n SP @ [SP] @ lit ''source''" "line_texts w = line_texts v"
        "text_field w = Some (source_text (line_texts v))"
        using n free dblclick by (simp_all add: quickCodeHandler_def sh3_addClass_def hasClass_sublist)
      then show ?thesis using assms(3) by (auto simp: view_ok_def)
    next
      case (Some t)
      then show ?thesis using assms(3) dblclick by (simp add: quickCodeHandler_def)
    qed
  next
    case blur
    then have "view_class w = (view_class v0 @ replicate n SP) @ [SP]"
      using n remove_appended [OF free] by (simp add: leave_field_def)
    then have "view_class w = view_class v0 @ replicate (Suc n) SP" by (simp add: replicate_append_same)
    moreover have "line_texts w = line_texts v" "text_field w = None" using blur by (simp_all add: leave_field_def)
    ultimately show ?thesis using assms(3) unfolding view_ok_def by (intro conjI exI [of _ "Suc n"]) auto
  qed
qed

section \<open>Properties\<close>

text \<open>
  C16: the view of the source.  However often a reader double-clicks a block and leaves the text field again, in any order:
  the lines stay; an open field holds the lines joined, with no-break spaces as blanks; the class \<open>source\<close> is
  set exactly while the field is open; and the other classes stay, with one more blank behind them for every view closed.
  The block's own classes must not hold the letters \<open>source\<close>.
\<close>

theorem source_view_kept:
  assumes "view_step\<^sup>*\<^sup>* v0 v" "text_field v0 = None" "\<not> sublist (lit ''source'') (view_class v0)"
  shows "view_ok v0 v \<and> (sh3_hasClass (view_class v) (lit ''source'') \<longleftrightarrow> text_field v \<noteq> None)"
proof -
  from assms(1) have ok: "view_ok v0 v"
  proof (induction rule: rtranclp_induct)
    case base
    show ?case using assms(2) by (auto simp: view_ok_def intro: exI [of _ 0])
  next
    case (step y z)
    then show ?case using view_ok_step [OF assms(3)] by blast
  qed
  then obtain n where n: "view_class v = (view_class v0 @ replicate n SP) @ (if text_field v = None then [] else [SP] @ lit ''source'')"
    by (auto simp: view_ok_def)
  have "\<not> sublist (lit ''source'') (view_class v0 @ replicate n SP)"
    using assms(3) sublist_blanks [OF source_word, of "view_class v0" n] by blast
  moreover have "sublist (lit ''source'') (((view_class v0 @ replicate n SP) @ [SP]) @ lit ''source'')" by (rule sublist_append_leftI)
  ultimately have "sh3_hasClass (view_class v) (lit ''source'') \<longleftrightarrow> text_field v \<noteq> None"
    unfolding hasClass_sublist n by simp
  with ok show ?thesis ..
qed

lemma source_view_kept_witness:
  "view_ok \<lparr>view_class = lit ''cpp'', line_texts = [lit ''int i;''], text_field = None\<rparr>
     (quickCodeHandler \<lparr>view_class = lit ''cpp'', line_texts = [lit ''int i;''], text_field = None\<rparr>)"
proof -
  let ?v = "\<lparr>view_class = lit ''cpp'', line_texts = [lit ''int i;''], text_field = None\<rparr>"
  have "view_step\<^sup>*\<^sup>* ?v (quickCodeHandler ?v)" by (rule r_into_rtranclp) (rule view_step.dblclick)
  moreover have "\<not> sublist (lit ''source'') (lit ''cpp'')" by (simp add: lit_def flip: index_of_None)
  ultimately show ?thesis using source_view_kept [of ?v "quickCodeHandler ?v"] by simp
qed

text \<open>
  A class that holds these letters is damaged: \<open>hasClass\<close> and \<open>removeClass\<close> look for parts of the attribute, not for classes,
  and a block of the class \<open>resource\<close> is left with the class \<open>re\<close>.
\<close>

theorem resource_class_lost:
  "view_class (leave_field (quickCodeHandler \<lparr>view_class = lit ''resource'', line_texts = [], text_field = None\<rparr>)) = lit ''re''"
  by (simp add: leave_field_def quickCodeHandler_def sh3_addClass_def sh3_removeClass_def sh3_hasClass_def replace_str_def
      indexOf_def indexOf_from_def lit_def)

section \<open>The button that expands a block\<close>

lemma button_command:
  "command_of (lit ''toolbar_item command_expandSource expandSource'') = Some (lit ''expandSource'')"
  "command_of (lit ''toolbar_item command_help help'') = Some (lit ''help'')"
  by (simp_all add: command_of_def re_command_def js_eval upt_rec)

lemma remove_collapsed:
  "sh3_removeClass (lit ''syntaxhighlighter collapsed'' @ rest) (lit ''collapsed'') = lit ''syntaxhighlighter '' @ rest"
  by (simp add: sh3_removeClass_def replace_str_def lit_def)

text \<open>
  The button of a collapsed block.  A click on it changes the class attribute of its own block to what it would be
  without \<open>collapse\<close>, but for one blank, whatever the other classes are; the other blocks and the windows of help stay.
\<close>

theorem expand_source:
  assumes "hd upward = \<lparr>node_class = lit ''toolbar_item command_expandSource expandSource'', node_id = []\<rparr>"
    and "findParentElement upward (lit ''syntaxhighlighter'') = Some a" "key = highlighter_id (node_id a)"
    and "map_of hs key = Some ps" "map_of (block_class st) key = Some (join [SP] (block_classes r ie))" "collapsed r"
  shows "\<exists>st' rest. toolbar_handler hs upward st = Some st' \<and>
     map_of (block_class st') key = Some (lit ''syntaxhighlighter'' @ [SP, SP] @ rest) \<and>
     join [SP] (block_classes (r\<lparr>collapsed := False\<rparr>) ie) = lit ''syntaxhighlighter'' @ [SP] @ rest \<and>
     (\<forall>k. k \<noteq> key \<longrightarrow> map_of (block_class st') k = map_of (block_class st) k) \<and> helps st' = helps st"
proof -
  define rs where "rs = (if light r \<or> no_gutter r then [lit ''nogutter''] else []) @ [class_name r, brush_name r] @ (if ie then [lit ''ie''] else [])"
  define rest where "rest = join [SP] rs"
  have ne: "rs \<noteq> []" by (simp add: rs_def)
  have b: "block_classes r ie = lit ''syntaxhighlighter'' # lit ''collapsed'' # rs"
    "block_classes (r\<lparr>collapsed := False\<rparr>) ie = lit ''syntaxhighlighter'' # rs"
    using assms(6) by (simp_all add: block_classes_def rs_def)
  have j: "join [SP] (block_classes r ie) = lit ''syntaxhighlighter collapsed'' @ [SP] @ rest"
    "join [SP] (block_classes (r\<lparr>collapsed := False\<rparr>) ie) = lit ''syntaxhighlighter'' @ [SP] @ rest"
    unfolding b by (simp_all add: rest_def join_Cons_nonempty [OF ne]) (simp add: lit_def)
  have "sh3_removeClass (join [SP] (block_classes r ie)) (lit ''collapsed'') = lit ''syntaxhighlighter'' @ [SP, SP] @ rest"
    unfolding j(1) remove_collapsed by (simp add: lit_def)
  then show ?thesis
    using assms(1-5) j(2) by (simp add: toolbar_handler_def button_command execute_command_def update_conv' Let_def)
qed

abbreviation sample_upward :: "node3 list" where
  "sample_upward \<equiv> [\<lparr>node_class = lit ''toolbar_item command_expandSource expandSource'', node_id = []\<rparr>,
     \<lparr>node_class = lit ''toolbar'', node_id = []\<rparr>,
     \<lparr>node_class = lit ''syntaxhighlighter collapsed  cpp'', node_id = lit ''highlighter_7''\<rparr>]"

lemma expand_source_witness:
  "\<exists>st'. toolbar_handler [(lit ''highlighter_7'', [])] sample_upward
       \<lparr>block_class = [(lit ''highlighter_7'', lit ''syntaxhighlighter collapsed  cpp'')], helps = 0\<rparr> = Some st' \<and>
     (\<exists>rest. map_of (block_class st') (lit ''highlighter_7'') = Some (lit ''syntaxhighlighter'' @ [SP, SP] @ rest)) \<and> helps st' = 0"
proof -
  let ?st = "\<lparr>block_class = [(lit ''highlighter_7'', lit ''syntaxhighlighter collapsed  cpp'')], helps = 0\<rparr>"
  have "findParentElement sample_upward (lit ''syntaxhighlighter'') =
      Some \<lparr>node_class = lit ''syntaxhighlighter collapsed  cpp'', node_id = lit ''highlighter_7''\<rparr>"
    by (simp add: findParentElement_def sh3_hasClass_def indexOf_def indexOf_from_def lit_def)
  moreover have "highlighter_id (lit ''highlighter_7'') = lit ''highlighter_7''" by (simp add: highlighter_id_def lit_def)
  moreover have "lit ''syntaxhighlighter collapsed  cpp'' = join [SP] (block_classes (plain_params\<lparr>collapsed := True\<rparr>) False)"
    by (simp add: block_classes_def plain_params_def lit_def)
  ultimately show ?thesis
    using expand_source [of sample_upward _ "lit ''highlighter_7''" "[(lit ''highlighter_7'', [])]" "[]" ?st "plain_params\<lparr>collapsed := True\<rparr>" False]
    by fastforce
qed

end
