(* ===== verification/TongjiSessions.thy ===== *)
theory TongjiSessions
  imports TongjiVisits
begin

text \<open>
  Invariants of the two cookies of the traffic counter over sequences of visits: the visitor
  cookie holds one id and at most 100 distinct site ids, the session cookie at most 20
  sessions, one per site; a visit within half an hour continues its session with the next
  number, a later one starts a new session.
\<close>

section \<open>The visitor cookie\<close>

definition site_id :: "jsstr \<Rightarrow> bool" where
  "site_id u \<longleftrightarrow> u \<noteq> [] \<and> list_all is_digit u"

definition uv_cookie :: "jsstr \<Rightarrow> jsstr list \<Rightarrow> jsstr" where
  "uv_cookie uv uids = uv @ lit ''|'' @ join (lit ''@'') uids"

definition uv_inv :: "jsstr \<Rightarrow> bool" where
  "uv_inv s \<longleftrightarrow> (\<exists>uv uids. s = uv_cookie uv uids \<and> site_id uv \<and> list_all site_id uids \<and>
     distinct uids \<and> 1 \<le> length uids \<and> length uids \<le> 100)"

lemma site_id_free: "site_id u \<Longrightarrow> c \<in> set u \<Longrightarrow> 48 \<le> c \<and> c \<le> 57"
  by (auto simp: site_id_def list_all_iff is_digit_def)

lemma has_uid_iff: "has_uid u us \<longleftrightarrow> u \<in> set us"
  by (induction us) auto

lemma join_free: "\<forall>w \<in> set ws. c \<notin> set w \<Longrightarrow> c \<notin> set sep \<Longrightarrow> c \<notin> set (join sep ws)"
  by (induction ws rule: induct_list012) auto

lemma uv_cookie_parts:
  assumes "site_id uv" and "list_all site_id uids" and "uids \<noteq> []"
  shows "split_str (lit ''|'') (uv_cookie uv uids) = [uv, join (lit ''@'') uids]"
    and "split_str (lit ''@'') (join (lit ''@'') uids) = uids" and "uv_cookie uv uids \<noteq> []"
proof -
  have uv: "124 \<notin> set uv" using site_id_free [OF assms(1)] by force
  have ids: "\<forall>w \<in> set uids. 124 \<notin> set w \<and> 64 \<notin> set w"
    using assms(2) site_id_free by (force simp: list_all_iff)
  then have "124 \<notin> set (join (lit ''@'') uids)" by (intro join_free) (auto simp: lit_def)
  with uv show "split_str (lit ''|'') (uv_cookie uv uids) = [uv, join (lit ''@'') uids]"
    by (simp add: uv_cookie_def lit_def split_single_append split_single_none)
  show "split_str (lit ''@'') (join (lit ''@'') uids) = uids"
    using ids assms(3) split_join_single [of uids 64] by (simp add: lit_def)
  show "uv_cookie uv uids \<noteq> []" using assms(1) by (simp add: uv_cookie_def site_id_def)
qed

lemma join_snoc: "xs \<noteq> [] \<Longrightarrow> join sep (xs @ [x]) = join sep xs @ sep @ x"
  by (induction xs rule: induct_list012) (auto simp: join_Cons_nonempty)

lemma uv_visit_cookie:
  assumes "site_id uv" and "list_all site_id uids" and "uids \<noteq> []"
  shows "uv_visit u d1 d2 (uv_cookie uv uids) =
    (if u \<in> set uids then Some (uv, 0, None)
     else Some (uv, 1, Some (uv_cookie uv (if 100 \<le> length uids then [u] else uids @ [u]))))"
  using uv_cookie_parts [OF assms] join_snoc [OF assms(3), of "lit ''@''" u]
  by (simp add: uv_visit_def has_uid_iff Let_def uv_cookie_def)

lemma nat_digits_site: "site_id (nat_digits n)"
  using is_digit_nat_digits [of n] by (simp add: site_id_def list_all_iff)

lemma uv_visit_new:
  "uv_visit u d1 d2 [] =
    (let uv = nat_digits (scaled d1 4000000000) @ nat_digits (scaled d2 4000000000)
     in Some (uv, 1, Some (uv_cookie uv [u])))"
  by (simp add: uv_visit_def uv_cookie_def)

text \<open>The value of the cookie after a visit.\<close>

definition uv_after :: "jsstr \<Rightarrow> jsstr \<times> nat \<times> nat \<Rightarrow> jsstr option" where
  "uv_after s v =
     (case v of (u, d1, d2) \<Rightarrow>
        map_option (\<lambda>(_, _, w). case w of None \<Rightarrow> s | Some value \<Rightarrow> value) (uv_visit u d1 d2 s))"

fun uv_run :: "jsstr \<Rightarrow> (jsstr \<times> nat \<times> nat) list \<Rightarrow> jsstr option" where
  "uv_run s [] = Some s"
| "uv_run s (v # vs) = (case uv_after s v of None \<Rightarrow> None | Some s' \<Rightarrow> uv_run s' vs)"

lemma uv_inv_after:
  assumes "s = [] \<or> uv_inv s" and "site_id u"
  shows "\<exists>s'. uv_after s (u, d1, d2) = Some s' \<and> uv_inv s'"
proof (cases "s = []")
  case True
  let ?uv = "nat_digits (scaled d1 4000000000) @ nat_digits (scaled d2 4000000000)"
  have "site_id ?uv" using nat_digits_site by (simp add: site_id_def)
  then have "uv_inv (uv_cookie ?uv [u])"
    unfolding uv_inv_def using assms(2) by (intro exI [of _ ?uv] exI [of _ "[u]"]) simp
  with True show ?thesis by (simp add: uv_after_def uv_visit_new Let_def)
next
  case False
  with assms(1) obtain uv uids where s: "s = uv_cookie uv uids" "site_id uv" "list_all site_id uids"
    "distinct uids" "1 \<le> length uids" "length uids \<le> 100" by (auto simp: uv_inv_def)
  then have v: "uv_visit u d1 d2 s =
    (if u \<in> set uids then Some (uv, 0, None)
     else Some (uv, 1, Some (uv_cookie uv (if 100 \<le> length uids then [u] else uids @ [u]))))"
    using uv_visit_cookie [of uv uids u d1 d2] by force
  show ?thesis
  proof (cases "u \<in> set uids")
    case True
    with v False assms(1) show ?thesis by (simp add: uv_after_def)
  next
    case new: False
    let ?us = "if 100 \<le> length uids then [u] else uids @ [u]"
    have "uv_inv (uv_cookie uv ?us)"
      unfolding uv_inv_def using s assms(2) new by (intro exI [of _ uv] exI [of _ ?us]) auto
    with v new show ?thesis by (simp add: uv_after_def)
  qed
qed

text \<open>C21: the visitor cookie stays bounded.  From no cookie, any sequence of visits to sites whose ids
  are digits ends without an error, in a cookie with one visitor id and at most 100 distinct
  site ids.\<close>

theorem visitor_cookie_bounded:
  assumes "list_all (\<lambda>(u, _, _). site_id u) vs"
  shows "\<exists>s. uv_run [] vs = Some s \<and> (s = [] \<or> uv_inv s)"
proof -
  have "s = [] \<or> uv_inv s \<Longrightarrow> \<exists>s'. uv_run s vs = Some s' \<and> (s' = [] \<or> uv_inv s')" for s
    using assms
  proof (induction vs arbitrary: s)
    case (Cons v vs)
    obtain u d1 d2 where v: "v = (u, d1, d2)" by (cases v)
    with Cons.prems obtain s' where "uv_after s v = Some s'" "uv_inv s'"
      using uv_inv_after [of s u d1 d2] by auto
    with Cons show ?case by simp
  qed simp
  then show ?thesis by blast
qed

lemma visitor_cookie_bounded_witness:
  "\<exists>s. uv_run [] [(lit ''7'', 1, 2), (lit ''8'', 3, 4)] = Some s \<and> (s = [] \<or> uv_inv s)"
  by (rule visitor_cookie_bounded) (simp add: site_id_def lit_def is_digit_def)

text \<open>A visitor is counted as new once: a site that is in the visitor cookie sees a known visitor
  and leaves the cookie alone, and after any visit the site is in the cookie.\<close>

theorem visitor_counted_once:
  assumes "s = [] \<or> uv_inv s" and "site_id u"
  shows "\<exists>s' uv. uv_after s (u, d1, d2) = Some s' \<and> uv_visit u e1 e2 s' = Some (uv, 0, None)"
proof (cases "s = []")
  case True
  let ?uv = "nat_digits (scaled d1 4000000000) @ nat_digits (scaled d2 4000000000)"
  have "site_id ?uv" using nat_digits_site by (simp add: site_id_def)
  with True assms(2) show ?thesis by (simp add: uv_after_def uv_visit_new uv_visit_cookie Let_def)
next
  case False
  with assms(1) obtain uv uids where s: "s = uv_cookie uv uids" "site_id uv" "list_all site_id uids" "1 \<le> length uids"
    by (auto simp: uv_inv_def)
  then have ne: "uids \<noteq> []" by auto
  show ?thesis
  proof (cases "u \<in> set uids")
    case True
    with s ne show ?thesis by (simp add: uv_after_def uv_visit_cookie)
  next
    case False
    with s ne assms(2) show ?thesis by (simp add: uv_after_def uv_visit_cookie)
  qed
qed

lemma visitor_counted_once_witness:
  "\<exists>s' uv. uv_after [] (lit ''7'', 1, 2) = Some s' \<and> uv_visit (lit ''7'') 3 4 s' = Some (uv, 0, None)"
  by (rule visitor_counted_once) (simp_all add: site_id_def lit_def is_digit_def)

text \<open>A visitor cookie without a bar stops the counter: the site ids are \<open>undefined\<close> and splitting
  them raises an error, before anything is counted.\<close>

theorem visitor_cookie_without_bar:
  assumes "s \<noteq> []" and "124 \<notin> set s"
  shows "uv_visit u d1 d2 s = None"
  using assms by (simp add: uv_visit_def lit_def split_single_none)

lemma visitor_cookie_without_bar_witness: "uv_visit (lit ''7'') 1 2 (lit ''123'') = None"
  by (rule visitor_cookie_without_bar) (simp_all add: lit_def)

section \<open>The session cookie\<close>

record session =
  sess_id :: jsstr
  sess_no :: nat
  sess_stm :: nat
  sess_site :: jsstr

definition entry :: "session \<Rightarrow> jsstr" where
  "entry x = session_value (sess_id x) (nat_digits (sess_no x)) (sess_stm x) (sess_site x)"

definition ss_cookie :: "session list \<Rightarrow> jsstr" where
  "ss_cookie xs = join (lit ''|'') (map entry xs)"

definition ok_session :: "session \<Rightarrow> bool" where
  "ok_session x \<longleftrightarrow> site_id (sess_id x) \<and> site_id (sess_site x)"

text \<open>
  What a visit does to the sessions, without cookies: the first session of the site goes on
  or is replaced when it is older than half an hour; a site without a session gets one, at the
  end, or in the place of a random one when there are twenty.
\<close>

definition next_page :: "jsstr \<Rightarrow> nat \<Rightarrow> nat \<Rightarrow> session \<Rightarrow> session" where
  "next_page rid t1 t2 x =
     (if sess_stm x + 1800 < t1 then x\<lparr>sess_id := rid, sess_no := 0, sess_stm := t2\<rparr>
      else x\<lparr>sess_no := sess_no x + 1, sess_stm := t2\<rparr>)"

definition visit_sessions ::
  "jsstr \<Rightarrow> jsstr \<Rightarrow> nat \<Rightarrow> nat \<Rightarrow> nat \<Rightarrow> session list \<Rightarrow> session \<times> session list" where
  "visit_sessions u rid pos t1 t2 xs =
     (let i = length (takeWhile (\<lambda>x. sess_site x \<noteq> u) xs)
      in if i < length xs then (let x = next_page rid t1 t2 (xs ! i) in (x, xs[i := x]))
         else let x = \<lparr>sess_id = rid, sess_no = 0, sess_stm = t1, sess_site = u\<rparr>
              in (x, if 20 \<le> length xs then xs[pos := x] else xs @ [x]))"

lemma entry_items:
  assumes "ok_session x"
  shows "split_str (lit ''_'') (entry x) = [sess_id x, nat_digits (sess_no x), nat_digits (sess_stm x), sess_site x]"
    and "124 \<notin> set (entry x)" and "entry x \<noteq> []"
proof -
  have f: "95 \<notin> set (sess_id x)" "95 \<notin> set (sess_site x)" "124 \<notin> set (sess_id x)" "124 \<notin> set (sess_site x)"
    using assms site_id_free by (force simp: ok_session_def)+
  have d: "124 \<notin> set (nat_digits n)" for n using is_digit_nat_digits [of n] by (auto simp: is_digit_def)
  have s: "entry x = sess_id x @ 95 # nat_digits (sess_no x) @ 95 # nat_digits (sess_stm x) @ 95 # sess_site x"
    by (simp add: entry_def session_value_def lit_def)
  show "split_str (lit ''_'') (entry x) = [sess_id x, nat_digits (sess_no x), nat_digits (sess_stm x), sess_site x]"
    unfolding s using f digits_no_mark by (simp add: lit_def split_single_append split_single_none)
  show "124 \<notin> set (entry x)" "entry x \<noteq> []" unfolding s using f d by auto
qed

lemma find_session_entries:
  "list_all ok_session xs \<Longrightarrow>
   find_session u k (map entry xs) =
     (let i = length (takeWhile (\<lambda>x. sess_site x \<noteq> u) xs) in if i < length xs then Some (k + i) else None)"
  by (induction xs arbitrary: k) (auto simp: entry_items Let_def)

lemma Number_digits: "Number (nat_digits n) = Num (of_nat n)"
proof -
  let ?s = "nat_digits n"
  have dig: "\<forall>c \<in> set ?s. is_digit c" by (rule is_digit_nat_digits)
  obtain c t where ct: "?s = c # t" by (cases ?s) auto
  have ns: "dropWhile is_space xs = xs" if "\<forall>c \<in> set xs. is_digit c" for xs
    using that by (cases xs) (auto simp: is_digit_def is_space_def)
  have trim: "rev (dropWhile is_space (rev (dropWhile is_space ?s))) = ?s"
    using ns [of ?s] ns [of "rev ?s"] dig by simp
  have hex: "\<not> prefix (lit ''0x'') ?s" "\<not> prefix (lit ''0X'') ?s"
    using dig by (auto simp: lit_def prefix_def is_digit_def)
  have sign: "\<not> prefix [45] ?s" "\<not> prefix [43] ?s" "?s \<noteq> lit ''Infinity''"
    using dig by (auto simp: lit_def prefix_def is_digit_def)
  have w: "takeWhile is_digit ?s = ?s" "dropWhile is_digit ?s = []" using dig by (simp_all add: takeWhile_all_iff)
  have "decimal ?s = Num (of_nat n)" by (simp add: decimal_def Let_def digit_value_nat_digits w)
  then show ?thesis using hex sign by (simp add: Number_def Let_def trim)
qed

lemma older_digits: "older now (nat_digits t) limit \<longleftrightarrow> t + limit < now"
proof -
  have "of_nat now - of_nat t > (of_nat limit :: rat) \<longleftrightarrow> of_nat (t + limit) < (of_nat now :: rat)" by auto
  also have "\<dots> \<longleftrightarrow> t + limit < now" by (rule of_nat_less_iff)
  finally show ?thesis by (simp add: older_def Number_digits)
qed

lemma number_str_nat: "number_str (Some (int n)) = nat_digits n"
  by (simp add: number_str_def int_to_str_def)

lemma ss_cookie_split:
  assumes "list_all ok_session xs" and "xs \<noteq> []"
  shows "split_str (lit ''|'') (ss_cookie xs) = map entry xs" and "ss_cookie xs \<noteq> []"
proof -
  have "\<forall>w \<in> set (map entry xs). 124 \<notin> set w" using assms(1) entry_items(2) by (auto simp: list_all_iff)
  then show "split_str (lit ''|'') (ss_cookie xs) = map entry xs"
    using split_join_single [of "map entry xs" 124] assms(2) by (simp add: ss_cookie_def lit_def)
  obtain x xs' where "xs = x # xs'" using assms(2) by (cases xs) auto
  with assms(1) entry_items(3) [of x] show "ss_cookie xs \<noteq> []"
    by (cases xs') (auto simp: ss_cookie_def)
qed

lemma scaled_bound: "d < 2 ^ 53 \<Longrightarrow> 0 < n \<Longrightarrow> scaled d n < n"
proof -
  assume "d < 2 ^ 53" "0 < n"
  then have "d * n < 2 ^ 53 * n" by simp
  then show ?thesis unfolding scaled_def by (simp add: less_mult_imp_div_less mult.commute)
qed

lemma session_step:
  assumes "list_all ok_session xs" and "xs \<noteq> []" and "d_pos < 2 ^ 53"
  shows "ss_visit u d_id d_pos t1 t2 (ss_cookie xs) =
    (case visit_sessions u (nat_digits (scaled d_id 4000000000)) (scaled d_pos (length xs)) t1 t2 xs of
       (x, ys) \<Rightarrow> (sess_id x, Some (int (sess_no x)), ss_cookie ys))"
proof -
  let ?i = "length (takeWhile (\<lambda>x. sess_site x \<noteq> u) xs)"
  let ?rid = "nat_digits (scaled d_id 4000000000)"
  note parts = ss_cookie_split [OF assms(1,2)] find_session_entries [OF assms(1), of u 0]
  show ?thesis
  proof (cases "?i < length xs")
    case True
    let ?x = "xs ! ?i" and ?y = "next_page ?rid t1 t2 (xs ! ?i)"
    have ok: "ok_session ?x" using True assms(1) by (simp add: list_all_length)
    have site: "sess_site ?x = u" using nth_length_takeWhile [OF True] by simp
    have p: "parseInt (nat_digits (sess_no ?x)) = Some (int (sess_no ?x))"
      using parseInt_int_to_str [of "int (sess_no ?x)"] by (simp add: int_to_str_def)
    have succ: "int (sess_no ?x) + 1 = int (Suc (sess_no ?x))" by simp
    have "session_value (sess_id ?y) (nat_digits (sess_no ?y)) t2 u = entry ?y"
      using site by (simp add: entry_def next_page_def)
    then have "map entry (xs[?i := ?y]) = (map entry xs)[?i := session_value (sess_id ?y) (nat_digits (sess_no ?y)) t2 u]"
      by (simp add: map_update)
    moreover have "ss_visit u d_id d_pos t1 t2 (ss_cookie xs) = (sess_id ?y, Some (int (sess_no ?y)),
        join (lit ''|'') ((map entry xs)[?i := session_value (sess_id ?y) (nat_digits (sess_no ?y)) t2 u]))"
      using True ok p
      by (simp add: ss_visit_def parts Let_def entry_items older_digits next_page_def number_str_nat
          number_str_nat [of 0, simplified] succ del: of_nat_Suc)
    ultimately show ?thesis using True by (simp add: visit_sessions_def Let_def ss_cookie_def)
  next
    case False
    let ?x = "\<lparr>sess_id = ?rid, sess_no = 0, sess_stm = t1, sess_site = u\<rparr>"
    let ?pos = "if 20 \<le> length xs then scaled d_pos (length xs) else length xs"
    have zero: "nat_digits 0 = lit ''0''" by (simp add: nat_digits.simps lit_def)
    have "scaled d_pos (length xs) < length xs" using scaled_bound [OF assms(3)] assms(2) by simp
    then have "set_at (map entry xs) ?pos (entry ?x) =
        map entry (if 20 \<le> length xs then xs[scaled d_pos (length xs) := ?x] else xs @ [?x])"
      by (simp add: set_at_def map_update)
    moreover have "ss_visit u d_id d_pos t1 t2 (ss_cookie xs) =
        (?rid, Some 0, join (lit ''|'') (set_at (map entry xs) ?pos (entry ?x)))"
      using False by (simp add: ss_visit_def parts Let_def entry_def zero)
    ultimately show ?thesis using False by (simp add: visit_sessions_def Let_def ss_cookie_def)
  qed
qed

text \<open>C18: refinement.  On the cookie of a list of sessions the session block does what
  \<open>visit_sessions\<close> does to the list, and returns the id and the number of the session it made.\<close>

theorem session_block_refines:
  assumes "list_all ok_session xs" and "xs \<noteq> []" and "d_pos < 2 ^ 53"
  shows "ss_visit u d_id d_pos t1 t2 (ss_cookie xs) =
    (case visit_sessions u (nat_digits (scaled d_id 4000000000)) (scaled d_pos (length xs)) t1 t2 xs of
       (x, ys) \<Rightarrow> (sess_id x, Some (int (sess_no x)), ss_cookie ys))"
  using session_step [OF assms] .

lemma session_block_refines_witness:
  "let xs = [\<lparr>sess_id = lit ''5'', sess_no = 3, sess_stm = 100, sess_site = lit ''7''\<rparr>]
   in ss_visit (lit ''7'') 1 2 200 201 (ss_cookie xs) =
      (case visit_sessions (lit ''7'') (nat_digits (scaled 1 4000000000)) (scaled 2 (length xs)) 200 201 xs of
         (x, ys) \<Rightarrow> (sess_id x, Some (int (sess_no x)), ss_cookie ys))"
  unfolding Let_def
  by (rule session_block_refines) (simp_all add: ok_session_def site_id_def lit_def is_digit_def)

section \<open>Sessions over visits\<close>

definition ss_inv :: "session list \<Rightarrow> bool" where
  "ss_inv xs \<longleftrightarrow> list_all ok_session xs \<and> distinct (map sess_site xs) \<and> 1 \<le> length xs \<and> length xs \<le> 20"

lemma takeWhile_site:
  "length (takeWhile (\<lambda>x. sess_site x \<noteq> u) xs) < length xs \<longleftrightarrow> u \<in> sess_site ` set xs"
  by (induction xs) auto

lemma distinct_update_fresh:
  "distinct (map f xs) \<Longrightarrow> f y \<notin> f ` set xs \<Longrightarrow> distinct (map f (xs[i := y]))"
  by (auto simp: map_update distinct_list_update)

lemma ss_inv_visit:
  assumes "ss_inv xs" and "site_id u" and "site_id rid" and "visit_sessions u rid pos t1 t2 xs = (x, ys)"
  shows "ss_inv ys \<and> sess_site x = u \<and> x \<in> set ys \<or> 20 \<le> length xs \<and> length xs \<le> pos"
proof (cases "length (takeWhile (\<lambda>x. sess_site x \<noteq> u) xs) < length xs")
  case True
  let ?i = "length (takeWhile (\<lambda>x. sess_site x \<noteq> u) xs)"
  have xy: "x = next_page rid t1 t2 (xs ! ?i)" "ys = xs[?i := x]"
    using assms(4) True by (auto simp: visit_sessions_def Let_def)
  have site: "sess_site (xs ! ?i) = u" using nth_length_takeWhile [OF True] by simp
  then have sx: "sess_site x = u" by (simp add: xy(1) next_page_def)
  have "ok_session (xs ! ?i)" using assms(1) True by (simp add: ss_inv_def list_all_length)
  then have okx: "ok_session x" using assms(3) by (simp add: xy(1) ok_session_def next_page_def)
  have "map sess_site ys = map sess_site xs" unfolding xy(2) map_update sx using site True by (metis length_map list_update_id nth_map)
  moreover have "list_all ok_session ys"
    using assms(1) okx set_update_subset_insert [of xs ?i x] unfolding xy(2) by (auto simp: ss_inv_def list_all_iff)
  moreover have "x \<in> set ys" using True by (simp add: xy(2) set_update_memI)
  ultimately show ?thesis using assms(1) sx by (simp add: ss_inv_def xy(2))
next
  case False
  then have fresh: "u \<notin> sess_site ` set xs" by (simp add: takeWhile_site)
  have xy: "x = \<lparr>sess_id = rid, sess_no = 0, sess_stm = t1, sess_site = u\<rparr>"
    "ys = (if 20 \<le> length xs then xs[pos := x] else xs @ [x])"
    using assms(4) False by (auto simp: visit_sessions_def Let_def)
  have okx: "ok_session x" "sess_site x = u" using assms(2,3) by (simp_all add: xy(1) ok_session_def)
  show ?thesis
  proof (cases "20 \<le> length xs")
    case True
    have "list_all ok_session ys"
      using assms(1) okx set_update_subset_insert [of xs pos x] True by (auto simp: xy(2) ss_inv_def list_all_iff)
    moreover have "distinct (map sess_site ys)"
      using distinct_update_fresh [of sess_site xs x pos] assms(1) fresh okx True by (simp add: xy(2) ss_inv_def)
    ultimately show ?thesis
      using assms(1) okx True by (cases "pos < length xs") (simp_all add: ss_inv_def xy(2) set_update_memI)
  next
    case False
    then show ?thesis using assms(1) okx fresh by (auto simp: ss_inv_def xy(2))
  qed
qed

lemma ss_visit_new:
  "ss_visit u d_id d_pos t1 t2 [] =
    (let rid = nat_digits (scaled d_id 4000000000)
     in (rid, Some 0, ss_cookie [\<lparr>sess_id = rid, sess_no = 0, sess_stm = t1, sess_site = u\<rparr>]))"
  by (simp add: ss_visit_def ss_cookie_def entry_def Let_def nat_digits.simps [of 0] lit_def)

text \<open>After a visit the cookie is that of good sessions, one of which is the visit's.\<close>

lemma ss_visit_step:
  assumes "s = [] \<or> (\<exists>xs. s = ss_cookie xs \<and> ss_inv xs)" and "site_id u" and "d_pos < 2 ^ 53"
  shows "\<exists>x ys. ss_visit u d_id d_pos t1 t2 s = (sess_id x, Some (int (sess_no x)), ss_cookie ys) \<and>
    ss_inv ys \<and> x \<in> set ys \<and> sess_site x = u \<and> (sess_stm x = t1 \<or> sess_stm x = t2)"
proof (cases "s = []")
  case True
  let ?x = "\<lparr>sess_id = nat_digits (scaled d_id 4000000000), sess_no = 0, sess_stm = t1, sess_site = u\<rparr>"
  show ?thesis
    using True assms(2) nat_digits_site
    by (intro exI [of _ ?x] exI [of _ "[?x]"]) (simp add: ss_visit_new ss_inv_def ok_session_def Let_def)
next
  case False
  let ?rid = "nat_digits (scaled d_id 4000000000)"
  from False assms(1) obtain xs where xs: "s = ss_cookie xs" "ss_inv xs" by blast
  then have ok: "list_all ok_session xs" "xs \<noteq> []" by (auto simp: ss_inv_def)
  obtain x ys where v: "visit_sessions u ?rid (scaled d_pos (length xs)) t1 t2 xs = (x, ys)" by fastforce
  have "scaled d_pos (length xs) < length xs" using scaled_bound [OF assms(3)] ok(2) by simp
  with ss_inv_visit [OF xs(2) assms(2) nat_digits_site v] have "ss_inv ys" "sess_site x = u" "x \<in> set ys" by auto
  moreover have "sess_stm x = t1 \<or> sess_stm x = t2"
    using v by (auto simp: visit_sessions_def next_page_def Let_def split: if_splits)
  ultimately show ?thesis using session_step [OF ok assms(3)] v xs(1) by (intro exI [of _ x] exI [of _ ys]) simp
qed

lemma site_index:
  assumes "distinct (map sess_site ys)" and "x \<in> set ys"
  shows "\<exists>i. i = length (takeWhile (\<lambda>y. sess_site y \<noteq> sess_site x) ys) \<and> i < length ys \<and> ys ! i = x"
  using assms by (induction ys) auto

lemma ss_visit_again:
  assumes "ss_inv ys" and "x \<in> set ys" and "d_pos < 2 ^ 53"
  shows "\<exists>s. ss_visit (sess_site x) d_id d_pos t1 t2 (ss_cookie ys) =
    (if sess_stm x + 1800 < t1 then (nat_digits (scaled d_id 4000000000), Some 0, s)
     else (sess_id x, Some (int (sess_no x) + 1), s))"
proof -
  have ok: "list_all ok_session ys" "ys \<noteq> []" using assms(1,2) by (auto simp: ss_inv_def)
  obtain i where i: "i = length (takeWhile (\<lambda>y. sess_site y \<noteq> sess_site x) ys)" "i < length ys" "ys ! i = x"
    using site_index [of ys x] assms(1,2) by (auto simp: ss_inv_def)
  then show ?thesis
    using session_step [OF ok assms(3), of "sess_site x" d_id t1 t2]
    by (auto simp: visit_sessions_def next_page_def Let_def)
qed

fun ss_run :: "jsstr \<Rightarrow> (jsstr \<times> nat \<times> nat \<times> nat \<times> nat) list \<Rightarrow> jsstr" where
  "ss_run s [] = s"
| "ss_run s ((u, d_id, d_pos, t1, t2) # vs) = ss_run (snd (snd (ss_visit u d_id d_pos t1 t2 s))) vs"

text \<open>C20: the session cookie stays bounded.  From no cookie, after any sequence of visits the cookie
  holds between one and twenty sessions, well formed and of different sites (or no visit has
  happened).\<close>

theorem session_cookie_bounded:
  assumes "list_all (\<lambda>(u, _, d_pos, _, _). site_id u \<and> d_pos < 2 ^ 53) vs"
  shows "ss_run [] vs = [] \<or> (\<exists>xs. ss_run [] vs = ss_cookie xs \<and> ss_inv xs)"
proof -
  have "s = [] \<or> (\<exists>xs. s = ss_cookie xs \<and> ss_inv xs) \<Longrightarrow>
      ss_run s vs = [] \<or> (\<exists>xs. ss_run s vs = ss_cookie xs \<and> ss_inv xs)" for s
    using assms
  proof (induction vs arbitrary: s)
    case (Cons v vs)
    obtain u d_id d_pos t1 t2 where v: "v = (u, d_id, d_pos, t1, t2)" by (cases v)
    then have "site_id u" "d_pos < 2 ^ 53" using Cons.prems(2) by simp_all
    from ss_visit_step [OF Cons.prems(1) this, of d_id t1 t2] obtain x :: session and ys where
      "ss_visit u d_id d_pos t1 t2 s = (sess_id x, Some (int (sess_no x)), ss_cookie ys)" "ss_inv ys" by blast
    with v Cons.IH [of "ss_cookie ys"] Cons.prems(2) show ?case by auto
  qed simp
  then show ?thesis by blast
qed

lemma session_cookie_bounded_witness:
  "ss_run [] [(lit ''7'', 1, 2, 100, 100), (lit ''8'', 1, 2, 150, 150)] = [] \<or>
   (\<exists>xs. ss_run [] [(lit ''7'', 1, 2, 100, 100), (lit ''8'', 1, 2, 150, 150)] = ss_cookie xs \<and> ss_inv xs)"
  by (rule session_cookie_bounded) (simp add: site_id_def lit_def is_digit_def)

text \<open>C19: sessions continue and expire.  After a visit, the next visit to the same site within half an
  hour of it has the same session id and the next number; more than half an hour later it has a
  new id and number 0.\<close>

theorem session_continues:
  assumes "s = [] \<or> (\<exists>xs. s = ss_cookie xs \<and> ss_inv xs)" and "site_id u"
    and "d_pos < 2 ^ 53" and "e_pos < 2 ^ 53" and "t1 \<le> t2"
    and "ss_visit u d_id d_pos t1 t2 s = (sid, no, s')"
  shows "(t3 \<le> t1 + 1800 \<longrightarrow> (\<exists>s''. ss_visit u e_id e_pos t3 t4 s' = (sid, map_option (\<lambda>n. n + 1) no, s''))) \<and>
    (t2 + 1800 < t3 \<longrightarrow> (\<exists>s''. ss_visit u e_id e_pos t3 t4 s' = (nat_digits (scaled e_id 4000000000), Some 0, s'')))"
proof -
  from ss_visit_step [OF assms(1,2,3), of d_id t1 t2] assms(6) obtain x ys where
    x: "sid = sess_id x" "no = Some (int (sess_no x))" "s' = ss_cookie ys" "ss_inv ys" "x \<in> set ys" "sess_site x = u"
    "sess_stm x = t1 \<or> sess_stm x = t2" by auto
  from ss_visit_again [OF x(4,5) assms(4), of e_id t3 t4] x assms(5) show ?thesis by auto
qed

lemma session_continues_witness:
  "let s' = snd (snd (ss_visit (lit ''7'') 1 2 100 101 []));
       sid = fst (ss_visit (lit ''7'') 1 2 100 101 [])
   in (\<exists>s''. ss_visit (lit ''7'') 3 4 1900 1901 s' = (sid, Some 1, s'')) \<and>
      (\<exists>s''. ss_visit (lit ''7'') 3 4 1902 1903 s' = (nat_digits (scaled 3 4000000000), Some 0, s''))"
proof -
  obtain sid s' where v: "ss_visit (lit ''7'') 1 2 100 101 [] = (sid, Some 0, s')"
    by (simp add: ss_visit_new Let_def)
  have h: "([] :: jsstr) = [] \<or> (\<exists>xs. [] = ss_cookie xs \<and> ss_inv xs)" "site_id (lit ''7'')"
    by (simp_all add: site_id_def lit_def is_digit_def)
  show ?thesis
    using session_continues [OF h _ _ _ v, of 4 1900 3 1901] session_continues [OF h _ _ _ v, of 4 1902 3 1903] v by simp
qed

end
