(* ===== verification/TongjiMain.thy ===== *)
theory TongjiMain
  imports TongjiSessions HighlighterLines "HOL-Library.AList"
begin

text \<open>
  The traffic counter against a cookie store.  The locale \<open>cookie_store\<close> is what the script
  relies on in the browser: cookies have different names, \<open>document.cookie\<close> lists them, and an
  assignment of what \<open>lz_set_cookie\<close> makes sets that cookie and no other.  Inside it: reading a
  cookie finds it when no other cookie looks like it, and \<open>lz_main\<close> performs one visit on
  each of the two cookies.  The store is interpreted by an association list.
\<close>

section \<open>Reading a cookie\<close>

definition render :: "(jsstr \<times> jsstr) list \<Rightarrow> jsstr" where
  "render ps = join (lit ''; '') (map (\<lambda>(n, v). n @ lit ''='' @ v) ps)"

definition plain_cookie_name :: "jsstr \<Rightarrow> bool" where
  "plain_cookie_name n \<longleftrightarrow> n \<noteq> [] \<and> 61 \<notin> set n \<and> 59 \<notin> set n \<and> 32 \<notin> set n"

lemma index_of_piece:
  assumes "mk \<noteq> []" and "59 \<notin> set mk" and "32 \<notin> set mk"
  shows "\<not> sublist mk p \<Longrightarrow>
    index_of mk (p @ 59 # 32 # rest) = map_option ((+) (length p + 2)) (index_of mk rest)"
  using index_of_past_mark [OF assms(1,2), of p "32 # rest"] index_of_past_mark [OF assms(1,3), of "[]" rest] assms(1)
  by (cases "index_of mk rest") simp_all

definition other_cookie :: "jsstr \<Rightarrow> jsstr \<times> jsstr \<Rightarrow> bool" where
  "other_cookie name p \<longleftrightarrow> \<not> sublist (name @ [61]) (fst p @ [61] @ snd p)"

lemma render_Cons: "render (p # q # ps) = (fst p @ [61] @ snd p) @ 59 # 32 # render (q # ps)"
  by (cases p) (simp add: render_def lit_def)

lemma render_one: "render [p] = fst p @ [61] @ snd p"
  by (cases p) (simp add: render_def lit_def)

lemma index_of_absent:
  assumes "plain_cookie_name n"
  shows "list_all (other_cookie n) ps \<Longrightarrow> index_of (n @ [61]) (render ps) = None"
proof (induction ps rule: induct_list012)
  case 1
  then show ?case by (simp add: render_def)
next
  case (2 p)
  then show ?case by (simp add: render_one other_cookie_def index_of_None)
next
  case (3 p q ps)
  then show ?case
    using index_of_piece [of "n @ [61]" "fst p @ [61] @ snd p" "render (q # ps)"] assms
    by (simp add: render_Cons other_cookie_def plain_cookie_name_def)
qed

lemma render_found:
  assumes "plain_cookie_name n"
  shows "list_all (other_cookie n) front \<Longrightarrow>
    \<exists>A R. render (front @ (n, v) # rear) = A @ n @ 61 # v @ R \<and>
      index_of (n @ [61]) (render (front @ (n, v) # rear)) = Some (length A) \<and> (R = [] \<or> prefix [59] R)"
proof (induction front)
  case Nil
  have "\<exists>R. render ((n, v) # rear) = n @ 61 # v @ R \<and> (R = [] \<or> prefix [59] R)"
    by (cases rear) (auto simp: render_Cons render_one)
  then obtain R where R: "render ((n, v) # rear) = n @ 61 # v @ R" "R = [] \<or> prefix [59] R" by blast
  moreover have "index_of (n @ [61]) (n @ 61 # v @ R) = Some 0" by (rule index_of_prefix) simp
  ultimately show ?case by (intro exI [of _ "[]"] exI [of _ R]) simp
next
  case (Cons p front)
  then have "list_all (other_cookie n) front" by simp
  from Cons.IH [OF this] obtain A R where AR: "render (front @ (n, v) # rear) = A @ n @ 61 # v @ R"
    "index_of (n @ [61]) (render (front @ (n, v) # rear)) = Some (length A)" "R = [] \<or> prefix [59] R" by blast
  let ?p = "fst p @ [61] @ snd p"
  have "render ((p # front) @ (n, v) # rear) = ?p @ 59 # 32 # render (front @ (n, v) # rear)"
    by (cases front) (simp_all add: render_Cons)
  moreover have "index_of (n @ [61]) (?p @ 59 # 32 # render (front @ (n, v) # rear)) = Some (length ?p + 2 + length A)"
    using index_of_piece [of "n @ [61]" ?p] Cons.prems AR(2) assms
    by (simp add: other_cookie_def plain_cookie_name_def)
  ultimately show ?case using AR(1,3) by (intro exI [of _ "?p @ [59, 32] @ A"] exI [of _ R]) simp
qed

lemma index_of_semicolon:
  "59 \<notin> set v \<Longrightarrow> index_of [59] (61 # v @ R) = (if R = [] then None else Some (Suc (length v)))"
  if "R = [] \<or> prefix [59] R"
  using that by (auto simp: prefix_def index_of_single_append)

lemma lz_get_cookie_found:
  assumes "plain_cookie_name n" and "59 \<notin> set v" and co: "co = A @ n @ 61 # v @ R"
    and idx: "index_of (n @ [61]) co = Some (length A)" and R: "R = [] \<or> prefix [59] R"
  shows "lz_get_cookie co n = v"
proof -
  have b: "indexOf co (n @ lit ''='') = int (length A)"
    using idx by (simp add: indexOf_def indexOf_from_def lit_def)
  have k: "int (length A) + int (length n) = int (length A + length n)" by simp
  have d: "drop (length A + length n) co = 61 # v @ R" by (simp add: co)
  have i: "index_of [59] (drop (length A + length n) co) = (if R = [] then None else Some (Suc (length v)))"
    unfolding d by (rule index_of_semicolon [OF R assms(2)])
  have le: "min (length A + length n) (length co) = length A + length n" by (simp add: co)
  have from_: "indexOf_from co (lit '';'') (int (length A + length n)) =
      (if R = [] then -1 else int (length A + length n + Suc (length v)))"
    by (simp only: indexOf_from_def Let_def nat_int le lit_def list.map i) (simp add: i)
  have ne: "n @ lit ''='' \<noteq> lit ''=''" using assms(1) by (simp add: plain_cookie_name_def)
  show ?thesis
  proof (cases "R = []")
    case True
    have "substring_from co (int (length A + length n) + 1) = v"
      using substring_from_nat [of co "Suc (length A + length n)"] True by (simp add: co add.commute)
    then show ?thesis using b ne from_ True by (simp only: lz_get_cookie_def Let_def k) simp
  next
    case False
    let ?e = "length A + length n + Suc (length v)"
    have "substring co (int (length A + length n) + 1) (int ?e) = v"
      using substring_nat [of "Suc (length A + length n)" ?e co] by (simp add: co add.commute)
    then show ?thesis using b ne from_ False by (simp only: lz_get_cookie_def Let_def k) simp
  qed
qed

lemma lz_get_cookie_render:
  assumes "plain_cookie_name n" and "distinct (map fst ps)"
    and "\<forall>p \<in> set ps. fst p \<noteq> n \<longrightarrow> other_cookie n p" and "\<forall>v. map_of ps n = Some v \<longrightarrow> 59 \<notin> set v"
  shows "lz_get_cookie (render ps) n = (case map_of ps n of None \<Rightarrow> [] | Some v \<Rightarrow> v)"
proof (cases "map_of ps n")
  case None
  then have "n \<notin> fst ` set ps" by (simp add: map_of_eq_None_iff)
  then have "list_all (other_cookie n) ps" unfolding list_all_iff using assms(3) by (metis imageI)
  then have "index_of (n @ [61]) (render ps) = None" by (rule index_of_absent [OF assms(1)])
  with None assms(1) show ?thesis
    by (simp add: lz_get_cookie_def indexOf_def indexOf_from_def lit_def plain_cookie_name_def)
next
  case (Some v)
  then obtain front rear where ps: "ps = front @ (n, v) # rear" by (meson map_of_SomeD split_list)
  with assms(2) have "n \<notin> fst ` set front" by auto
  then have "list_all (other_cookie n) front" unfolding list_all_iff using assms(3) ps by (metis imageI Un_iff set_append)
  from render_found [OF assms(1) this, of v rear] obtain A R where
    "render ps = A @ n @ 61 # v @ R" "index_of (n @ [61]) (render ps) = Some (length A)" "R = [] \<or> prefix [59] R"
    unfolding ps by blast
  with lz_get_cookie_found [OF assms(1), of v] assms(4) Some show ?thesis by simp
qed

section \<open>The cookie store\<close>

locale cookie_store =
  fixes pairs :: "'j \<Rightarrow> (jsstr \<times> jsstr) list" and assign :: "jsstr \<Rightarrow> 'j \<Rightarrow> 'j"
  assumes distinct_names: "distinct (map fst (pairs j))"
    and assign_sets: "plain_cookie_name n \<Longrightarrow> 59 \<notin> set v \<Longrightarrow> 32 \<notin> set v \<Longrightarrow> cotp \<le> 2 \<Longrightarrow>
      map_of (pairs (assign (lz_set_cookie iy ih dd n v cotp) j)) = (map_of (pairs j))(n \<mapsto> v)"
begin

definition cookie_of :: "jsstr \<Rightarrow> 'j \<Rightarrow> jsstr" where
  "cookie_of n j = (case map_of (pairs j) n of None \<Rightarrow> [] | Some v \<Rightarrow> v)"

text \<open>No other cookie looks like one of the two, and the two hold what the script writes.\<close>

definition kept :: "'j \<Rightarrow> bool" where
  "kept j \<longleftrightarrow>
     (\<forall>p \<in> set (pairs j). (fst p \<noteq> lit ''lzstat_uv'' \<longrightarrow> other_cookie (lit ''lzstat_uv'') p) \<and>
                           (fst p \<noteq> lit ''lzstat_ss'' \<longrightarrow> other_cookie (lit ''lzstat_ss'') p)) \<and>
     (cookie_of (lit ''lzstat_uv'') j = [] \<or> uv_inv (cookie_of (lit ''lzstat_uv'') j)) \<and>
     (cookie_of (lit ''lzstat_ss'') j = [] \<or> (\<exists>xs. cookie_of (lit ''lzstat_ss'') j = ss_cookie xs \<and> ss_inv xs))"

lemma in_pairs: "p \<in> set (pairs j) \<longleftrightarrow> map_of (pairs j) (fst p) = Some (snd p)"
  using map_of_eq_Some_iff [OF distinct_names, of j "fst p" "snd p"] by simp

lemma read_cookie:
  assumes "plain_cookie_name n" and "\<forall>p \<in> set (pairs j). fst p \<noteq> n \<longrightarrow> other_cookie n p"
    and "59 \<notin> set (cookie_of n j)"
  shows "lz_get_cookie (render (pairs j)) n = cookie_of n j"
  using lz_get_cookie_render [OF assms(1) distinct_names assms(2)] assms(3)
  by (auto simp: cookie_of_def)

lemma cookie_of_assign:
  assumes "plain_cookie_name n" and "59 \<notin> set v" and "32 \<notin> set v" and "cotp \<le> 2"
  shows "cookie_of k (assign (lz_set_cookie iy ih dd n v cotp) j) = (if k = n then v else cookie_of k j)"
  using assign_sets [OF assms] by (simp add: cookie_of_def)

lemma in_pairs_assign:
  assumes "plain_cookie_name n" and "59 \<notin> set v" and "32 \<notin> set v" and "cotp \<le> 2"
    and "p \<in> set (pairs (assign (lz_set_cookie iy ih dd n v cotp) j))"
  shows "p = (n, v) \<or> p \<in> set (pairs j)"
  using assms(5) unfolding in_pairs assign_sets [OF assms(1-4)] by (cases p) (auto split: if_splits)

end

section \<open>What the two cookies hold\<close>

lemma digits_free: "site_id u \<Longrightarrow> \<not> (48 \<le> c \<and> c \<le> 57) \<Longrightarrow> c \<notin> set u"
  using site_id_free by blast

lemma uv_inv_free:
  assumes "uv_inv s"
  shows "59 \<notin> set s \<and> 32 \<notin> set s \<and> 61 \<notin> set s"
proof -
  from assms obtain uv uids where s: "s = uv_cookie uv uids" "site_id uv" "list_all site_id uids" by (auto simp: uv_inv_def)
  have "c \<notin> set s" if "\<not> (48 \<le> c \<and> c \<le> 57)" "c \<noteq> 124" "c \<noteq> 64" for c
  proof -
    have "\<forall>w \<in> set uids. c \<notin> set w" using s(3) digits_free that(1) by (auto simp: list_all_iff)
    then have "c \<notin> set (join (lit ''@'') uids)" using that by (intro join_free) (auto simp: lit_def)
    moreover have "c \<notin> set uv" by (rule digits_free [OF s(2) that(1)])
    ultimately show ?thesis using that by (simp add: s(1) uv_cookie_def lit_def)
  qed
  then show ?thesis by simp
qed

lemma entry_free:
  assumes "ok_session x" and "\<not> (48 \<le> c \<and> c \<le> 57)" and "c \<noteq> 95"
  shows "c \<notin> set (entry x)"
proof -
  have "c \<notin> set (sess_id x)" "c \<notin> set (sess_site x)" "c \<notin> set (nat_digits n)" for n
    using assms(1,2) digits_free nat_digits_site by (auto simp: ok_session_def)
  with assms(3) show ?thesis by (simp add: entry_def session_value_def lit_def)
qed

lemma ss_inv_free:
  assumes "ss_inv xs"
  shows "59 \<notin> set (ss_cookie xs) \<and> 32 \<notin> set (ss_cookie xs) \<and> 61 \<notin> set (ss_cookie xs)"
proof -
  have "c \<notin> set (ss_cookie xs)" if "\<not> (48 \<le> c \<and> c \<le> 57)" "c \<noteq> 95" "c \<noteq> 124" for c
  proof -
    have "\<forall>w \<in> set (map entry xs). c \<notin> set w"
      using assms entry_free [OF _ that(1,2)] by (auto simp: ss_inv_def list_all_iff)
    then show ?thesis unfolding ss_cookie_def using that by (intro join_free) (auto simp: lit_def)
  qed
  then show ?thesis by simp
qed

lemma stat_names: "plain_cookie_name (lit ''lzstat_uv'')" "plain_cookie_name (lit ''lzstat_ss'')"
  by (simp_all add: plain_cookie_name_def lit_def)

text \<open>A cookie whose value has no equals sign looks like another only if its name ends like it.\<close>

lemma other_cookie_suffix:
  assumes "61 \<notin> set n" and "61 \<notin> set k" and "61 \<notin> set v" and "\<not> suffix n k"
  shows "other_cookie n (k, v)"
proof -
  have "suffix n k" if "k @ 61 # v = a @ n @ 61 # b" for a b
  proof -
    have "61 \<notin> set a"
    proof
      assume "61 \<in> set a"
      then have "count_list a 61 \<noteq> 0" by (simp add: count_list_0_iff)
      then have "2 \<le> count_list (a @ n @ 61 # b) 61" by simp
      moreover have "count_list (k @ 61 # v) 61 = 1" using assms(2,3) by (simp add: count_list_0_iff)
      ultimately show False using that by simp
    qed
    then have "takeWhile (\<lambda>c. c \<noteq> 61) (a @ n @ 61 # b) = a @ n" using assms(1) by (simp add: takeWhile_append)
    moreover have "takeWhile (\<lambda>c. c \<noteq> 61) (k @ 61 # v) = k" using assms(2) by (simp add: takeWhile_append)
    ultimately show ?thesis using that by (metis suffixI)
  qed
  with assms(4) show ?thesis by (auto simp: other_cookie_def sublist_def)
qed

lemma stat_cookies_apart:
  "61 \<notin> set v \<Longrightarrow> other_cookie (lit ''lzstat_ss'') (lit ''lzstat_uv'', v)"
  "61 \<notin> set v \<Longrightarrow> other_cookie (lit ''lzstat_uv'') (lit ''lzstat_ss'', v)"
  by (rule other_cookie_suffix; simp add: lit_def suffix_def)+

section \<open>One visit\<close>

text \<open>The draws are below their bound: what \<open>Math.random()\<close> guarantees.\<close>

definition good_draws :: "visit \<Rightarrow> bool" where
  "good_draws v \<longleftrightarrow> draw1 v < 2 ^ 53 \<and> draw2 v < 2 ^ 53 \<and> draw3 v < 2 ^ 53 \<and> draw4 v < 2 ^ 53"

lemma unit_id_site: "site_id unit_id"
  by (simp add: unit_id_def site_id_def lit_def is_digit_def)

section \<open>A sequence of visits\<close>

fun page_views ::
  "('j \<Rightarrow> jsstr) \<Rightarrow> (jsstr \<Rightarrow> 'j \<Rightarrow> 'j) \<Rightarrow> visit list \<Rightarrow> 'j \<Rightarrow> ('j \<times> jsstr list list) option" where
  "page_views read assign [] j = Some (j, [])"
| "page_views read assign (v # vs) j =
     (case lz_main read assign v j of
        None \<Rightarrow> None
      | Some (j1, out) \<Rightarrow> map_option (\<lambda>(j2, outs). (j2, out # outs)) (page_views read assign vs j1))"

text \<open>What a page view sends, up to its session: the visitor's id and whether it is new.\<close>

definition view_of :: "jsstr \<Rightarrow> nat \<Rightarrow> visit \<Rightarrow> jsstr list \<Rightarrow> bool" where
  "view_of uv_id uv_new v out \<longleftrightarrow>
     (\<exists>ss_id ss_no. out = page_writes v (dest v (lz_get_domain (toLowerCase (host v))) uv_id uv_new ss_id ss_no))"

lemma view_ofI:
  "view_of uv_id uv_new v (page_writes v (dest v (lz_get_domain (toLowerCase (host v))) uv_id uv_new ss_id ss_no))"
  by (auto simp: view_of_def)

definition new_uv_id :: "visit \<Rightarrow> jsstr" where
  "new_uv_id v = nat_digits (scaled (draw1 v) 4000000000) @ nat_digits (scaled (draw2 v) 4000000000)"

context cookie_store
begin

lemma kept_free:
  assumes "kept j"
  shows "59 \<notin> set (cookie_of (lit ''lzstat_uv'') j)" and "59 \<notin> set (cookie_of (lit ''lzstat_ss'') j)"
  using assms uv_inv_free ss_inv_free unfolding kept_def by (metis empty_iff list.set(1))+

lemma read_kept:
  assumes "kept j"
  shows "lz_get_cookie (render (pairs j)) (lit ''lzstat_uv'') = cookie_of (lit ''lzstat_uv'') j"
    and "lz_get_cookie (render (pairs j)) (lit ''lzstat_ss'') = cookie_of (lit ''lzstat_ss'') j"
  using assms kept_free [OF assms] by (auto intro!: read_cookie stat_names simp: kept_def)

lemma kept_set_uv:
  assumes "kept j" and "uv_inv s"
  shows "kept (assign (lz_set_cookie iy ih dd (lit ''lzstat_uv'') s 1) j)"
proof -
  have f: "59 \<notin> set s" "32 \<notin> set s" "61 \<notin> set s" using uv_inv_free [OF assms(2)] by auto
  have ne: "lit ''lzstat_ss'' \<noteq> lit ''lzstat_uv''" by (simp add: lit_def)
  have "\<forall>p \<in> set (pairs (assign (lz_set_cookie iy ih dd (lit ''lzstat_uv'') s 1) j)).
      (fst p \<noteq> lit ''lzstat_uv'' \<longrightarrow> other_cookie (lit ''lzstat_uv'') p) \<and>
      (fst p \<noteq> lit ''lzstat_ss'' \<longrightarrow> other_cookie (lit ''lzstat_ss'') p)"
    using in_pairs_assign [OF stat_names(1) f(1,2), of 1 _ iy ih dd j] assms(1) stat_cookies_apart(1) [OF f(3)]
    unfolding kept_def by fastforce
  moreover have "cookie_of k (assign (lz_set_cookie iy ih dd (lit ''lzstat_uv'') s 1) j) =
      (if k = lit ''lzstat_uv'' then s else cookie_of k j)" for k
    by (rule cookie_of_assign [OF stat_names(1) f(1,2)]) simp
  ultimately show ?thesis using assms ne unfolding kept_def by simp
qed

lemma kept_set_ss:
  assumes "kept j" and "ss_inv xs"
  shows "kept (assign (lz_set_cookie iy ih dd (lit ''lzstat_ss'') (ss_cookie xs) 0) j)"
proof -
  let ?s = "ss_cookie xs"
  have f: "59 \<notin> set ?s" "32 \<notin> set ?s" "61 \<notin> set ?s" using ss_inv_free [OF assms(2)] by auto
  have ne: "lit ''lzstat_uv'' \<noteq> lit ''lzstat_ss''" by (simp add: lit_def)
  have "\<forall>p \<in> set (pairs (assign (lz_set_cookie iy ih dd (lit ''lzstat_ss'') ?s 0) j)).
      (fst p \<noteq> lit ''lzstat_uv'' \<longrightarrow> other_cookie (lit ''lzstat_uv'') p) \<and>
      (fst p \<noteq> lit ''lzstat_ss'' \<longrightarrow> other_cookie (lit ''lzstat_ss'') p)"
    using in_pairs_assign [OF stat_names(2) f(1,2), of 0 _ iy ih dd j] assms(1) stat_cookies_apart(2) [OF f(3)]
    unfolding kept_def by fastforce
  moreover have "cookie_of k (assign (lz_set_cookie iy ih dd (lit ''lzstat_ss'') ?s 0) j) =
      (if k = lit ''lzstat_ss'' then ?s else cookie_of k j)" for k
    by (rule cookie_of_assign [OF stat_names(2) f(1,2)]) simp
  ultimately show ?thesis using assms ne unfolding kept_def by auto
qed

lemma main_step:
  assumes "kept j" and "good_draws v"
  shows "\<exists>j' ws uv_id uv_new w ss_id ss_no s.
    lz_main (\<lambda>j. render (pairs j)) assign v j = Some (j', ws) \<and> kept j' \<and>
    uv_visit unit_id (draw1 v) (draw2 v) (cookie_of (lit ''lzstat_uv'') j) = Some (uv_id, uv_new, w) \<and>
    cookie_of (lit ''lzstat_uv'') j' = (case w of None \<Rightarrow> cookie_of (lit ''lzstat_uv'') j | Some x \<Rightarrow> x) \<and>
    ss_visit unit_id (draw3 v) (draw4 v) (lz_get_stm (now1 v)) (lz_get_stm (now2 v)) (cookie_of (lit ''lzstat_ss'') j)
      = (ss_id, ss_no, s) \<and>
    cookie_of (lit ''lzstat_ss'') j' = s \<and>
    ws = page_writes v (dest v (lz_get_domain (toLowerCase (host v))) uv_id uv_new ss_id ss_no)"
proof -
  let ?uv = "lit ''lzstat_uv''" and ?ss = "lit ''lzstat_ss''"
  let ?set = "\<lambda>n s k. assign (lz_set_cookie (in_years v) (in_hours v) (document_domain v) n s k)"
  have ne: "?ss \<noteq> ?uv" "?uv \<noteq> ?ss" by (simp_all add: lit_def)
  have inv: "cookie_of ?uv j = [] \<or> uv_inv (cookie_of ?uv j)" using assms(1) by (simp add: kept_def)
  obtain s' where s': "uv_after (cookie_of ?uv j) (unit_id, draw1 v, draw2 v) = Some s'" "uv_inv s'"
    using uv_inv_after [OF inv unit_id_site, of "draw1 v" "draw2 v"] by blast
  then obtain uv_id uv_new w where uv: "uv_visit unit_id (draw1 v) (draw2 v) (cookie_of ?uv j) = Some (uv_id, uv_new, w)"
    "s' = (case w of None \<Rightarrow> cookie_of ?uv j | Some x \<Rightarrow> x)" by (auto simp: uv_after_def)
  define j1 where "j1 = (case w of None \<Rightarrow> j | Some x \<Rightarrow> ?set ?uv x 1 j)"
  have f: "59 \<notin> set s'" "32 \<notin> set s'" using uv_inv_free [OF s'(2)] by auto
  have j1: "kept j1" "cookie_of ?uv j1 = s'" "cookie_of ?ss j1 = cookie_of ?ss j"
    using assms(1) uv(2) kept_set_uv [OF assms(1) s'(2)] ne f
      cookie_of_assign [OF stat_names(1) f, of 1]
    by (cases w; simp add: j1_def)+
  have d4: "draw4 v < 2 ^ 53" using assms(2) by (simp add: good_draws_def)
  have sinv: "cookie_of ?ss j = [] \<or> (\<exists>xs. cookie_of ?ss j = ss_cookie xs \<and> ss_inv xs)"
    using assms(1) by (simp add: kept_def)
  from ss_visit_step [OF sinv unit_id_site d4] obtain x :: session and ys where
    ss: "ss_visit unit_id (draw3 v) (draw4 v) (lz_get_stm (now1 v)) (lz_get_stm (now2 v)) (cookie_of ?ss j) =
      (sess_id x, Some (int (sess_no x)), ss_cookie ys)" "ss_inv ys" by blast
  have g: "59 \<notin> set (ss_cookie ys)" "32 \<notin> set (ss_cookie ys)" using ss_inv_free [OF ss(2)] by auto
  let ?j2 = "?set ?ss (ss_cookie ys) 0 j1"
  have j2: "kept ?j2" "cookie_of ?uv ?j2 = s'" "cookie_of ?ss ?j2 = ss_cookie ys"
    using kept_set_ss [OF j1(1) ss(2)] cookie_of_assign [OF stat_names(2) g, of 0] j1(2) ne by simp_all
  have "lz_main (\<lambda>j. render (pairs j)) assign v j = Some (?j2,
      page_writes v (dest v (lz_get_domain (toLowerCase (host v))) uv_id uv_new (sess_id x) (Some (int (sess_no x)))))"
    using uv(1) ss(1) j1(3) read_kept(1) [OF assms(1)] read_kept(2) [OF j1(1)]
    by (simp add: lz_main_def Let_def j1_def)
  then show ?thesis using j2 uv ss(1) by blast
qed

lemma later_views:
  assumes "kept j" and "cookie_of (lit ''lzstat_uv'') j = uv_cookie uv [unit_id]" and "site_id uv"
    and "list_all good_draws vs"
  shows "\<exists>j' outs. page_views (\<lambda>j. render (pairs j)) assign vs j = Some (j', outs) \<and>
    kept j' \<and> cookie_of (lit ''lzstat_uv'') j' = uv_cookie uv [unit_id] \<and> list_all2 (view_of uv 0) vs outs"
  using assms
proof (induction vs arbitrary: j)
  case Nil
  then show ?case by simp
next
  case (Cons v vs)
  have "uv_visit unit_id (draw1 v) (draw2 v) (cookie_of (lit ''lzstat_uv'') j) = Some (uv, 0, None)"
    using Cons.prems(2,3) unit_id_site by (simp add: uv_visit_cookie)
  with main_step [OF Cons.prems(1), of v] Cons.prems(2,4) obtain j1 ss_id ss_no where
    1: "lz_main (\<lambda>j. render (pairs j)) assign v j =
        Some (j1, page_writes v (dest v (lz_get_domain (toLowerCase (host v))) uv 0 ss_id ss_no))"
      "kept j1" "cookie_of (lit ''lzstat_uv'') j1 = uv_cookie uv [unit_id]" by auto
  from Cons.IH [OF 1(2,3) Cons.prems(3)] Cons.prems(4) obtain j2 outs where
    "page_views (\<lambda>j. render (pairs j)) assign vs j1 = Some (j2, outs)" "kept j2"
    "cookie_of (lit ''lzstat_uv'') j2 = uv_cookie uv [unit_id]" "list_all2 (view_of uv 0) vs outs" by auto
  with 1(1) view_ofI show ?case by auto
qed

lemma views_of_new_visitor:
  assumes "kept j" and "cookie_of (lit ''lzstat_uv'') j = []" and "list_all good_draws (v # vs)"
  shows "\<exists>j' out outs. page_views (\<lambda>j. render (pairs j)) assign (v # vs) j = Some (j', out # outs) \<and>
    kept j' \<and> view_of (new_uv_id v) 1 v out \<and> list_all2 (view_of (new_uv_id v) 0) vs outs"
proof -
  have id: "site_id (new_uv_id v)" using nat_digits_site by (simp add: new_uv_id_def site_id_def)
  have "uv_visit unit_id (draw1 v) (draw2 v) [] = Some (new_uv_id v, 1, Some (uv_cookie (new_uv_id v) [unit_id]))"
    by (simp add: uv_visit_new new_uv_id_def Let_def)
  with main_step [OF assms(1), of v] assms(2,3) obtain j1 ss_id ss_no where
    1: "lz_main (\<lambda>j. render (pairs j)) assign v j =
        Some (j1, page_writes v (dest v (lz_get_domain (toLowerCase (host v))) (new_uv_id v) 1 ss_id ss_no))"
      "kept j1" "cookie_of (lit ''lzstat_uv'') j1 = uv_cookie (new_uv_id v) [unit_id]" by auto
  from later_views [OF 1(2,3) id, of vs] assms(3) 1(1) view_ofI show ?thesis by auto
qed

end

section \<open>The store as a list\<close>

text \<open>What an assignment to \<open>document.cookie\<close> takes: the pair before the first semicolon.\<close>

definition jar_assign :: "jsstr \<Rightarrow> (jsstr \<times> jsstr) list \<Rightarrow> (jsstr \<times> jsstr) list" where
  "jar_assign str j =
     (let pair = takeWhile (\<lambda>c. c \<noteq> 59) str; n = takeWhile (\<lambda>c. c \<noteq> 61) pair
      in AList.update n (drop (Suc (length n)) pair) j)"

lemma set_cookie_pair:
  assumes "cotp \<le> 2" and "59 \<notin> set n" and "59 \<notin> set v"
  shows "takeWhile (\<lambda>c. c \<noteq> 59) (lz_set_cookie iy ih dd n v cotp) = n @ 61 # v"
proof -
  have "\<exists>R. lz_set_cookie iy ih dd n v cotp = (n @ 61 # v) @ 59 # R"
    using assms(1) by (auto simp: lz_set_cookie_def lit_def Let_def le_Suc_eq numeral_2_eq_2)
  then show ?thesis using takeWhile_stop [of 59 "n @ 61 # v"] assms(2,3) by auto
qed

interpretation jar: cookie_store AList.clearjunk jar_assign
proof
  fix j :: "(jsstr \<times> jsstr) list"
  show "distinct (map fst (AList.clearjunk j))" by (rule distinct_clearjunk)
  fix n v iy ih dd :: jsstr and cotp :: nat
  assume n: "plain_cookie_name n" and v: "59 \<notin> set v" and c: "cotp \<le> 2"
  have "jar_assign (lz_set_cookie iy ih dd n v cotp) j = AList.update n v j"
    using n takeWhile_stop [of 61 n v] by (simp add: jar_assign_def set_cookie_pair [OF c _ v] plain_cookie_name_def)
  then show "map_of (AList.clearjunk (jar_assign (lz_set_cookie iy ih dd n v cotp) j)) = (map_of (AList.clearjunk j))(n \<mapsto> v)"
    by (simp add: map_of_clearjunk update_conv')
qed

section \<open>Properties\<close>

text \<open>C17: the whole script over a visitor's page views.  Starting from a cookie store without cookies
  that look like the two of the script, every page view runs to its end; all of them report the
  id drawn at the first, and only the first reports a new visitor.\<close>

theorem page_views_counted:
  assumes "list_all (other_cookie (lit ''lzstat_uv'')) j" and "list_all (other_cookie (lit ''lzstat_ss'')) j"
    and "list_all good_draws (v # vs)"
  shows "\<exists>j' out outs. page_views (\<lambda>j. render (AList.clearjunk j)) jar_assign (v # vs) j = Some (j', out # outs) \<and>
    view_of (new_uv_id v) 1 v out \<and> list_all2 (view_of (new_uv_id v) 0) vs outs"
proof -
  have sub: "set (AList.clearjunk j) \<subseteq> set j" by (metis map_of_SomeD map_of_clearjunk distinct_clearjunk map_of_eq_Some_iff subrelI)
  have none: "map_of (AList.clearjunk j) n = None" if "list_all (other_cookie n) j" for n
    using that by (fastforce simp: map_of_clearjunk map_of_eq_None_iff list_all_iff other_cookie_def sublist_def)
  have c: "jar.cookie_of n j = []" if "list_all (other_cookie n) j" for n
    using none [OF that] by (simp add: jar.cookie_of_def)
  have "jar.kept j" using assms(1,2) c sub by (auto simp: jar.kept_def list_all_iff)
  from jar.views_of_new_visitor [OF this c [OF assms(1)] assms(3)] show ?thesis by blast
qed

lemma page_views_counted_witness:
  "let v = \<lparr>host = lit ''www.shop.co.uk'', document_domain = lit ''www.shop.co.uk'', referrer = [],
      document_URL = lit ''http://www.shop.co.uk/'', document_title = lit ''Shop'', document_charset = None,
      href = lit ''http://www.shop.co.uk/'',
      navigator = \<lparr>screen = None, nav_language = None, browserLanguage = None, userAgent = None, javaEnabled = False,
        cookieEnabled = True, plugins = None, ActiveXFlash = None, appName = None\<rparr>,
      now1 = epoch, now2 = epoch, draw1 = 1, draw2 = 2, draw3 = 3, draw4 = 4,
      random1 = lit ''0.5'', random2 = lit ''0.5'', in_years = [], in_hours = []\<rparr>
   in \<exists>j' out outs. page_views (\<lambda>j. render (AList.clearjunk j)) jar_assign [v, v] [(lit ''sid'', lit ''9'')] = Some (j', out # outs) \<and>
     view_of (new_uv_id v) 1 v out \<and> list_all2 (view_of (new_uv_id v) 0) [v] outs"
  unfolding Let_def
  by (rule page_views_counted) (auto simp: good_draws_def intro!: other_cookie_suffix simp: lit_def suffix_def)

lemma index_of_suffix_name:
  assumes "61 \<notin> set n" and "61 \<notin> set x"
  shows "index_of (n @ [61]) (x @ n @ 61 # r) = Some (length x)"
  using assms(2)
proof (induction x)
  case Nil
  show ?case using index_of_prefix [of "n @ [61]" "n @ 61 # r"] by simp
next
  case (Cons c x)
  have "\<not> prefix (n @ [61]) (c # x @ n @ 61 # r)"
  proof
    assume "prefix (n @ [61]) (c # x @ n @ 61 # r)"
    then obtain t where "(c # x @ n) @ 61 # r = n @ 61 # t" by (auto simp: prefix_def)
    then have "c # x @ n = n"
      using takeWhile_stop [of 61 "c # x @ n" r] takeWhile_stop [of 61 n t] Cons.prems assms(1) by simp
    then show False by (metis append_Cons append_is_Nil_conv append_self_conv2 list.distinct(1))
  qed
  with Cons show ?case by simp
qed

text \<open>The cookie reader is fooled by a cookie whose name ends like the name asked for: it returns
  the value of that cookie when it comes first, even when the cookie asked for is there too.\<close>

theorem cookie_name_suffix_misread:
  assumes "plain_cookie_name n" and "61 \<notin> set x" and "59 \<notin> set v"
  shows "lz_get_cookie (render ((x @ n, v) # rear)) n = v"
proof -
  have "\<exists>R. render ((x @ n, v) # rear) = x @ n @ 61 # v @ R \<and> (R = [] \<or> prefix [59] R)"
    by (cases rear) (auto simp: render_Cons render_one)
  then obtain R where R: "render ((x @ n, v) # rear) = x @ n @ 61 # v @ R" "R = [] \<or> prefix [59] R" by blast
  show ?thesis
    by (rule lz_get_cookie_found [OF assms(1,3) R(1) _ R(2)])
      (use assms(1,2) in \<open>simp add: R(1) index_of_suffix_name plain_cookie_name_def\<close>)
qed

lemma cookie_name_suffix_misread_witness:
  "lz_get_cookie (lit ''old_lzstat_uv=8; lzstat_uv=7|2033179'') (lit ''lzstat_uv'') = lit ''8''"
  using cookie_name_suffix_misread [of "lit ''lzstat_uv''" "lit ''old_''" "lit ''8''" "[(lit ''lzstat_uv'', lit ''7|2033179'')]"]
  by (simp add: plain_cookie_name_def render_def lit_def)

lemma re_not_token_eq:
  "re_not_token = \<lparr>prog = RSeq (RClass True [CWord, CChar 46, CChar 47]) REmpty, groups = 1,
     rflags = \<lparr>global = True, ignoreCase = True, multiline = False\<rparr>, lastIndex = 0\<rparr>"
  by (simp add: re_not_token_def js_eval)

lemma replace_not_token:
  "replace_re s re_not_token (\<lambda>_. []) = concat (map (\<lambda>c. if \<not> (is_word c \<or> c = 46 \<or> c = 47) then [] else [c]) s)"
proof -
  have w: "is_word (other_case c) = is_word c" "other_case c = 46 \<longleftrightarrow> c = 46" "other_case c = 47 \<longleftrightarrow> c = 47" for c
    by (auto simp: other_case_def is_word_def is_digit_def split: if_splits)
  show ?thesis
    by (rule replace_char) (auto intro: char_regexpI simp: re_not_token_eq in_class_def w)
qed

text \<open>Whatever follows the click map mark in the address, the token put into the script element is
  made of word characters, dots and slashes only: it cannot leave the attribute it is written in.\<close>

theorem click_token_safe: "list_all (\<lambda>c. is_word c \<or> c = 46 \<or> c = 47) (click_token url)"
  by (auto simp: click_token_def Let_def replace_not_token list_all_iff split: if_splits)

lemma filtered_fold: "foldl (\<lambda>f d. if d = x then 1 else f) (a :: nat) ds = (if x \<in> set ds then 1 else a)"
  by (induction ds arbitrary: a) auto

text \<open>A domain is reported as filtered exactly when it is one of the listed ones, read from the
  right with a hash for each dot.\<close>

theorem filtered_exact: "filtered domain = (if str_reverse domain \<in> set domain_filters then 1 else 0)"
  by (simp add: filtered_def filtered_fold)

end
