(* ===== verification/Menu.thy ===== *)
theory Menu
  imports Keywords
begin

text \<open>
  The drop-down menus of the theme (\<open>menu.js\<close>).  Nodes are addresses; a page maps them to their
  fields, and holds the registered menus and the timers that wait.  \<open>GhostlyMenu\<close> is the
  constructor, \<open>activate\<close> and \<open>deactivate\<close> the two mouse handlers and \<open>timer_fires\<close> the callback of
  the timer; \<open>loadMenus\<close> sets up all menus.  \<open>None\<close> is a \<open>TypeError\<close>, except for
  \<open>cumulativeOffset\<close>, where it is a loop that does not end.

  What the browser computes is given by arguments: \<open>tags\<close> is \<open>getElementsByTagName\<close>, a \<open>layout\<close>
  holds the offsets at the time of an event, a \<open>document\<close> the elements that \<open>loadMenus\<close> looks up.
\<close>

section \<open>Nodes\<close>

record dom_node =
  nodeType :: nat
  nodeValue :: jsstr
  className :: jsstr
  childNodes :: "nat list"
  parentNode :: "nat option"
  style :: "jsstr \<Rightarrow> jsstr"

record menu =
  obj :: nat
  align :: jsstr
  sub :: int
  title :: nat
  body :: nat

record menu_page =
  nodes :: "nat \<Rightarrow> dom_node"
  menus :: "menu list"
  timers :: "menu list"

definition change :: "nat \<Rightarrow> (dom_node \<Rightarrow> dom_node) \<Rightarrow> menu_page \<Rightarrow> menu_page" where
  "change n f p = p\<lparr>nodes := (nodes p)(n := f (nodes p n))\<rparr>"

definition setStyle :: "nat \<Rightarrow> jsstr \<Rightarrow> jsstr \<Rightarrow> menu_page \<Rightarrow> menu_page" where
  "setStyle element key v = change element (\<lambda>x. x\<lparr>style := (style x)(key := v)\<rparr>)"

definition add_class :: "nat \<Rightarrow> jsstr \<Rightarrow> menu_page \<Rightarrow> menu_page" where
  "add_class element c = change element (\<lambda>x. x\<lparr>className := className x @ c\<rparr>)"

definition removeChild :: "nat \<Rightarrow> nat \<Rightarrow> menu_page \<Rightarrow> menu_page" where
  "removeChild lst n = change lst (\<lambda>x. x\<lparr>childNodes := remove1 n (childNodes x)\<rparr>)"

definition re_not_space :: regexp where "re_not_space = js_regex (pat ''`S'') []"
definition re_current :: regexp where "re_current = js_regex (lit ''current'') []"

fun clean_from :: "nat \<Rightarrow> nat list \<Rightarrow> menu_page \<Rightarrow> menu_page" where
  "clean_from lst [] p = p"
| "clean_from lst (n # ns) p =
     clean_from lst ns
       (if nodeType (nodes p n) = 3 \<and> \<not> test re_not_space (nodeValue (nodes p n)) then removeChild lst n p else p)"

definition cleanWhitespace :: "nat \<Rightarrow> menu_page \<Rightarrow> menu_page" where
  "cleanWhitespace lst p = clean_from lst (childNodes (nodes p lst)) p"

section \<open>Positions\<close>

record layout =
  offsetTop :: "nat \<Rightarrow> int"
  offsetLeft :: "nat \<Rightarrow> int"
  offsetParent :: "nat \<Rightarrow> nat option"
  offsetWidth :: "nat \<Rightarrow> int"
  offsetHeight :: "nat \<Rightarrow> int"

definition currentOffset :: "layout \<Rightarrow> nat \<Rightarrow> int \<times> int" where
  "currentOffset l element = (offsetLeft l element, offsetTop l element)"

partial_function (option) offset_from :: "layout \<Rightarrow> nat \<Rightarrow> int \<Rightarrow> int \<Rightarrow> (int \<times> int) option" where
  "offset_from l element valueL valueT =
     (case offsetParent l element of
        None \<Rightarrow> Some (valueL + offsetLeft l element, valueT + offsetTop l element)
      | Some e \<Rightarrow> offset_from l e (valueL + offsetLeft l element) (valueT + offsetTop l element))"

definition cumulativeOffset :: "layout \<Rightarrow> nat \<Rightarrow> (int \<times> int) option" where
  "cumulativeOffset l element = offset_from l element 0 0"

definition px :: "int \<Rightarrow> jsstr" where "px i = int_to_str i @ lit ''px''"

definition menu_position :: "layout \<Rightarrow> menu \<Rightarrow> (int \<times> int) option" where
  "menu_position l mn =
     (if sub mn = 1 then
        (let (x, y) = currentOffset l (title mn)
         in Some (if align mn = lit ''right'' then offsetWidth l (body mn) * (-1) else offsetWidth l (body mn) - 2, y - 1))
      else
        (case cumulativeOffset l (title mn) of
           None \<Rightarrow> None
         | Some (x, y) \<Rightarrow>
             Some (if align mn = lit ''right'' then x + (offsetWidth l (title mn) - offsetWidth l (body mn)) else x,
                   y + offsetHeight l (title mn))))"

section \<open>The menu\<close>

definition GhostlyMenu ::
  "(nat \<Rightarrow> jsstr \<Rightarrow> nat list) \<Rightarrow> nat \<Rightarrow> jsstr \<Rightarrow> int \<Rightarrow> menu_page \<Rightarrow> menu_page option" where
  "GhostlyMenu tags target algn sb p0 =
     (let p1 = cleanWhitespace target p0; kids = childNodes (nodes p1 target)
      in if length kids < 2 then Some p1
         else
           (let mn = \<lparr>obj = target, align = if algn = [] then lit ''left'' else algn,
                      sub = if sb = 0 then -1 else sb, title = kids ! 0, body = kids ! 1\<rparr>;
                p2 = cleanWhitespace (body mn) p1; items = childNodes (nodes p2 (body mn))
            in if items = [] \<or> nodeType (nodes p2 (last items)) \<noteq> 1 \<or> tags (last items) (lit ''a'') = [] then None
               else
                 (let p3 = add_class (hd (tags (last items) (lit ''a''))) (lit '' last'') p2;
                      p4 = setStyle (body mn) (lit ''visibility'') (lit ''hidden'') p3;
                      p5 = setStyle (body mn) (lit ''display'') (lit ''block'') p4
                  in Some (p5\<lparr>menus := menus p5 @ [mn]\<rparr>))))"

definition activate :: "layout \<Rightarrow> menu \<Rightarrow> menu_page \<Rightarrow> menu_page option" where
  "activate l mn p =
     (case menu_position l mn of
        None \<Rightarrow> None
      | Some (left, tp) \<Rightarrow>
          (let p1 = (if test re_current (className (nodes p (title mn))) then p
                     else add_class (title mn) (lit '' current'') p)
           in Some (setStyle (body mn) (lit ''visibility'') (lit ''visible'')
                (setStyle (body mn) (lit ''top'') (px tp) (setStyle (body mn) (lit ''left'') (px left) p1)))))"

definition deactivate :: "menu \<Rightarrow> menu_page \<Rightarrow> menu_page" where
  "deactivate mn p =
     (let p1 = change (title mn) (\<lambda>x. x\<lparr>className := replace_str (className x) (lit ''current'') []\<rparr>) p
      in p1\<lparr>timers := timers p1 @ [mn]\<rparr>)"

text \<open>The callback of the waiting timer number \<open>k\<close>: it clears itself and looks at the class again.\<close>

definition timer_fires :: "nat \<Rightarrow> menu_page \<Rightarrow> menu_page" where
  "timer_fires k p =
     (let mn = timers p ! k; p1 = p\<lparr>timers := take k (timers p) @ drop (Suc k) (timers p)\<rparr>
      in if test re_current (className (nodes p1 (title mn))) then p1
         else setStyle (body mn) (lit ''visibility'') (lit ''hidden'') p1)"

section \<open>Loading\<close>

record document =
  links :: "(jsstr option \<times> jsstr option) list"
  subscribe :: "nat option"
  menubar :: "nat option"

text \<open>The alignment; \<open>None\<close> when a style sheet link has no \<open>href\<close>.\<close>

fun find_align :: "jsstr \<Rightarrow> (jsstr option \<times> jsstr option) list \<Rightarrow> jsstr option" where
  "find_align a [] = Some a"
| "find_align a ((rel, href) # ls) =
     (if rel = Some (lit ''stylesheet'') then
        (case href of
           None \<Rightarrow> None
         | Some h \<Rightarrow> find_align (if indexOf h (lit ''rtl.css'') \<noteq> -1 then lit ''right'' else a) ls)
      else find_align a ls)"

fun load_each :: "(nat \<Rightarrow> jsstr \<Rightarrow> nat list) \<Rightarrow> jsstr \<Rightarrow> nat \<Rightarrow> nat list \<Rightarrow> menu_page \<Rightarrow> menu_page option" where
  "load_each tags a bar [] p = Some p"
| "load_each tags a bar (ul # uls) p =
     (case parentNode (nodes p ul) of
        None \<Rightarrow> None
      | Some mn \<Rightarrow>
          (if parentNode (nodes p mn) = Some bar then
             Option.bind (GhostlyMenu tags mn a 0 p) (load_each tags a bar uls)
           else
             Option.bind (GhostlyMenu tags mn a 1 p) (\<lambda>p1.
               case childNodes (nodes p1 mn) of
                 [] \<Rightarrow> None
               | first # _ \<Rightarrow> load_each tags a bar uls (add_class first (lit '' subtitle'') p1))))"

definition loadMenus :: "(nat \<Rightarrow> jsstr \<Rightarrow> nat list) \<Rightarrow> document \<Rightarrow> menu_page \<Rightarrow> menu_page option" where
  "loadMenus tags doc p =
     Option.bind (find_align (lit ''left'') (links doc)) (\<lambda>a.
     Option.bind (case subscribe doc of None \<Rightarrow> Some p | Some s \<Rightarrow> GhostlyMenu tags s a 0 p) (\<lambda>p1.
       case menubar doc of None \<Rightarrow> Some p1 | Some bar \<Rightarrow> load_each tags a bar (tags bar (lit ''ul'')) p1))"

end
