(* ===== verification/MenuSteps.thy ===== *)
theory MenuSteps
  imports Menu
begin

text \<open>
  The menus as a state machine: the mouse enters and leaves the menus of a page in any order, and
  the timers fire in any order between these events.  \<open>menu_step\<close> is one event; the second
  component of a state records which menus the mouse is over, for the statements only.  The
  invariant gives the class of every title and ties the visibility of every body to the mouse and
  to the waiting timers.
\<close>

section \<open>Offsets\<close>

text \<open>The loop of \<open>cumulativeOffset\<close> ends when every offset parent is nearer to the root, and adds up
  the offsets of the chain.\<close>

fun chain_sum :: "layout \<Rightarrow> nat list \<Rightarrow> int \<times> int" where
  "chain_sum l es = (sum_list (map (offsetLeft l) es), sum_list (map (offsetTop l) es))"

fun is_chain :: "layout \<Rightarrow> nat list \<Rightarrow> bool" where
  "is_chain l [] = False"
| "is_chain l [e] = (offsetParent l e = None)"
| "is_chain l (e # e' # es) = (offsetParent l e = Some e' \<and> is_chain l (e' # es))"

lemma offset_from_chain:
  "is_chain l (e # es) \<Longrightarrow>
   offset_from l e x y = Some (x + fst (chain_sum l (e # es)), y + snd (chain_sum l (e # es)))"
proof (induction es arbitrary: e x y)
  case Nil
  then show ?case by (subst offset_from.simps) simp
next
  case (Cons e' es)
  then show ?case by (subst offset_from.simps) (simp add: algebra_simps)
qed

lemma chain_exists:
  assumes "\<And>e e'. offsetParent l e = Some e' \<Longrightarrow> depth e' < (depth e :: nat)"
  shows "\<exists>es. is_chain l (e # es)"
proof (induction "depth e" arbitrary: e rule: less_induct)
  case less
  show ?case
  proof (cases "offsetParent l e")
    case None
    then have "is_chain l [e]" by simp
    then show ?thesis by blast
  next
    case (Some e')
    from less [OF assms [OF Some]] obtain es where "is_chain l (e' # es)" by blast
    with Some have "is_chain l (e # e' # es)" by simp
    then show ?thesis by blast
  qed
qed

section \<open>Setting up\<close>

lemma cleanWhitespace_rest:
  "timers (clean_from lst ns p) = timers p" "menus (clean_from lst ns p) = menus p"
  "style (nodes (clean_from lst ns p) n) = style (nodes p n)"
  "className (nodes (clean_from lst ns p) n) = className (nodes p n)"
  "nodeType (nodes (clean_from lst ns p) n) = nodeType (nodes p n)"
  "nodeValue (nodes (clean_from lst ns p) n) = nodeValue (nodes p n)"
  by (induction ns arbitrary: p) (auto simp: removeChild_def change_def)

definition blank_text :: "menu_page \<Rightarrow> nat \<Rightarrow> bool" where
  "blank_text p n \<longleftrightarrow> nodeType (nodes p n) = 3 \<and> \<not> test re_not_space (nodeValue (nodes p n))"

lemma clean_from_children:
  "childNodes (nodes p lst) = done @ ns \<Longrightarrow> distinct (done @ ns) \<Longrightarrow>
   childNodes (nodes (clean_from lst ns p) lst) = done @ filter (\<lambda>n. \<not> blank_text p n) ns"
proof (induction ns arbitrary: p "done")
  case (Cons n ns)
  let ?p = "removeChild lst n p"
  have st: "clean_from lst (n # ns) p = clean_from lst ns (if blank_text p n then ?p else p)"
    by (simp add: blank_text_def)
  have same: "blank_text ?p = blank_text p" by (rule ext) (simp add: blank_text_def removeChild_def change_def)
  show ?case
  proof (cases "blank_text p n")
    case True
    have "childNodes (nodes ?p lst) = done @ ns"
      using Cons.prems by (simp add: removeChild_def change_def remove1_append)
    with Cons.IH [of ?p "done"] Cons.prems(2) True same show ?thesis by (simp add: st del: clean_from.simps)
  next
    case False
    with Cons.IH [of p "done @ [n]"] Cons.prems show ?thesis by (simp add: st del: clean_from.simps)
  qed
qed simp

lemma cleanWhitespace_children:
  "distinct (childNodes (nodes p lst)) \<Longrightarrow>
   childNodes (nodes (cleanWhitespace lst p) lst) = filter (\<lambda>n. \<not> blank_text p n) (childNodes (nodes p lst))"
  using clean_from_children [of p lst "[]"] by (simp add: cleanWhitespace_def)

section \<open>Events\<close>

inductive menu_step :: "menu set \<Rightarrow> menu_page \<times> menu set \<Rightarrow> menu_page \<times> menu set \<Rightarrow> bool" for ms where
  mouseover: "mn \<in> ms \<Longrightarrow> activate l mn p = Some p' \<Longrightarrow> menu_step ms (p, H) (p', insert mn H)"
| mouseout: "mn \<in> ms \<Longrightarrow> menu_step ms (p, H) (deactivate mn p, H - {mn})"
| timeout: "k < length (timers p) \<Longrightarrow> menu_step ms (p, H) (timer_fires k p, H)"

inductive_cases menu_stepE: "menu_step ms (p, H) s"

definition menus_apart :: "menu set \<Rightarrow> bool" where
  "menus_apart ms \<longleftrightarrow> inj_on title ms \<and> inj_on body ms"

definition shows_body :: "menu_page \<Rightarrow> menu \<Rightarrow> jsstr" where
  "shows_body p mn = style (nodes p (body mn)) (lit ''visibility'')"

definition title_class :: "menu_page \<Rightarrow> menu \<Rightarrow> jsstr" where
  "title_class p mn = className (nodes p (title mn))"

definition fresh_menus :: "menu set \<Rightarrow> menu_page \<Rightarrow> bool" where
  "fresh_menus ms p \<longleftrightarrow> timers p = [] \<and>
     (\<forall>mn \<in> ms. \<not> sublist (lit ''current'') (title_class p mn) \<and> shows_body p mn = lit ''hidden'')"

definition menu_inv :: "menu set \<Rightarrow> (menu \<Rightarrow> jsstr) \<Rightarrow> menu_page \<times> menu set \<Rightarrow> bool" where
  "menu_inv ms orig st \<longleftrightarrow>
     (case st of (p, H) \<Rightarrow> set (timers p) \<subseteq> ms \<and>
        (\<forall>mn \<in> ms. (\<exists>k. title_class p mn = orig mn @ replicate k 32 @ (if mn \<in> H then lit '' current'' else [])) \<and>
          (if mn \<in> H then shows_body p mn = lit ''visible''
           else mn \<notin> set (timers p) \<longrightarrow> shows_body p mn = lit ''hidden'')))"

section \<open>The class of a title\<close>

lemma re_current_eq: "prog re_current = seq_chars (lit ''current'') REmpty" "rflags re_current = no_flags"
  by (simp_all add: re_current_def js_eval)

lemma test_current: "test re_current s \<longleftrightarrow> sublist (lit ''current'') s"
  by (rule test_seq_chars) (simp_all add: re_current_eq)

lemma no_current_blanks:
  "\<not> sublist (lit ''current'') o' \<Longrightarrow> \<not> sublist (lit ''current'') (o' @ replicate k 32)"
proof (induction k)
  case (Suc k)
  have "sublist (lit ''current'') ((o' @ replicate k 32) @ [32]) \<longleftrightarrow>
      sublist (lit ''current'') (o' @ replicate k 32) \<or> sublist (lit ''current'') []"
    by (rule sublist_past_mark) (simp_all add: lit_def)
  with Suc show ?case by (simp add: replicate_append_same lit_def)
qed simp

lemma drop_current:
  assumes "\<not> sublist (lit ''current'') o'"
  shows "replace_str (o' @ replicate k 32 @ lit '' current'') (lit ''current'') [] = o' @ replicate (Suc k) 32"
    and "replace_str (o' @ replicate k 32) (lit ''current'') [] = o' @ replicate k 32"
proof -
  let ?a = "o' @ replicate k 32"
  have no: "\<not> sublist (lit ''current'') ?a" by (rule no_current_blanks [OF assms])
  have "index_of (lit ''current'') (?a @ 32 # lit ''current'') = Some (Suc (length ?a))"
    using index_of_past_mark [of "lit ''current''" 32 ?a "lit ''current''"] no index_of_prefix [of "lit ''current''" "lit ''current''"]
    by (simp add: lit_def)
  moreover have "lit '' current'' = 32 # lit ''current''" by (simp add: lit_def)
  ultimately show "replace_str (o' @ replicate k 32 @ lit '' current'') (lit ''current'') [] = o' @ replicate (Suc k) 32"
    by (simp add: replace_str_def replicate_append_same)
  show "replace_str ?a (lit ''current'') [] = ?a" using no by (simp add: replace_str_def index_of_None [symmetric])
qed

lemma has_current: "sublist (lit ''current'') (a @ lit '' current'')"
  by (metis append.assoc append_Nil2 lit_append sublist_appendI append_Cons append_Nil)

section \<open>What the handlers do\<close>

lemmas node_defs = change_def setStyle_def add_class_def title_class_def shows_body_def

lemma activate_effect:
  assumes "activate l mn p = Some p'"
  shows "timers p' = timers p"
    and "title_class p' x = (if title x = title mn \<and> \<not> sublist (lit ''current'') (title_class p mn)
      then title_class p mn @ lit '' current'' else title_class p x)"
    and "shows_body p' x = (if body x = body mn then lit ''visible'' else shows_body p x)"
  using assms
  by (auto simp: activate_def node_defs test_current Let_def lit_def split: option.splits if_splits)

lemma deactivate_effect:
  "timers (deactivate mn p) = timers p @ [mn]"
  "title_class (deactivate mn p) x =
     (if title x = title mn then replace_str (title_class p mn) (lit ''current'') [] else title_class p x)"
  "shows_body (deactivate mn p) x = shows_body p x"
  by (simp_all add: deactivate_def node_defs Let_def)

lemma timer_fires_effect:
  "timers (timer_fires k p) = take k (timers p) @ drop (Suc k) (timers p)"
  "title_class (timer_fires k p) x = title_class p x"
  "shows_body (timer_fires k p) x =
     (if body x = body (timers p ! k) \<and> \<not> sublist (lit ''current'') (title_class p (timers p ! k))
      then lit ''hidden'' else shows_body p x)"
  by (simp_all add: timer_fires_def node_defs test_current Let_def)

section \<open>The invariant\<close>

definition title_form :: "jsstr \<Rightarrow> bool \<Rightarrow> jsstr \<Rightarrow> bool" where
  "title_form o' over s \<longleftrightarrow> (\<exists>k. s = o' @ replicate k 32 @ (if over then lit '' current'' else []))"

lemma title_form_current: "\<not> sublist (lit ''current'') o' \<Longrightarrow> title_form o' over s \<Longrightarrow> sublist (lit ''current'') s \<longleftrightarrow> over"
  using has_current [of "o' @ replicate _ 32"] no_current_blanks [of o'] by (cases over) (auto simp: title_form_def)

lemma title_form_over: "title_form o' False s \<Longrightarrow> title_form o' True (s @ lit '' current'')"
  by (auto simp: title_form_def)

lemma title_form_out:
  "\<not> sublist (lit ''current'') o' \<Longrightarrow> title_form o' over s \<Longrightarrow>
   title_form o' False (replace_str s (lit ''current'') [])"
  using drop_current [of o'] by (cases over) (auto simp: title_form_def simp del: replicate_Suc)

lemma menu_inv_alt:
  "menu_inv ms orig (p, H) \<longleftrightarrow> set (timers p) \<subseteq> ms \<and>
     (\<forall>mn \<in> ms. title_form (orig mn) (mn \<in> H) (title_class p mn) \<and>
        (if mn \<in> H then shows_body p mn = lit ''visible''
         else mn \<notin> set (timers p) \<longrightarrow> shows_body p mn = lit ''hidden''))"
  by (simp add: menu_inv_def title_form_def)

lemma menu_inv_over:
  assumes inv: "menu_inv ms orig (p, H)" and ms: "menus_apart ms" "mn \<in> ms" and act: "activate l mn p = Some p'"
    and orig: "\<forall>x \<in> ms. \<not> sublist (lit ''current'') (orig x)"
  shows "menu_inv ms orig (p', insert mn H)"
  unfolding menu_inv_alt
proof (intro conjI ballI)
  show "set (timers p') \<subseteq> ms" using inv by (simp add: menu_inv_alt activate_effect [OF act])
next
  fix x assume x: "x \<in> ms"
  have eq: "title x = title mn \<longleftrightarrow> x = mn" "body x = body mn \<longleftrightarrow> x = mn"
    using ms x by (auto simp: menus_apart_def inj_on_eq_iff)
  have tf: "title_form (orig x) (x \<in> H) (title_class p x)" using inv x by (simp add: menu_inv_alt)
  show "title_form (orig x) (x \<in> insert mn H) (title_class p' x)"
  proof (cases "x = mn")
    case True
    with tf title_form_over [of "orig mn" "title_class p mn"] title_form_current [OF _ tf] orig x show ?thesis
      by (cases "mn \<in> H") (simp_all add: activate_effect(2) [OF act])
  qed (use tf in \<open>simp add: activate_effect(2) [OF act] eq\<close>)
  show "if x \<in> insert mn H then shows_body p' x = lit ''visible''
      else x \<notin> set (timers p') \<longrightarrow> shows_body p' x = lit ''hidden''"
    using inv x by (auto simp: menu_inv_alt activate_effect [OF act] eq)
qed

lemma menu_inv_out:
  assumes inv: "menu_inv ms orig (p, H)" and ms: "menus_apart ms" "mn \<in> ms"
    and orig: "\<forall>x \<in> ms. \<not> sublist (lit ''current'') (orig x)"
  shows "menu_inv ms orig (deactivate mn p, H - {mn})"
  unfolding menu_inv_alt
proof (intro conjI ballI)
  show "set (timers (deactivate mn p)) \<subseteq> ms" using inv ms(2) by (simp add: menu_inv_alt deactivate_effect)
next
  fix x assume x: "x \<in> ms"
  have eq: "title x = title mn \<longleftrightarrow> x = mn" using ms x by (auto simp: menus_apart_def inj_on_eq_iff)
  have tf: "title_form (orig x) (x \<in> H) (title_class p x)" using inv x by (simp add: menu_inv_alt)
  show "title_form (orig x) (x \<in> H - {mn}) (title_class (deactivate mn p) x)"
    using tf title_form_out [OF _ tf] orig x by (auto simp: deactivate_effect(2) eq)
  show "if x \<in> H - {mn} then shows_body (deactivate mn p) x = lit ''visible''
      else x \<notin> set (timers (deactivate mn p)) \<longrightarrow> shows_body (deactivate mn p) x = lit ''hidden''"
    using inv x by (auto simp: menu_inv_alt deactivate_effect)
qed

lemma in_timers_without:
  "k < length ts \<Longrightarrow> x \<in> set ts \<Longrightarrow> x \<noteq> ts ! k \<Longrightarrow> x \<in> set (take k ts @ drop (Suc k) ts)"
  by (metis id_take_nth_drop in_set_conv_decomp_first set_append Un_iff list.set_intros set_ConsD)

lemma menu_inv_timer:
  assumes inv: "menu_inv ms orig (p, H)" and ms: "menus_apart ms" and k: "k < length (timers p)"
    and orig: "\<forall>x \<in> ms. \<not> sublist (lit ''current'') (orig x)"
  shows "menu_inv ms orig (timer_fires k p, H)"
  unfolding menu_inv_alt
proof (intro conjI ballI)
  let ?mn = "timers p ! k"
  have mn: "?mn \<in> ms" using inv k by (auto simp: menu_inv_alt)
  show "set (timers (timer_fires k p)) \<subseteq> ms"
    using inv by (auto simp: menu_inv_alt timer_fires_effect dest: in_set_takeD in_set_dropD)
  fix x assume x: "x \<in> ms"
  have eq: "body x = body ?mn \<longleftrightarrow> x = ?mn" using ms x mn by (auto simp: menus_apart_def inj_on_eq_iff)
  have "title_form (orig ?mn) (?mn \<in> H) (title_class p ?mn)" using inv mn by (simp add: menu_inv_alt)
  then have cur: "sublist (lit ''current'') (title_class p ?mn) \<longleftrightarrow> ?mn \<in> H"
    using orig mn title_form_current by blast
  show "title_form (orig x) (x \<in> H) (title_class (timer_fires k p) x)"
    using inv x by (simp add: menu_inv_alt timer_fires_effect(2))
  show "if x \<in> H then shows_body (timer_fires k p) x = lit ''visible''
      else x \<notin> set (timers (timer_fires k p)) \<longrightarrow> shows_body (timer_fires k p) x = lit ''hidden''"
  proof (cases "x \<in> H")
    case True
    then show ?thesis using inv x cur by (auto simp: menu_inv_alt timer_fires_effect(3) eq)
  next
    case False
    then have "x \<notin> set (timers p) \<longrightarrow> shows_body p x = lit ''hidden''" using inv x by (simp add: menu_inv_alt)
    moreover have "x = ?mn \<or> x \<notin> set (timers p)" if "x \<notin> set (timers (timer_fires k p))"
      using in_timers_without [OF k, of x] that unfolding timer_fires_effect(1) by blast
    ultimately show ?thesis using False cur unfolding timer_fires_effect(3) eq by auto
  qed
qed

lemma menu_inv_step:
  assumes "menu_step ms st st'" and "menus_apart ms" and "\<forall>x \<in> ms. \<not> sublist (lit ''current'') (orig x)"
  shows "menu_inv ms orig st \<Longrightarrow> menu_inv ms orig st'"
  using assms by (cases rule: menu_step.cases) (blast intro: menu_inv_over menu_inv_out menu_inv_timer)+

lemma menu_inv_fresh: "fresh_menus ms p \<Longrightarrow> menu_inv ms (title_class p) (p, {})"
  by (auto simp: fresh_menus_def menu_inv_def intro: exI [of _ 0])

section \<open>Properties\<close>

text \<open>C25: however the events of the menus of a page interleave with their timers, a menu that the mouse
  is over is shown, and a menu that the mouse has left and whose timers have all fired is
  hidden.  A mouse that comes back before the timer fires keeps the menu open.\<close>

theorem menus_follow_mouse:
  assumes "menus_apart ms" and "fresh_menus ms p" and "(menu_step ms)\<^sup>*\<^sup>* (p, {}) (p', H)" and "mn \<in> ms"
  shows "(mn \<in> H \<longrightarrow> shows_body p' mn = lit ''visible'') \<and>
    (mn \<notin> H \<and> mn \<notin> set (timers p') \<longrightarrow> shows_body p' mn = lit ''hidden'')"
proof -
  have orig: "\<forall>x \<in> ms. \<not> sublist (lit ''current'') (title_class p x)" using assms(2) by (simp add: fresh_menus_def)
  have "menu_inv ms (title_class p) st" if "(menu_step ms)\<^sup>*\<^sup>* (p, {}) st" for st
    using that
  proof (induction rule: rtranclp_induct)
    case base
    show ?case by (rule menu_inv_fresh [OF assms(2)])
  next
    case (step st st')
    then show ?case using menu_inv_step [OF _ assms(1) orig] by blast
  qed
  from this [OF assms(3)] assms(4) show ?thesis by (simp add: menu_inv_def split: if_splits)
qed

lemma menus_follow_mouse_witness:
  "let mn = \<lparr>obj = 0, align = lit ''left'', sub = 1, title = 1, body = 2\<rparr>;
       p = \<lparr>nodes = (\<lambda>_. \<lparr>nodeType = 1, nodeValue = [], className = [], childNodes = [], parentNode = None,
              style = (\<lambda>_. lit ''hidden'')\<rparr>), menus = [mn], timers = []\<rparr>
   in \<exists>p'. (menu_step {mn})\<^sup>*\<^sup>* (p, {}) (p', {}) \<and> shows_body p' mn = lit ''hidden''"
proof -
  define mn where "mn = \<lparr>obj = 0, align = lit ''left'', sub = 1, title = 1, body = 2\<rparr>"
  define p where "p = \<lparr>nodes = (\<lambda>_. \<lparr>nodeType = 1, nodeValue = [], className = [], childNodes = [], parentNode = None,
              style = (\<lambda>_. lit ''hidden'')\<rparr>), menus = [mn], timers = []\<rparr>"
  define l where "l = \<lparr>offsetTop = (\<lambda>_. 5), offsetLeft = (\<lambda>_. 7), offsetParent = (\<lambda>_. None),
    offsetWidth = (\<lambda>_. 90), offsetHeight = (\<lambda>_. 20)\<rparr>"
  obtain p1 where p1: "activate l mn p = Some p1"
    by (auto simp: activate_def menu_position_def mn_def currentOffset_def)
  let ?p2 = "deactivate mn p1" and ?p3 = "timer_fires 0 (deactivate mn p1)"
  have t: "timers ?p2 = [mn]" using activate_effect(1) [OF p1] by (simp add: deactivate_effect p_def)
  have "menu_step {mn} (p, {}) (p1, {mn})" using menu_step.mouseover [of mn "{mn}" l p p1 "{}"] p1 by simp
  moreover have "menu_step {mn} (p1, {mn}) (?p2, {})" using menu_step.mouseout [of mn "{mn}" p1 "{mn}"] by simp
  moreover have "menu_step {mn} (?p2, {}) (?p3, {})" by (rule menu_step.timeout) (simp add: t)
  ultimately have run: "(menu_step {mn})\<^sup>*\<^sup>* (p, {}) (?p3, {})"
    by (meson converse_rtranclp_into_rtranclp rtranclp.rtrancl_refl)
  have "timers ?p3 = []" by (simp add: timer_fires_effect t)
  moreover have "menus_apart {mn}" by (simp add: menus_apart_def)
  moreover have "fresh_menus {mn} p"
    by (simp add: fresh_menus_def p_def title_class_def shows_body_def lit_def)
  ultimately have "shows_body ?p3 mn = lit ''hidden''"
    using menus_follow_mouse [of "{mn}" p ?p3 "{}" mn] run by simp
  with run show ?thesis unfolding Let_def p_def mn_def by blast
qed

text \<open>Opening a menu of the bar ends whenever offset parents lead to the root, and places its body
  right below its title: at the sum of the offsets along the chain, or with the right edges
  aligned for right-to-left pages.\<close>

theorem menu_placed:
  assumes "\<And>e e'. offsetParent l e = Some e' \<Longrightarrow> depth e' < (depth e :: nat)" and "sub mn \<noteq> 1"
  shows "\<exists>es p'. is_chain l (title mn # es) \<and> activate l mn p = Some p' \<and>
    (let (x, y) = chain_sum l (title mn # es) in
      style (nodes p' (body mn)) (lit ''top'') = px (y + offsetHeight l (title mn)) \<and>
      style (nodes p' (body mn)) (lit ''left'') =
        px (if align mn = lit ''right'' then x + offsetWidth l (title mn) - offsetWidth l (body mn) else x))"
proof -
  obtain es where es: "is_chain l (title mn # es)" using chain_exists [of l depth, OF assms(1)] by blast
  then have "cumulativeOffset l (title mn) = Some (chain_sum l (title mn # es))"
    by (simp add: cumulativeOffset_def offset_from_chain)
  with es assms(2) show ?thesis
    by (intro exI [of _ es]) (auto simp: activate_def menu_position_def node_defs Let_def lit_def add_diff_eq)
qed

lemma menu_placed_witness:
  "let l = \<lparr>offsetTop = (\<lambda>e. 10), offsetLeft = (\<lambda>e. 3), offsetParent = (\<lambda>e. if e = 0 then None else Some (e - 1)),
         offsetWidth = (\<lambda>_. 90), offsetHeight = (\<lambda>_. 20)\<rparr>;
       mn = \<lparr>obj = 0, align = lit ''left'', sub = -1, title = 1, body = 2\<rparr>;
       p = \<lparr>nodes = (\<lambda>_. \<lparr>nodeType = 1, nodeValue = [], className = [], childNodes = [], parentNode = None,
              style = (\<lambda>_. [])\<rparr>), menus = [mn], timers = []\<rparr>
   in \<exists>es p'. is_chain l (title mn # es) \<and> activate l mn p = Some p' \<and>
    (let (x, y) = chain_sum l (title mn # es) in
      style (nodes p' (body mn)) (lit ''top'') = px (y + offsetHeight l (title mn)) \<and>
      style (nodes p' (body mn)) (lit ''left'') =
        px (if align mn = lit ''right'' then x + offsetWidth l (title mn) - offsetWidth l (body mn) else x))"
  unfolding Let_def by (rule menu_placed [where depth = id, unfolded Let_def]) (auto split: if_splits)

end
