(* ===== verification/MenuLoad.thy ===== *)
theory MenuLoad
  imports Menu
begin

text \<open>
  How \<open>menu.js\<close> reaches the browser: the arguments of a handler made by \<open>bind\<close>, the registration by
  \<open>addListener\<close>, and the choice of the event that starts \<open>loadMenus\<close>, with the calls that a sequence of
  browser events causes.
\<close>

section \<open>Handlers\<close>

text \<open>\<open>$A\<close> on a missing value, on an object with a method \<open>toArray\<close>, and on one with indices.\<close>

datatype 'a iterable = Missing | Own "'a list" | Indexed "'a list"

fun copy_from :: "'a list \<Rightarrow> nat \<Rightarrow> 'a list \<Rightarrow> 'a list" where
  "copy_from xs 0 results = results"
| "copy_from xs (Suc n) results = copy_from xs n (results @ [xs ! (length xs - Suc n)])"

definition to_array :: "'a iterable \<Rightarrow> 'a list" where
  "to_array it = (case it of Missing \<Rightarrow> [] | Own xs \<Rightarrow> xs | Indexed xs \<Rightarrow> copy_from xs (length xs) [])"

text \<open>
  The receiver, the function and the arguments of the call that \<open>bind(...)\<close> makes.  \<open>args\<close> and \<open>array\<close> are one
  array, from which the receiver has been shifted off; the arguments of the call itself are not used.
\<close>

definition bind_call :: "'v list \<Rightarrow> ('v \<times> 'v \<times> 'v list) option" where
  "bind_call arguments =
     (let array = to_array (Indexed arguments)
      in case array of [] \<Rightarrow> None | object # rest \<Rightarrow> Some (object, last array, rest @ rest))"

datatype registration = AddEventListener jsstr bool | AttachEvent jsstr | NotRegistered

definition addListener :: "bool \<Rightarrow> bool \<Rightarrow> jsstr \<Rightarrow> bool \<Rightarrow> registration" where
  "addListener has_add has_attach ev useCapture =
     (if has_add then AddEventListener ev useCapture
      else if has_attach then AttachEvent (lit ''on'' @ ev) else NotRegistered)"

section \<open>Loading\<close>

datatype trigger = ContentLoaded | ScriptReady | Polling | WindowLoad

definition re_msie :: regexp where "re_msie = js_regex (lit ''MSIE'') (lit ''i'')"
definition re_webkit :: regexp where "re_webkit = js_regex (lit ''WebKit'') (lit ''i'')"
definition re_ready :: regexp where "re_ready = js_regex (lit ''loaded|complete'') []"

definition load_trigger :: "bool \<Rightarrow> jsstr \<Rightarrow> trigger" where
  "load_trigger has_add userAgent =
     (if has_add then ContentLoaded
      else if test re_msie userAgent then ScriptReady
      else if test re_webkit userAgent then Polling else WindowLoad)"

text \<open>What the browser reports: the event of the document, a state of the script, a turn of the timer with the state of the
  document, the load event of the window.\<close>

datatype signal = ContentEvent | ScriptState jsstr | Tick jsstr | LoadEvent

text \<open>A step: whether the timer still runs, and whether \<open>loadMenus\<close> is called.\<close>

definition load_step :: "trigger \<Rightarrow> signal \<Rightarrow> bool \<Rightarrow> bool \<times> bool" where
  "load_step tr s timer =
     (case (tr, s) of
        (ContentLoaded, ContentEvent) \<Rightarrow> (timer, True)
      | (ScriptReady, ScriptState st) \<Rightarrow> (timer, st = lit ''complete'')
      | (Polling, Tick st) \<Rightarrow> if timer \<and> test re_ready st then (False, True) else (timer, False)
      | (WindowLoad, LoadEvent) \<Rightarrow> (timer, True)
      | _ \<Rightarrow> (timer, False))"

fun load_calls :: "trigger \<Rightarrow> signal list \<Rightarrow> bool \<Rightarrow> nat" where
  "load_calls tr [] timer = 0"
| "load_calls tr (s # ss) timer =
     (case load_step tr s timer of (timer1, called) \<Rightarrow> (if called then 1 else 0) + load_calls tr ss timer1)"

section \<open>Properties\<close>

lemma copy_from_all: "n \<le> length xs \<Longrightarrow> copy_from xs n r = r @ drop (length xs - n) xs"
proof (induction n arbitrary: r)
  case (Suc n)
  then have "drop (length xs - Suc n) xs = xs ! (length xs - Suc n) # drop (length xs - n) xs"
    by (metis Cons_nth_drop_Suc Suc_diff_Suc Suc_le_lessD diff_less less_le_trans zero_less_Suc)
  with Suc show ?case by simp
qed simp

lemma to_array_indexed: "to_array (Indexed xs) = xs"
  by (simp add: to_array_def copy_from_all)

text \<open>
  A handler made by \<open>bind(object, method)\<close> in \<open>menu.js\<close> is called on the object with the method itself, twice, as
  arguments; the event is not among them.
\<close>

theorem bind_drops_event: "bind_call [object, method] = Some (object, method, [method, method])"
  by (simp add: bind_call_def to_array_indexed)

lemma poll_stopped: "load_calls Polling ss False = 0"
  by (induction ss) (auto simp: load_step_def split: signal.splits)

text \<open>
  With the timer, \<open>loadMenus\<close> is called exactly once if the document becomes ready at some turn, and never
  otherwise: the timer is cleared before the call.
\<close>

theorem polling_loads_once:
  "load_calls Polling ss True = (if \<exists>st. Tick st \<in> set ss \<and> test re_ready st then 1 else 0)"
proof (induction ss)
  case (Cons s ss)
  then show ?case by (cases s) (auto simp: load_step_def poll_stopped)
qed simp

end
