(* ===== verification/Doubles.thy ===== *)
theory Doubles
  imports Complex_Main "HOL-Library.Log_Nat"
begin

text \<open>
  The numbers of the language where the code divides: a positive rational is rounded to 53
  significant binary digits, to nearest with ties to even.  The exponent range is not modelled:
  the quotients of the sources are scroll positions and ratios of sizes, far inside it.
\<close>

definition exponent :: "rat \<Rightarrow> int" where
  "exponent q =
     (let (p, d) = quotient_of q;
          e = int (floorlog 2 (nat p)) - int (floorlog 2 (nat d))
      in if 2 powi e \<le> q then e else e - 1)"

definition round_even :: "rat \<Rightarrow> int" where
  "round_even y =
     (let f = \<lfloor>y\<rfloor>; r = y - of_int f
      in if r < 1 / 2 then f else if 1 / 2 < r then f + 1 else if even f then f else f + 1)"

definition double :: "rat \<Rightarrow> rat" where
  "double q = (if q \<le> 0 then 0 else of_int (round_even (q * 2 powi (52 - exponent q))) * 2 powi (exponent q - 52))"

lemma round_even_error: "\<bar>of_int (round_even y) - y\<bar> \<le> 1 / 2"
proof -
  have "of_int \<lfloor>y\<rfloor> \<le> y" "y < of_int \<lfloor>y\<rfloor> + 1" by linarith+
  then show ?thesis by (auto simp: round_even_def Let_def)
qed

lemma exponent_le:
  assumes "0 < q"
  shows "2 powi exponent q \<le> q"
proof -
  obtain p d where pd: "quotient_of q = (p, d)" by (cases "quotient_of q")
  have d: "0 < d" using quotient_of_denom_pos [OF pd] .
  have q: "q = of_int p / of_int d" using quotient_of_div [OF pd] .
  have p: "0 < p" using assms d unfolding q by (simp add: zero_less_divide_iff)
  let ?a = "floorlog 2 (nat p)" and ?b = "floorlog 2 (nat d)"
  have a: "2 ^ (?a - 1) \<le> nat p" "nat p < 2 ^ ?a" using p floorlog_bounds [of "nat p" 2] by auto
  have a0: "0 < ?a" using a(2) p by (cases ?a) auto
  have b: "nat d < 2 ^ ?b" using d floorlog_bounds [of "nat d" 2] by auto
  have "2 powi (int ?a - int ?b - 1) \<le> q"
  proof -
    have "(2 :: rat) ^ (?a - 1) \<le> of_int p" using a(1) p by (metis of_int_of_nat_eq of_nat_le_iff of_nat_numeral of_nat_power int_nat_eq less_imp_le)
    moreover have "of_int d \<le> (2 :: rat) ^ ?b" using b d by (metis of_int_of_nat_eq of_nat_le_iff of_nat_numeral of_nat_power int_nat_eq less_imp_le)
    ultimately have "(2 :: rat) ^ (?a - 1) / 2 ^ ?b \<le> of_int p / of_int d"
      using d p by (intro frac_le) auto
    moreover have "(2 :: rat) powi (int ?a - int ?b - 1) = 2 ^ (?a - 1) / 2 ^ ?b"
    proof -
      define u v where "u = ?a - 1" and "v = ?b"
      have "int ?a - int ?b - 1 = int u - int v" using a0 by (simp add: u_def v_def)
      moreover have "(2 :: rat) powi (int u - int v) = 2 ^ u / 2 ^ v" by (simp add: power_int_diff)
      ultimately show ?thesis by (simp only: u_def v_def)
    qed
    ultimately show ?thesis unfolding q by simp
  qed
  then show ?thesis by (simp add: exponent_def pd Let_def)
qed

text \<open>The relative error of a rounded number.\<close>

lemma double_error:
  assumes "0 < q"
  shows "\<bar>double q - q\<bar> \<le> q / 2 ^ 53"
proof -
  let ?e = "exponent q" and ?y = "q * 2 powi (52 - exponent q)"
  have y: "?y * 2 powi (?e - 52) = q"
    using power_int_add [of "2 :: rat" "52 - ?e" "?e - 52"] by (simp add: mult.assoc)
  have "double q - q = (of_int (round_even ?y) - ?y) * 2 powi (?e - 52)"
    using assms y by (simp add: double_def left_diff_distrib)
  then have "\<bar>double q - q\<bar> = \<bar>of_int (round_even ?y) - ?y\<bar> * 2 powi (?e - 52)" by (simp add: abs_mult)
  also have "\<dots> \<le> 1 / 2 * 2 powi (?e - 52)" by (intro mult_right_mono round_even_error) simp
  also have "\<dots> = 2 powi ?e / 2 ^ 53" by (simp add: power_int_diff)
  also have "\<dots> \<le> q / 2 ^ 53" using exponent_le [OF assms] by (intro divide_right_mono) auto
  finally show ?thesis .
qed

lemma double_nonneg: "0 \<le> double q"
proof (cases "0 < q")
  case True
  then have "q / 2 ^ 53 \<le> q" by simp
  with double_error [OF True] show ?thesis by linarith
qed (simp add: double_def)

lemma double_bounds:
  assumes "0 < q"
  shows "q * (1 - 1 / 2 ^ 53) \<le> double q" and "double q \<le> q * (1 + 1 / 2 ^ 53)"
proof -
  define e where "e = q / 2 ^ 53"
  have "q * (1 - 1 / 2 ^ 53) = q - e" "q * (1 + 1 / 2 ^ 53) = q + e" by (simp_all add: e_def field_simps)
  moreover have "\<bar>double q - q\<bar> \<le> e" using double_error [OF assms] by (simp add: e_def)
  ultimately show "q * (1 - 1 / 2 ^ 53) \<le> double q" and "double q \<le> q * (1 + 1 / 2 ^ 53)"
    by (simp_all only: abs_le_iff) linarith+
qed

end
