(* ===== verification/Base.thy ===== *)
theory Base
  imports Keywords Doubles
begin

text \<open>
  The helpers of the theme (\<open>base.js\<close>): the animated scroll to the top, the tab switch, the comment
  shortcut and the search for elements by class.  The window is a parameter: the locale
  \<open>viewport\<close> says what a scroll to an earlier position does to the three readings that \<open>goTop\<close>
  takes.  \<open>None\<close> is a \<open>TypeError\<close>, except for \<open>scroll_up\<close>, where it is an animation without end.
\<close>

section \<open>Scrolling\<close>

record scroll =
  documentElement :: "(nat \<times> nat) option"
  document_body :: "(nat \<times> nat) option"
  window_scroll :: "(nat \<times> nat) option"

definition reading :: "(nat \<times> nat) option \<Rightarrow> nat \<times> nat" where
  "reading r = (case r of None \<Rightarrow> (0, 0) | Some xy \<Rightarrow> xy)"

definition scroll_position :: "scroll \<Rightarrow> nat \<times> nat" where
  "scroll_position s =
     (let (x1, y1) = reading (documentElement s); (x2, y2) = reading (document_body s);
          (x3, y3) = reading (window_scroll s)
      in (max x1 (max x2 x3), max y1 (max y2 y3)))"

text \<open>Where to scroll, and the arguments of the next call if one is scheduled.\<close>

definition goTop :: "rat \<Rightarrow> nat \<Rightarrow> scroll \<Rightarrow> (nat \<times> nat) \<times> (rat \<times> nat) option" where
  "goTop a0 t0 s =
     (let a = (if a0 = 0 then double (1 / 10) else a0); t = (if t0 = 0 then 16 else t0);
          (x, y) = scroll_position s; speed = double (1 + a)
      in ((nat \<lfloor>double (of_nat x / speed)\<rfloor>, nat \<lfloor>double (of_nat y / speed)\<rfloor>),
          if x > 0 \<or> y > 0 then Some (a, t) else None))"

text \<open>The calls that follow one another, with their number.\<close>

partial_function (option) scroll_up ::
  "('w \<Rightarrow> scroll) \<Rightarrow> (nat \<times> nat \<Rightarrow> 'w \<Rightarrow> 'w) \<Rightarrow> rat \<Rightarrow> nat \<Rightarrow> 'w \<Rightarrow> nat \<Rightarrow> ('w \<times> nat) option" where
  "scroll_up readings scrollTo a t w n =
     (case goTop a t (readings w) of
        (xy, None) \<Rightarrow> Some (scrollTo xy w, Suc n)
      | (xy, Some (a', t')) \<Rightarrow> scroll_up readings scrollTo a' t' (scrollTo xy w) (Suc n))"

section \<open>Tabs\<close>

record page_element =
  class_name :: jsstr
  display :: jsstr
  element_value :: jsstr

type_synonym elements = "jsstr \<rightharpoonup> page_element"

definition setStyleDisplay :: "jsstr \<Rightarrow> jsstr \<Rightarrow> elements \<Rightarrow> elements option" where
  "setStyleDisplay i status d = map_option (\<lambda>e. d(i \<mapsto> e\<lparr>display := status\<rparr>)) (d i)"

definition set_class_name :: "jsstr \<Rightarrow> jsstr \<Rightarrow> elements \<Rightarrow> elements option" where
  "set_class_name i c d = map_option (\<lambda>e. d(i \<mapsto> e\<lparr>class_name := c\<rparr>)) (d i)"

fun set_panels :: "jsstr list \<Rightarrow> jsstr \<Rightarrow> elements \<Rightarrow> elements option" where
  "set_panels [] status d = Some d"
| "set_panels (panel # ps) status d =
     Option.bind (if d panel \<noteq> None then setStyleDisplay panel status d else Some d) (set_panels ps status)"

definition switchTab ::
  "jsstr \<Rightarrow> jsstr \<Rightarrow> jsstr \<Rightarrow> jsstr \<Rightarrow> jsstr \<Rightarrow> jsstr \<Rightarrow> elements \<Rightarrow> elements option" where
  "switchTab showPanels hidePanels activeTab activeClass fadeTab fadeClass d =
     Option.bind (set_class_name activeTab activeClass d) (\<lambda>d1.
     Option.bind (set_class_name fadeTab fadeClass d1) (\<lambda>d2.
     Option.bind (set_panels (split_str (lit '','') showPanels) (lit ''block'') d2) (\<lambda>d3.
       set_panels (split_str (lit '','') hidePanels) (lit ''none'') d3)))"

section \<open>The comment shortcut\<close>

record key_event =
  ctrlKey :: bool
  keyCode :: nat

text \<open>Whether a key event clicks the submit button; the event of the window comes first.\<close>

definition shortcut_submits :: "key_event option \<Rightarrow> key_event option \<Rightarrow> bool" where
  "shortcut_submits window_event moz_ev =
     (let ev = (case window_event of Some e \<Rightarrow> Some e | None \<Rightarrow> moz_ev)
      in case ev of None \<Rightarrow> False | Some e \<Rightarrow> ctrlKey e \<and> keyCode e = 13)"

definition loadCommentShortcut :: "elements \<Rightarrow> elements option" where
  "loadCommentShortcut d =
     (if d (lit ''comment'') = None then None
      else map_option (\<lambda>e. d(lit ''submit'' \<mapsto> e\<lparr>element_value := element_value e @ lit '' (Ctrl+Enter)''\<rparr>)) (d (lit ''submit'')))"

section \<open>Elements by class\<close>

definition re_hyphen :: regexp where "re_hyphen = js_regex (pat ''`-'') (lit ''g'')"

definition class_regex :: "jsstr \<Rightarrow> regexp option" where
  "class_regex c =
     RegExp (pat ''(^|`s)'' @ replace_re c re_hyphen (\<lambda>_. pat ''`-'') @ pat ''(`s|$)'') []"

text \<open>\<open>allTags\<close> is what the browser lists for the tag; \<open>None\<close> is a pattern with a syntax error.\<close>

definition getElementsByClassName :: "jsstr \<Rightarrow> ('e \<Rightarrow> jsstr) \<Rightarrow> 'e list \<Rightarrow> 'e list option" where
  "getElementsByClassName c name_of allTags =
     map_option (\<lambda>regex. filter (\<lambda>e. test regex (name_of e)) allTags) (class_regex c)"

section \<open>The scroll ends at the top\<close>

lemma goTop_shrinks:
  assumes "1 / 2 ^ 51 \<le> a" and "0 < (x :: nat)"
  shows "nat \<lfloor>double (of_nat x / double (1 + a))\<rfloor> < x"
proof -
  let ?s = "double (1 + a)" and ?e = "1 / 2 ^ 53 :: rat"
  have tiny: "(0 :: rat) < 1 / 2 ^ 51" "0 < ?e" by simp_all
  have a0: "0 < 1 + a" using assms(1) tiny(1) by linarith
  have s: "(1 + a) * (1 - ?e) \<le> ?s"
    by (rule double_bounds(1) [OF a0])
  have "1 + ?e < (1 + 1 / 2 ^ 51) * (1 - ?e)" by simp
  also have "\<dots> \<le> (1 + a) * (1 - ?e)" using assms(1) by (intro mult_right_mono) auto
  finally have gt: "1 + ?e < ?s" using s by linarith
  then have pos: "0 < ?s" using tiny(2) by linarith
  let ?q = "of_nat x / ?s"
  have q: "0 < ?q" using pos assms(2) by simp
  have "double ?q \<le> ?q * (1 + ?e)" by (rule double_bounds(2) [OF q])
  also have "\<dots> < ?q * ?s" using gt q by (intro mult_strict_left_mono) auto
  also have "\<dots> = of_nat x" using pos by simp
  finally have "\<lfloor>double ?q\<rfloor> < int x" by (simp add: floor_less_iff)
  then show ?thesis using assms(2) by linarith
qed

lemma goTop_zero: "nat \<lfloor>double (of_nat 0 / s)\<rfloor> = 0"
  by (simp add: double_def)

definition slow_enough :: "rat \<Rightarrow> bool" where
  "slow_enough a \<longleftrightarrow> a = 0 \<or> 1 / 2 ^ 51 \<le> a"

lemma tenth: "1 / 2 ^ 51 \<le> double (1 / 10)"
  using double_bounds(1) [of "1 / 10"] by simp

lemma goTop_step:
  assumes "slow_enough a" and "scroll_position s = (x, y)"
  obtains x' y' where "x' \<le> x" and "y' \<le> y" and "0 < x \<longrightarrow> x' < x" and "0 < y \<longrightarrow> y' < y"
    and "fst (goTop a t s) = (x', y')"
    and "if 0 < x \<or> 0 < y then \<exists>a' t'. snd (goTop a t s) = Some (a', t') \<and> slow_enough a' else snd (goTop a t s) = None"
proof -
  let ?a = "if a = 0 then double (1 / 10) else a"
  let ?f = "\<lambda>x. nat \<lfloor>double (of_nat x / double (1 + ?a))\<rfloor>"
  have a: "1 / 2 ^ 51 \<le> ?a" using assms(1) tenth by (auto simp: slow_enough_def)
  have f: "(0 < z \<longrightarrow> ?f z < z) \<and> ?f z \<le> z" for z
    using goTop_shrinks [OF a, of z] goTop_zero by (cases "0 < z") auto
  show thesis
  proof (rule that [of "?f x" "?f y"])
    show "fst (goTop a t s) = (?f x, ?f y)" by (simp add: goTop_def assms(2) Let_def)
    show "if 0 < x \<or> 0 < y then \<exists>a' t'. snd (goTop a t s) = Some (a', t') \<and> slow_enough a' else snd (goTop a t s) = None"
      using a by (auto simp: goTop_def assms(2) Let_def slow_enough_def)
  qed (use f in auto)
qed

text \<open>
  The window: a scroll to a position that is not beyond the present one is carried out, and the
  largest of the three readings shows it.
\<close>

locale viewport =
  fixes readings :: "'w \<Rightarrow> scroll" and scrollTo :: "nat \<times> nat \<Rightarrow> 'w \<Rightarrow> 'w"
  assumes scrolled: "scroll_position (readings w) = (x, y) \<Longrightarrow> x' \<le> x \<Longrightarrow> y' \<le> y \<Longrightarrow>
    scroll_position (readings (scrollTo (x', y') w)) = (x', y')"
begin

lemma scroll_up_ends:
  assumes "scroll_position (readings w) = (x, y)" and "slow_enough a"
  shows "\<exists>w' k. scroll_up readings scrollTo a t w n = Some (w', n + k) \<and>
    scroll_position (readings w') = (0, 0) \<and> k \<le> Suc (max x y)"
  using assms
proof (induction "max x y" arbitrary: x y a t w n rule: less_induct)
  case less
  obtain x' y' where xy: "x' \<le> x" "y' \<le> y" "0 < x \<longrightarrow> x' < x" "0 < y \<longrightarrow> y' < y" "fst (goTop a t (readings w)) = (x', y')"
    and nx: "if 0 < x \<or> 0 < y then \<exists>a' t'. snd (goTop a t (readings w)) = Some (a', t') \<and> slow_enough a'
      else snd (goTop a t (readings w)) = None"
    by (rule goTop_step [OF less.prems(2,1), where t = t])
  have pos: "scroll_position (readings (scrollTo (x', y') w)) = (x', y')"
    by (rule scrolled [OF less.prems(1) xy(1,2)])
  show ?case
  proof (cases "0 < x \<or> 0 < y")
    case True
    with nx obtain a' t' where g: "goTop a t (readings w) = ((x', y'), Some (a', t'))" "slow_enough a'"
      using xy(5) by (metis prod.collapse)
    have lt: "max x' y' < max x y" using True xy by auto
    from less.hyps [OF lt pos g(2), of t' "Suc n"] obtain w' k where
      "scroll_up readings scrollTo a' t' (scrollTo (x', y') w) (Suc n) = Some (w', Suc n + k)"
      "scroll_position (readings w') = (0, 0)" "k \<le> Suc (max x' y')" by blast
    moreover have "scroll_up readings scrollTo a t w n = scroll_up readings scrollTo a' t' (scrollTo (x', y') w) (Suc n)"
      by (subst scroll_up.simps) (simp add: g(1))
    moreover have "k \<le> max x y" if "k \<le> Suc (max x' y')" using that lt by linarith
    ultimately show ?thesis by (intro exI [of _ w'] exI [of _ "Suc k"]) simp
  next
    case False
    with nx have g: "goTop a t (readings w) = ((x', y'), None)" using xy(5) by (metis prod.collapse)
    then have "scroll_up readings scrollTo a t w n = Some (scrollTo (x', y') w, Suc n)"
      by (subst scroll_up.simps) simp
    with False xy pos show ?thesis by (intro exI [of _ "scrollTo (x', y') w"] exI [of _ 1]) simp
  qed
qed

end

end
