(* ===== verification/BaseSpec.thy ===== *)
theory BaseSpec
  imports Base
begin

text \<open>
  What the helpers of the theme achieve: the scroll ends at the top of the window, the class
  expression finds exactly the listed classes, and the tab switch shows and hides the panels it
  is told to.
\<close>

section \<open>A window\<close>

text \<open>A window with the extent that can be scrolled; the body of the document reads 0 in standards mode.\<close>

record browser_window =
  extent :: "nat \<times> nat"
  scrolled_to :: "nat \<times> nat"

definition window_at :: "browser_window \<Rightarrow> nat \<times> nat" where
  "window_at w = (min (fst (scrolled_to w)) (fst (extent w)), min (snd (scrolled_to w)) (snd (extent w)))"

definition window_readings :: "browser_window \<Rightarrow> scroll" where
  "window_readings w = \<lparr>documentElement = Some (window_at w), document_body = Some (0, 0), window_scroll = Some (window_at w)\<rparr>"

definition window_scrollTo :: "nat \<times> nat \<Rightarrow> browser_window \<Rightarrow> browser_window" where
  "window_scrollTo xy w = w\<lparr>scrolled_to := xy\<rparr>"

interpretation win: viewport window_readings window_scrollTo
  by unfold_locales
     (auto simp: window_readings_def window_scrollTo_def window_at_def scroll_position_def reading_def Let_def)

text \<open>C28: the animation of \<open>goTop\<close> ends: with the default acceleration, or any that is not lost in
  rounding, the calls follow one another at most once per pixel and leave the window at its top
  left corner.\<close>

theorem go_top_reaches_top:
  assumes "slow_enough a"
  shows "\<exists>w' k. scroll_up window_readings window_scrollTo a t w 0 = Some (w', k) \<and>
    scroll_position (window_readings w') = (0, 0) \<and> k \<le> Suc (max (fst (window_at w)) (snd (window_at w)))"
proof -
  have "scroll_position (window_readings w) = (fst (window_at w), snd (window_at w))"
    by (simp add: window_readings_def scroll_position_def reading_def split: prod.splits)
  from win.scroll_up_ends [OF this assms, of t 0] show ?thesis by auto
qed

lemma go_top_reaches_top_witness:
  "\<exists>w' k. scroll_up window_readings window_scrollTo 0 0 \<lparr>extent = (0, 900), scrolled_to = (0, 30)\<rparr> 0 = Some (w', k) \<and>
    scroll_position (window_readings w') = (0, 0) \<and> k \<le> 31"
  using go_top_reaches_top [of 0 0 "\<lparr>extent = (0, 900), scrolled_to = (0, 30)\<rparr>"]
  by (simp add: slow_enough_def window_at_def)

section \<open>The class expression\<close>

definition class_char :: "jschar \<Rightarrow> bool" where
  "class_char c \<longleftrightarrow> is_word c \<or> c = 45"

abbreviation hyphenated :: "jsstr \<Rightarrow> jsstr" where
  "hyphenated w \<equiv> concat (map (\<lambda>c. if c = 45 then [92, 45] else [c]) w)"

lemma re_hyphen_eq: "re_hyphen = \<lparr>prog = RSeq (RChar 45) REmpty, groups = 1, rflags = g_flags, lastIndex = 0\<rparr>"
  by (simp add: re_hyphen_def js_eval)

lemma replace_hyphen: "replace_re s re_hyphen (\<lambda>_. t) = concat (map (\<lambda>c. if c = 45 then t else [c]) s)"
  by (rule replace_char [where g = "\<lambda>_. t"]) (auto intro: char_regexpI simp: re_hyphen_eq)

definition before_class :: regex where
  "before_class = RGroup 1 (RAlt (RSeq RBol REmpty) (RSeq (RClass False [CSpace]) REmpty))"

definition after_class :: regex where
  "after_class = RGroup 2 (RAlt (RSeq (RClass False [CSpace]) REmpty) (RSeq REol REmpty))"

lemma parse_after: "parse_alt (Suc (Suc (Suc (Suc (Suc (Suc (Suc k))))))) [40, 92, 115, 124, 36, 41] 2 =
    Some (RSeq after_class REmpty, [], 3)"
  by (simp add: atom_escape_def class_escape_def quantify_def after_class_def numeral_2_eq_2 numeral_3_eq_3)

lemma class_char_literal: "class_char c \<Longrightarrow> c \<noteq> 45 \<Longrightarrow> literal_char c"
  by (auto simp: class_char_def literal_char_def is_word_def)

lemma class_char_no_quant:
  "class_char c \<Longrightarrow> c \<noteq> 42 \<and> c \<noteq> 43 \<and> c \<noteq> 63 \<and> c \<noteq> 123 \<and> c \<noteq> 124 \<and> c \<noteq> 41"
  by (auto simp: class_char_def is_word_def)

lemma parse_class_name:
  "list_all class_char w \<Longrightarrow>
   parse_alt (length w + (7 + k)) (hyphenated w @ [40, 92, 115, 124, 36, 41]) 2 =
     Some (seq_chars w (RSeq after_class REmpty), [], 3)"
proof (induction w)
  case Nil
  show ?case using parse_after [of k] by (simp add: numeral_eq_Suc del: parse_alt.simps)
next
  case (Cons c w)
  let ?rest = "hyphenated w @ [40, 92, 115, 124, 36, 41]"
  have nq: "case ?rest of [] \<Rightarrow> True | d # _ \<Rightarrow> d \<noteq> 42 \<and> d \<noteq> 43 \<and> d \<noteq> 63 \<and> d \<noteq> 123"
    using Cons.prems class_char_no_quant by (cases w) auto
  have t: "parse_term (length w + (7 + k)) (hyphenated [c] @ ?rest) 2 = Some (RChar c, ?rest, 2)"
  proof (cases "c = 45")
    case True
    moreover have "length w + (7 + k) = Suc (length w + (6 + k))" by simp
    ultimately show ?thesis using quantify_none [OF nq, of 2 2 "RChar 45"]
      by (simp only: parse_term.simps) (simp add: atom_escape_def class_escape_def ctrl_escape_def unsupported_escape_def)
  next
    case False
    then have "literal_char c" using Cons.prems class_char_literal by simp
    from parse_literal [OF this nq, of "length w + (6 + k)" 2] False show ?thesis by (simp add: add.left_commute del: parse_term.simps)
  qed
  obtain d ds where d: "hyphenated [c] @ ?rest = d # ds" "d \<noteq> 124" "d \<noteq> 41"
    using class_char_no_quant [of c] Cons.prems by (cases "c = 45") auto
  have "parse_alt (Suc (length w + (7 + k))) (d # ds) 2 = Some (RSeq (RChar c) (seq_chars w (RSeq after_class REmpty)), [], 3)"
    by (rule parse_alt_step [OF t [unfolded d(1)] Cons.IH]) (use Cons.prems d in auto)
  then show ?case using d(1) by (simp del: parse_alt.simps)
qed

lemma parse_before:
  assumes "case rest of [] \<Rightarrow> True | d # _ \<Rightarrow> d \<noteq> 42 \<and> d \<noteq> 43 \<and> d \<noteq> 63 \<and> d \<noteq> 123"
  shows "parse_term (Suc (Suc (Suc (Suc (Suc (Suc k)))))) (40 # 94 # 124 # 92 # 115 # 41 # rest) 1 = Some (before_class, rest, 2)"
  using quantify_none [OF assms, of 1 2 before_class]
  by (simp add: atom_escape_def class_escape_def before_class_def quantify_def numeral_2_eq_2)

lemma class_regex_eq:
  assumes "list_all class_char w"
  shows "class_regex w = Some \<lparr>prog = RSeq before_class (seq_chars w (RSeq after_class REmpty)), groups = 3,
    rflags = no_flags, lastIndex = 0\<rparr>"
proof -
  let ?rest = "hyphenated w @ [40, 92, 115, 124, 36, 41]"
  let ?p = "40 # 94 # 124 # 92 # 115 # 41 # ?rest"
  let ?r = "RSeq before_class (seq_chars w (RSeq after_class REmpty))"
  have "length w \<le> length (hyphenated w)" by (induction w) auto
  then have fuel: "fuel_of ?p = Suc (Suc (length w + (7 + (fuel_of ?p - length w - 9))))"
    using fuel_of_ge [of ?p] by simp
  have nq: "case ?rest of [] \<Rightarrow> True | d # _ \<Rightarrow> d \<noteq> 42 \<and> d \<noteq> 43 \<and> d \<noteq> 63 \<and> d \<noteq> 123"
    using assms class_char_no_quant by (cases w) auto
  have t: "parse_term (length w + (7 + k)) ?p 1 = Some (before_class, ?rest, 2)" for k
    using parse_fuel_ge(3) [OF _ parse_before [OF nq, of 0], of "length w + (7 + k)"] by simp
  have "parse_alt (Suc (length w + (7 + k))) ?p 1 = Some (?r, [], 3)" for k
    by (rule parse_alt_step [OF t parse_class_name [OF assms]]) simp_all
  then have "parse_disj (Suc (Suc (length w + (7 + k)))) ?p 1 = Some (?r, [], 3)" for k
    by (rule parse_disj_last)
  then have "parse_pattern ?p = Some (?r, 3)" unfolding parse_pattern_def by (subst fuel) simp
  moreover have "pat ''(^|`s)'' @ replace_re w re_hyphen (\<lambda>_. pat ''`-'') @ pat ''(`s|$)'' = ?p"
    by (simp add: replace_hyphen pat_def)
  ultimately show ?thesis by (simp add: class_regex_def RegExp_def parse_flags_def)
qed

section \<open>The listed classes\<close>

function class_list :: "jsstr \<Rightarrow> jsstr list" where
  "class_list s =
     (let t = dropWhile is_space s
      in if t = [] then [] else takeWhile (\<lambda>c. \<not> is_space c) t # class_list (dropWhile (\<lambda>c. \<not> is_space c) t))"
  by pat_completeness auto
termination
proof (relation "measure length")
  fix s t assume t: "t = dropWhile is_space s" "t \<noteq> []"
  then have "\<not> is_space (hd t)" using hd_dropWhile by metis
  then have "length (dropWhile (\<lambda>c. \<not> is_space c) t) < length t"
    using t(2) length_dropWhile_le [of "\<lambda>c. \<not> is_space c" "tl t"] by (cases t) auto
  also have "\<dots> \<le> length s" unfolding t(1) by (rule length_dropWhile_le)
  finally show "(dropWhile (\<lambda>c. \<not> is_space c) t, s) \<in> measure length" by simp
qed simp

declare class_list.simps [simp del]

definition stands_alone :: "jsstr \<Rightarrow> jsstr \<Rightarrow> bool" where
  "stands_alone w s \<longleftrightarrow>
     (\<exists>a b. s = a @ w @ b \<and> (a = [] \<or> is_space (last a)) \<and> (b = [] \<or> is_space (hd b)))"

lemma class_list_Nil [simp]: "class_list [] = []"
  by (simp add: class_list.simps)

lemma class_list_space: "is_space c \<Longrightarrow> class_list (c # s) = class_list s"
  by (subst (1 2) class_list.simps) simp

lemma class_list_word:
  assumes "w \<noteq> []" and "\<forall>c \<in> set w. \<not> is_space c" and "b = [] \<or> is_space (hd b)"
  shows "class_list (w @ b) = w # class_list b"
proof -
  have "dropWhile is_space (w @ b) = w @ b" using assms(1,2) by (cases w) auto
  moreover have "takeWhile (\<lambda>c. \<not> is_space c) (w @ b) = w" "dropWhile (\<lambda>c. \<not> is_space c) (w @ b) = b"
    using assms(2,3) by (cases b; simp add: takeWhile_append dropWhile_append)+
  ultimately show ?thesis using assms(1) by (subst class_list.simps) simp
qed

lemma stands_alone_space:
  assumes "is_space c" and "w \<noteq> []" and "\<forall>x \<in> set w. \<not> is_space x"
  shows "stands_alone w (c # s) \<longleftrightarrow> stands_alone w s"
proof
  assume "stands_alone w (c # s)"
  then obtain a b where ab: "c # s = a @ w @ b" "a = [] \<or> is_space (last a)" "b = [] \<or> is_space (hd b)"
    by (auto simp: stands_alone_def)
  have "a \<noteq> []" using ab(1) assms by (cases w) auto
  then obtain a' where "a = c # a'" using ab(1) by (cases a) auto
  with ab show "stands_alone w s" unfolding stands_alone_def by (intro exI [of _ a'] exI [of _ b]) (auto split: if_splits)
next
  assume "stands_alone w s"
  then obtain a b where "s = a @ w @ b" "a = [] \<or> is_space (last a)" "b = [] \<or> is_space (hd b)"
    by (auto simp: stands_alone_def)
  with assms(1) show "stands_alone w (c # s)" unfolding stands_alone_def by (intro exI [of _ "c # a"] exI [of _ b]) auto
qed

lemma stands_alone_word:
  assumes u: "u \<noteq> []" "\<forall>x \<in> set u. \<not> is_space x" and r: "r = [] \<or> is_space (hd r)"
    and w: "w \<noteq> []" "\<forall>x \<in> set w. \<not> is_space x"
  shows "stands_alone w (u @ r) \<longleftrightarrow> w = u \<or> stands_alone w r"
proof
  assume "stands_alone w (u @ r)"
  then obtain a b where ab: "u @ r = a @ w @ b" "a = [] \<or> is_space (last a)" "b = [] \<or> is_space (hd b)"
    by (auto simp: stands_alone_def)
  show "w = u \<or> stands_alone w r"
  proof (cases "a = []")
    case True
    have "takeWhile (\<lambda>c. \<not> is_space c) (u @ r) = u" "takeWhile (\<lambda>c. \<not> is_space c) (w @ b) = w"
      using u(2) r w(2) ab(3) by (cases r; cases b; simp add: takeWhile_append)+
    with ab(1) True show ?thesis by simp
  next
    case False
    have "\<not> length a \<le> length u"
    proof
      assume "length a \<le> length u"
      then have "a = take (length a) u" using ab(1) by (metis append_eq_conv_conj take_append take_all_iff diff_is_0_eq' take0 append_Nil2)
      then have "last a \<in> set u" using False by (metis in_set_takeD last_in_set)
      with ab(2) False u(2) show False by blast
    qed
    then obtain a' where a': "a = u @ a'" "a' \<noteq> []"
      using ab(1) by (metis append_eq_append_conv2 le_add1 length_append append_Nil2 order_refl)
    with ab show ?thesis unfolding stands_alone_def by auto
  qed
next
  assume "w = u \<or> stands_alone w r"
  then show "stands_alone w (u @ r)"
  proof
    assume "w = u"
    with r show ?thesis unfolding stands_alone_def by (intro exI [of _ "[]"] exI [of _ r]) simp
  next
    assume "stands_alone w r"
    then obtain a b where ab: "r = a @ w @ b" "a = [] \<or> is_space (last a)" "b = [] \<or> is_space (hd b)"
      by (auto simp: stands_alone_def)
    have "a \<noteq> []" using ab(1) r w by (cases w) auto
    with ab show ?thesis unfolding stands_alone_def by (intro exI [of _ "u @ a"] exI [of _ b]) simp
  qed
qed

lemma in_class_list:
  assumes "w \<noteq> []" and "\<forall>c \<in> set w. \<not> is_space c"
  shows "w \<in> set (class_list s) \<longleftrightarrow> stands_alone w s"
proof (induction s rule: length_induct)
  case (1 s)
  show ?case
  proof (cases s)
    case Nil
    with assms(1) show ?thesis by (simp add: stands_alone_def)
  next
    case (Cons c t)
    show ?thesis
    proof (cases "is_space c")
      case True
      with 1 Cons show ?thesis by (simp add: class_list_space stands_alone_space [OF _ assms])
    next
      case False
      let ?u = "takeWhile (\<lambda>c. \<not> is_space c) s" and ?r = "dropWhile (\<lambda>c. \<not> is_space c) s"
      have u: "?u \<noteq> []" "\<forall>x \<in> set ?u. \<not> is_space x" using Cons False by (auto dest: set_takeWhileD)
      have r: "?r = [] \<or> is_space (hd ?r)" using hd_dropWhile by blast
      have "length ?r < length s" using u(1) by (metis length_append length_greater_0_conv less_add_same_cancel2 takeWhile_dropWhile_id)
      with 1 have "w \<in> set (class_list ?r) \<longleftrightarrow> stands_alone w ?r" by blast
      then show ?thesis
        using class_list_word [OF u r] stands_alone_word [OF u r assms] by auto
    qed
  qed
qed

section \<open>Searching by class\<close>

lemma m_before_class:
  "map fst (m no_flags s before_class i cs) =
     (if i = 0 then [0] else []) @ (if i < length s \<and> is_space (s ! i) then [Suc i] else [])"
  by (auto simp: before_class_def in_class_def)

lemma m_after_class:
  "m no_flags s after_class i cs \<noteq> [] \<longleftrightarrow> i < length s \<and> is_space (s ! i) \<or> i = length s"
  by (auto simp: after_class_def in_class_def)

lemma m_name:
  assumes "w \<noteq> []"
  shows "m no_flags s (seq_chars w (RSeq after_class REmpty)) j cs \<noteq> [] \<longleftrightarrow>
    j + length w \<le> length s \<and> take (length w) (drop j s) = w \<and>
    (j + length w = length s \<or> is_space (s ! (j + length w)))"
proof -
  have "m no_flags s (RSeq after_class REmpty) i cs \<noteq> [] \<longleftrightarrow> m no_flags s after_class i cs \<noteq> []" for i
    by (cases "m no_flags s after_class i cs") auto
  then have t: "m no_flags s (RSeq after_class REmpty) i cs \<noteq> [] \<longleftrightarrow> i < length s \<and> is_space (s ! i) \<or> i = length s" for i
    by (simp only: m_after_class)
  show ?thesis
  proof (cases "j + length w \<le> length s \<and> take (length w) (drop j s) = w")
    case True
    then have "m no_flags s (seq_chars w (RSeq after_class REmpty)) j cs = m no_flags s (RSeq after_class REmpty) (j + length w) cs"
      by (simp add: m_seq_chars del: m.simps)
    with t [of "j + length w"] True show ?thesis by auto
  next
    case False
    then have "m no_flags s (seq_chars w (RSeq after_class REmpty)) j cs = []"
      using assms by (auto simp: m_seq_chars simp del: m.simps)
    with False show ?thesis by blast
  qed
qed

lemma m_class:
  assumes "w \<noteq> []"
  shows "m no_flags s (RSeq before_class (seq_chars w (RSeq after_class REmpty))) i cs \<noteq> [] \<longleftrightarrow>
    (\<exists>j. (j = 0 \<and> i = 0 \<or> j = Suc i \<and> i < length s \<and> is_space (s ! i)) \<and>
      j + length w \<le> length s \<and> take (length w) (drop j s) = w \<and>
      (j + length w = length s \<or> is_space (s ! (j + length w))))"
proof -
  have "m no_flags s (RSeq before_class (seq_chars w (RSeq after_class REmpty))) i cs \<noteq> [] \<longleftrightarrow>
    (\<exists>j \<in> fst ` set (m no_flags s before_class i cs). j + length w \<le> length s \<and> take (length w) (drop j s) = w \<and>
      (j + length w = length s \<or> is_space (s ! (j + length w))))"
    unfolding m.simps(5) concat_map_nonempty split_beta m_name [OF assms] by simp
  moreover have "fst ` set (m no_flags s before_class i cs) =
      {j. j = 0 \<and> i = 0 \<or> j = Suc i \<and> i < length s \<and> is_space (s ! i)}"
    using m_before_class [of s i cs] by (subst list.set_map [symmetric]) auto
  ultimately show ?thesis by auto
qed

lemma test_class_regex:
  assumes "rflags re = no_flags" and "prog re = RSeq before_class (seq_chars w (RSeq after_class REmpty))" and "w \<noteq> []"
  shows "test re s \<longleftrightarrow> stands_alone w s"
proof -
  have "test re s \<longleftrightarrow> (\<exists>j. (j = 0 \<or> j \<le> length s \<and> is_space (s ! (j - 1))) \<and> j + length w \<le> length s \<and>
      take (length w) (drop j s) = w \<and> (j + length w = length s \<or> is_space (s ! (j + length w))))"
    (is "_ \<longleftrightarrow> (\<exists>j. ?at j)")
  proof
    assume "test re s"
    then obtain i j where "j = 0 \<and> i = 0 \<or> j = Suc i \<and> i < length s \<and> is_space (s ! i)" "j + length w \<le> length s"
        "take (length w) (drop j s) = w" "j + length w = length s \<or> is_space (s ! (j + length w))"
      unfolding test_no_flags [OF assms(1)] assms(2) m_class [OF assms(3)] by blast
    then show "\<exists>j. ?at j" by (intro exI [of _ j]) auto
  next
    assume "\<exists>j. ?at j"
    then obtain j where j: "?at j" by blast
    show "test re s" unfolding test_no_flags [OF assms(1)] assms(2) m_class [OF assms(3)]
      by (rule exI [of _ "j - 1"], intro conjI exI [of _ j]) (use j in auto)
  qed
  also have "\<dots> \<longleftrightarrow> stands_alone w s"
  proof
    assume "\<exists>j. ?at j"
    then obtain j where j: "?at j" by blast
    have "last (take j s) = s ! (j - 1)" if "j \<noteq> 0" "j \<le> length s"
      using that by (subst last_conv_nth) (auto simp: min_def)
    then have "take j s = [] \<or> is_space (last (take j s))" using j by (cases "j = 0") auto
    moreover have "drop (j + length w) s = [] \<or> is_space (hd (drop (j + length w) s))"
      using j hd_drop_conv_nth [of "j + length w" s] by (cases "j + length w = length s") auto
    moreover have "s = take j s @ w @ drop (j + length w) s"
      using j by (metis append_take_drop_id drop_drop add.commute)
    ultimately show "stands_alone w s" unfolding stands_alone_def by blast
  next
    assume "stands_alone w s"
    then obtain a b where "s = a @ w @ b" "a = [] \<or> is_space (last a)" "b = [] \<or> is_space (hd b)"
      by (auto simp: stands_alone_def)
    then have "?at (length a)"
      using last_conv_nth [of a] hd_conv_nth [of b]
      by (cases "a = []"; cases "b = []") (simp_all add: nth_append)
    then show "\<exists>j. ?at j" by blast
  qed
  finally show ?thesis .
qed

text \<open>C29: for a class name of word characters and hyphens the search returns exactly the elements, in
  their order, whose class attribute lists the name between white space: the expression that is
  put together from the name has no accidental matches and misses none.\<close>

theorem class_search_exact:
  assumes "w \<noteq> []" and "list_all class_char w"
  shows "getElementsByClassName w name_of es = Some (filter (\<lambda>e. w \<in> set (class_list (name_of e))) es)"
proof -
  have "\<forall>c \<in> set w. \<not> is_space c" using assms(2) by (auto simp: list_all_iff class_char_def is_word_def is_space_def)
  with assms show ?thesis
    by (simp add: getElementsByClassName_def class_regex_eq test_class_regex in_class_list)
qed

lemma class_search_exact_witness:
  "getElementsByClassName (lit ''a-b'') id [lit ''x a-b'', lit ''a-bc'', lit ''a-b''] = Some [lit ''x a-b'', lit ''a-b'']"
proof -
  have "getElementsByClassName (lit ''a-b'') id [lit ''x a-b'', lit ''a-bc'', lit ''a-b''] =
      Some (filter (\<lambda>e. lit ''a-b'' \<in> set (class_list (id e))) [lit ''x a-b'', lit ''a-bc'', lit ''a-b''])"
    by (rule class_search_exact) (simp_all add: lit_def class_char_def is_word_def)
  then show ?thesis by (simp add: lit_def is_space_def class_list.simps)
qed

section \<open>Tabs\<close>

lemma set_panels_Some: "set_panels ps st d = Some (\<lambda>i. if i \<in> set ps then map_option (\<lambda>e. e\<lparr>display := st\<rparr>) (d i) else d i)"
proof (induction ps arbitrary: d)
  case (Cons p ps)
  show ?case
  proof (cases "d p")
    case None
    then show ?thesis by (auto simp: Cons)
  next
    case (Some e)
    then show ?thesis by (auto simp: Cons setStyleDisplay_def)
  qed
qed simp

text \<open>The tab switch: it fails exactly when one of the two tabs is missing; otherwise the panels to hide
  are hidden, the other panels to show are shown, and the rest of the page keeps its display.\<close>

lemma switchTab_displays:
  "switchTab sp hp t tc f fc d = None \<longleftrightarrow> d t = None \<or> d f = None"
  "switchTab sp hp t tc f fc d = Some d' \<Longrightarrow>
   map_option display (d' i) =
     (if i \<in> set (split_str (lit '','') hp) \<and> d i \<noteq> None then Some (lit ''none'')
      else if i \<in> set (split_str (lit '','') sp) \<and> d i \<noteq> None then Some (lit ''block'')
      else map_option display (d i))"
  by (cases "d t"; cases "d f"; auto simp: switchTab_def set_class_name_def set_panels_Some split: if_splits)+

end
