(* ===== verification/Fold.thy ===== *)
theory Fold
  imports TextPrep
begin

text \<open>
  Folding of the parts of a page (\<open>fold.js\<close>): a click starts an interval whose callback shrinks or
  grows the part by 50 pixels until it is folded or has its stored height.  The state holds the
  inline styles, the stored heights, the live intervals with the variables of their closures, and
  the one global variable \<open>iIntervalId\<close> that all of them share.  The height that the browser has
  laid out is an argument of the click.
\<close>

section \<open>State\<close>

text \<open>The two callbacks; a height that was never stored is \<open>undefined\<close>.\<close>

datatype task = Unfold jsstr int "int option" | Fold jsstr int

record folding =
  fold_height :: "jsstr \<rightharpoonup> int"
  fold_display :: "jsstr \<Rightarrow> jsstr"
  height :: "jsstr \<Rightarrow> jsstr"
  button :: "jsstr \<Rightarrow> jsstr"
  iIntervalId :: nat
  intervals :: "(nat \<times> task) list"

definition in_px :: "int \<Rightarrow> jsstr" where "in_px h = int_to_str h @ lit ''px''"

definition none :: jsstr where "none = lit ''none''"

text \<open>Interval numbers are never used twice.\<close>

definition setInterval :: "task \<Rightarrow> nat \<Rightarrow> folding \<Rightarrow> folding" where
  "setInterval t fresh st = st\<lparr>iIntervalId := fresh, intervals := intervals st @ [(fresh, t)]\<rparr>"

definition clearInterval :: "nat \<Rightarrow> folding \<Rightarrow> folding" where
  "clearInterval k st = st\<lparr>intervals := filter (\<lambda>(i, _). i \<noteq> k) (intervals st)\<rparr>"

definition fold_use :: "jsstr \<Rightarrow> jsstr \<Rightarrow> int \<Rightarrow> nat \<Rightarrow> folding \<Rightarrow> folding" where
  "fold_use contentid buttonid offsetHeight fresh st =
     (if fold_display st contentid = none then
        (setInterval (Unfold contentid 0 (fold_height st contentid)) fresh st)
          \<lparr>button := (button st)(buttonid := lit ''[-]'')\<rparr>
      else
        (setInterval (Fold contentid offsetHeight) fresh (st\<lparr>fold_height := (fold_height st)(contentid \<mapsto> offsetHeight)\<rparr>))
          \<lparr>button := (button st)(buttonid := lit ''[+]'')\<rparr>)"

fun advance :: "task \<Rightarrow> task" where
  "advance (Unfold c h H) = Unfold c (h + 50) H"
| "advance (Fold c h) = Fold c (h - 50)"

definition reached :: "int \<Rightarrow> int option \<Rightarrow> bool" where
  "reached h H = (case H of None \<Rightarrow> False | Some x \<Rightarrow> x \<le> h)"

fun callback :: "task \<Rightarrow> folding \<Rightarrow> folding" where
  "callback (Unfold c h H) st =
     (if reached h H
      then clearInterval (iIntervalId st) (st\<lparr>height := (height st)(c := in_px (the H))\<rparr>)
      else st\<lparr>fold_display := (fold_display st)(c := lit ''block''), height := (height st)(c := in_px h)\<rparr>)"
| "callback (Fold c h) st =
     (if h \<le> 0
      then clearInterval (iIntervalId st) (st\<lparr>fold_display := (fold_display st)(c := none)\<rparr>)
      else st\<lparr>height := (height st)(c := in_px h)\<rparr>)"

text \<open>One firing of the live interval number \<open>n\<close>: the closure's variable changes, then the body runs.\<close>

definition fire :: "nat \<Rightarrow> folding \<Rightarrow> folding" where
  "fire n st =
     (let (k, t) = intervals st ! n; t' = advance t
      in callback t' (st\<lparr>intervals := (intervals st)[n := (k, t')]\<rparr>))"

section \<open>Runs\<close>

inductive fold_step :: "folding \<Rightarrow> folding \<Rightarrow> bool" where
  click: "fresh \<notin> fst ` set (intervals st) \<Longrightarrow> fold_step st (fold_use c b h fresh st)"
| tick: "n < length (intervals st) \<Longrightarrow> fold_step st (fire n st)"

section \<open>A part that is not higher than one step\<close>

definition stuck_task :: "jsstr \<Rightarrow> int \<Rightarrow> task \<Rightarrow> bool" where
  "stuck_task c H t = (case t of Unfold c' h H' \<Rightarrow> c' = c \<longrightarrow> 0 \<le> h \<and> H' = Some H | Fold _ _ \<Rightarrow> True)"

definition stuck :: "jsstr \<Rightarrow> int \<Rightarrow> folding \<Rightarrow> bool" where
  "stuck c H st \<longleftrightarrow> fold_display st c = none \<and> fold_height st c = Some H \<and>
     (\<forall>(i, t) \<in> set (intervals st). stuck_task c H t)"

lemma stuck_callback:
  assumes "stuck c H st" and "stuck_task c H t" and "H \<le> 50" and "t = advance t0" and "stuck_task c H t0"
  shows "stuck c H (callback t st)"
proof (cases t)
  case (Unfold c' h H')
  then obtain h0 where "t0 = Unfold c' h0 H'" "h = h0 + 50" using assms(4) by (cases t0) auto
  with assms Unfold show ?thesis
    by (auto simp: stuck_def stuck_task_def reached_def clearInterval_def)
next
  case (Fold c' h)
  with assms(1) show ?thesis by (auto simp: stuck_def clearInterval_def)
qed

lemma stuck_advance: "stuck_task c H t \<Longrightarrow> stuck_task c H (advance t)"
  by (cases t) (auto simp: stuck_task_def)

lemma stuck_fire:
  assumes "stuck c H st" and "H \<le> 50" and "n < length (intervals st)"
  shows "stuck c H (fire n st)"
proof -
  obtain k t where kt: "intervals st ! n = (k, t)" by (cases "intervals st ! n")
  then have t: "stuck_task c H t" using assms(1,3) nth_mem [OF assms(3)] by (fastforce simp: stuck_def)
  have "stuck c H (st\<lparr>intervals := (intervals st)[n := (k, advance t)]\<rparr>)"
    using assms(1) stuck_advance [OF t] set_update_subset_insert [of "intervals st" n "(k, advance t)"]
    by (fastforce simp: stuck_def)
  from stuck_callback [OF this stuck_advance [OF t] assms(2) refl t] show ?thesis by (simp add: fire_def kt Let_def)
qed

lemma stuck_click: "stuck c H st \<Longrightarrow> stuck c H (fold_use c' b h fresh st)"
  by (auto simp: fold_use_def setInterval_def stuck_def stuck_task_def)

lemma stuck_run:
  assumes "fold_step\<^sup>*\<^sup>* st st'" and "stuck c H st" and "H \<le> 50"
  shows "stuck c H st'"
  using assms(1,2)
proof (induction rule: rtranclp_induct)
  case (step y z)
  from step.hyps(2) step.IH step.prems assms(3) show ?case
    by (cases rule: fold_step.cases) (auto intro: stuck_click stuck_fire)
qed

section \<open>One part at a time\<close>

definition steps :: "int \<Rightarrow> nat" where "steps h = nat ((h + 49) div 50)"

lemma steps_Suc: "0 < h \<Longrightarrow> steps h = Suc (steps (h - 50))"
proof -
  assume "0 < h"
  have "(h + 49) div 50 = 1 + (h - 50 + 49) div 50" by simp
  moreover have "0 \<le> (h - 50 + 49) div 50" using \<open>0 < h\<close> by (simp add: pos_imp_zdiv_nonneg_iff)
  ultimately show ?thesis unfolding steps_def by linarith
qed

lemma steps_0: "h \<le> 0 \<Longrightarrow> steps h = 0"
  by (simp add: steps_def)

lemma fold_down:
  assumes "intervals st = [(k, Fold c h)]" and "iIntervalId st = k" and "0 < h"
  shows "let st' = (fire 0 ^^ steps h) st in intervals st' = [] \<and> fold_display st' c = none \<and>
    fold_height st' = fold_height st \<and> button st' = button st"
  using assms
proof (induction "nat h" arbitrary: h st rule: less_induct)
  case less
  show ?case
  proof (cases "h \<le> 50")
    case True
    with less.prems show ?thesis by (simp add: steps_Suc steps_0 fire_def clearInterval_def)
  next
    case False
    let ?st = "fire 0 st"
    have st: "intervals ?st = [(k, Fold c (h - 50))]" "iIntervalId ?st = k" "fold_height ?st = fold_height st" "button ?st = button st"
      using less.prems False by (simp_all add: fire_def)
    have "let st' = (fire 0 ^^ steps (h - 50)) ?st in intervals st' = [] \<and> fold_display st' c = none \<and>
        fold_height st' = fold_height ?st \<and> button st' = button ?st"
      by (rule less.hyps) (use False less.prems st in auto)
    then show ?thesis using less.prems(3) st by (simp add: steps_Suc funpow_Suc_right del: funpow.simps)
  qed
qed

lemma fold_up:
  assumes "intervals st = [(k, Unfold c h (Some H))]" and "iIntervalId st = k" and "h < H"
    and "fold_display st c = lit ''block'' \<or> h + 50 < H"
  shows "let st' = (fire 0 ^^ steps (H - h)) st in intervals st' = [] \<and> fold_display st' c = lit ''block'' \<and>
    height st' c = in_px H \<and> button st' = button st"
  using assms
proof (induction "nat (H - h)" arbitrary: h st rule: less_induct)
  case less
  have n: "steps (H - h) = Suc (steps (H - (h + 50)))" using steps_Suc [of "H - h"] less.prems(3) by (simp add: algebra_simps)
  show ?case
  proof (cases "H \<le> h + 50")
    case True
    with less.prems show ?thesis by (simp add: n steps_0 fire_def clearInterval_def reached_def)
  next
    case False
    let ?st = "fire 0 st"
    have st: "intervals ?st = [(k, Unfold c (h + 50) (Some H))]" "iIntervalId ?st = k" "button ?st = button st"
        "fold_display ?st c = lit ''block''"
      using less.prems False by (simp_all add: fire_def reached_def)
    have "let st' = (fire 0 ^^ steps (H - (h + 50))) ?st in intervals st' = [] \<and> fold_display st' c = lit ''block'' \<and>
        height st' c = in_px H \<and> button st' = button ?st"
      by (rule less.hyps) (use False less.prems st in auto)
    then show ?thesis using st by (simp add: n funpow_Suc_right del: funpow.simps)
  qed
qed

section \<open>Properties\<close>

text \<open>C27: folding and unfolding a part that is higher than one step of 50 pixels.  After as many
  firings as steps fit into the height the part is folded and the interval is gone; after a
  second click and as many firings it is shown again at the height it had.\<close>

theorem fold_unfold:
  assumes "intervals st = []" and "fold_display st c \<noteq> none" and "50 < H"
  shows "let st1 = (fire 0 ^^ steps H) (fold_use c b H i st); st2 = (fire 0 ^^ steps H) (fold_use c b H' j st1)
    in intervals st1 = [] \<and> fold_display st1 c = none \<and> button st1 b = lit ''[+]'' \<and>
       intervals st2 = [] \<and> fold_display st2 c = lit ''block'' \<and> height st2 c = in_px H \<and> button st2 b = lit ''[-]''"
proof -
  let ?s0 = "fold_use c b H i st"
  let ?st1 = "(fire 0 ^^ steps H) ?s0"
  have "intervals ?s0 = [(i, Fold c H)]" "iIntervalId ?s0 = i" "fold_height ?s0 c = Some H" "button ?s0 b = lit ''[+]''"
    using assms by (simp_all add: fold_use_def setInterval_def)
  with fold_down [of ?s0 i c H] assms(3) have 1: "intervals ?st1 = []" "fold_display ?st1 c = none"
      "fold_height ?st1 c = Some H" "button ?st1 b = lit ''[+]''"
    by (simp_all add: Let_def)
  let ?s1 = "fold_use c b H' j ?st1"
  have "intervals ?s1 = [(j, Unfold c 0 (Some H))]" "iIntervalId ?s1 = j" "button ?s1 b = lit ''[-]''"
    using 1 by (simp_all add: fold_use_def setInterval_def)
  with fold_up [of ?s1 j c 0 H] assms(3) show ?thesis using 1 by (simp add: Let_def)
qed

lemma fold_unfold_witness:
  "let st = \<lparr>fold_height = Map.empty, fold_display = (\<lambda>_. []), height = (\<lambda>_. []), button = (\<lambda>_. []), iIntervalId = 0, intervals = []\<rparr>;
       c = lit ''c''; b = lit ''b'';
       st1 = (fire 0 ^^ steps 120) (fold_use c b 120 1 st); st2 = (fire 0 ^^ steps 120) (fold_use c b 0 2 st1)
    in steps 120 = 3 \<and> fold_display st1 c = none \<and> fold_display st2 c = lit ''block'' \<and> height st2 c = in_px 120"
  using fold_unfold [of "\<lparr>fold_height = Map.empty, fold_display = (\<lambda>_. []), height = (\<lambda>_. []), button = (\<lambda>_. []),
    iIntervalId = 0, intervals = []\<rparr>" "lit ''c''" 120 "lit ''b''" 1 0 2]
  by (simp add: Let_def none_def lit_def steps_def)

text \<open>C26: a part that is at most 50 pixels high never comes back.  Once it is folded, no sequence of
  clicks and firings, on this and on other parts, shows it again: the first step of unfolding
  already reaches the height and never sets the display.\<close>

theorem short_part_lost:
  assumes "fold_display st c = none" and "fold_height st c = Some H" and "H \<le> 50" and "intervals st = []"
    and "fold_step\<^sup>*\<^sup>* st st'"
  shows "fold_display st' c = none"
  using stuck_run [OF assms(5), of c H] assms(1-4) by (simp add: stuck_def)

lemma short_part_lost_witness:
  "let st = \<lparr>fold_height = [lit ''c'' \<mapsto> 30], fold_display = (\<lambda>_. none), height = (\<lambda>_. []), button = (\<lambda>_. []), iIntervalId = 0, intervals = []\<rparr>
   in fold_display (fire 0 (fold_use (lit ''c'') (lit ''b'') 0 1 st)) (lit ''c'') = none"
proof -
  define st where "st = \<lparr>fold_height = [lit ''c'' \<mapsto> 30], fold_display = (\<lambda>_. none), height = (\<lambda>_. []), button = (\<lambda>_. []),
    iIntervalId = 0, intervals = []\<rparr>"
  let ?st1 = "fold_use (lit ''c'') (lit ''b'') 0 1 st"
  have "fold_step st ?st1" by (rule fold_step.click) (simp add: st_def)
  moreover have "fold_step ?st1 (fire 0 ?st1)" by (rule fold_step.tick) (simp add: fold_use_def setInterval_def)
  ultimately have "fold_step\<^sup>*\<^sup>* st (fire 0 ?st1)" by simp
  from short_part_lost [of st "lit ''c''" 30, OF _ _ _ _ this] show ?thesis
    unfolding Let_def st_def [symmetric] by (simp add: st_def)
qed

end
