(* ===== verification/Comment.thy ===== *)
theory Comment
  imports Keywords
begin

text \<open>
  The comment form of the theme (\<open>comment.js\<close>): replying to a comment appends a link to the text of
  the form, quoting inserts the comment at the caret.  The insertion at the caret is also that of
  \<open>application.js\<close>; what both promise is the locale \<open>caret_insertion\<close>.

  A page maps ids to the inner text of elements and to the fields of the form, and lists the
  alerts.  \<open>None\<close> is a \<open>TypeError\<close>.  The range insertion of old browsers (\<open>document.selection\<close>) is
  an optional parameter \<open>range_insert\<close>.
\<close>

section \<open>Fields\<close>

record field =
  field_type :: jsstr
  field_value :: jsstr
  selectionStart :: "nat option"
  selectionEnd :: nat
  focused :: bool

record comments =
  innerHTML :: "jsstr \<rightharpoonup> jsstr"
  form_fields :: "jsstr \<rightharpoonup> field"
  alerts :: "jsstr list"

definition re_author :: regexp where "re_author = js_regex (pat ''`t|`n|`r`n'') (lit ''g'')"
definition re_tab :: regexp where "re_tab = js_regex (pat ''`t'') (lit ''g'')"
definition re_blank :: regexp where "re_blank = js_regex (pat ''`s|`t|`n'') (lit ''g'')"
definition re_last_lines :: regexp where "re_last_lines = js_regex (pat ''[`n]*$'') (lit ''g'')"

definition no_box :: jsstr where "no_box = lit ''The comment box does not exist!''"
definition already :: jsstr where "already = pat ''You~ve already appended this reply!''"

definition comment_box :: "jsstr \<Rightarrow> comments \<Rightarrow> field option" where
  "comment_box b p =
     (case form_fields p b of
        None \<Rightarrow> None
      | Some f \<Rightarrow> if field_type f = lit ''textarea'' then Some f else None)"

definition set_field :: "jsstr \<Rightarrow> field \<Rightarrow> comments \<Rightarrow> comments" where
  "set_field b f p = p\<lparr>form_fields := (form_fields p)(b \<mapsto> f)\<rparr>"

definition alert :: "jsstr \<Rightarrow> comments \<Rightarrow> comments" where
  "alert msg p = p\<lparr>alerts := alerts p @ [msg]\<rparr>"

section \<open>Replying\<close>

definition reply_text :: "jsstr \<Rightarrow> jsstr \<Rightarrow> jsstr" where
  \<open>reply_text commentId author =
     lit ''<a href="#'' @ commentId @ lit ''">@'' @ replace_re author re_author (\<lambda>_. []) @ lit '' </a> '' @ [NL]\<close>

definition appended :: "jsstr \<Rightarrow> jsstr \<Rightarrow> jsstr" where
  "appended insertStr v =
     (if replace_re v re_blank (\<lambda>_. []) = [] then insertStr
      else replace_re v re_last_lines (\<lambda>_. []) @ [NL, NL] @ insertStr)"

definition appendReply :: "jsstr \<Rightarrow> jsstr \<Rightarrow> comments \<Rightarrow> comments" where
  "appendReply insertStr commentBox p =
     (case comment_box commentBox p of
        None \<Rightarrow> alert no_box p
      | Some f \<Rightarrow>
          if indexOf (field_value f) insertStr > -1 then alert already p
          else set_field commentBox (f\<lparr>field_value := appended insertStr (field_value f), focused := True\<rparr>) p)"

definition reply :: "jsstr \<Rightarrow> jsstr \<Rightarrow> jsstr \<Rightarrow> comments \<Rightarrow> comments option" where
  "reply authorId commentId commentBox p =
     map_option (\<lambda>author. appendReply (reply_text commentId author) commentBox p) (innerHTML p authorId)"

section \<open>Quoting\<close>

definition quote_text :: "jsstr \<Rightarrow> jsstr \<Rightarrow> jsstr \<Rightarrow> jsstr \<Rightarrow> jsstr" where
  \<open>quote_text commentBodyId commentId author comment =
     lit ''<blockquote cite="#'' @ commentBodyId @ lit ''">'' @ [NL] @ lit ''<strong><a href="#'' @ commentId @ lit ''">''
       @ replace_re author re_author (\<lambda>_. []) @ lit ''</a> :</strong>'' @ replace_re comment re_tab (\<lambda>_. [])
       @ lit ''</blockquote>'' @ [NL]\<close>

text \<open>A selection start of 0 is accepted by the second half of the test, so only a field without
  selection takes the last branch.\<close>

definition insert_quote_at :: "jsstr \<Rightarrow> field \<Rightarrow> field" where
  "insert_quote_at insertStr f =
     (case selectionStart f of
        Some startPos \<Rightarrow>
          (let endPos = selectionEnd f; cursorPos = startPos + length insertStr; v = field_value f
           in f\<lparr>field_value := substring v 0 (int startPos) @ insertStr @ substring v (int endPos) (int (length v)),
                selectionStart := Some cursorPos, selectionEnd := cursorPos, focused := True\<rparr>)
      | None \<Rightarrow> f\<lparr>field_value := field_value f @ insertStr, focused := True\<rparr>)"

definition insertQuote :: "(jsstr \<Rightarrow> field \<Rightarrow> field) option \<Rightarrow> jsstr \<Rightarrow> jsstr \<Rightarrow> comments \<Rightarrow> comments" where
  "insertQuote range_insert insertStr commentBox p =
     (case comment_box commentBox p of
        None \<Rightarrow> alert no_box p
      | Some f \<Rightarrow>
          (case range_insert of
             Some ins \<Rightarrow> set_field commentBox (ins insertStr (f\<lparr>focused := True\<rparr>)) p
           | None \<Rightarrow> set_field commentBox (insert_quote_at insertStr f) p))"

definition quote ::
  "(jsstr \<Rightarrow> field \<Rightarrow> field) option \<Rightarrow> jsstr \<Rightarrow> jsstr \<Rightarrow> jsstr \<Rightarrow> jsstr \<Rightarrow> comments \<Rightarrow> comments option" where
  "quote range_insert authorId commentId commentBodyId commentBox p =
     (case (innerHTML p authorId, innerHTML p commentBodyId) of
        (Some author, Some comment) \<Rightarrow>
          Some (insertQuote range_insert (quote_text commentBodyId commentId author comment) commentBox p)
      | _ \<Rightarrow> None)"

section \<open>The expressions\<close>

lemma re_blank_char: "char_regexp is_space re_blank" and re_blank_global: "global (rflags re_blank)"
proof -
  have e: "re_blank = \<lparr>prog = RAlt (RSeq (RClass False [CSpace]) REmpty) (RAlt (RSeq (RChar 9) REmpty) (RSeq (RChar 10) REmpty)),
      groups = 1, rflags = g_flags, lastIndex = 0\<rparr>"
    by (simp add: re_blank_def js_eval)
  show "char_regexp is_space re_blank"
    by (auto simp: char_regexp_def match_at_def e is_space_def)
  show "global (rflags re_blank)" by (simp add: e)
qed

lemma blank_iff: "replace_re v re_blank (\<lambda>_. []) = [] \<longleftrightarrow> (\<forall>c \<in> set v. is_space c)"
  using replace_char [OF re_blank_char re_blank_global, of v "\<lambda>_. []" "\<lambda>_. []"] by auto

lemma re_last_lines_eq:
  "re_last_lines = \<lparr>prog = RSeq (RRep 0 None True 1 1 (RClass False [CChar 10])) (RSeq REol REmpty),
     groups = 1, rflags = g_flags, lastIndex = 0\<rparr>"
  by (simp add: re_last_lines_def js_eval)

lemma single_nl_class: "single s (\<lambda>c. c = NL) (m g_flags s (RClass False [CChar 10]))"
  using single_RClass [of s g_flags "[CChar 10]" False] by (simp add: in_class_def)

lemma last_lines: "replace_re v re_last_lines (\<lambda>_. []) = rev (dropWhile (\<lambda>c. c = NL) (rev v))"
proof -
  let ?k = "length v - length (takeWhile (\<lambda>c. c = NL) (rev v))"
  have first: "search re_last_lines v [0..<Suc (length v)] = Some (mk_match v ?k (length v) [None])"
    by (rule search_end_run, simp_all add: re_last_lines_eq del: m.simps) (rule single_nl_class)
  have past: "matches_from re_last_lines v j = []" if "length v < j" for j
    using that by (subst matches_from.simps) simp
  have rest: "splice_matches v (length v) (matches_from re_last_lines v (length v)) (\<lambda>_. []) = []"
  proof (cases "search re_last_lines v [length v..<Suc (length v)]")
    case None
    then show ?thesis by (subst matches_from.simps) (simp del: upt_Suc)
  next
    case (Some mt)
    then have "start_pos mt = length v \<and> end_pos mt = length v"
      using search_ok [OF Some] by (auto simp: ok_match_def)
    with Some have "matches_from re_last_lines v (length v) = [mt]"
      by (subst matches_from.simps) (simp add: past del: upt_Suc)
    with \<open>start_pos mt = length v \<and> end_pos mt = length v\<close> show ?thesis by (simp add: slice_def)
  qed
  have "matches_from re_last_lines v 0 = mk_match v ?k (length v) [None] #
      matches_from re_last_lines v (if length v = ?k then Suc (length v) else length v)"
    by (subst matches_from.simps) (simp add: first mk_match_def del: upt_Suc)
  then have "replace_re v re_last_lines (\<lambda>_. []) = take ?k v"
    using rest past [of "Suc (length v)"] by (simp add: replace_re_def re_last_lines_eq mk_match_def slice_def)
  then show ?thesis by (simp add: take_strip_end)
qed

end
