(* ===== verification/CommentSpec.thy ===== *)
theory CommentSpec
  imports Comment
begin

text \<open>
  What the comment form promises.  A reply that was appended stays in the text whatever replies
  follow, so it is never appended a second time.  An insertion at the caret is the locale
  \<open>caret_insertion\<close>; the insertion of quotes is an instance.
\<close>

section \<open>Replies stay\<close>

definition reply_like :: "jsstr \<Rightarrow> bool" where
  "reply_like s \<longleftrightarrow> (\<exists>r. s = r @ [SP, NL] \<and> list_ex (\<lambda>c. \<not> is_space c) r)"

lemma reply_text_like: "reply_like (reply_text i a)"
proof -
  let ?r = \<open>lit ''<a href="#'' @ i @ lit ''">@'' @ replace_re a re_author (\<lambda>_. []) @ lit '' </a>''\<close>
  have "reply_text i a = ?r @ [SP, NL]" by (simp add: reply_text_def lit_def)
  moreover have "60 \<in> set ?r" "\<not> is_space 60" by (simp_all add: lit_def is_space_def)
  ultimately show ?thesis unfolding reply_like_def list_ex_iff by blast
qed

definition strip_end :: "jsstr \<Rightarrow> jsstr" where
  "strip_end v = rev (dropWhile (\<lambda>c. c = NL) (rev v))"

lemma strip_end_append:
  "strip_end (a @ b) = (if \<forall>c \<in> set b. c = NL then strip_end a else a @ strip_end b)"
  by (auto simp: strip_end_def dropWhile_append)

lemma sublist_strip:
  assumes "reply_like s" and "sublist s v"
  shows "sublist s (strip_end v @ [NL, NL] @ t)"
proof -
  from assms(1) obtain r where s: "s = r @ [SP, NL]" by (auto simp: reply_like_def)
  from assms(2) obtain a b where v: "v = a @ s @ b" by (auto simp: sublist_def)
  show ?thesis
  proof (cases "\<forall>c \<in> set b. c = NL")
    case True
    have "strip_end v = strip_end ((a @ r @ [SP]) @ ([NL] @ b))" by (simp add: v s)
    also have "\<dots> = strip_end (a @ r @ [SP])" unfolding strip_end_append using True by simp
    also have "\<dots> = a @ r @ [SP]" by (simp add: strip_end_def)
    finally have "strip_end v @ [NL, NL] @ t = a @ s @ [NL] @ t" by (simp add: s)
    then show ?thesis by (metis sublist_appendI)
  next
    case False
    then have "strip_end v = a @ s @ strip_end b"
      using strip_end_append [of "a @ s" b] unfolding v by auto
    then show ?thesis by (metis append.assoc sublist_appendI)
  qed
qed

lemma not_blank:
  assumes "reply_like s" and "sublist s v"
  shows "replace_re v re_blank (\<lambda>_. []) \<noteq> []"
proof -
  from assms(1) obtain c where "c \<in> set s" "\<not> is_space c" unfolding reply_like_def list_ex_iff by (metis Un_iff set_append)
  then show ?thesis using set_mono_sublist [OF assms(2)] unfolding blank_iff by blast
qed

lemma appended_keeps:
  assumes "reply_like s" and "sublist s v"
  shows "sublist s (appended t v)"
  using sublist_strip [OF assms, of t] not_blank [OF assms]
  by (simp add: appended_def last_lines strip_end_def)

lemma appended_has: "sublist t (appended t v)"
  by (simp add: appended_def) (metis append.assoc append_Nil2 sublist_appendI sublist_order.order_refl append_Cons append_Nil)

lemma indexOf_sublist: "indexOf v t > -1 \<longleftrightarrow> sublist t v"
  using index_of_None [of t v] by (cases "index_of t v") (auto simp: indexOf_def indexOf_from_def)

definition holds_reply :: "jsstr \<Rightarrow> jsstr \<Rightarrow> comments \<Rightarrow> bool" where
  "holds_reply s b p \<longleftrightarrow> (\<exists>f. comment_box b p = Some f \<and> sublist s (field_value f))"

lemma appendReply_holds: "comment_box b p \<noteq> None \<Longrightarrow> holds_reply s b (appendReply s b p)"
  using appended_has [of s] unfolding appendReply_def holds_reply_def indexOf_sublist
  by (auto simp: comment_box_def set_field_def alert_def split: option.splits if_splits)

lemma appendReply_keeps:
  assumes "reply_like s" and "holds_reply s b p"
  shows "holds_reply s b (appendReply t b p)"
  using assms(2) appended_keeps [OF assms(1)] unfolding appendReply_def holds_reply_def indexOf_sublist
  by (auto simp: comment_box_def set_field_def alert_def split: option.splits if_splits)

lemma appendReply_again: "holds_reply s b p \<Longrightarrow> appendReply s b p = alert already p"
  by (auto simp: appendReply_def holds_reply_def indexOf_sublist)

lemma replies_keep:
  "reply_like s \<Longrightarrow> holds_reply s b p \<Longrightarrow> holds_reply s b (fold (\<lambda>t. appendReply t b) ts p)"
  by (induction ts arbitrary: p) (auto intro: appendReply_keeps)

text \<open>C31: a reply is appended at most once.  After a reply to a comment and any further replies its
  link is still in the text of the form, so the same reply again changes nothing and only warns.
  The blank lines that are cut off before appending never damage an earlier reply.\<close>

theorem reply_once:
  assumes "comment_box b p \<noteq> None"
  shows "let s = reply_text i author; p' = fold (\<lambda>t. appendReply t b) ts (appendReply s b p)
    in (\<exists>f. comment_box b p' = Some f \<and> sublist s (field_value f)) \<and> appendReply s b p' = alert already p'"
proof -
  let ?p' = "fold (\<lambda>t. appendReply t b) ts (appendReply (reply_text i author) b p)"
  have "holds_reply (reply_text i author) b ?p'"
    by (rule replies_keep [OF reply_text_like appendReply_holds [OF assms]])
  with appendReply_again show ?thesis unfolding Let_def holds_reply_def by blast
qed

lemma reply_once_witness:
  "let p = \<lparr>innerHTML = Map.empty, form_fields = [lit ''box'' \<mapsto> \<lparr>field_type = lit ''textarea'', field_value = lit ''hi'',
         selectionStart = None, selectionEnd = 0, focused = False\<rparr>], alerts = []\<rparr>;
       s = reply_text (lit ''c1'') (lit ''Ann''); p' = fold (\<lambda>t. appendReply t (lit ''box'')) [lit ''x''] (appendReply s (lit ''box'') p)
    in (\<exists>f. comment_box (lit ''box'') p' = Some f \<and> sublist s (field_value f)) \<and>
       appendReply s (lit ''box'') p' = alert already p'"
  unfolding Let_def by (rule reply_once [unfolded Let_def]) (simp add: comment_box_def)

section \<open>Insertion at the caret\<close>

locale caret_insertion =
  fixes ins :: "jsstr \<Rightarrow> field \<Rightarrow> field"
  assumes ins_value: "selectionStart f = Some a \<Longrightarrow> a \<le> selectionEnd f \<Longrightarrow> selectionEnd f \<le> length (field_value f) \<Longrightarrow>
      field_value (ins t f) = take a (field_value f) @ t @ drop (selectionEnd f) (field_value f)"
    and ins_caret: "selectionStart f = Some a \<Longrightarrow>
      selectionStart (ins t f) = Some (a + length t) \<and> selectionEnd (ins t f) = a + length t"
begin

text \<open>Texts inserted one after another stand one after another, in place of the first selection.\<close>

lemma ins_many:
  assumes "selectionStart f = Some a" and "a \<le> selectionEnd f" and "selectionEnd f \<le> length (field_value f)" and "ts \<noteq> []"
  shows "field_value (fold ins ts f) = take a (field_value f) @ concat ts @ drop (selectionEnd f) (field_value f) \<and>
    selectionStart (fold ins ts f) = Some (a + length (concat ts)) \<and> selectionEnd (fold ins ts f) = a + length (concat ts)"
  using assms
proof (induction ts arbitrary: f a)
  case (Cons t ts)
  let ?f = "ins t f"
  have v: "field_value ?f = take a (field_value f) @ t @ drop (selectionEnd f) (field_value f)"
    by (rule ins_value [OF Cons.prems(1-3)])
  have c: "selectionStart ?f = Some (a + length t)" "selectionEnd ?f = a + length t"
    using ins_caret [OF Cons.prems(1)] by auto
  show ?case
  proof (cases "ts = []")
    case True
    with v c show ?thesis by simp
  next
    case False
    have "a + length t \<le> length (field_value ?f)" using Cons.prems(2,3) by (simp add: v)
    with Cons.IH [OF c(1) _ _ False] c(2) Cons.prems(2,3) show ?thesis by (simp add: v)
  qed
qed simp

end

interpretation quotes: caret_insertion insert_quote_at
proof
  fix f :: field and a :: nat and t :: jsstr
  assume a: "selectionStart f = Some a"
  show "selectionStart (insert_quote_at t f) = Some (a + length t) \<and> selectionEnd (insert_quote_at t f) = a + length t"
    by (simp add: insert_quote_at_def a Let_def)
  assume "a \<le> selectionEnd f" "selectionEnd f \<le> length (field_value f)"
  then show "field_value (insert_quote_at t f) = take a (field_value f) @ t @ drop (selectionEnd f) (field_value f)"
    using substring_nat [of 0 a "field_value f"] substring_nat [of "selectionEnd f" "length (field_value f)" "field_value f"]
    by (simp add: insert_quote_at_def a Let_def)
qed

end
