(* ===== verification/Tags.thy ===== *)
theory Tags
  imports CommentSpec CommaSplit
begin

text \<open>
  The scripts of the blog application (\<open>application.js\<close>): the search box, the insertion at the
  caret as a jQuery method, and the filter of tags.  \<open>$.trim\<close> is a parameter; a jQuery object is
  the list of the fields it holds.
\<close>

section \<open>Search and insertion\<close>

definition search_click :: "(jsstr \<Rightarrow> jsstr) \<Rightarrow> jsstr \<Rightarrow> bool" where
  "search_click trim box = (let keyword = trim box in keyword \<noteq> [])"

definition search_keyup :: "(jsstr \<Rightarrow> jsstr) \<Rightarrow> nat \<Rightarrow> jsstr \<Rightarrow> bool" where
  "search_keyup trim keyCode box = (if keyCode = 13 then (let keyword = trim box in keyword \<noteq> []) else False)"

definition insert_at :: "jsstr \<Rightarrow> field \<Rightarrow> field" where
  "insert_at myValue f =
     (case selectionStart f of
        Some startPos \<Rightarrow>
          (let v = field_value f
           in f\<lparr>field_value := substring v 0 (int startPos) @ myValue @ substring v (int (selectionEnd f)) (int (length v)),
                focused := True, selectionStart := Some (startPos + length myValue), selectionEnd := startPos + length myValue\<rparr>)
      | None \<Rightarrow> f\<lparr>focused := True\<rparr>)"

text \<open>
  \<open>None\<close> is the \<open>TypeError\<close> of an empty object.  In the last branch of the code the value is added to
  a property of the jQuery object, not to the field: only the focus changes.
\<close>

definition insertAtCaret :: "(jsstr \<Rightarrow> field \<Rightarrow> field) option \<Rightarrow> jsstr \<Rightarrow> field list \<Rightarrow> field list option" where
  "insertAtCaret range_insert myValue fs =
     (case range_insert of
        Some ins \<Rightarrow> Some (case fs of [] \<Rightarrow> [] | f # rest \<Rightarrow> ins myValue (f\<lparr>focused := True\<rparr>) # rest)
      | None \<Rightarrow> (case fs of [] \<Rightarrow> None | f # rest \<Rightarrow> Some (insert_at myValue f # rest)))"

interpretation caret: caret_insertion insert_at
proof
  fix f :: field and a :: nat and t :: jsstr
  assume a: "selectionStart f = Some a"
  show "selectionStart (insert_at t f) = Some (a + length t) \<and> selectionEnd (insert_at t f) = a + length t"
    by (simp add: insert_at_def a Let_def)
  assume "a \<le> selectionEnd f" "selectionEnd f \<le> length (field_value f)"
  then show "field_value (insert_at t f) = take a (field_value f) @ t @ drop (selectionEnd f) (field_value f)"
    using substring_nat [of 0 a "field_value f"] substring_nat [of "selectionEnd f" "length (field_value f)" "field_value f"]
    by (simp add: insert_at_def a Let_def)
qed

section \<open>The filter\<close>

definition re_valid_tag :: regexp where
  "re_valid_tag = js_regex (pat ''^(?!_)(?!.*?_$)[+#a-zA-Z0-9_ '' @ [19968, 45, 40869] @ pat '']+$'') []"

definition filterTags :: "jsstr option \<Rightarrow> jsstr list" where
  "filterTags tags =
     (case tags of
        None \<Rightarrow> []
      | Some s \<Rightarrow>
          if 0 < length s
          then foldl (\<lambda>newArray t. if test re_valid_tag t then newArray @ [t] else newArray) [] (split_from re_comma s 0 0)
          else [])"

section \<open>What a tag is\<close>

definition tag_char :: "jschar \<Rightarrow> bool" where
  "tag_char c \<longleftrightarrow> c = 43 \<or> c = 35 \<or> is_word c \<or> c = 32 \<or> 19968 \<le> c \<and> c \<le> 40869"

definition valid_tag :: "jsstr \<Rightarrow> bool" where
  "valid_tag t \<longleftrightarrow> t \<noteq> [] \<and> list_all tag_char t \<and> hd t \<noteq> 95 \<and> last t \<noteq> 95"

lemma re_valid_tag_eq:
  "re_valid_tag = \<lparr>prog = RSeq RBol (RSeq (RNotAhead (RSeq (RChar 95) REmpty))
      (RSeq (RNotAhead (RSeq (RRep 0 None False 1 1 RAny) (RSeq (RChar 95) (RSeq REol REmpty))))
      (RSeq (RRep 1 None True 1 1 (RClass False
          [CChar 43, CChar 35, CRange 97 122, CRange 65 90, CRange 48 57, CChar 95, CChar 32, CRange 19968 40869]))
        (RSeq REol REmpty)))), groups = 1, rflags = no_flags, lastIndex = 0\<rparr>"
  by (simp add: re_valid_tag_def js_eval)

abbreviation tag_class :: regex where
  "tag_class \<equiv> RClass False
     [CChar 43, CChar 35, CRange 97 122, CRange 65 90, CRange 48 57, CChar 95, CChar 32, CRange 19968 40869]"

lemma single_tag: "single t tag_char (m no_flags t tag_class)"
proof -
  have "in_class no_flags [CChar 43, CChar 35, CRange 97 122, CRange 65 90, CRange 48 57, CChar 95, CChar 32, CRange 19968 40869] c
      \<longleftrightarrow> tag_char c" for c
    by (auto simp: in_class_def tag_char_def is_word_def)
  then show ?thesis by (simp add: single_def)
qed

text \<open>The second look-ahead, on a text of one line: the text ends with an underscore.\<close>

lemma ends_with_underscore:
  assumes "\<forall>c \<in> set t. \<not> is_line_end c" and "t \<noteq> []"
  shows "m no_flags t (RSeq (RRep 0 None False 1 1 RAny) (RSeq (RChar 95) (RSeq REol REmpty))) 0 cs \<noteq> [] \<longleftrightarrow> last t = 95"
proof -
  have r: "run t (\<lambda>c. \<not> is_line_end c) 0 = length t" using run_full_iff [of 0 t] assms(1) by simp
  have "m no_flags t (RSeq (RRep 0 None False 1 1 RAny) (RSeq (RChar 95) (RSeq REol REmpty))) 0 cs \<noteq> [] \<longleftrightarrow>
      (\<exists>n. n < length t \<and> t ! n = 95 \<and> Suc n = length t)"
    unfolding m.simps(5) [of no_flags t "RRep 0 None False 1 1 RAny"] m_star_lazy [OF single_RAny] r concat_map_nonempty
    by (auto simp del: upt_Suc) (metis lessI)
  also have "\<dots> \<longleftrightarrow> last t = 95"
    using assms(2) by (cases t rule: rev_cases) auto
  finally show ?thesis .
qed

lemma m_tag_body:
  "m no_flags t (RSeq (RRep 1 None True 1 1 tag_class) (RSeq REol REmpty)) 0 cs \<noteq> [] \<longleftrightarrow> t \<noteq> [] \<and> list_all tag_char t"
proof (cases t)
  case (Cons c u)
  have "1 + run t tag_char 1 = length t \<longleftrightarrow> list_all tag_char u"
    using run_full_iff [of 1 t tag_char] Cons by (simp add: list_all_iff)
  moreover have "1 + run t tag_char 1 \<le> length t" using run_le [of 1 t tag_char] Cons by simp
  ultimately have "(\<exists>n \<in> set (rev [0..<Suc (run t tag_char 1)]). Suc n = length t) \<longleftrightarrow> list_all tag_char u"
    by (auto simp del: upt_Suc)
  then show ?thesis
    unfolding m.simps(5) [of no_flags t "RRep 1 None True 1 1 tag_class"] m_plus_greedy [OF single_tag] concat_map_nonempty
    using Cons by (auto simp del: upt_Suc split: if_splits)
next
  case Nil
  then show ?thesis
    unfolding m.simps(5) [of no_flags t "RRep 1 None True 1 1 tag_class"] m_plus_greedy [OF single_tag] by simp
qed

lemma tag_char_line: "tag_char c \<Longrightarrow> \<not> is_line_end c"
  by (auto simp: tag_char_def is_word_def is_line_end_def)

lemma test_tag: "test re_valid_tag t \<longleftrightarrow> valid_tag t"
proof -
  let ?a = "RSeq (RChar 95) REmpty" and ?b = "RSeq (RRep 0 None False 1 1 RAny) (RSeq (RChar 95) (RSeq REol REmpty))"
    and ?c = "RSeq (RRep 1 None True 1 1 tag_class) (RSeq REol REmpty)"
  have "test re_valid_tag t \<longleftrightarrow> (\<exists>i \<le> length t. m no_flags t (prog re_valid_tag) i [None] \<noteq> [])"
    using test_no_flags [of re_valid_tag t] by (simp add: re_valid_tag_eq)
  also have "\<dots> \<longleftrightarrow> m no_flags t ?a 0 [None] = [] \<and> m no_flags t ?b 0 [None] = [] \<and> m no_flags t ?c 0 [None] \<noteq> []"
    by (auto simp: re_valid_tag_eq)
  also have "\<dots> \<longleftrightarrow> valid_tag t"
  proof (cases "t \<noteq> [] \<and> list_all tag_char t")
    case True
    then have "\<forall>c \<in> set t. \<not> is_line_end c" using tag_char_line by (auto simp: list_all_iff)
    then have "m no_flags t ?b 0 [None] = [] \<longleftrightarrow> last t \<noteq> 95" using ends_with_underscore True by blast
    moreover have "m no_flags t ?a 0 [None] = [] \<longleftrightarrow> hd t \<noteq> 95" using True by (cases t) auto
    ultimately show ?thesis using True m_tag_body unfolding valid_tag_def by blast
  next
    case False
    then show ?thesis using m_tag_body unfolding valid_tag_def by blast
  qed
  finally show ?thesis .
qed

section \<open>Properties\<close>

text \<open>C30: the filter of tags keeps, in order, exactly the valid ones of the pieces between commas: not
  empty, made of letters, digits, underscores, blanks, plus and hash signs and Chinese
  characters, and neither beginning nor ending with an underscore.  White space next to a comma
  is dropped, at the two ends of the text it stays.\<close>

theorem filter_tags_exact:
  "filterTags (Some s) = filter valid_tag (trim_pieces (split_str [44] s)) \<and> filterTags None = []"
proof -
  have f: "foldl (\<lambda>newArray t. if test re_valid_tag t then newArray @ [t] else newArray) acc ts = acc @ filter valid_tag ts" for acc ts
    by (induction ts arbitrary: acc) (auto simp: test_tag)
  show ?thesis
    using split_commas [of 0 s] f [of "[]"] by (cases "s = []") (simp_all add: filterTags_def valid_tag_def)
qed

text \<open>Texts inserted at the caret one after another, as quotes or by the jQuery method, stand one
  after another in place of what was selected first, and the caret stands behind them.\<close>

theorem insertions_in_order:
  assumes "selectionStart f = Some a" and "a \<le> selectionEnd f" and "selectionEnd f \<le> length (field_value f)" and "ts \<noteq> []"
  shows "field_value (fold insert_quote_at ts f) = take a (field_value f) @ concat ts @ drop (selectionEnd f) (field_value f) \<and>
    field_value (fold insert_at ts f) = take a (field_value f) @ concat ts @ drop (selectionEnd f) (field_value f) \<and>
    selectionStart (fold insert_quote_at ts f) = Some (a + length (concat ts)) \<and>
    selectionStart (fold insert_at ts f) = Some (a + length (concat ts))"
  using quotes.ins_many [OF assms] caret.ins_many [OF assms] by simp

lemma insertions_in_order_witness:
  "let f = \<lparr>field_type = [], field_value = lit ''abcd'', selectionStart = Some 1, selectionEnd = 3, focused = False\<rparr>
   in field_value (fold insert_at [lit ''x'', lit ''y''] f) = lit ''axyd''"
  using insertions_in_order [of "\<lparr>field_type = [], field_value = lit ''abcd'', selectionStart = Some 1, selectionEnd = 3,
    focused = False\<rparr>" 1 "[lit ''x'', lit ''y'']"]
  by (simp add: lit_def)

end
