(* ===== verification/Ujs.thy ===== *)
theory Ujs
  imports JsString
begin

text \<open>
  The adapter of the web framework (\<open>jquery-ujs.js\<close>): links and forms whose data attributes ask for
  a confirmation, an asynchronous request or a request with another verb.  The three handlers of a
  link run in the order in which they are bound and share the event; \<open>click\<close> is all of them.  The
  answer of the confirmation dialog is a parameter, and so is the conversion that \<open>data\<close> of jQuery applies to the
  text of an attribute (a text that is a truth value, null, a number or an object in JSON notation becomes that value).
  A request is a value: what \<open>$.ajax\<close> is called with, or the markup of the form that is posted and of its field.
\<close>

section \<open>Requests\<close>

text \<open>The values of data attributes; a number and an object with the text the language prints for them.\<close>

datatype data_value = Text jsstr | Truth bool | Null | Numeric jsstr | Object jsstr

fun value_truthy :: "data_value \<Rightarrow> bool" where
  "value_truthy (Text s) = (s \<noteq> [])"
| "value_truthy (Truth b) = b"
| "value_truthy Null = False"
| "value_truthy (Numeric s) = (s \<noteq> lit ''0'' \<and> s \<noteq> lit ''NaN'')"
| "value_truthy (Object s) = True"

fun printed :: "data_value \<Rightarrow> jsstr" where
  "printed (Text s) = s"
| "printed (Truth b) = (if b then lit ''true'' else lit ''false'')"
| "printed Null = lit ''null''"
| "printed (Numeric s) = s"
| "printed (Object s) = s"

record link =
  data_confirm :: "jsstr option"
  data_remote :: "jsstr option"
  data_method :: "jsstr option"
  link_href :: "jsstr option"

record remote_form =
  form_confirm :: "jsstr option"
  form_data_method :: "jsstr option"
  form_method :: "jsstr option"
  form_action :: "jsstr option"
  form_data_type :: "jsstr option"
  serialized :: "(jsstr \<times> jsstr) list"

datatype request =
    Ajax jsstr "jsstr option" "(jsstr \<times> jsstr) list" "data_value option"
  | PostForm jsstr "jsstr option"

record event =
  stopped :: bool
  prevented :: bool

text \<open>The operator \<open>||\<close> on a value that may be undefined.\<close>

definition or_else :: "data_value option \<Rightarrow> data_value option \<Rightarrow> data_value option" where
  "or_else a b = (case a of None \<Rightarrow> b | Some v \<Rightarrow> if value_truthy v then a else b)"

section \<open>The adapter\<close>

text \<open>
  \<open>trigger\<close> returns the jQuery object, which has no \<open>stopped\<close>: the test after \<open>ajax:before\<close> never
  holds and the request is always sent, unless the verb is not a text: then \<open>toUpperCase\<close> is not a function
  (\<open>None\<close>, the \<open>TypeError\<close>).
\<close>

definition sendRequest :: "data_value \<Rightarrow> jsstr option \<Rightarrow> (jsstr \<times> jsstr) list \<Rightarrow> data_value option \<Rightarrow> request option" where
  "sendRequest verb url params dataType =
     (case verb of
        Text v \<Rightarrow> Some (Ajax (if toUpperCase v = [] then lit ''POST'' else toUpperCase v) url params dataType)
      | _ \<Rightarrow> None)"

definition or_undefined_text :: "jsstr option \<Rightarrow> jsstr" where
  "or_undefined_text v = (case v of None \<Rightarrow> lit ''undefined'' | Some s \<Rightarrow> s)"

definition sendMethod :: "(jsstr \<Rightarrow> data_value) \<Rightarrow> link \<Rightarrow> request" where
  \<open>sendMethod data element =
     (let verb = map_option data (data_method element); url = or_undefined_text (link_href element)
      in PostForm (lit ''<form method="post" action="'' @ url @ lit ''"></form>'')
           (if verb \<noteq> Some (Text (lit ''post''))
            then Some (lit ''<input type="hidden" name="_method" value="'' @ or_undefined_text (map_option printed verb) @ lit ''" />'')
            else None))\<close>

definition stop :: "event \<Rightarrow> event" where "stop e = e\<lparr>prevented := True, stopped := True\<rparr>"

definition on_confirm :: "(jsstr \<Rightarrow> data_value) \<Rightarrow> (jsstr \<Rightarrow> bool) \<Rightarrow> link \<Rightarrow> event \<Rightarrow> event" where
  "on_confirm data confirm l e =
     (case data_confirm l of
        None \<Rightarrow> e
      | Some a \<Rightarrow> (let message = data a in if \<not> confirm (printed message) then stop e else e))"

text \<open>A handler gives the event and the requests it sends, or no requests because it raises.\<close>

definition on_remote :: "(jsstr \<Rightarrow> data_value) \<Rightarrow> link \<Rightarrow> event \<Rightarrow> event \<times> request list option" where
  "on_remote data l e =
     (if data_remote l = Some (lit ''true'') then
        (if stopped e then (e, Some [])
         else (stop e, map_option (\<lambda>r. [r])
           (sendRequest (the (or_else (map_option data (data_method l)) (Some (Text (lit ''get''))))) (link_href l) [] None)))
      else (e, Some []))"

definition on_method :: "(jsstr \<Rightarrow> data_value) \<Rightarrow> link \<Rightarrow> event \<Rightarrow> event \<times> request list" where
  "on_method data l e =
     (if data_method l \<noteq> None \<and> data_remote l = None then
        (if stopped e then (e, []) else (stop e, [sendMethod data l]))
      else (e, []))"

text \<open>A handler that raises ends the dispatch of the event.\<close>

definition click :: "(jsstr \<Rightarrow> data_value) \<Rightarrow> (jsstr \<Rightarrow> bool) \<Rightarrow> link \<Rightarrow> event \<times> request list option" where
  "click data confirm l =
     (let e1 = on_confirm data confirm l \<lparr>stopped = False, prevented = False\<rparr>
      in case on_remote data l e1 of
           (e2, None) \<Rightarrow> (e2, None)
         | (e2, Some rs) \<Rightarrow> (let (e3, rs') = on_method data l e2 in (e3, Some (rs @ rs'))))"

definition on_submit ::
  "(jsstr \<Rightarrow> data_value) \<Rightarrow> (jsstr \<Rightarrow> bool) \<Rightarrow> jsstr option \<Rightarrow> remote_form \<Rightarrow> event \<times> request list option" where
  "on_submit data confirm ajax_type f =
     (let e = stop \<lparr>stopped = False, prevented = False\<rparr>; message = map_option data (form_confirm f)
      in if (case message of None \<Rightarrow> False | Some v \<Rightarrow> value_truthy v \<and> \<not> confirm (printed v)) then (e, Some [])
         else (e, map_option (\<lambda>r. [r])
                (sendRequest (the (or_else (map_option data (form_data_method f))
                    (or_else (map_option Text (form_method f)) (Some (Text (lit ''post''))))))
                  (form_action f) (serialized f)
                  (or_else (map_option data (form_data_type f)) (or_else (map_option Text ajax_type) (Some (Text (lit ''script''))))))))"

section \<open>Properties\<close>

text \<open>The verb of an asynchronous request: a missing or falsy attribute means the default.\<close>

fun asked_verb :: "jsstr \<Rightarrow> data_value option \<Rightarrow> jsstr option" where
  "asked_verb dflt None = Some dflt"
| "asked_verb dflt (Some (Text v)) = Some (if v = [] then dflt else toUpperCase v)"
| "asked_verb dflt (Some x) = (if value_truthy x then None else Some dflt)"

lemma upper_empty: "toUpperCase v = [] \<longleftrightarrow> v = []"
  by (simp add: toUpperCase_def)

lemma upper_words: "toUpperCase (lit ''get'') = lit ''GET''" "lit ''get'' \<noteq> []" "lit ''GET'' \<noteq> []"
  by (simp_all add: toUpperCase_def lit_def)

lemma sendRequest_verb:
  "sendRequest (the (or_else v (Some (Text (lit ''get''))))) url ps t = map_option (\<lambda>w. Ajax w url ps t) (asked_verb (lit ''GET'') v)"
  by (cases "(lit ''GET'', v)" rule: asked_verb.cases) (auto simp: sendRequest_def or_else_def upper_empty upper_words)

text \<open>
  C32: a click on a link.  A declined confirmation sends nothing, and the browser does not follow the link.  Otherwise a link
  marked for it sends one asynchronous request to its address, with the verb of its attribute in capitals, or \<open>GET\<close>
  when the attribute is missing or falsy; when the attribute is converted to a value that is not a text, a
  \<open>TypeError\<close> is raised instead.  A link that only names a verb posts one form, whose markup has the address
  (or the word \<open>undefined\<close>) and, unless the verb is \<open>post\<close>, a field \<open>_method\<close> with the verb.  In all these
  cases the browser does not follow the link; any other link is followed as usual, with no request.
\<close>

theorem click_sends_at_most_one:
  \<open>click data confirm l =
     (if (\<exists>a. data_confirm l = Some a \<and> \<not> confirm (printed (data a))) then (\<lparr>stopped = True, prevented = True\<rparr>, Some [])
      else if data_remote l = Some (lit ''true'') then
        (\<lparr>stopped = True, prevented = True\<rparr>,
         case asked_verb (lit ''GET'') (map_option data (data_method l)) of
           None \<Rightarrow> None
         | Some verb \<Rightarrow> Some [Ajax verb (link_href l) [] None])
      else case (data_remote l, data_method l) of
        (None, Some v) \<Rightarrow>
          (\<lparr>stopped = True, prevented = True\<rparr>,
           Some [PostForm
             (lit ''<form method="post" action="'' @ (case link_href l of None \<Rightarrow> lit ''undefined'' | Some u \<Rightarrow> u) @ lit ''"></form>'')
             (if data v = Text (lit ''post'') then None
              else Some (lit ''<input type="hidden" name="_method" value="'' @ printed (data v) @ lit ''" />''))])
      | _ \<Rightarrow> (\<lparr>stopped = False, prevented = False\<rparr>, Some []))\<close>
  by (cases "data_method l"; cases "data_confirm l"; cases "data_remote l")
    (auto simp: click_def on_confirm_def on_remote_def on_method_def stop_def sendRequest_verb sendMethod_def or_undefined_text_def
      Let_def split: option.splits)

end
