(* ===== verification/AkForm.thy ===== *)
theory AkForm
  imports JsString
begin

text \<open>
  The hidden field of the spam filter (\<open>form.js\<close>): the script puts one input \<open>ak_js\<close> with the
  current time at the end of the comment form, or of the first cell of the reply row.  Containers
  are addresses with the list of their children; the input is child 0.
\<close>

record ak_page =
  ak_attributes :: "(jsstr \<rightharpoonup> jsstr) option"
  ak_parent :: "nat option"
  children :: "nat \<Rightarrow> nat list"
  commentForm :: "nat option"
  replyRow :: "nat list option"

text \<open>\<open>None\<close> is the \<open>TypeError\<close> of an input outside every container.\<close>

definition detached :: "ak_page \<Rightarrow> ((jsstr \<rightharpoonup> jsstr) \<times> ak_page) option" where
  "detached p =
     (case ak_attributes p of
        None \<Rightarrow> Some ([lit ''id'' \<mapsto> lit ''ak_js'', lit ''name'' \<mapsto> lit ''ak_js'', lit ''type'' \<mapsto> lit ''hidden''], p)
      | Some attrs \<Rightarrow>
          (case ak_parent p of
             None \<Rightarrow> None
           | Some n \<Rightarrow> Some (attrs, p\<lparr>children := (children p)(n := remove1 0 (children p n)), ak_parent := None, ak_attributes := None\<rparr>)))"

definition ak_target :: "ak_page \<Rightarrow> nat option" where
  "ak_target p =
     (case commentForm p of
        Some f \<Rightarrow> Some f
      | None \<Rightarrow> (case replyRow p of Some (cell # _) \<Rightarrow> Some cell | _ \<Rightarrow> None))"

definition ak_script :: "nat \<Rightarrow> ak_page \<Rightarrow> ak_page option" where
  "ak_script now p =
     map_option (\<lambda>(attrs, p1).
       case ak_target p1 of
         None \<Rightarrow> p1
       | Some n \<Rightarrow> p1\<lparr>children := (children p1)(n := children p1 n @ [0]), ak_parent := Some n,
                    ak_attributes := Some (attrs(lit ''value'' \<mapsto> nat_digits now))\<rparr>) (detached p)"

definition ak_placed :: "ak_page \<Rightarrow> bool" where
  "ak_placed p \<longleftrightarrow>
     (case ak_attributes p of
        None \<Rightarrow> ak_parent p = None \<and> (\<forall>n. 0 \<notin> set (children p n))
      | Some _ \<Rightarrow> (\<exists>n. ak_parent p = Some n \<and> count_list (children p n) 0 = 1 \<and> (\<forall>n'. n' \<noteq> n \<longrightarrow> 0 \<notin> set (children p n'))))"

lemma count_one_removed: "count_list xs x = 1 \<Longrightarrow> x \<notin> set (remove1 x xs)"
  by (induction xs) (auto simp: count_list_0_iff split: if_splits)

lemma detached_clean:
  assumes "ak_placed p" and "detached p = Some (attrs, p1)"
  shows "ak_attributes p1 = None \<and> ak_parent p1 = None \<and> 0 \<notin> set (children p1 n) \<and> ak_target p1 = ak_target p"
proof (cases "ak_attributes p")
  case None
  with assms show ?thesis by (auto simp: detached_def ak_placed_def)
next
  case (Some at)
  with assms(1) obtain k where k: "ak_parent p = Some k" "count_list (children p k) 0 = 1" "\<forall>n'. n' \<noteq> k \<longrightarrow> 0 \<notin> set (children p n')"
    by (auto simp: ak_placed_def)
  have "0 \<notin> set (remove1 0 (children p k))" by (rule count_one_removed [OF k(2)])
  moreover have "p1 = p\<lparr>children := (children p)(k := remove1 0 (children p k)), ak_parent := None, ak_attributes := None\<rparr>"
    using assms(2) Some k(1) by (simp add: detached_def)
  ultimately show ?thesis using k(3) by (auto simp: ak_target_def split: if_splits option.split list.split)
qed

text \<open>However often the script runs, the page has at most one such input; with a comment form it is the
  last child of the form and carries the time of the last run.\<close>

lemma ak_script_placed:
  assumes "ak_placed p"
  shows "\<exists>p'. ak_script now p = Some p' \<and> ak_placed p' \<and>
    (\<forall>f. commentForm p = Some f \<longrightarrow> ak_parent p' = Some f \<and> last (children p' f) = 0 \<and>
      map_option (\<lambda>a. a (lit ''value'')) (ak_attributes p') = Some (Some (nat_digits now)))"
proof -
  have "detached p \<noteq> None" using assms by (auto simp: detached_def ak_placed_def split: option.splits)
  then obtain attrs p1 where d: "detached p = Some (attrs, p1)" by auto
  note c = detached_clean [OF assms d]
  show ?thesis
  proof (cases "ak_target p")
    case None
    then have "commentForm p = None" by (auto simp: ak_target_def split: option.splits)
    with c None show ?thesis by (simp add: ak_script_def d ak_placed_def)
  next
    case (Some n)
    have "commentForm p = Some f \<Longrightarrow> f = n" for f using Some by (simp add: ak_target_def)
    moreover have "count_list (children p1 n @ [0]) 0 = 1" using c by (simp add: count_list_0_iff)
    ultimately show ?thesis using c Some by (auto simp: ak_script_def d ak_placed_def)
  qed
qed

end
