(* ===== verification/JQuery.thy ===== *)
theory JQuery
  imports JsString
begin

text \<open>
  What the page scripts use of jQuery.  The library is not part of the model: its methods are the fields of
  a record \<open>('e, 'd) jquery\<close>, over a type of elements and a type of documents, and the scripts take the
  record as an argument.  The locale \<open>jquery\<close> states the documented behaviour they rely on: what the class
  and visibility methods change and what they leave, which elements \<open>siblings\<close> gives, and that a selector
  depends only on the classes it mentions.  An element is hidden here when it is not displayed itself; the selector
  \<open>:hidden\<close> may also match elements inside a hidden one.  The last part is a small document with a selector engine; it
  satisfies the laws, and the examples are evaluated on it.
\<close>

section \<open>Methods\<close>

record ('e, 'd) jquery =
  query :: "jsstr \<Rightarrow> 'd \<Rightarrow> 'e list"
  query_in :: "jsstr \<Rightarrow> 'e list \<Rightarrow> 'd \<Rightarrow> 'e list"
  filter_sel :: "jsstr \<Rightarrow> 'e list \<Rightarrow> 'd \<Rightarrow> 'e list"
  siblings :: "'e list \<Rightarrow> 'd \<Rightarrow> 'e list"
  parents :: "jsstr \<Rightarrow> 'e list \<Rightarrow> 'd \<Rightarrow> 'e list"
  addClass :: "jsstr \<Rightarrow> 'e list \<Rightarrow> 'd \<Rightarrow> 'd"
  removeClass :: "jsstr \<Rightarrow> 'e list \<Rightarrow> 'd \<Rightarrow> 'd"
  toggleClass :: "jsstr \<Rightarrow> 'e list \<Rightarrow> 'd \<Rightarrow> 'd"
  hide :: "'e list \<Rightarrow> 'd \<Rightarrow> 'd"
  reveal :: "'e list \<Rightarrow> 'd \<Rightarrow> 'd"
  visibility :: "jsstr \<Rightarrow> 'e list \<Rightarrow> 'd \<Rightarrow> 'd"
  has_class :: "'d \<Rightarrow> 'e \<Rightarrow> jsstr \<Rightarrow> bool"
  is_hidden :: "'d \<Rightarrow> 'e \<Rightarrow> bool"
  veiled :: "'d \<Rightarrow> 'e \<Rightarrow> bool"
  parent_of :: "'d \<Rightarrow> 'e \<Rightarrow> 'e option"
  tag_of :: "'d \<Rightarrow> 'e \<Rightarrow> jsstr"
  next_of :: "'e list \<Rightarrow> 'd \<Rightarrow> 'e list"
  closest :: "jsstr \<Rightarrow> 'e list \<Rightarrow> 'd \<Rightarrow> 'e list"
  slideToggle :: "'e list \<Rightarrow> 'd \<Rightarrow> 'd"
  wrap :: "jsstr \<Rightarrow> 'e list \<Rightarrow> 'd \<Rightarrow> 'd"
  attr :: "jsstr \<Rightarrow> 'e \<Rightarrow> 'd \<Rightarrow> jsstr option"
  prop_of :: "jsstr \<Rightarrow> 'e \<Rightarrow> 'd \<Rightarrow> jsstr"
  val_of :: "'e list \<Rightarrow> 'd \<Rightarrow> jsstr option"

text \<open>
  \<open>query\<close> is \<open>$(selector)\<close>, \<open>query_in\<close> is \<open>find\<close> (and \<open>$(selector, context)\<close>); \<open>reveal\<close> is
  \<open>show\<close>, the end state of \<open>fadeIn\<close>, and what an animation of \<open>{opacity: 'show'}\<close> does when it starts;
  \<open>visibility\<close> is \<open>css('visibility', value)\<close>, \<open>slideToggle\<close> is taken at the end of its animation.
  \<open>has_class\<close>, \<open>is_hidden\<close> (the display style is \<open>none\<close>), \<open>veiled\<close> (the visibility style is
  \<open>hidden\<close>), \<open>parent_of\<close> and \<open>tag_of\<close> observe a document; \<open>attr\<close>,
  \<open>prop_of\<close> (an attribute as the element's property gives it) and \<open>val_of\<close> read one.
\<close>

definition class_words :: "jsstr \<Rightarrow> jsstr set" where
  "class_words c = set (split_str [SP] c)"

text \<open>A selector that mentions none of the classes of \<open>c\<close>, and one that does not ask what is hidden.\<close>

definition mentions_none :: "jsstr \<Rightarrow> jsstr \<Rightarrow> bool" where
  "mentions_none c sel \<longleftrightarrow> (\<forall>k \<in> class_words c. \<not> sublist k sel)"

definition sight_blind :: "jsstr \<Rightarrow> bool" where
  "sight_blind sel \<longleftrightarrow> \<not> sublist (lit ''hidden'') sel \<and> \<not> sublist (lit ''visible'') sel"

definition same_shape :: "('e, 'd) jquery \<Rightarrow> 'd \<Rightarrow> 'd \<Rightarrow> bool" where
  "same_shape J d d' \<longleftrightarrow> parent_of J d = parent_of J d' \<and> tag_of J d = tag_of J d'"

section \<open>Laws\<close>

locale jquery =
  fixes J :: "('e, 'd) jquery"
  assumes add_class: "has_class J (addClass J c es d) e k \<longleftrightarrow> has_class J d e k \<or> e \<in> set es \<and> k \<in> class_words c"
    and remove_class: "has_class J (removeClass J c es d) e k \<longleftrightarrow> has_class J d e k \<and> \<not> (e \<in> set es \<and> k \<in> class_words c)"
    and toggle_other: "k \<notin> class_words c \<Longrightarrow> has_class J (toggleClass J c es d) e k = has_class J d e k"
    and class_sight: "is_hidden J (addClass J c es d) = is_hidden J d" "is_hidden J (removeClass J c es d) = is_hidden J d"
      "is_hidden J (toggleClass J c es d) = is_hidden J d" "is_hidden J (visibility J v es d) = is_hidden J d"
    and hide_sight: "is_hidden J (hide J es d) e \<longleftrightarrow> is_hidden J d e \<or> e \<in> set es"
    and reveal_sight: "is_hidden J (reveal J es d) e \<longleftrightarrow> is_hidden J d e \<and> e \<notin> set es"
    and sight_class: "has_class J (hide J es d) = has_class J d" "has_class J (reveal J es d) = has_class J d"
      "has_class J (visibility J v es d) = has_class J d"
    and shape: "same_shape J d (addClass J c es d)" "same_shape J d (removeClass J c es d)"
      "same_shape J d (toggleClass J c es d)" "same_shape J d (hide J es d)" "same_shape J d (reveal J es d)"
      "same_shape J d (visibility J v es d)"
    and veil_same: "veiled J (addClass J c es d) = veiled J d" "veiled J (removeClass J c es d) = veiled J d"
      "veiled J (toggleClass J c es d) = veiled J d" "veiled J (hide J es d) = veiled J d" "veiled J (reveal J es d) = veiled J d"
    and veil: "veiled J (visibility J (lit ''hidden'') es d) e \<longleftrightarrow> veiled J d e \<or> e \<in> set es"
      "veiled J (visibility J (lit ''visible'') es d) e \<longleftrightarrow> veiled J d e \<and> e \<notin> set es"
    and siblings: "e \<in> set (siblings J es d) \<longleftrightarrow>
      (\<exists>x \<in> set es. x \<noteq> e \<and> parent_of J d x \<noteq> None \<and> parent_of J d x = parent_of J d e)"
    and child_uls: "e \<in> set (query_in J (lit ''>ul'') es d) \<longleftrightarrow>
      tag_of J d e = lit ''ul'' \<and> (\<exists>x \<in> set es. parent_of J d e = Some x)"
    and hidden_uls: "e \<in> set (query_in J (lit ''>ul'') es d) \<Longrightarrow> is_hidden J d e \<Longrightarrow>
      e \<in> set (query_in J (lit ''>ul:hidden'') es d)"
      "e \<in> set (query_in J (lit ''>ul:hidden'') es d) \<Longrightarrow> e \<in> set (query_in J (lit ''>ul'') es d)"
    and query_class: "mentions_none c sel \<Longrightarrow> query J sel (addClass J c es d) = query J sel d"
      "mentions_none c sel \<Longrightarrow> query J sel (removeClass J c es d) = query J sel d"
    and query_sight: "sight_blind sel \<Longrightarrow> query J sel (hide J es d) = query J sel d"
      "sight_blind sel \<Longrightarrow> query J sel (reveal J es d) = query J sel d"
begin

lemmas class_laws = add_class remove_class sight_class
lemmas sight_laws = class_sight hide_sight reveal_sight
lemmas veil_laws = veil_same veil

lemma shape_parent:
  "parent_of J (addClass J c es d) = parent_of J d" "parent_of J (removeClass J c es d) = parent_of J d"
  "parent_of J (toggleClass J c es d) = parent_of J d" "parent_of J (hide J es d) = parent_of J d"
  "parent_of J (reveal J es d) = parent_of J d" "parent_of J (visibility J v es d) = parent_of J d"
  using shape by (simp_all add: same_shape_def)

lemma shape_tag:
  "tag_of J (addClass J c es d) = tag_of J d" "tag_of J (removeClass J c es d) = tag_of J d"
  "tag_of J (toggleClass J c es d) = tag_of J d" "tag_of J (hide J es d) = tag_of J d"
  "tag_of J (reveal J es d) = tag_of J d" "tag_of J (visibility J v es d) = tag_of J d"
  using shape by (simp_all add: same_shape_def)

lemmas shape_laws = shape_parent shape_tag

lemma hidden_uls_iff:
  "is_hidden J d e \<Longrightarrow> e \<in> set (query_in J (lit ''>ul:hidden'') es d) \<longleftrightarrow>
     tag_of J d e = lit ''ul'' \<and> (\<exists>x \<in> set es. parent_of J d e = Some x)"
  using hidden_uls [of e es d] child_uls [of e es d] by blast

end

text \<open>
  What the page scripts rely on beyond this: \<open>toggleClass\<close> and \<open>slideToggle\<close> switch (the
  latter as seen on the page, so for elements that no ancestor hides), the next sibling, and that reading does not
  depend on classes or visibility.
\<close>

definition covered :: "('e, 'd) jquery \<Rightarrow> 'd \<Rightarrow> 'e \<Rightarrow> bool" where
  "covered J d e \<longleftrightarrow> (\<exists>x. (\<lambda>a b. parent_of J d a = Some b)\<^sup>+\<^sup>+ e x \<and> is_hidden J d x)"

locale jquery_page = jquery J for J :: "('e, 'd) jquery" +
  assumes toggle_class: "distinct es \<Longrightarrow> SP \<notin> set c \<Longrightarrow> has_class J (toggleClass J c es d) e c \<longleftrightarrow> has_class J d e c \<noteq> (e \<in> set es)"
    and slide_sight: "e \<in> set es \<Longrightarrow> \<not> covered J d e \<Longrightarrow> is_hidden J (slideToggle J es d) e \<longleftrightarrow> \<not> is_hidden J d e"
      "e \<notin> set es \<Longrightarrow> is_hidden J (slideToggle J es d) e \<longleftrightarrow> is_hidden J d e"
    and slide_class: "has_class J (slideToggle J es d) = has_class J d"
    and slide_shape: "same_shape J d (slideToggle J es d)"
    and next_stable: "next_of J es (toggleClass J c fs d) = next_of J es d" "next_of J es (slideToggle J fs d) = next_of J es d"
      "next_of J es (hide J fs d) = next_of J es d"
    and next_sibling: "y \<in> set (next_of J [x] d) \<Longrightarrow> parent_of J d x \<noteq> None \<and> parent_of J d x = parent_of J d y"
    and next_unique: "z \<in> set (next_of J [x] d) \<Longrightarrow> z \<in> set (next_of J [y] d) \<Longrightarrow> x = y"
    and with_class: "e \<in> set (query J (lit ''.active'') d) \<Longrightarrow> has_class J d e (lit ''active'')"
      "has_class J d e (lit ''active'') \<Longrightarrow> parent_of J d e \<noteq> None \<Longrightarrow> e \<in> set (query J (lit ''.active'') d)"
    and closest_class: "mentions_none c sel \<Longrightarrow> closest J sel es (removeClass J c fs d) = closest J sel es d"
    and prop_class: "prop_of J n e (removeClass J c fs d) = prop_of J n e d"

section \<open>A document\<close>

record dom =
  d_nodes :: "nat list"
  d_tag :: "nat \<Rightarrow> jsstr"
  d_id :: "nat \<Rightarrow> jsstr"
  d_parent :: "nat \<Rightarrow> nat option"
  d_class :: "(nat \<times> jsstr) list"
  d_hidden :: "nat list"
  d_veiled :: "nat list"
  d_attr :: "nat \<Rightarrow> jsstr \<Rightarrow> jsstr option"

definition d_up :: "dom \<Rightarrow> nat \<Rightarrow> nat option" where
  "d_up d e = (if e \<in> set (d_nodes d) then d_parent d e else None)"

text \<open>Parents come before their children; \<open>above\<close> climbs as long as this holds.\<close>

function above :: "dom \<Rightarrow> nat \<Rightarrow> nat list" where
  "above d e = (case d_up d e of None \<Rightarrow> [] | Some p \<Rightarrow> if p < e then p # above d p else [])"
  by pat_completeness auto
termination
  by (relation "measure snd") (auto split: if_splits)

declare above.simps [simp del]

text \<open>
  Selectors: a chain of steps, each to children (\<open>>\<close>) or to descendants, with a name of a tag and
  parts that begin with a dot (class), a hash (identifier) or a colon (pseudo-class).
\<close>

definition part_start :: "jschar \<Rightarrow> bool" where
  "part_start c \<longleftrightarrow> c = 46 \<or> c = 35 \<or> c = 58"

function parts_of :: "jsstr \<Rightarrow> (jschar \<times> jsstr) list" where
  "parts_of s =
     (case dropWhile (\<lambda>c. \<not> part_start c) s of
        [] \<Rightarrow> []
      | c # t \<Rightarrow> (c, takeWhile (\<lambda>c. \<not> part_start c) t) # parts_of t)"
  by pat_completeness auto
termination
proof (relation "measure length")
  fix s c t assume "dropWhile (\<lambda>c. \<not> part_start c) s = c # t"
  then have "length (c # t) \<le> length s" by (metis length_dropWhile_le)
  then show "(t, s) \<in> measure length" by simp
qed simp

declare parts_of.simps [simp del]

definition part_holds :: "dom \<Rightarrow> nat \<Rightarrow> jschar \<times> jsstr \<Rightarrow> bool" where
  "part_holds d e p =
     (if fst p = 46 then (e, snd p) \<in> set (d_class d)
      else if fst p = 35 then d_id d e = snd p
      else if snd p = lit ''hidden'' then e \<in> set (d_hidden d)
      else if snd p = lit ''has(ul)'' then list_ex (\<lambda>x. d_tag d x = lit ''ul'' \<and> e \<in> set (above d x)) (d_nodes d)
      else True)"

definition compound_holds :: "dom \<Rightarrow> jsstr \<Rightarrow> nat \<Rightarrow> bool" where
  "compound_holds d s e \<longleftrightarrow>
     (let t = takeWhile (\<lambda>c. \<not> part_start c) s in t = [] \<or> d_tag d e = t) \<and> list_all (part_holds d e) (parts_of s)"

definition steps_to :: "dom \<Rightarrow> bool \<Rightarrow> nat list option \<Rightarrow> nat \<Rightarrow> bool" where
  "steps_to d child ctx e =
     (case ctx of
        None \<Rightarrow> True
      | Some es \<Rightarrow> if child then (case d_up d e of Some p \<Rightarrow> p \<in> set es | None \<Rightarrow> False)
                   else list_ex (\<lambda>a. a \<in> set es) (above d e))"

fun eval_steps :: "dom \<Rightarrow> bool \<Rightarrow> nat list option \<Rightarrow> jsstr list \<Rightarrow> nat list" where
  "eval_steps d child ctx [] = (case ctx of None \<Rightarrow> [] | Some es \<Rightarrow> es)"
| "eval_steps d child ctx (t # ts) =
     (if t = [62] then eval_steps d True ctx ts
      else let child1 = (child \<or> prefix [62] t); t1 = (if prefix [62] t then drop 1 t else t);
               es = filter (\<lambda>e. steps_to d child1 ctx e \<and> compound_holds d t1 e) (d_nodes d)
           in eval_steps d False (Some (if (58, lit ''first'') \<in> set (parts_of t1) then take 1 es else es)) ts)"

definition d_next :: "dom \<Rightarrow> nat \<Rightarrow> nat \<Rightarrow> bool" where
  "d_next d x e \<longleftrightarrow> x < e \<and> d_up d x \<noteq> None \<and> d_up d e = d_up d x \<and>
     \<not> list_ex (\<lambda>y. x < y \<and> y < e \<and> d_up d y = d_up d x) (d_nodes d)"

definition dom_jquery :: "(nat, dom) jquery" where
  "dom_jquery = \<lparr>
     query = (\<lambda>sel d. eval_steps d False None (split_str [SP] sel)),
     query_in = (\<lambda>sel es d. eval_steps d False (Some es) (split_str [SP] sel)),
     filter_sel = (\<lambda>sel es d. filter (compound_holds d sel) es),
     siblings = (\<lambda>es d. filter (\<lambda>e. list_ex (\<lambda>x. x \<noteq> e \<and> d_up d x \<noteq> None \<and> d_up d x = d_up d e) es) (d_nodes d)),
     parents = (\<lambda>sel es d. filter (\<lambda>e. list_ex (\<lambda>x. e \<in> set (above d x)) es \<and> compound_holds d sel e) (rev (d_nodes d))),
     addClass = (\<lambda>c es d. d\<lparr>d_class := d_class d @ List.product es (split_str [SP] c)\<rparr>),
     removeClass = (\<lambda>c es d. d\<lparr>d_class := filter (\<lambda>x. x \<notin> set (List.product es (split_str [SP] c))) (d_class d)\<rparr>),
     toggleClass = (\<lambda>c es d. let ps = List.product es (split_str [SP] c) in
       d\<lparr>d_class := filter (\<lambda>x. x \<notin> set ps) (d_class d) @ filter (\<lambda>x. x \<notin> set (d_class d)) ps\<rparr>),
     hide = (\<lambda>es d. d\<lparr>d_hidden := es @ d_hidden d\<rparr>),
     reveal = (\<lambda>es d. d\<lparr>d_hidden := filter (\<lambda>e. e \<notin> set es) (d_hidden d)\<rparr>),
     visibility = (\<lambda>v es d. d\<lparr>d_veiled := (if v = lit ''hidden'' then es else []) @ filter (\<lambda>e. e \<notin> set es) (d_veiled d)\<rparr>),
     has_class = (\<lambda>d e k. (e, k) \<in> set (d_class d)),
     is_hidden = (\<lambda>d e. e \<in> set (d_hidden d)),
     veiled = (\<lambda>d e. e \<in> set (d_veiled d)),
     parent_of = d_up,
     tag_of = d_tag,
     next_of = (\<lambda>es d. concat (map (\<lambda>x. filter (d_next d x) (d_nodes d)) es)),
     closest = (\<lambda>sel es d. concat (map (\<lambda>x. take 1 (filter (compound_holds d sel) (x # above d x))) es)),
     slideToggle = (\<lambda>es d. d\<lparr>d_hidden := filter (\<lambda>e. e \<notin> set es) (d_hidden d) @
       filter (\<lambda>e. e \<notin> set (d_hidden d) \<and> list_all (\<lambda>a. a \<notin> set (d_hidden d)) (above d e)) es\<rparr>),
     wrap = (\<lambda>html es d. d),
     attr = (\<lambda>n e d. d_attr d e n),
     prop_of = (\<lambda>n e d. case d_attr d e n of None \<Rightarrow> [] | Some v \<Rightarrow> v),
     val_of = (\<lambda>es d. case es of [] \<Rightarrow> None | e # _ \<Rightarrow> d_attr d e (lit ''value''))\<rparr>"

section \<open>The document satisfies the laws\<close>

lemma d_up_simps [simp]: "d_up (d\<lparr>d_class := f\<rparr>) = d_up d" "d_up (d\<lparr>d_hidden := g\<rparr>) = d_up d"
  "d_up (d\<lparr>d_veiled := g\<rparr>) = d_up d"
  by (simp_all add: d_up_def fun_eq_iff)

lemma above_class [simp]: "above (d\<lparr>d_class := f\<rparr>) e = above d e"
proof (induction d e rule: above.induct)
  case (1 d e)
  then show ?case by (subst (1 2) above.simps) (auto split: option.splits)
qed

lemma above_hidden [simp]: "above (d\<lparr>d_hidden := f\<rparr>) e = above d e"
proof (induction d e rule: above.induct)
  case (1 d e)
  then show ?case by (subst (1 2) above.simps) (auto split: option.splits)
qed

lemma above_veiled [simp]: "above (d\<lparr>d_veiled := f\<rparr>) e = above d e"
proof (induction d e rule: above.induct)
  case (1 d e)
  then show ?case by (subst (1 2) above.simps) (auto split: option.splits)
qed

lemma sublist_takeWhile_dropWhile: "dropWhile P s = c # t \<Longrightarrow> sublist (takeWhile Q t) s \<and> sublist t s"
proof -
  assume d: "dropWhile P s = c # t"
  then have "s = takeWhile P s @ [c] @ t" by (metis append_Cons append_Nil takeWhile_dropWhile_id)
  then have "sublist t s" by (metis append_assoc suffixI suffix_imp_sublist)
  moreover have "sublist (takeWhile Q t) t" by (simp add: prefix_imp_sublist takeWhile_is_prefix)
  ultimately show ?thesis by (meson sublist_order.order.trans)
qed

lemma parts_of_sublist: "(c, n) \<in> set (parts_of s) \<Longrightarrow> sublist n s"
proof (induction s rule: parts_of.induct)
  case (1 s)
  show ?case
  proof (cases "dropWhile (\<lambda>c. \<not> part_start c) s")
    case Nil
    have "parts_of s = []" by (subst parts_of.simps) (simp only: Nil list.case)
    then show ?thesis using "1.prems" by simp
  next
    case (Cons a t)
    then have "n = takeWhile (\<lambda>c. \<not> part_start c) t \<or> (c, n) \<in> set (parts_of t)"
      using "1.prems" by (subst (asm) parts_of.simps) auto
    with "1.IH" [OF Cons] sublist_takeWhile_dropWhile [OF Cons] show ?thesis
      by (meson sublist_order.order.trans)
  qed
qed

lemma sublist_token: "t \<in> set (split_str [SP] sel) \<Longrightarrow> sublist t sel"
  by (rule sublist_piece)

definition alike :: "(jsstr \<Rightarrow> bool) \<Rightarrow> bool \<Rightarrow> dom \<Rightarrow> dom \<Rightarrow> bool" where
  "alike P sight d d' \<longleftrightarrow> d_nodes d = d_nodes d' \<and> d_tag d = d_tag d' \<and> d_id d = d_id d' \<and> d_parent d = d_parent d' \<and>
     (\<forall>k e. P k \<longrightarrow> ((e, k) \<in> set (d_class d) \<longleftrightarrow> (e, k) \<in> set (d_class d'))) \<and> (sight \<longrightarrow> d_hidden d = d_hidden d')"

lemma alike_above: "alike P sight d d' \<Longrightarrow> above d e = above d' e"
proof (induction d e rule: above.induct)
  case (1 d e)
  then have "d_up d = d_up d'" by (simp add: alike_def d_up_def fun_eq_iff)
  with 1 show ?case by (subst (1 2) above.simps) (auto split: option.splits)
qed

lemma alike_compound:
  assumes a: "alike P sight d d'" and "\<And>k. sublist k s \<Longrightarrow> P k" and "sight \<or> \<not> sublist (lit ''hidden'') s"
  shows "compound_holds d s e = compound_holds d' s e"
proof -
  have "part_holds d e p = part_holds d' e p" if "p \<in> set (parts_of s)" for p
  proof -
    obtain c n where p: "p = (c, n)" by (cases p)
    then have n: "sublist n s" using parts_of_sublist that by blast
    with assms p show ?thesis
      by (auto simp: part_holds_def alike_def alike_above [OF a])
  qed
  then have "list_all (part_holds d e) (parts_of s) = list_all (part_holds d' e) (parts_of s)"
    by (auto simp: list_all_iff)
  with a show ?thesis by (simp add: compound_holds_def alike_def)
qed

lemma alike_steps:
  assumes a: "alike P sight d d'"
  shows "\<forall>t \<in> set ts. (\<forall>k. sublist k t \<longrightarrow> P k) \<and> (sight \<or> \<not> sublist (lit ''hidden'') t) \<Longrightarrow>
    eval_steps d child ctx ts = eval_steps d' child ctx ts"
proof (induction ts arbitrary: child ctx)
  case (Cons t ts)
  have up: "d_up d = d_up d'" "d_nodes d = d_nodes d'" using a by (auto simp: d_up_def alike_def fun_eq_iff)
  have st: "steps_to d c x e = steps_to d' c x e" for c x e
    by (cases x) (simp_all add: steps_to_def up alike_above [OF a])
  let ?t = "if prefix [62] t then drop 1 t else t"
  have sub: "sublist ?t t" by (simp add: sublist_drop)
  have "compound_holds d ?t e = compound_holds d' ?t e" for e
    by (rule alike_compound [OF a]) (use Cons.prems sub sublist_order.order.trans in \<open>(force | meson list.set_intros(1))+\<close>)
  with Cons st up show ?case by (simp add: Let_def)
qed simp

lemma alike_query:
  assumes "alike P sight d d'" "\<And>k. sublist k sel \<Longrightarrow> P k" "sight \<or> \<not> sublist (lit ''hidden'') sel"
  shows "eval_steps d child ctx (split_str [SP] sel) = eval_steps d' child ctx (split_str [SP] sel)"
  by (rule alike_steps [OF assms(1)]) (use assms(2,3) sublist_token sublist_order.order.trans in blast)

lemma alike_class:
  "alike (\<lambda>k. k \<notin> class_words c) True (addClass dom_jquery c es d) d"
  "alike (\<lambda>k. k \<notin> class_words c) True (removeClass dom_jquery c es d) d"
  by (auto simp: alike_def dom_jquery_def class_words_def)

lemma alike_sight: "alike (\<lambda>k. True) False (d\<lparr>d_hidden := f\<rparr>) d"
  by (simp add: alike_def)

lemma d_up_node: "d_up d e = Some x \<Longrightarrow> e \<in> set (d_nodes d)"
  by (simp add: d_up_def split: if_splits)

lemma parts_ul: "parts_of [117, 108] = []" "parts_of [117, 108, 58, 104, 105, 100, 100, 101, 110] = [(58, lit ''hidden'')]"
proof -
  have h: "parts_of [104, 105, 100, 100, 101, 110] = []" by (subst parts_of.simps) (simp add: part_start_def)
  show "parts_of [117, 108] = []" by (subst parts_of.simps) (simp add: part_start_def)
  show "parts_of [117, 108, 58, 104, 105, 100, 100, 101, 110] = [(58, lit ''hidden'')]"
    by (subst parts_of.simps) (simp add: part_start_def lit_def h)
qed

lemma eval_child_ul:
  "eval_steps d False (Some es) (split_str [SP] (lit ''>ul'')) =
     filter (\<lambda>e. (case d_up d e of Some p \<Rightarrow> p \<in> set es | None \<Rightarrow> False) \<and> d_tag d e = lit ''ul'') (d_nodes d)"
  "eval_steps d False (Some es) (split_str [SP] (lit ''>ul:hidden'')) =
     filter (\<lambda>e. (case d_up d e of Some p \<Rightarrow> p \<in> set es | None \<Rightarrow> False) \<and> d_tag d e = lit ''ul'' \<and> e \<in> set (d_hidden d)) (d_nodes d)"
  by (simp_all add: lit_def split_single_none steps_to_def compound_holds_def parts_ul part_start_def part_holds_def)

interpretation dom: jquery dom_jquery
proof
  fix c sel :: jsstr and es :: "nat list" and d :: dom and e :: nat
  show "e \<in> set (siblings dom_jquery es d) \<longleftrightarrow>
      (\<exists>x \<in> set es. x \<noteq> e \<and> parent_of dom_jquery d x \<noteq> None \<and> parent_of dom_jquery d x = parent_of dom_jquery d e)"
    using d_up_node [of d e] by (fastforce simp: dom_jquery_def list_ex_iff)
  show "e \<in> set (query_in dom_jquery (lit ''>ul'') es d) \<longleftrightarrow>
      tag_of dom_jquery d e = lit ''ul'' \<and> (\<exists>x \<in> set es. parent_of dom_jquery d e = Some x)"
    using d_up_node [of d e] by (auto simp: dom_jquery_def eval_child_ul split: option.splits)
  show "e \<in> set (query_in dom_jquery (lit ''>ul:hidden'') es d)"
    if "e \<in> set (query_in dom_jquery (lit ''>ul'') es d)" "is_hidden dom_jquery d e"
    using that by (simp add: dom_jquery_def eval_child_ul)
  show "e \<in> set (query_in dom_jquery (lit ''>ul'') es d)" if "e \<in> set (query_in dom_jquery (lit ''>ul:hidden'') es d)"
    using that by (simp add: dom_jquery_def eval_child_ul)
  show "query dom_jquery sel (addClass dom_jquery c es d) = query dom_jquery sel d"
    "query dom_jquery sel (removeClass dom_jquery c es d) = query dom_jquery sel d" if "mentions_none c sel"
  proof -
    have "\<And>k. sublist k sel \<Longrightarrow> k \<notin> class_words c" using that by (auto simp: mentions_none_def)
    from alike_query [OF alike_class(1) this] alike_query [OF alike_class(2) this]
    show "query dom_jquery sel (addClass dom_jquery c es d) = query dom_jquery sel d"
      "query dom_jquery sel (removeClass dom_jquery c es d) = query dom_jquery sel d" by (simp_all add: dom_jquery_def)
  qed
  show "query dom_jquery sel (hide dom_jquery es d) = query dom_jquery sel d"
    "query dom_jquery sel (reveal dom_jquery es d) = query dom_jquery sel d" if "sight_blind sel"
    using alike_query [OF alike_sight] that by (simp_all add: dom_jquery_def sight_blind_def)
qed (auto simp: dom_jquery_def same_shape_def class_words_def Let_def lit_def)

lemma dom_sel:
  "parent_of dom_jquery = d_up" "is_hidden dom_jquery d e \<longleftrightarrow> e \<in> set (d_hidden d)"
  "has_class dom_jquery d e k \<longleftrightarrow> (e, k) \<in> set (d_class d)" "hide dom_jquery es d = d\<lparr>d_hidden := es @ d_hidden d\<rparr>"
  by (simp_all add: dom_jquery_def)

text \<open>A search by one compound selector.\<close>

lemma find_compound:
  "eval_steps d False (Some es) (split_str [SP] s) =
     filter (\<lambda>e. list_ex (\<lambda>a. a \<in> set es) (above d e) \<and> compound_holds d s e) (d_nodes d)"
  if "SP \<notin> set s" "\<not> prefix [62] s" "(58, lit ''first'') \<notin> set (parts_of s)"
  using that by (auto simp: split_single_none steps_to_def)

lemma query_compound:
  "eval_steps d False None (split_str [SP] s) = filter (compound_holds d s) (d_nodes d)"
  if "SP \<notin> set s" "\<not> prefix [62] s" "(58, lit ''first'') \<notin> set (parts_of s)"
  using that by (auto simp: split_single_none steps_to_def)

lemma above_up: "x \<in> set (above d e) \<Longrightarrow> (\<lambda>a b. d_up d a = Some b)\<^sup>+\<^sup>+ e x"
proof (induction d e rule: above.induct)
  case (1 d e)
  from "1.prems" obtain p where "d_up d e = Some p" "x = p \<or> x \<in> set (above d p) \<and> p < e"
    using above.simps [of d e] by (auto split: option.splits if_splits)
  with "1.IH" show ?case by (auto intro: tranclp_into_tranclp2)
qed

lemma next_from:
  assumes "d_next d x z" "d_next d y z"
  shows "x = y"
proof (rule ccontr)
  assume "x \<noteq> y"
  moreover have "\<not> x < y" "\<not> y < x"
    using assms d_up_node [of d x] d_up_node [of d y] by (auto simp: d_next_def list_ex_iff)
  ultimately show False by simp
qed

lemma d_next_simps: "d_next (d\<lparr>d_class := f\<rparr>) = d_next d" "d_next (d\<lparr>d_hidden := g\<rparr>) = d_next d"
  by (simp_all add: d_next_def fun_eq_iff)

lemma active_parts: "compound_holds d (lit ''.active'') e \<longleftrightarrow> (e, lit ''active'') \<in> set (d_class d)"
  by (simp add: compound_holds_def lit_def parts_of.simps part_start_def part_holds_def)

lemma active_query: "query dom_jquery (lit ''.active'') d = filter (\<lambda>e. (e, lit ''active'') \<in> set (d_class d)) (d_nodes d)"
proof -
  have "eval_steps d False None (split_str [SP] (lit ''.active'')) = filter (compound_holds d (lit ''.active'')) (d_nodes d)"
    by (rule query_compound; simp add: lit_def parts_of.simps part_start_def)
  then show ?thesis by (simp add: dom_jquery_def active_parts fun_eq_iff cong: filter_cong)
qed

interpretation dom_page: jquery_page dom_jquery
proof
  fix c sel :: jsstr and es fs :: "nat list" and d :: dom and e x y z :: nat
  show "has_class dom_jquery (toggleClass dom_jquery c es d) e c \<longleftrightarrow> has_class dom_jquery d e c \<noteq> (e \<in> set es)"
    if "SP \<notin> set c" using that by (auto simp: dom_jquery_def Let_def split_single_none)
  show "is_hidden dom_jquery (slideToggle dom_jquery es d) e \<longleftrightarrow> \<not> is_hidden dom_jquery d e"
    if "e \<in> set es" "\<not> covered dom_jquery d e"
  proof -
    have "\<forall>a \<in> set (above d e). a \<notin> set (d_hidden d)"
      using that(2) above_up by (fastforce simp: covered_def dom_jquery_def)
    then show ?thesis using that(1) by (auto simp: dom_jquery_def list_all_iff)
  qed
  show "parent_of dom_jquery d x \<noteq> None \<and> parent_of dom_jquery d x = parent_of dom_jquery d y"
    if "y \<in> set (next_of dom_jquery [x] d)" using that by (auto simp: dom_jquery_def d_next_def)
  show "x = y" if "z \<in> set (next_of dom_jquery [x] d)" "z \<in> set (next_of dom_jquery [y] d)"
    using that next_from by (auto simp: dom_jquery_def)
  show "has_class dom_jquery d e (lit ''active'')" if "e \<in> set (query dom_jquery (lit ''.active'') d)"
    using that by (simp add: active_query) (simp add: dom_jquery_def)
  show "e \<in> set (query dom_jquery (lit ''.active'') d)"
    if "has_class dom_jquery d e (lit ''active'')" "parent_of dom_jquery d e \<noteq> None"
    using that d_up_node [of d e] by (auto simp: active_query) (auto simp: dom_jquery_def)
  show "closest dom_jquery sel es (removeClass dom_jquery c fs d) = closest dom_jquery sel es d" if "mentions_none c sel"
  proof -
    have "\<And>k. sublist k sel \<Longrightarrow> k \<notin> class_words c" using that by (auto simp: mentions_none_def)
    from alike_compound [OF alike_class(2) this]
    have "compound_holds (removeClass dom_jquery c fs d) sel = compound_holds d sel" by (simp add: fun_eq_iff)
    moreover have "closest dom_jquery sel es d' = concat (map (\<lambda>x. take 1 (filter (compound_holds d' sel) (x # above d' x))) es)" for d'
      by (simp add: dom_jquery_def)
    ultimately show ?thesis by (simp only: alike_above [OF alike_class(2)])
  qed
qed (auto simp: dom_jquery_def same_shape_def Let_def d_next_simps)

end
