(* ===== verification/Superfish.thy ===== *)
theory Superfish
  imports JQuery
begin

text \<open>
  The drop-down menus of another page (\<open>superfish.js\<close>): the plugin's set-up of each menu, the handlers \<open>over\<close>
  and \<open>out\<close>, the timer that closes an item, and the two methods \<open>hideSuperfishUl\<close> and
  \<open>showSuperfishUl\<close>.  The state holds the document, the list \<open>sf.o\<close> of the option objects of all menus, the
  global variable \<open>sf.op\<close> (an index into that list: the menu that was touched last), each menu's timer
  number, the timers that are set with what their closures hold, and the animations: \<open>fx\<close> lists the submenus being
  shown, each with the elements its callback is for.  jQuery starts an animation at once when the submenu has none, and
  otherwise when the ones before it are at their end; the start displays the submenu, the end is a step of its own.
  Hiding an element does not stop its animations.  The opacity itself is not modelled.  jQuery is a parameter.  The
  callbacks \<open>onInit\<close>, \<open>onBeforeShow\<close>, \<open>onShow\<close> and \<open>onHide\<close> are the empty defaults.
\<close>

section \<open>State\<close>

record 'e sf_options =
  hoverClass :: jsstr
  pathClass :: jsstr
  pathLevels :: nat
  autoArrows :: bool
  dropShadows :: bool
  path :: "'e list"
  retainPath :: bool

record ('e, 'd) fish =
  page_doc :: 'd
  sf_o :: "'e sf_options list"
  sf_op :: nat
  serial :: "'e \<rightharpoonup> nat"
  sfTimer :: "'e \<rightharpoonup> nat"
  timers :: "(nat \<times> 'e list \<times> nat) list"
  next_timer :: nat
  fx :: "('e \<times> 'e list) list"

definition bcClass :: jsstr where "bcClass = lit ''sf-breadcrumb''"
definition menuClass :: jsstr where "menuClass = lit ''sf-js-enabled''"
definition anchorClass :: jsstr where "anchorClass = lit ''sf-with-ul''"
definition shadowClass :: jsstr where "shadowClass = lit ''sf-shadow''"

definition sf_defaults :: "'e sf_options" where
  "sf_defaults = \<lparr>hoverClass = lit ''sfHover'', pathClass = lit ''overideThisToUse'', pathLevels = 1,
     autoArrows = False, dropShadows = False, path = [], retainPath = False\<rparr>"

definition current :: "('e, 'd) fish \<Rightarrow> 'e sf_options" where
  "current st = sf_o st ! sf_op st"

definition set_retain :: "nat \<Rightarrow> bool \<Rightarrow> ('e, 'd) fish \<Rightarrow> ('e, 'd) fish" where
  "set_retain k b st = st\<lparr>sf_o := (sf_o st)[k := (sf_o st ! k)\<lparr>retainPath := b\<rparr>]\<rparr>"

section \<open>Showing and hiding\<close>

text \<open>\<open>ie7\<close>: the browser is an Internet Explorer from version 7 on.\<close>

definition IE7fix :: "('e, 'd) jquery \<Rightarrow> bool \<Rightarrow> 'e sf_options \<Rightarrow> 'e list \<Rightarrow> 'd \<Rightarrow> 'd" where
  "IE7fix J ie7 opt ul d = (if ie7 \<and> dropShadows opt then toggleClass J (shadowClass @ lit ''-off'') ul d else d)"

definition hide_targets :: "('e, 'd) jquery \<Rightarrow> 'e list \<Rightarrow> ('e, 'd) fish \<Rightarrow> 'e list" where
  "hide_targets J this st =
     (let opt = current st; kept = (if retainPath opt then path opt else [])
      in filter (\<lambda>e. e \<notin> set kept) (query_in J (lit ''li.'' @ hoverClass opt) this (page_doc st) @ this))"

definition hideSuperfishUl :: "('e, 'd) jquery \<Rightarrow> 'e list \<Rightarrow> ('e, 'd) fish \<Rightarrow> ('e, 'd) fish" where
  "hideSuperfishUl J this st =
     (let ts = hide_targets J this st;
          d1 = removeClass J (hoverClass (current st)) ts (page_doc st);
          ul = query_in J (lit ''>ul'') ts d1
      in (set_retain (sf_op st) False st)\<lparr>page_doc := visibility J (lit ''hidden'') ul (hide J ul d1)\<rparr>)"

text \<open>
  \<open>animate\<close> for one element: it waits behind the animations of that element, or starts.  At the end of the first
  one its callback runs, with the options that are current by then, and the next one starts.
\<close>

definition animates :: "('e, 'd) fish \<Rightarrow> 'e \<Rightarrow> bool" where
  "animates st u = (u \<in> set (map fst (fx st)))"

definition start_show :: "('e, 'd) jquery \<Rightarrow> 'e \<Rightarrow> ('e, 'd) fish \<Rightarrow> ('e, 'd) fish" where
  "start_show J u st = st\<lparr>page_doc := reveal J [u] (page_doc st)\<rparr>"

definition animate_show :: "('e, 'd) jquery \<Rightarrow> 'e list \<Rightarrow> 'e \<Rightarrow> ('e, 'd) fish \<Rightarrow> ('e, 'd) fish" where
  "animate_show J ul u st = (if animates st u then st else start_show J u st)\<lparr>fx := fx st @ [(u, ul)]\<rparr>"

definition showSuperfishUl :: "('e, 'd) jquery \<Rightarrow> bool \<Rightarrow> 'e list \<Rightarrow> ('e, 'd) fish \<Rightarrow> ('e, 'd) fish" where
  "showSuperfishUl J ie7 this st =
     (let opt = current st;
          d1 = addClass J (hoverClass opt) this (page_doc st);
          ul = query_in J (lit ''>ul:hidden'') this d1;
          d2 = IE7fix J ie7 opt ul (visibility J (lit ''visible'') ul d1)
      in fold (animate_show J ul) ul (st\<lparr>page_doc := d2\<rparr>))"

definition animation_end :: "('e, 'd) jquery \<Rightarrow> bool \<Rightarrow> 'e \<Rightarrow> ('e, 'd) fish \<Rightarrow> ('e, 'd) fish option" where
  "animation_end J ie7 u st =
     (case find (\<lambda>x. fst x = u) (fx st) of
        None \<Rightarrow> None
      | Some x \<Rightarrow>
          (let st1 = st\<lparr>fx := remove1 x (fx st), page_doc := IE7fix J ie7 (current st) (snd x) (page_doc st)\<rparr>
           in Some (if animates st1 u then start_show J u st1 else st1)))"

section \<open>The handlers\<close>

text \<open>\<open>None\<close> is the \<open>TypeError\<close> for elements outside every menu.\<close>

definition getMenu :: "('e, 'd) jquery \<Rightarrow> 'e list \<Rightarrow> ('e, 'd) fish \<Rightarrow> ('e \<times> ('e, 'd) fish) option" where
  "getMenu J es st =
     (case parents J (lit ''ul.'' @ menuClass @ lit '':first'') es (page_doc st) of
        [] \<Rightarrow> None
      | menu # _ \<Rightarrow> (case serial st menu of None \<Rightarrow> None | Some k \<Rightarrow> Some (menu, st\<lparr>sf_op := k\<rparr>)))"

definition clearTimeout :: "nat option \<Rightarrow> ('e, 'd) fish \<Rightarrow> ('e, 'd) fish" where
  "clearTimeout t st = st\<lparr>timers := filter (\<lambda>x. Some (fst x) \<noteq> t) (timers st)\<rparr>"

definition over :: "('e, 'd) jquery \<Rightarrow> bool \<Rightarrow> 'e list \<Rightarrow> ('e, 'd) fish \<Rightarrow> ('e, 'd) fish option" where
  "over J ie7 this st =
     (case getMenu J this st of
        None \<Rightarrow> None
      | Some (menu, st1) \<Rightarrow>
          (let st2 = showSuperfishUl J ie7 this (clearTimeout (sfTimer st1 menu) st1)
           in Some (hideSuperfishUl J (siblings J this (page_doc st2)) st2)))"

definition out :: "('e, 'd) jquery \<Rightarrow> 'e list \<Rightarrow> ('e, 'd) fish \<Rightarrow> ('e, 'd) fish option" where
  "out J this st =
     (case getMenu J this st of
        None \<Rightarrow> None
      | Some (menu, st1) \<Rightarrow>
          (let st2 = clearTimeout (sfTimer st1 menu) st1; t = next_timer st2
           in Some (st2\<lparr>sfTimer := (sfTimer st2)(menu \<mapsto> t), timers := timers st2 @ [(t, this, sf_op st2)],
                        next_timer := Suc t\<rparr>)))"

text \<open>The closure of a timer: its item, and the option object that was current when it was set.\<close>

definition closing :: "('e, 'd) jquery \<Rightarrow> bool \<Rightarrow> 'e list \<Rightarrow> nat \<Rightarrow> ('e, 'd) fish \<Rightarrow> ('e, 'd) fish option" where
  "closing J ie7 this k st =
     (let st1 = set_retain k (this \<noteq> [] \<and> hd this \<in> set (path (sf_o st ! k))) st;
          st2 = hideSuperfishUl J this st1;
          opt = sf_o st2 ! k
      in if path opt \<noteq> [] \<and> parents J (lit ''li.'' @ hoverClass opt) this (page_doc st2) = []
         then over J ie7 (path opt) st2 else Some st2)"

definition fire_timer :: "('e, 'd) jquery \<Rightarrow> bool \<Rightarrow> nat \<Rightarrow> ('e, 'd) fish \<Rightarrow> ('e, 'd) fish option" where
  "fire_timer J ie7 n st =
     (case timers st ! n of
        (t, this, k) \<Rightarrow> closing J ie7 this k (st\<lparr>timers := take n (timers st) @ drop (Suc n) (timers st)\<rparr>))"

section \<open>Set-up\<close>

definition addArrow :: "('e, 'd) jquery \<Rightarrow> ('e list \<Rightarrow> 'd \<Rightarrow> 'd) \<Rightarrow> 'e list \<Rightarrow> 'd \<Rightarrow> 'd" where
  "addArrow J append_arrow a d = append_arrow a (addClass J anchorClass a d)"

definition mark_path :: "('e, 'd) jquery \<Rightarrow> 'e sf_options \<Rightarrow> 'e \<Rightarrow> 'd \<Rightarrow> 'd" where
  "mark_path J opt e d =
     (let d1 = addClass J (hoverClass opt @ [SP] @ bcClass) [e] d
      in removeClass J (pathClass opt) (filter_sel J (lit ''li:has(ul)'') [e] d1) d1)"

definition init_menu ::
  "('e, 'd) jquery \<Rightarrow> ('e list \<Rightarrow> 'd \<Rightarrow> 'd) \<Rightarrow> 'e sf_options \<Rightarrow> 'e \<Rightarrow> ('e, 'd) fish \<Rightarrow> ('e, 'd) fish" where
  "init_menu J append_arrow opts menu st =
     (let s = length (sf_o st);
          ps = take (pathLevels opts) (query_in J (lit ''li.'' @ pathClass opts) [menu] (page_doc st));
          d1 = fold (mark_path J opts) ps (page_doc st);
          items = query_in J (lit ''li:has(ul)'') [menu] d1;
          d2 = (if autoArrows opts
                then fold (\<lambda>e d. addArrow J append_arrow (query_in J (lit ''>a:first-child'') [e] d) d) items d1 else d1);
          st1 = st\<lparr>page_doc := d2, sf_o := sf_o st @ [opts\<lparr>path := ps\<rparr>], sf_op := s, serial := (serial st)(menu \<mapsto> s)\<rparr>
      in hideSuperfishUl J (filter (\<lambda>e. \<not> has_class J d2 e bcClass) items) st1)"

definition mark_menu :: "('e, 'd) jquery \<Rightarrow> bool \<Rightarrow> 'e \<Rightarrow> ('e, 'd) fish \<Rightarrow> ('e, 'd) fish" where
  "mark_menu J old_ie menu st =
     (let classes = [menuClass] @ (if dropShadows (current st) \<and> \<not> old_ie then [shadowClass] else [])
      in st\<lparr>page_doc := addClass J (join [SP] classes) [menu] (page_doc st)\<rparr>)"

definition superfish ::
  "('e, 'd) jquery \<Rightarrow> ('e list \<Rightarrow> 'd \<Rightarrow> 'd) \<Rightarrow> bool \<Rightarrow> 'e sf_options \<Rightarrow> 'e list \<Rightarrow> ('e, 'd) fish \<Rightarrow> ('e, 'd) fish" where
  "superfish J append_arrow old_ie opts menus st =
     fold (mark_menu J old_ie) menus (fold (init_menu J append_arrow opts) menus st)"

section \<open>Runs\<close>

text \<open>
  The events: the mouse over or out of an item with a submenu, the focus or its loss of a link (the handlers then get
  all list items around the link), a timer, and the end of an animation.
\<close>

inductive fish_step :: "('e, 'd) jquery \<Rightarrow> bool \<Rightarrow> ('e, 'd) fish \<Rightarrow> ('e, 'd) fish \<Rightarrow> bool" for J ie7 where
  mouse_over: "over J ie7 [e] st = Some st' \<Longrightarrow> fish_step J ie7 st st'"
| mouse_out: "out J [e] st = Some st' \<Longrightarrow> fish_step J ie7 st st'"
| focus: "over J ie7 (parents J (lit ''li'') [a] (page_doc st)) st = Some st' \<Longrightarrow> fish_step J ie7 st st'"
| blur: "out J (parents J (lit ''li'') [a] (page_doc st)) st = Some st' \<Longrightarrow> fish_step J ie7 st st'"
| timer: "n < length (timers st) \<Longrightarrow> fire_timer J ie7 n st = Some st' \<Longrightarrow> fish_step J ie7 st st'"
| shown: "animation_end J ie7 u st = Some st' \<Longrightarrow> fish_step J ie7 st st'"

section \<open>What the methods change\<close>

lemma set_retain_sel [simp]:
  "page_doc (set_retain k b st) = page_doc st" "sf_op (set_retain k b st) = sf_op st"
  "serial (set_retain k b st) = serial st" "timers (set_retain k b st) = timers st"
  "sfTimer (set_retain k b st) = sfTimer st" "next_timer (set_retain k b st) = next_timer st"
  "fx (set_retain k b st) = fx st" "length (sf_o (set_retain k b st)) = length (sf_o st)"
  by (simp_all add: set_retain_def)

lemma start_show_sel [simp]:
  "page_doc (start_show J u st) = reveal J [u] (page_doc st)" "sf_op (start_show J u st) = sf_op st"
  "serial (start_show J u st) = serial st" "timers (start_show J u st) = timers st"
  "sfTimer (start_show J u st) = sfTimer st" "next_timer (start_show J u st) = next_timer st"
  "fx (start_show J u st) = fx st" "sf_o (start_show J u st) = sf_o st"
  by (simp_all add: start_show_def)

lemma animate_show_sel [simp]:
  "sf_op (fold (animate_show J ul) us st) = sf_op st" "serial (fold (animate_show J ul) us st) = serial st"
  "timers (fold (animate_show J ul) us st) = timers st" "sfTimer (fold (animate_show J ul) us st) = sfTimer st"
  "next_timer (fold (animate_show J ul) us st) = next_timer st" "sf_o (fold (animate_show J ul) us st) = sf_o st"
  "fx (fold (animate_show J ul) us st) = fx st @ map (\<lambda>u. (u, ul)) us"
  by (induction us arbitrary: st) (simp_all add: animate_show_def)

text \<open>The plain class name \<open>h\<close> marks the open items.\<close>

definition plain_class :: "jsstr \<Rightarrow> bool" where
  "plain_class h \<longleftrightarrow> SP \<notin> set h \<and> h \<notin> {shadowClass @ lit ''-off'', shadowClass, menuClass, anchorClass}"

lemma plain_class_words: "plain_class h \<Longrightarrow> class_words h = {h}"
  by (simp add: plain_class_def class_words_def split_single_none)

lemma plain_shadow: "plain_class h \<Longrightarrow> h \<notin> class_words (shadowClass @ lit ''-off'')"
  by (auto simp: plain_class_def class_words_def shadowClass_def lit_def split_single_none)

context jquery
begin

lemma IE7fix_laws:
  "plain_class h \<Longrightarrow> has_class J (IE7fix J ie7 opt ul d) e h = has_class J d e h"
  "is_hidden J (IE7fix J ie7 opt ul d) = is_hidden J d" "veiled J (IE7fix J ie7 opt ul d) = veiled J d"
  "parent_of J (IE7fix J ie7 opt ul d) = parent_of J d" "tag_of J (IE7fix J ie7 opt ul d) = tag_of J d"
  by (simp_all add: IE7fix_def toggle_other plain_shadow class_sight shape_laws veil_laws)

lemma animate_laws:
  "has_class J (page_doc (fold (animate_show J ul) us st)) = has_class J (page_doc st)"
  "veiled J (page_doc (fold (animate_show J ul) us st)) = veiled J (page_doc st)"
  "parent_of J (page_doc (fold (animate_show J ul) us st)) = parent_of J (page_doc st)"
  "tag_of J (page_doc (fold (animate_show J ul) us st)) = tag_of J (page_doc st)"
  by (induction us arbitrary: st) (simp_all add: animate_show_def class_laws shape_laws veil_laws)

text \<open>Without an animation to wait for, every element is displayed at once.\<close>

lemma animate_free:
  "distinct (map fst (fx st) @ us) \<Longrightarrow>
   is_hidden J (page_doc (fold (animate_show J ul) us st)) e \<longleftrightarrow> is_hidden J (page_doc st) e \<and> e \<notin> set us"
proof (induction us arbitrary: st)
  case (Cons u us)
  then have u: "animate_show J ul u st = (start_show J u st)\<lparr>fx := fx st @ [(u, ul)]\<rparr>" by (auto simp: animate_show_def animates_def)
  have "distinct (map fst (fx (animate_show J ul u st)) @ us)" using Cons.prems by (auto simp: u)
  from Cons.IH [OF this] show ?case by (auto simp: u sight_laws)
qed simp

lemma closed_class:
  assumes "plain_class h" "hoverClass (current st) = h"
  shows "has_class J (page_doc (hideSuperfishUl J this st)) e h \<longleftrightarrow>
    has_class J (page_doc st) e h \<and> e \<notin> set (hide_targets J this st)"
  using assms by (simp add: hideSuperfishUl_def Let_def class_laws plain_class_words)

lemma opened_class:
  assumes "plain_class h" "hoverClass (current st) = h"
  shows "has_class J (page_doc (showSuperfishUl J ie7 this st)) e h \<longleftrightarrow> has_class J (page_doc st) e h \<or> e \<in> set this"
  using assms by (simp add: showSuperfishUl_def Let_def animate_laws IE7fix_laws class_laws plain_class_words)

lemma closed_hidden:
  "is_hidden J (page_doc (hideSuperfishUl J this st)) u \<longleftrightarrow> is_hidden J (page_doc st) u \<or>
     tag_of J (page_doc st) u = lit ''ul'' \<and> (\<exists>x \<in> set (hide_targets J this st). parent_of J (page_doc st) u = Some x)"
  "veiled J (page_doc (hideSuperfishUl J this st)) u \<longleftrightarrow> veiled J (page_doc st) u \<or>
     tag_of J (page_doc st) u = lit ''ul'' \<and> (\<exists>x \<in> set (hide_targets J this st). parent_of J (page_doc st) u = Some x)"
  by (simp_all add: hideSuperfishUl_def Let_def sight_laws veil_laws child_uls shape_laws)

text \<open>Opening: the submenus that are not displayed lose the visibility style and, with no animation before them, are displayed.\<close>

definition to_show :: "'e list \<Rightarrow> ('e, 'd) fish \<Rightarrow> 'e list" where
  "to_show this st = query_in J (lit ''>ul:hidden'') this (addClass J (hoverClass (current st)) this (page_doc st))"

lemma to_show_child:
  "u \<in> set (to_show this st) \<Longrightarrow> \<exists>x \<in> set this. parent_of J (page_doc st) u = Some x"
  "tag_of J (page_doc st) u = lit ''ul'' \<Longrightarrow> parent_of J (page_doc st) u = Some x \<Longrightarrow> x \<in> set this \<Longrightarrow>
   is_hidden J (page_doc st) u \<Longrightarrow> u \<in> set (to_show this st)"
  using hidden_uls [of u this "addClass J (hoverClass (current st)) this (page_doc st)"]
  by (auto simp: to_show_def child_uls shape_laws sight_laws)

lemma opened_fx: "fx (showSuperfishUl J ie7 this st) = fx st @ map (\<lambda>u. (u, to_show this st)) (to_show this st)"
  by (simp add: showSuperfishUl_def Let_def to_show_def)

lemma opened_veiled: "veiled J (page_doc (showSuperfishUl J ie7 this st)) u \<longleftrightarrow> veiled J (page_doc st) u \<and> u \<notin> set (to_show this st)"
  by (simp add: showSuperfishUl_def Let_def to_show_def animate_laws IE7fix_laws veil_laws)

lemma opened_hidden:
  "distinct (map fst (fx (showSuperfishUl J ie7 this st))) \<Longrightarrow>
   is_hidden J (page_doc (showSuperfishUl J ie7 this st)) u \<longleftrightarrow> is_hidden J (page_doc st) u \<and> u \<notin> set (to_show this st)"
  unfolding opened_fx by (simp add: showSuperfishUl_def Let_def to_show_def animate_free IE7fix_laws sight_laws comp_def)

lemma methods_shape:
  "parent_of J (page_doc (hideSuperfishUl J this st)) = parent_of J (page_doc st)"
  "tag_of J (page_doc (hideSuperfishUl J this st)) = tag_of J (page_doc st)"
  "parent_of J (page_doc (showSuperfishUl J ie7 this st)) = parent_of J (page_doc st)"
  "tag_of J (page_doc (showSuperfishUl J ie7 this st)) = tag_of J (page_doc st)"
  by (simp_all add: hideSuperfishUl_def showSuperfishUl_def Let_def animate_laws IE7fix_laws shape_laws)

end

lemma methods_frame [simp]:
  "serial (hideSuperfishUl J this st) = serial st" "sf_op (hideSuperfishUl J this st) = sf_op st"
  "timers (hideSuperfishUl J this st) = timers st" "sfTimer (hideSuperfishUl J this st) = sfTimer st"
  "next_timer (hideSuperfishUl J this st) = next_timer st" "fx (hideSuperfishUl J this st) = fx st"
  "sf_o (hideSuperfishUl J this st) = sf_o (set_retain (sf_op st) False st)"
  "serial (showSuperfishUl J ie7 this st) = serial st" "sf_op (showSuperfishUl J ie7 this st) = sf_op st"
  "timers (showSuperfishUl J ie7 this st) = timers st" "sfTimer (showSuperfishUl J ie7 this st) = sfTimer st"
  "next_timer (showSuperfishUl J ie7 this st) = next_timer st" "sf_o (showSuperfishUl J ie7 this st) = sf_o st"
  by (simp_all add: hideSuperfishUl_def showSuperfishUl_def Let_def set_retain_def)

section \<open>The invariant\<close>

text \<open>No two items of one list are open.\<close>

definition one_open :: "('e, 'd) jquery \<Rightarrow> jsstr \<Rightarrow> 'd \<Rightarrow> bool" where
  "one_open J h d \<longleftrightarrow> (\<forall>e f. e \<noteq> f \<and> parent_of J d e \<noteq> None \<and> parent_of J d e = parent_of J d f \<longrightarrow>
     \<not> (has_class J d e h \<and> has_class J d f h))"

text \<open>
  The reader sees an element that is displayed and not made invisible.  Of the items of \<open>X\<close>: a closed one has
  its submenu made invisible; and, the second property, an open one has its submenu displayed and visible, a
  closed one has it neither displayed nor visible.
\<close>

definition seen :: "('e, 'd) jquery \<Rightarrow> 'd \<Rightarrow> 'e \<Rightarrow> bool" where
  "seen J d u \<longleftrightarrow> \<not> is_hidden J d u \<and> \<not> veiled J d u"

definition submenu :: "('e, 'd) jquery \<Rightarrow> 'd \<Rightarrow> 'e \<Rightarrow> 'e \<Rightarrow> bool" where
  "submenu J d x u \<longleftrightarrow> tag_of J d u = lit ''ul'' \<and> parent_of J d u = Some x"

definition closed_veiled :: "('e, 'd) jquery \<Rightarrow> jsstr \<Rightarrow> 'e set \<Rightarrow> 'd \<Rightarrow> bool" where
  "closed_veiled J h X d \<longleftrightarrow> (\<forall>x u. x \<in> X \<and> submenu J d x u \<and> \<not> has_class J d x h \<longrightarrow> veiled J d u)"

definition tidy :: "('e, 'd) jquery \<Rightarrow> jsstr \<Rightarrow> 'e set \<Rightarrow> 'd \<Rightarrow> bool" where
  "tidy J h X d \<longleftrightarrow> (\<forall>x u. x \<in> X \<and> submenu J d x u \<longrightarrow>
     is_hidden J d u = (\<not> has_class J d x h) \<and> veiled J d u = (\<not> has_class J d x h))"

text \<open>No animation waits behind another one of the same submenu.\<close>

definition calm :: "('e, 'd) fish \<Rightarrow> bool" where
  "calm st = distinct (map fst (fx st))"

definition calm_step :: "('e, 'd) jquery \<Rightarrow> bool \<Rightarrow> ('e, 'd) fish \<Rightarrow> ('e, 'd) fish \<Rightarrow> bool" where
  "calm_step J ie7 st st' \<longleftrightarrow> fish_step J ie7 st st' \<and> calm st'"

text \<open>
  The option objects: all with the class \<open>h\<close>, none asks to retain the path, and there is only one menu
  or no path; the current one and those of the menus and timers exist.
\<close>

definition quiet :: "jsstr \<Rightarrow> ('e, 'd) fish \<Rightarrow> bool" where
  "quiet h st \<longleftrightarrow> sf_op st < length (sf_o st) \<and> (\<forall>m k. serial st m = Some k \<longrightarrow> k < length (sf_o st)) \<and>
     (\<forall>(t, es, k) \<in> set (timers st). k < length (sf_o st)) \<and>
     (\<forall>opt \<in> set (sf_o st). hoverClass opt = h \<and> \<not> retainPath opt \<and> (path opt = [] \<or> length (sf_o st) = 1))"

definition settled :: "('e, 'd) jquery \<Rightarrow> jsstr \<Rightarrow> 'e set \<Rightarrow> ('e, 'd) fish \<Rightarrow> bool" where
  "settled J h X st \<longleftrightarrow> quiet h st \<and> one_open J h (page_doc st) \<and> closed_veiled J h X (page_doc st)"

lemma quiet_current: "quiet h st \<Longrightarrow> hoverClass (current st) = h \<and> \<not> retainPath (current st)"
  by (simp add: quiet_def current_def)

lemma quiet_retain: "quiet h st \<Longrightarrow> set_retain k False st = st"
proof -
  assume q: "quiet h st"
  have "(sf_o st)[k := (sf_o st ! k)\<lparr>retainPath := False\<rparr>] = sf_o st"
  proof (cases "k < length (sf_o st)")
    case True
    then have "\<not> retainPath (sf_o st ! k)" using q by (simp add: quiet_def)
    then have "(sf_o st ! k)\<lparr>retainPath := False\<rparr> = sf_o st ! k" by (cases "sf_o st ! k") simp
    then show ?thesis by simp
  qed (simp add: list_update_beyond)
  then show ?thesis by (simp add: set_retain_def)
qed

lemma quiet_doc [simp]: "quiet h (st\<lparr>page_doc := d\<rparr>) = quiet h st"
  by (simp add: quiet_def)

lemma quiet_methods:
  "quiet h st \<Longrightarrow> quiet h (hideSuperfishUl J this st)" "quiet h st \<Longrightarrow> quiet h (showSuperfishUl J ie7 this st)"
  by (simp add: hideSuperfishUl_def Let_def quiet_retain) (simp add: quiet_def)

lemma quiet_clear: "quiet h st \<Longrightarrow> quiet h (clearTimeout t st)"
  by (auto simp: quiet_def clearTimeout_def)

lemma quiet_menu: "quiet h st \<Longrightarrow> getMenu J es st = Some (menu, st1) \<Longrightarrow> quiet h st1 \<and> page_doc st1 = page_doc st"
  by (auto simp: getMenu_def quiet_def split: list.splits option.splits)

lemma over_parts:
  assumes "over J ie7 this st = Some st'"
  obtains stc where "page_doc stc = page_doc st" "fx stc = fx st" "\<And>h. quiet h st \<Longrightarrow> quiet h stc"
    "st' = hideSuperfishUl J (siblings J this (page_doc (showSuperfishUl J ie7 this stc))) (showSuperfishUl J ie7 this stc)"
proof -
  obtain menu st1 where g: "getMenu J this st = Some (menu, st1)"
    using assms by (auto simp: over_def split: option.splits)
  let ?c = "clearTimeout (sfTimer st1 menu) st1"
  have "page_doc st1 = page_doc st" "fx st1 = fx st"
    using g by (auto simp: getMenu_def split: list.splits option.splits)
  moreover have "quiet h ?c" if "quiet h st" for h using quiet_menu [OF that g] quiet_clear by blast
  ultimately show ?thesis using assms g that [of ?c] by (simp add: over_def Let_def clearTimeout_def)
qed

context jquery
begin

lemma hide_settled:
  assumes "plain_class h" "settled J h X st"
  shows "settled J h X (hideSuperfishUl J this st)"
proof -
  have q: "quiet h st" and h: "hoverClass (current st) = h" using assms(2) quiet_current by (auto simp: settled_def)
  note eff = closed_class [OF assms(1) h, of this] closed_hidden [of this st] methods_shape submenu_def
  have "one_open J h (page_doc (hideSuperfishUl J this st))"
    using assms(2) unfolding settled_def one_open_def eff by metis
  moreover have "closed_veiled J h X (page_doc (hideSuperfishUl J this st))"
    using assms(2) unfolding settled_def closed_veiled_def eff by auto
  ultimately show ?thesis using quiet_methods(1) [OF q] by (simp add: settled_def)
qed

lemma hide_tidy:
  assumes "plain_class h" "hoverClass (current st) = h" "tidy J h X (page_doc st)"
  shows "tidy J h X (page_doc (hideSuperfishUl J this st))"
  using assms(3) unfolding tidy_def submenu_def closed_class [OF assms(1,2)] closed_hidden methods_shape by auto

text \<open>Opening items and closing their siblings: nothing else stays open beside them.\<close>

lemma over_settled:
  assumes "plain_class h" "settled J h X st" "over J ie7 this st = Some st'"
  shows "settled J h X st'"
proof -
  obtain stc where doc: "page_doc stc = page_doc st" and c: "quiet h stc"
    and st': "st' = hideSuperfishUl J (siblings J this (page_doc (showSuperfishUl J ie7 this stc))) (showSuperfishUl J ie7 this stc)"
    using over_parts [OF assms(3)] assms(2) unfolding settled_def by metis
  define st2 where "st2 = showSuperfishUl J ie7 this stc"
  let ?s = "siblings J this (page_doc st2)"
  have hc: "hoverClass (current stc) = h" using quiet_current [OF c] by blast
  have q2: "quiet h st2" using quiet_methods(2) [OF c] by (simp add: st2_def)
  then have h2: "hoverClass (current st2) = h" "\<not> retainPath (current st2)" using quiet_current by auto
  note shown = opened_class [OF assms(1) hc, of ie7 this] opened_veiled [of ie7 this stc] methods_shape
  have sib: "set ?s \<subseteq> set (hide_targets J ?s st2)" using h2(2) by (auto simp: hide_targets_def)
  have one: "one_open J h (page_doc (hideSuperfishUl J ?s st2))" unfolding one_open_def
  proof (intro allI impI notI)
    fix e f
    assume ef: "e \<noteq> f \<and> parent_of J (page_doc (hideSuperfishUl J ?s st2)) e \<noteq> None \<and>
        parent_of J (page_doc (hideSuperfishUl J ?s st2)) e = parent_of J (page_doc (hideSuperfishUl J ?s st2)) f"
      and "has_class J (page_doc (hideSuperfishUl J ?s st2)) e h \<and> has_class J (page_doc (hideSuperfishUl J ?s st2)) f h"
    then have o: "has_class J (page_doc st2) e h" "has_class J (page_doc st2) f h" "e \<notin> set ?s" "f \<notin> set ?s"
      using closed_class [OF assms(1) h2(1), of ?s] sib by auto
    have p: "parent_of J (page_doc st2) e \<noteq> None" "parent_of J (page_doc st2) e = parent_of J (page_doc st2) f"
      using ef unfolding methods_shape by metis+
    have "e \<notin> set this" "f \<notin> set this" using o(3,4) p ef by (auto simp: siblings)
    then have "has_class J (page_doc st) e h" "has_class J (page_doc st) f h"
      using o(1,2) shown(1) doc by (simp_all add: st2_def)
    moreover have "parent_of J (page_doc st) e \<noteq> None" "parent_of J (page_doc st) e = parent_of J (page_doc st) f"
      using p doc by (simp_all add: st2_def methods_shape)
    ultimately show False using assms(2) ef unfolding settled_def one_open_def by blast
  qed
  have "closed_veiled J h X (page_doc st2)"
    using assms(2) to_show_child(1) [of _ this stc]
    unfolding settled_def closed_veiled_def st2_def shown submenu_def doc by fastforce
  then have "closed_veiled J h X (page_doc (hideSuperfishUl J ?s st2))"
    unfolding closed_veiled_def submenu_def closed_class [OF assms(1) h2(1), of ?s] closed_hidden [of ?s st2] methods_shape by auto
  with one quiet_methods(1) [OF q2] show ?thesis by (simp add: settled_def st' st2_def)
qed

lemma over_tidy:
  assumes "plain_class h" "quiet h st" "tidy J h X (page_doc st)" "over J ie7 this st = Some st'" "calm st'"
  shows "tidy J h X (page_doc st')"
proof -
  obtain stc where doc: "page_doc stc = page_doc st" and c: "quiet h stc"
    and st': "st' = hideSuperfishUl J (siblings J this (page_doc (showSuperfishUl J ie7 this stc))) (showSuperfishUl J ie7 this stc)"
    using over_parts [OF assms(4)] assms(2) by metis
  have hc: "hoverClass (current stc) = h" using quiet_current [OF c] by blast
  have h2: "hoverClass (current (showSuperfishUl J ie7 this stc)) = h"
    using quiet_current [OF quiet_methods(2) [OF c]] by blast
  have d: "distinct (map fst (fx (showSuperfishUl J ie7 this stc)))" using assms(5) by (simp add: calm_def st')
  note shown = opened_class [OF assms(1) hc, of ie7 this] opened_veiled [of ie7 this stc] opened_hidden [OF d] methods_shape
  have "tidy J h X (page_doc (showSuperfishUl J ie7 this stc))" unfolding tidy_def submenu_def shown
  proof (intro allI impI, elim conjE)
    fix x u assume u: "x \<in> X" "tag_of J (page_doc stc) u = lit ''ul''" "parent_of J (page_doc stc) u = Some x"
    then have "is_hidden J (page_doc stc) u = (\<not> has_class J (page_doc stc) x h)"
      "veiled J (page_doc stc) u = (\<not> has_class J (page_doc stc) x h)"
      using assms(3) doc by (auto simp: tidy_def submenu_def)
    then show "(is_hidden J (page_doc stc) u \<and> u \<notin> set (to_show this stc)) = (\<not> (has_class J (page_doc stc) x h \<or> x \<in> set this)) \<and>
        (veiled J (page_doc stc) u \<and> u \<notin> set (to_show this stc)) = (\<not> (has_class J (page_doc stc) x h \<or> x \<in> set this))"
      using to_show_child(1) [of u this stc] to_show_child(2) [OF u(2,3), of this] u(3) by auto
  qed
  from hide_tidy [OF assms(1) h2 this] show ?thesis by (simp add: st')
qed

text \<open>With one menu the mark that is set for the path is taken back by the closing itself.\<close>

lemma retained:
  fixes es :: "'e list" and st :: "('e, 'd) fish"
  assumes "quiet h st" "k < length (sf_o st)"
  defines "st1 \<equiv> set_retain k (es \<noteq> [] \<and> hd es \<in> set (path (sf_o st ! k))) st"
  shows "hoverClass (current st1) = h" "quiet h (hideSuperfishUl J es st1)"
proof -
  have "hoverClass (current st1) = h \<and> quiet h (set_retain (sf_op st1) False st1)"
  proof (cases "path (sf_o st ! k) = []")
    case True
    then have "st1 = st" using quiet_retain [OF assms(1), of k] by (simp add: st1_def)
    then show ?thesis using assms(1) quiet_current [OF assms(1)] quiet_retain [OF assms(1)] by simp
  next
    case False
    with assms have one: "length (sf_o st) = 1" by (auto simp: quiet_def)
    then have k: "k = 0" "sf_op st = 0" using assms by (auto simp: quiet_def)
    have "set_retain 0 False st1 = set_retain 0 False st" using k one by (simp add: st1_def set_retain_def)
    then show ?thesis using assms(1) quiet_retain [OF assms(1)] quiet_current [OF assms(1)] k one
      by (simp add: st1_def current_def set_retain_def)
  qed
  then show "hoverClass (current st1) = h" "quiet h (hideSuperfishUl J es st1)"
    by (simp_all add: hideSuperfishUl_def Let_def)
qed

lemma closing_settled:
  assumes "plain_class h" "settled J h X st" "k < length (sf_o st)" "closing J ie7 this k st = Some st'"
  shows "settled J h X st'"
proof -
  let ?st = "set_retain k (this \<noteq> [] \<and> hd this \<in> set (path (sf_o st ! k))) st"
  have q: "quiet h st" using assms(2) by (simp add: settled_def)
  note cur = retained [OF q assms(3), where es = this]
  note eff = closed_class [OF assms(1) cur(1), of this] closed_hidden [of this ?st] methods_shape set_retain_sel submenu_def
  have "one_open J h (page_doc (hideSuperfishUl J this ?st))"
    using assms(2) unfolding settled_def one_open_def eff by metis
  moreover have "closed_veiled J h X (page_doc (hideSuperfishUl J this ?st))"
    using assms(2) unfolding settled_def closed_veiled_def eff by auto
  ultimately have "settled J h X (hideSuperfishUl J this ?st)" using cur(2) by (simp add: settled_def)
  then show ?thesis using assms(4) over_settled [OF assms(1)] by (auto simp: closing_def Let_def split: if_splits)
qed

lemma closing_tidy:
  assumes "plain_class h" "quiet h st" "k < length (sf_o st)" "tidy J h X (page_doc st)" "closing J ie7 this k st = Some st'" "calm st'"
  shows "tidy J h X (page_doc st')"
proof -
  let ?st = "set_retain k (this \<noteq> [] \<and> hd this \<in> set (path (sf_o st ! k))) st"
  note cur = retained [OF assms(2,3), where es = this]
  have "tidy J h X (page_doc (hideSuperfishUl J this ?st))" by (rule hide_tidy [OF assms(1) cur(1)]) (simp add: assms(4))
  then show ?thesis using assms(5,6) over_tidy [OF assms(1) cur(2)] by (auto simp: closing_def Let_def split: if_splits)
qed

lemma out_settled:
  assumes "settled J h X st" "out J this st = Some st'"
  shows "settled J h X st'" "page_doc st' = page_doc st"
proof -
  obtain menu st1 where g: "getMenu J this st = Some (menu, st1)"
    and st': "st' = (let st2 = clearTimeout (sfTimer st1 menu) st1; t = next_timer st2
       in st2\<lparr>sfTimer := (sfTimer st2)(menu \<mapsto> t), timers := timers st2 @ [(t, this, sf_op st2)], next_timer := Suc t\<rparr>)"
    using assms(2) by (auto simp: out_def Let_def split: option.splits)
  have "quiet h (clearTimeout (sfTimer st1 menu) st1)" "page_doc st1 = page_doc st"
    using quiet_menu [OF _ g] quiet_clear assms(1) by (auto simp: settled_def)
  then show "settled J h X st'" "page_doc st' = page_doc st"
    using assms(1) by (auto simp: st' Let_def settled_def quiet_def clearTimeout_def)
qed

text \<open>The end of an animation shows at most a submenu that is made invisible, and nothing when no animation waits.\<close>

lemma animation_end_laws:
  assumes "animation_end J ie7 u st = Some st'" "plain_class h"
  shows "has_class J (page_doc st') e h = has_class J (page_doc st) e h" "veiled J (page_doc st') = veiled J (page_doc st)"
    "parent_of J (page_doc st') = parent_of J (page_doc st)" "tag_of J (page_doc st') = tag_of J (page_doc st)"
    "calm st \<Longrightarrow> is_hidden J (page_doc st') = is_hidden J (page_doc st)" "quiet h st' = quiet h st"
proof -
  obtain x where x: "find (\<lambda>x. fst x = u) (fx st) = Some x"
    using assms(1) by (auto simp: animation_end_def split: option.splits)
  then have fu: "fst x = u" "x \<in> set (fx st)" by (auto simp: find_Some_iff)
  have "u \<notin> fst ` set (remove1 x (fx st))" if "calm st"
  proof -
    have "distinct (fx st)" "inj_on fst (set (fx st))" using that by (auto simp: calm_def distinct_map)
    then show ?thesis using fu by (auto simp: set_remove1_eq inj_on_def)
  qed
  then show "calm st \<Longrightarrow> is_hidden J (page_doc st') = is_hidden J (page_doc st)"
    using assms(1) x by (auto simp: animation_end_def Let_def animates_def IE7fix_laws split: if_splits)
  show "has_class J (page_doc st') e h = has_class J (page_doc st) e h" "veiled J (page_doc st') = veiled J (page_doc st)"
    "parent_of J (page_doc st') = parent_of J (page_doc st)" "tag_of J (page_doc st') = tag_of J (page_doc st)"
    using assms x by (auto simp: animation_end_def Let_def IE7fix_laws class_laws veil_laws shape_laws split: if_splits)
  show "quiet h st' = quiet h st"
    using assms(1) x by (auto simp: animation_end_def Let_def quiet_def split: if_splits)
qed

lemma step_settled:
  assumes "plain_class h" "settled J h X st" "fish_step J ie7 st st'"
  shows "settled J h X st' \<and> (calm st \<and> calm st' \<and> tidy J h X (page_doc st) \<longrightarrow> tidy J h X (page_doc st'))"
  using assms(3)
proof cases
  case (timer n)
  obtain t this k where n: "timers st ! n = (t, this, k)" by (cases "timers st ! n")
  let ?st = "st\<lparr>timers := take n (timers st) @ drop (Suc n) (timers st)\<rparr>"
  have k: "k < length (sf_o ?st)" using assms(2) nth_mem [OF timer(1)] n by (fastforce simp: settled_def quiet_def)
  have s: "settled J h X ?st"
    using assms(2) by (auto simp: settled_def quiet_def dest: in_set_takeD in_set_dropD)
  then have q: "quiet h ?st" by (simp add: settled_def)
  have c: "closing J ie7 this k ?st = Some st'" using timer(2) n by (simp add: fire_timer_def)
  show ?thesis using closing_settled [OF assms(1) s k c] closing_tidy [OF assms(1) q k _ c] by simp
next
  case (shown u)
  note e = animation_end_laws [OF shown assms(1)]
  have "settled J h X st'" using assms(2) unfolding settled_def one_open_def closed_veiled_def submenu_def e by blast
  moreover have "calm st \<Longrightarrow> tidy J h X (page_doc st) \<Longrightarrow> tidy J h X (page_doc st')"
    unfolding tidy_def submenu_def e(1-4) by (simp add: e(5))
  ultimately show ?thesis by blast
next
  case (mouse_out e)
  then show ?thesis using out_settled [OF assms(2)] by metis
next
  case (blur a)
  then show ?thesis using out_settled [OF assms(2)] by metis
qed (use over_settled [OF assms(1,2)] over_tidy [OF assms(1), of st X ie7] assms(2) in \<open>auto simp: settled_def\<close>)

lemma run_settled:
  "(fish_step J ie7)\<^sup>*\<^sup>* st st' \<Longrightarrow> plain_class h \<Longrightarrow> settled J h X st \<Longrightarrow> settled J h X st'"
  by (induction rule: rtranclp_induct) (auto dest: step_settled)

lemma run_tidy:
  "(calm_step J ie7)\<^sup>*\<^sup>* st st' \<Longrightarrow> plain_class h \<Longrightarrow> settled J h X st \<Longrightarrow> calm st \<Longrightarrow> tidy J h X (page_doc st) \<Longrightarrow>
   settled J h X st' \<and> calm st' \<and> tidy J h X (page_doc st')"
  by (induction rule: rtranclp_induct) (auto simp: calm_step_def dest: step_settled)

text \<open>The set-up of one menu without a path, on a page where nothing is open.\<close>

lemma arrows_class:
  fixes arr :: "'e list \<Rightarrow> 'd \<Rightarrow> 'd"
  assumes "k \<noteq> anchorClass" and arr: "\<And>a d e. has_class J (arr a d) e k \<Longrightarrow> has_class J d e k"
  shows "has_class J (fold (\<lambda>x d. addArrow J arr (query_in J (lit ''>a:first-child'') [x] d) d) items d) e k \<Longrightarrow> has_class J d e k"
proof (induction items arbitrary: d)
  case (Cons x items)
  have "class_words anchorClass = {anchorClass}"
    by (simp add: anchorClass_def class_words_def lit_def split_single_none)
  then have "has_class J d e k" if "has_class J (addArrow J arr a d) e k" for a
    using arr [of a "addClass J anchorClass a d" e] that assms(1) by (simp add: addArrow_def add_class)
  with Cons show ?case by auto
qed simp

lemma init_settled:
  assumes "plain_class (hoverClass opts)" "\<not> retainPath opts"
    and arr: "\<And>a d e k. k \<in> {hoverClass opts, bcClass} \<Longrightarrow> has_class J (arr a d) e k \<Longrightarrow> has_class J d e k"
    and closed: "\<And>e k. k \<in> {hoverClass opts, bcClass} \<Longrightarrow> \<not> has_class J (page_doc st) e k"
    and nopath: "query_in J (lit ''li.'' @ pathClass opts) [menu] (page_doc st) = []"
    and fresh: "sf_o st = []" "timers st = []" "serial st = Map.empty"
  shows "settled J (hoverClass opts) (set (query_in J (lit ''li:has(ul)'') [menu] (page_doc st))) (init_menu J arr opts menu st)"
    "tidy J (hoverClass opts) (set (query_in J (lit ''li:has(ul)'') [menu] (page_doc st))) (page_doc (init_menu J arr opts menu st))"
proof -
  let ?h = "hoverClass opts"
  define items where "items = query_in J (lit ''li:has(ul)'') [menu] (page_doc st)"
  define d2 where "d2 = (if autoArrows opts
    then fold (\<lambda>e d. addArrow J arr (query_in J (lit ''>a:first-child'') [e] d) d) items (page_doc st) else page_doc st)"
  define st1 where "st1 = st\<lparr>page_doc := d2, sf_o := [opts\<lparr>path := []\<rparr>], sf_op := 0, serial := [menu \<mapsto> 0]\<rparr>"
  have cl: "\<not> has_class J d2 e k" if "k \<in> {?h, bcClass}" for e k
  proof -
    have A: "has_class J d e k" if "has_class J (arr a d) e k" for a d e using arr [OF \<open>k \<in> _\<close> that] .
    have "k \<noteq> anchorClass" using that assms(1) by (auto simp: plain_class_def bcClass_def anchorClass_def lit_def)
    then have "has_class J (page_doc st) e k" if "has_class J d2 e k"
      using that arrows_class [of k arr items "page_doc st" e] A by (cases "autoArrows opts") (auto simp: d2_def)
    with closed [OF that] show ?thesis by blast
  qed
  have i: "init_menu J arr opts menu st = hideSuperfishUl J items st1"
  proof -
    have "init_menu J arr opts menu st = hideSuperfishUl J (filter (\<lambda>e. \<not> has_class J d2 e bcClass) items) st1"
      unfolding init_menu_def nopath fresh st1_def d2_def items_def by (simp add: Let_def)
    also have "filter (\<lambda>e. \<not> has_class J d2 e bcClass) items = items" using cl [of bcClass] by simp
    finally show ?thesis .
  qed
  have q: "quiet ?h st1" using assms(2) by (simp add: quiet_def st1_def fresh)
  have cur: "hoverClass (current st1) = ?h" "\<not> retainPath (current st1)" using quiet_current [OF q] by auto
  have none: "\<not> has_class J (page_doc (hideSuperfishUl J items st1)) e ?h" for e
    using cl [of ?h] closed_class [OF assms(1) cur(1)] by (simp add: st1_def)
  have "set items \<subseteq> set (hide_targets J items st1)" using cur(2) by (auto simp: hide_targets_def)
  then have t: "tidy J ?h (set items) (page_doc (hideSuperfishUl J items st1))"
    unfolding tidy_def submenu_def closed_hidden methods_shape using none by auto
  then have "closed_veiled J ?h (set items) (page_doc (hideSuperfishUl J items st1))" by (auto simp: tidy_def closed_veiled_def)
  moreover have "one_open J ?h (page_doc (hideSuperfishUl J items st1))" using none by (simp add: one_open_def)
  ultimately show "settled J ?h (set (query_in J (lit ''li:has(ul)'') [menu] (page_doc st))) (init_menu J arr opts menu st)"
    "tidy J ?h (set (query_in J (lit ''li:has(ul)'') [menu] (page_doc st))) (page_doc (init_menu J arr opts menu st))"
    using quiet_methods(1) [OF q] t by (simp_all add: settled_def i items_def)
qed

lemma mark_settled:
  assumes "plain_class h"
  shows "settled J h X st \<Longrightarrow> settled J h X (mark_menu J old_ie menu st)"
    "tidy J h X (page_doc st) \<Longrightarrow> tidy J h X (page_doc (mark_menu J old_ie menu st))"
proof -
  let ?c = "[menuClass] @ (if dropShadows (current st) \<and> \<not> old_ie then [shadowClass] else [])"
  have "class_words (join [SP] ?c) = set ?c" unfolding class_words_def
    by (subst split_join_single) (auto simp: menuClass_def shadowClass_def lit_def)
  then have "h \<notin> class_words (join [SP] ?c)" using assms by (auto simp: plain_class_def)
  then have "has_class J (page_doc (mark_menu J old_ie menu st)) e h = has_class J (page_doc st) e h" for e
    by (simp add: mark_menu_def Let_def add_class)
  moreover have "is_hidden J (page_doc (mark_menu J old_ie menu st)) = is_hidden J (page_doc st)"
    "veiled J (page_doc (mark_menu J old_ie menu st)) = veiled J (page_doc st)"
    "parent_of J (page_doc (mark_menu J old_ie menu st)) = parent_of J (page_doc st)"
    "tag_of J (page_doc (mark_menu J old_ie menu st)) = tag_of J (page_doc st)"
    by (simp_all add: mark_menu_def Let_def class_sight shape_laws veil_laws)
  moreover have "quiet h (mark_menu J old_ie menu st) = quiet h st" by (simp add: mark_menu_def Let_def)
  ultimately show "settled J h X st \<Longrightarrow> settled J h X (mark_menu J old_ie menu st)"
    "tidy J h X (page_doc st) \<Longrightarrow> tidy J h X (page_doc (mark_menu J old_ie menu st))"
    unfolding settled_def one_open_def closed_veiled_def tidy_def submenu_def by auto
qed

lemma superfish_settled:
  assumes "plain_class (hoverClass opts)" "\<not> retainPath opts"
    and "\<And>a d e k. k \<in> {hoverClass opts, bcClass} \<Longrightarrow> has_class J (arr a d) e k \<Longrightarrow> has_class J d e k"
    and "\<And>e k. k \<in> {hoverClass opts, bcClass} \<Longrightarrow> \<not> has_class J (page_doc st) e k"
    and "query_in J (lit ''li.'' @ pathClass opts) [menu] (page_doc st) = []"
    and "sf_o st = []" "timers st = []" "serial st = Map.empty"
  shows "settled J (hoverClass opts) (set (query_in J (lit ''li:has(ul)'') [menu] (page_doc st))) (superfish J arr old_ie opts [menu] st)"
    "tidy J (hoverClass opts) (set (query_in J (lit ''li:has(ul)'') [menu] (page_doc st)))
      (page_doc (superfish J arr old_ie opts [menu] st))"
  using mark_settled(1) [OF assms(1) init_settled(1) [OF assms(1,2,3,4,5,6,7,8)]]
    mark_settled(2) [OF assms(1) init_settled(2) [OF assms(1,2,3,4,5,6,7,8)]] by (simp_all add: superfish_def)

end

section \<open>Timers\<close>

text \<open>Every timer that is set is the one its menu knows, and no menu has two.\<close>

definition owned :: "('e, 'd) fish \<Rightarrow> bool" where
  "owned st \<longleftrightarrow> distinct (map fst (timers st)) \<and>
     (\<forall>x \<in> set (timers st). \<exists>m. sfTimer st m = Some (fst x)) \<and>
     (\<forall>m t. sfTimer st m = Some t \<longrightarrow> t < next_timer st) \<and>
     (\<forall>m m' t. sfTimer st m = Some t \<and> sfTimer st m' = Some t \<longrightarrow> m = m')"

lemma owned_less:
  assumes "owned st" "set ts \<subseteq> set (timers st)" "distinct (map fst ts)"
  shows "owned (st\<lparr>timers := ts\<rparr>)"
  using assms by (auto simp: owned_def)

lemma owned_frame:
  "owned st \<Longrightarrow> timers st' = timers st \<Longrightarrow> sfTimer st' = sfTimer st \<Longrightarrow> next_timer st' = next_timer st \<Longrightarrow> owned st'"
  by (simp add: owned_def)

lemma owned_clear: "owned st \<Longrightarrow> owned (clearTimeout t st)"
  unfolding clearTimeout_def by (rule owned_less) (auto simp: owned_def distinct_map_filter)

lemma owned_menu: "owned st \<Longrightarrow> getMenu J es st = Some (menu, st1) \<Longrightarrow> owned st1"
  by (erule owned_frame) (auto simp: getMenu_def split: list.splits option.splits)

lemma owned_over: "owned st \<Longrightarrow> over J ie7 this st = Some st' \<Longrightarrow> owned st'"
proof -
  assume o: "owned st" and "over J ie7 this st = Some st'"
  then obtain menu st1 where g: "getMenu J this st = Some (menu, st1)"
    and st': "timers st' = timers (clearTimeout (sfTimer st1 menu) st1)" "sfTimer st' = sfTimer (clearTimeout (sfTimer st1 menu) st1)"
      "next_timer st' = next_timer (clearTimeout (sfTimer st1 menu) st1)"
    by (auto simp: over_def Let_def split: option.splits)
  from owned_frame [OF owned_clear [OF owned_menu [OF o g]] st'] show ?thesis .
qed

lemma owned_out: "owned st \<Longrightarrow> out J this st = Some st' \<Longrightarrow> owned st'"
proof -
  assume o: "owned st" and "out J this st = Some st'"
  then obtain menu st1 where g: "getMenu J this st = Some (menu, st1)"
    and st': "st' = (let st2 = clearTimeout (sfTimer st1 menu) st1; t = next_timer st2
       in st2\<lparr>sfTimer := (sfTimer st2)(menu \<mapsto> t), timers := timers st2 @ [(t, this, sf_op st2)], next_timer := Suc t\<rparr>)"
    by (auto simp: out_def Let_def split: option.splits)
  have o1: "owned st1" by (rule owned_menu [OF o g])
  let ?st2 = "clearTimeout (sfTimer st1 menu) st1"
  have o2: "owned ?st2" by (rule owned_clear [OF o1])
  have sel: "sfTimer ?st2 = sfTimer st1" "next_timer ?st2 = next_timer st1" by (simp_all add: clearTimeout_def)
  have other: "\<exists>m. m \<noteq> menu \<and> sfTimer st1 m = Some (fst x)" if "x \<in> set (timers ?st2)" for x
    using that o1 unfolding clearTimeout_def owned_def by simp metis
  have new: "next_timer st1 \<notin> fst ` set (timers ?st2)" using o2 sel by (fastforce simp: owned_def)
  show ?thesis unfolding owned_def
  proof (intro conjI allI impI ballI)
    show "distinct (map fst (timers st'))" using o2 new sel by (simp add: st' Let_def owned_def)
    fix x assume "x \<in> set (timers st')"
    then show "\<exists>m. sfTimer st' m = Some (fst x)" using other [of x] sel by (auto simp: st' Let_def)
  next
    fix m t assume "sfTimer st' m = Some t"
    then show "t < next_timer st'" using o1 sel by (auto simp: st' Let_def owned_def less_SucI split: if_splits)
  next
    fix m m' t assume "sfTimer st' m = Some t \<and> sfTimer st' m' = Some t"
    then show "m = m'" using o1 sel by (auto simp: st' Let_def owned_def split: if_splits)
  qed
qed

lemma owned_step: "fish_step J ie7 st st' \<Longrightarrow> owned st \<Longrightarrow> owned st'"
proof (induction rule: fish_step.induct)
  case (timer n st st')
  obtain t this k where n: "timers st ! n = (t, this, k)" by (cases "timers st ! n")
  let ?st = "st\<lparr>timers := take n (timers st) @ drop (Suc n) (timers st)\<rparr>"
  have d: "distinct (map fst (timers st))" using timer by (simp add: owned_def)
  then have "distinct (take n (map fst (timers st)) @ drop (Suc n) (map fst (timers st)))"
    by (simp add: set_take_disj_set_drop_if_distinct)
  then have "distinct (map fst (take n (timers st) @ drop (Suc n) (timers st)))"
    by (simp add: take_map drop_map)
  then have "owned ?st" using timer(3) by (intro owned_less) (auto dest: in_set_takeD in_set_dropD)
  then have "owned (hideSuperfishUl J this (set_retain k b ?st))" for b by (rule owned_frame) simp_all
  with timer(2) n show ?case by (auto simp: fire_timer_def closing_def Let_def intro: owned_over split: if_splits)
next
  case (shown u st st')
  then show ?case by (elim owned_frame) (auto simp: animation_end_def Let_def split: option.splits if_splits)
qed (auto intro: owned_over owned_out)

lemma owned_run: "(fish_step J ie7)\<^sup>*\<^sup>* st st' \<Longrightarrow> owned st \<Longrightarrow> owned st'"
  by (induction rule: rtranclp_induct) (auto intro: owned_step)

lemma owned_setup:
  "timers st = [] \<Longrightarrow> sfTimer st = Map.empty \<Longrightarrow> owned (superfish J arr old_ie opts [menu] st)"
  by (simp add: superfish_def mark_menu_def init_menu_def Let_def owned_def)

section \<open>Properties\<close>

text \<open>A closed item's submenu is not seen; and: a submenu is seen exactly when its item is open.\<close>

definition closed_unseen :: "('e, 'd) jquery \<Rightarrow> jsstr \<Rightarrow> 'e set \<Rightarrow> 'd \<Rightarrow> bool" where
  "closed_unseen J h X d \<longleftrightarrow> (\<forall>x \<in> X. \<forall>u. submenu J d x u \<and> \<not> has_class J d x h \<longrightarrow> \<not> seen J d u)"

definition open_shown :: "('e, 'd) jquery \<Rightarrow> jsstr \<Rightarrow> 'e set \<Rightarrow> 'd \<Rightarrow> bool" where
  "open_shown J h X d \<longleftrightarrow> (\<forall>x \<in> X. \<forall>u. submenu J d x u \<longrightarrow> (has_class J d x h \<longleftrightarrow> seen J d u))"

lemma settled_unseen: "settled J h X st \<Longrightarrow> one_open J h (page_doc st) \<and> closed_unseen J h X (page_doc st)"
  by (auto simp: settled_def closed_unseen_def closed_veiled_def seen_def)

lemma tidy_shown: "tidy J h X d \<Longrightarrow> open_shown J h X d"
  by (auto simp: tidy_def open_shown_def seen_def)

text \<open>
  C33: the menus of \<open>superfish.js\<close>.  After the set-up of a menu without a path, on a page where nothing is open, and
  after any run of events (mouse, focus, timers, ends of animations), no two items of one list are open, the submenu of
  a closed item is not seen (not displayed, or invisible), and no menu has more than one closing timer.  When in
  no state of the run an animation waited behind another one of the same submenu, a submenu is seen exactly when
  its item is open.
\<close>

theorem superfish_menus:
  assumes "jquery J" and "plain_class (hoverClass opts)" and "\<not> retainPath opts"
    and "\<And>a d e k. k \<in> {hoverClass opts, bcClass} \<Longrightarrow> has_class J (arr a d) e k \<Longrightarrow> has_class J d e k"
    and "\<And>e k. k \<in> {hoverClass opts, bcClass} \<Longrightarrow> \<not> has_class J (page_doc st0) e k"
    and "query_in J (lit ''li.'' @ pathClass opts) [menu] (page_doc st0) = []"
    and "sf_o st0 = []" "timers st0 = []" "serial st0 = Map.empty" "sfTimer st0 = Map.empty" "fx st0 = []"
    and "(fish_step J ie7)\<^sup>*\<^sup>* (superfish J arr old_ie opts [menu] st0) st"
  shows "one_open J (hoverClass opts) (page_doc st) \<and> owned st \<and>
    closed_unseen J (hoverClass opts) (set (query_in J (lit ''li:has(ul)'') [menu] (page_doc st0))) (page_doc st) \<and>
    ((calm_step J ie7)\<^sup>*\<^sup>* (superfish J arr old_ie opts [menu] st0) st \<longrightarrow>
      open_shown J (hoverClass opts) (set (query_in J (lit ''li:has(ul)'') [menu] (page_doc st0))) (page_doc st))"
proof -
  let ?X = "set (query_in J (lit ''li:has(ul)'') [menu] (page_doc st0))"
  let ?s = "superfish J arr old_ie opts [menu] st0"
  have start: "settled J (hoverClass opts) ?X ?s" "tidy J (hoverClass opts) ?X (page_doc ?s)"
    by (intro jquery.superfish_settled [OF assms(1-3)]; use assms(4-9) in blast)+
  have c: "calm ?s"
    using assms(11) by (simp add: superfish_def mark_menu_def init_menu_def Let_def calm_def)
  have "open_shown J (hoverClass opts) ?X (page_doc st)" if "(calm_step J ie7)\<^sup>*\<^sup>* ?s st"
    using jquery.run_tidy [OF assms(1) that assms(2) start(1) c start(2)] tidy_shown by metis
  then show ?thesis
    using settled_unseen [OF jquery.run_settled [OF assms(1,12,2) start(1)]] owned_run [OF assms(12) owned_setup [OF assms(8,10)]]
    by blast
qed

text \<open>Two menus; the first has two levels of items on its path.\<close>

definition two_menus :: dom where
  "two_menus = \<lparr>d_nodes = [0, 1, 2, 3, 4, 5, 6, 7, 8, 9, 10, 11, 12],
     d_tag = (\<lambda>e. if List.member [0, 2, 4, 7, 9, 11] e then lit ''ul'' else lit ''li''),
     d_id = (\<lambda>e. []),
     d_parent = (\<lambda>e. [None, Some 0, Some 1, Some 2, Some 3, Some 4, Some 0, Some 6, Some 7, None, Some 9, Some 10, Some 11] ! e),
     d_class = [(1, lit ''now''), (3, lit ''now'')], d_hidden = [], d_veiled = [], d_attr = (\<lambda>e n. None)\<rparr>"

definition fresh_fish :: "dom \<Rightarrow> (nat, dom) fish" where
  "fresh_fish d = \<lparr>page_doc = d, sf_o = [], sf_op = 0, serial = Map.empty, sfTimer = Map.empty, timers = [], next_timer = 0, fx = []\<rparr>"

definition path_options :: "nat sf_options" where
  "path_options = sf_defaults\<lparr>pathClass := lit ''now'', pathLevels := 2\<rparr>"

text \<open>Evaluation on this page: its selectors, its strings and its shape.\<close>

lemma sel_parts:
  "compound_holds d (lit ''li.now'') e \<longleftrightarrow> d_tag d e = lit ''li'' \<and> (e, lit ''now'') \<in> set (d_class d)"
  "compound_holds d (lit ''li.sfHover'') e \<longleftrightarrow> d_tag d e = lit ''li'' \<and> (e, lit ''sfHover'') \<in> set (d_class d)"
  "compound_holds d (lit ''ul.sf-js-enabled:first'') e \<longleftrightarrow> d_tag d e = lit ''ul'' \<and> (e, lit ''sf-js-enabled'') \<in> set (d_class d)"
  "compound_holds d (lit ''li:has(ul)'') e \<longleftrightarrow> d_tag d e = lit ''li'' \<and> list_ex (\<lambda>x. d_tag d x = lit ''ul'' \<and> e \<in> set (above d x)) (d_nodes d)"
  by (simp_all add: compound_holds_def lit_def parts_of.simps part_start_def part_holds_def)

lemma find_li:
  "eval_steps d False (Some es) (split_str [SP] (lit ''li.now'')) =
     filter (\<lambda>e. list_ex (\<lambda>a. a \<in> set es) (above d e) \<and> compound_holds d (lit ''li.now'') e) (d_nodes d)"
  "eval_steps d False (Some es) (split_str [SP] (lit ''li.sfHover'')) =
     filter (\<lambda>e. list_ex (\<lambda>a. a \<in> set es) (above d e) \<and> compound_holds d (lit ''li.sfHover'') e) (d_nodes d)"
  "eval_steps d False (Some es) (split_str [SP] (lit ''li:has(ul)'')) =
     filter (\<lambda>e. list_ex (\<lambda>a. a \<in> set es) (above d e) \<and> compound_holds d (lit ''li:has(ul)'') e) (d_nodes d)"
  by (rule find_compound; simp add: lit_def parts_of.simps part_start_def)+

lemma words:
  "split_str [SP] (lit ''sfHover'') = [lit ''sfHover'']"
  "split_str [SP] (lit ''now'') = [lit ''now'']"
  "split_str [SP] (lit ''sf-js-enabled'') = [lit ''sf-js-enabled'']"
  "split_str [SP] (lit ''sfHover'' @ SP # lit ''sf-breadcrumb'') = [lit ''sfHover'', lit ''sf-breadcrumb'']"
  by (simp_all add: lit_def split_single_none split_single_append [of SP "lit ''sfHover''", unfolded lit_def, simplified])

lemma strings:
  "lit ''li.'' @ lit ''now'' = lit ''li.now''" "lit ''li.'' @ lit ''sfHover'' = lit ''li.sfHover''"
  "lit ''ul.'' @ lit ''sf-js-enabled'' @ lit '':first'' = lit ''ul.sf-js-enabled:first''"
  "lit ''li'' \<noteq> lit ''ul''" "lit ''ul'' \<noteq> lit ''li''"
  "lit ''now'' \<noteq> lit ''sfHover''" "lit ''sfHover'' \<noteq> lit ''now''"
  "lit ''now'' \<noteq> lit ''sf-breadcrumb''" "lit ''sf-breadcrumb'' \<noteq> lit ''now''"
  "lit ''sfHover'' \<noteq> lit ''sf-breadcrumb''" "lit ''sf-breadcrumb'' \<noteq> lit ''sfHover''"
  "lit ''sf-js-enabled'' \<noteq> lit ''sf-breadcrumb''" "lit ''sf-breadcrumb'' \<noteq> lit ''sf-js-enabled''"
  "lit ''sfHover'' \<noteq> lit ''sf-js-enabled''" "lit ''sf-js-enabled'' \<noteq> lit ''sfHover''"
  "(lit ''hidden'' = lit ''visible'') = False" "(lit ''visible'' = lit ''hidden'') = False"
  "lit ''now'' \<noteq> lit ''sf-js-enabled''" "lit ''sf-js-enabled'' \<noteq> lit ''now''"
  by (simp_all add: lit_def)

lemma two_above:
  "above two_menus 0 = []" "above two_menus 1 = [0]" "above two_menus (Suc 0) = [0]" "above two_menus 2 = [1, 0]" 
  "above two_menus 3 = [2, 1, 0]" "above two_menus 4 = [3, 2, 1, 0]" "above two_menus 5 = [4, 3, 2, 1, 0]" 
  "above two_menus 6 = [0]" "above two_menus 7 = [6, 0]" "above two_menus 8 = [7, 6, 0]"
  "above two_menus 9 = []" "above two_menus 10 = [9]" "above two_menus 11 = [10, 9]" "above two_menus 12 = [11, 10, 9]"
  by (simp_all add: two_menus_def above.simps d_up_def)

lemma two_up:
  "d_up two_menus 0 = None" "d_up two_menus 1 = Some 0" "d_up two_menus 2 = Some 1" "d_up two_menus 3 = Some 2"
  "d_up two_menus 4 = Some 3" "d_up two_menus 5 = Some 4" "d_up two_menus 6 = Some 0" "d_up two_menus 7 = Some 6"
  "d_up two_menus 8 = Some 7" "d_up two_menus 9 = None" "d_up two_menus 10 = Some 9" "d_up two_menus 11 = Some 10"
  "d_up two_menus 12 = Some 11" "d_up two_menus (Suc 0) = Some 0"
  by (simp_all add: d_up_def two_menus_def)

lemma two_tag:
  "d_tag two_menus 0 = lit ''ul''" "d_tag two_menus 1 = lit ''li''" "d_tag two_menus 2 = lit ''ul''"
  "d_tag two_menus 3 = lit ''li''" "d_tag two_menus 4 = lit ''ul''" "d_tag two_menus 5 = lit ''li''"
  "d_tag two_menus 6 = lit ''li''" "d_tag two_menus 7 = lit ''ul''" "d_tag two_menus 8 = lit ''li''"
  "d_tag two_menus 9 = lit ''ul''" "d_tag two_menus 10 = lit ''li''" "d_tag two_menus 11 = lit ''ul''"
  "d_tag two_menus 12 = lit ''li''" "d_tag two_menus (Suc 0) = lit ''li''"
  by (simp_all add: two_menus_def)

lemma two_sel:
  "d_nodes two_menus = [0, 1, 2, 3, 4, 5, 6, 7, 8, 9, 10, 11, 12]"
  "d_class two_menus = [(1, lit ''now''), (3, lit ''now'')]" "d_hidden two_menus = []" "d_veiled two_menus = []"
  by (simp_all add: two_menus_def)

lemmas eval_fish = find_li sel_parts words strings two_above two_sel two_up two_tag eval_child_ul

lemmas eval_ops = eval_fish init_menu_def mark_path_def path_options_def sf_defaults_def fresh_fish_def Let_def dom_jquery_def hideSuperfishUl_def
     hide_targets_def current_def set_retain_def bcClass_def superfish_def mark_menu_def menuClass_def out_def over_def clearTimeout_def getMenu_def
     showSuperfishUl_def IE7fix_def closing_def fire_timer_def animate_show_def start_show_def animates_def animation_end_def


text \<open>
  The states of a run: the open items, the hidden lists, whether the first menu retains its path, the
  menu touched last, the timers and the animations.
\<close>

definition path_fish ::
  "(nat \<times> jsstr) list \<Rightarrow> nat list \<Rightarrow> bool \<Rightarrow> nat \<Rightarrow> (nat \<times> nat list \<times> nat) list \<Rightarrow> (nat \<rightharpoonup> nat) \<Rightarrow> nat \<Rightarrow>
   (nat \<times> nat list) list \<Rightarrow> (nat, dom) fish" where
  "path_fish cs hid r op ts t n q = \<lparr>
     page_doc = two_menus\<lparr>d_hidden := hid, d_veiled := hid, d_class := cs\<rparr>,
     sf_o = [path_options\<lparr>path := [1, 3], retainPath := r\<rparr>, path_options],
     sf_op = op, serial = [0 \<mapsto> 0, 9 \<mapsto> 1], sfTimer = t, timers = ts, next_timer = n, fx = q\<rparr>"

definition path_classes :: "bool \<Rightarrow> (nat \<times> jsstr) list" where
  "path_classes o3 = [(1, lit ''sfHover''), (1, lit ''sf-breadcrumb'')] @ (if o3 then [(3, lit ''sfHover'')] else []) @
     [(3, lit ''sf-breadcrumb''), (0, lit ''sf-js-enabled''), (9, lit ''sf-js-enabled'')]"

lemmas eval_run = eval_ops path_fish_def path_classes_def

lemma two_menus_setup:
  "superfish dom_jquery (\<lambda>a d. d) False path_options [0, 9] (fresh_fish two_menus) =
     path_fish (path_classes True) [11, 7] False 1 [] Map.empty 0 []"
  by (simp add: eval_run split del: if_split cong: let_weak_cong if_weak_cong option.case_cong_weak list.case_cong_weak)

text \<open>The steps are evaluated part by part.\<close>

lemma over_by:
  assumes "getMenu J this st = Some (menu, st1)" "showSuperfishUl J ie7 this (clearTimeout (sfTimer st1 menu) st1) = st2"
    "hideSuperfishUl J (siblings J this (page_doc st2)) st2 = st'"
  shows "over J ie7 this st = Some st'"
  using assms by (simp add: over_def Let_def)

lemma two_menus_out:
  "out dom_jquery [3] (path_fish (path_classes True) [11, 7] False 1 [] Map.empty 0 []) =
     Some (path_fish (path_classes True) [11, 7] False 0 [(0, [3], 0)] [0 \<mapsto> 0] 1 [])"
  "fire_timer dom_jquery False 0 (path_fish (path_classes True @ [(10, lit ''sfHover'')]) [7] False 1 [(0, [3], 0)] [0 \<mapsto> 0] 1 [(11, [11])]) =
     Some (path_fish (path_classes False @ [(10, lit ''sfHover'')]) [4, 7] True 1 [] [0 \<mapsto> 0] 1 [(11, [11])])"
  by (simp_all add: eval_run split del: if_split cong: let_weak_cong if_weak_cong option.case_cong_weak list.case_cong_weak)

lemma two_menus_over:
  "over dom_jquery False [10] (path_fish (path_classes True) [11, 7] False 0 [(0, [3], 0)] [0 \<mapsto> 0] 1 []) =
     Some (path_fish (path_classes True @ [(10, lit ''sfHover'')]) [7] False 1 [(0, [3], 0)] [0 \<mapsto> 0] 1 [(11, [11])])"
  by (rule over_by [of _ _ _ 9 "path_fish (path_classes True) [11, 7] False 1 [(0, [3], 0)] [0 \<mapsto> 0] 1 []" _
      "path_fish (path_classes True @ [(10, lit ''sfHover'')]) [7] False 1 [(0, [3], 0)] [0 \<mapsto> 0] 1 [(11, [11])]"];
    simp add: eval_run split del: if_split cong: let_weak_cong if_weak_cong option.case_cong_weak list.case_cong_weak)

lemma two_menus_over_path:
  "over dom_jquery False [6] (path_fish (path_classes False @ [(10, lit ''sfHover'')]) [4, 7] True 1 [] [0 \<mapsto> 0] 1 [(11, [11])]) =
     Some (path_fish (path_classes False @ [(10, lit ''sfHover''), (6, lit ''sfHover'')]) [4] False 0 [] [0 \<mapsto> 0] 1 [(11, [11]), (7, [7])])"
  by (rule over_by [of _ _ _ 0 "path_fish (path_classes False @ [(10, lit ''sfHover'')]) [4, 7] True 0 [] [0 \<mapsto> 0] 1 [(11, [11])]" _
      "path_fish (path_classes False @ [(10, lit ''sfHover''), (6, lit ''sfHover'')]) [4] True 0 [] [0 \<mapsto> 0] 1 [(11, [11]), (7, [7])]"];
    simp add: eval_run split del: if_split cong: let_weak_cong if_weak_cong option.case_cong_weak list.case_cong_weak)

lemma two_open: "\<not> one_open dom_jquery (lit ''sfHover'')
    (page_doc (path_fish (path_classes False @ [(10, lit ''sfHover''), (6, lit ''sfHover'')]) [4] False 0 [] [0 \<mapsto> 0] 1 [(11, [11]), (7, [7])]))"
  unfolding one_open_def path_fish_def path_classes_def dom_jquery_def
  by (rule notI, drule spec [of _ 1], drule spec [of _ 6]) (simp add: two_up)

text \<open>
  With a path, two menus of one page disturb each other.  The timer of the first menu sets
  \<open>retainPath\<close> in the menu's own options, but \<open>hideSuperfishUl\<close> reads and resets that flag in \<open>sf.op\<close>, by
  then the second menu's; the flag stays, and the next time the pointer moves to another item of the first
  menu the path is not closed: two items of one list are open.
\<close>

theorem path_left_open:
  "\<exists>st. (fish_step dom_jquery False)\<^sup>*\<^sup>* (superfish dom_jquery (\<lambda>a d. d) False path_options [0, 9] (fresh_fish two_menus)) st \<and>
     \<not> one_open dom_jquery (lit ''sfHover'') (page_doc st)"
proof -
  have "0 < length (timers (path_fish cs hid r op [(0, [3], 0)] t n q))" for cs hid r op t n q by (simp add: path_fish_def)
  note steps = fish_step.mouse_out [OF two_menus_out(1), of False] fish_step.mouse_over [OF two_menus_over]
    fish_step.timer [OF this two_menus_out(2)] fish_step.mouse_over [OF two_menus_over_path]
  from steps(1) steps(2) have "(fish_step dom_jquery False)\<^sup>*\<^sup>* (path_fish (path_classes True) [11, 7] False 1 [] Map.empty 0 [])
    (path_fish (path_classes True @ [(10, lit ''sfHover'')]) [7] False 1 [(0, [3], 0)] [0 \<mapsto> 0] 1 [(11, [11])])"
    by (blast intro: rtranclp.intros)
  moreover from steps(3) steps(4) have "(fish_step dom_jquery False)\<^sup>*\<^sup>*
    (path_fish (path_classes True @ [(10, lit ''sfHover'')]) [7] False 1 [(0, [3], 0)] [0 \<mapsto> 0] 1 [(11, [11])])
    (path_fish (path_classes False @ [(10, lit ''sfHover''), (6, lit ''sfHover'')]) [4] False 0 [] [0 \<mapsto> 0] 1 [(11, [11]), (7, [7])])"
    by (blast intro: rtranclp.intros)
  ultimately show ?thesis unfolding two_menus_setup using two_open by (meson rtranclp_trans)
qed

text \<open>
  The first menu of this page with the default options.  The states of its runs: the open items, the hidden and
  the invisible lists, the timers, and the animations.
\<close>

definition tour :: "nat list \<Rightarrow> nat list \<Rightarrow> nat list \<Rightarrow> (nat \<times> nat list \<times> nat) list \<Rightarrow> (nat \<rightharpoonup> nat) \<Rightarrow> nat \<Rightarrow>
   (nat \<times> nat list) list \<Rightarrow> (nat, dom) fish" where
  "tour os hid vs ts t n q = \<lparr>
     page_doc = two_menus\<lparr>d_hidden := hid, d_veiled := vs,
       d_class := [(1, lit ''now''), (3, lit ''now''), (0, lit ''sf-js-enabled'')] @ map (\<lambda>e. (e, lit ''sfHover'')) os\<rparr>,
     sf_o = [sf_defaults], sf_op = 0, serial = [0 \<mapsto> 0], sfTimer = t, timers = ts, next_timer = n, fx = q\<rparr>"

lemma two_menus_plain: "query_in dom_jquery (lit ''li.'' @ pathClass sf_defaults) [0] (page_doc (fresh_fish two_menus)) = []"
proof -
  let ?s = "lit ''li.overideThisToUse''"
  have s: "lit ''li.'' @ pathClass sf_defaults = ?s" by (simp add: sf_defaults_def lit_def)
  have "eval_steps d False (Some es) (split_str [SP] ?s) =
     filter (\<lambda>e. list_ex (\<lambda>a. a \<in> set es) (above d e) \<and> compound_holds d ?s e) (d_nodes d)" for d es
    by (rule find_compound; simp add: lit_def parts_of.simps part_start_def)
  moreover have "\<not> compound_holds two_menus ?s e" for e
    by (simp add: compound_holds_def lit_def parts_of.simps part_start_def part_holds_def two_sel)
  ultimately show ?thesis unfolding s by (simp add: dom_jquery_def fresh_fish_def)
qed

lemma default_path: "pathLevels sf_defaults = 1" "hoverClass sf_defaults = lit ''sfHover''" "autoArrows sf_defaults = False"
  "dropShadows sf_defaults = False" "path sf_defaults = []" "retainPath sf_defaults = False"
  "sf_defaults\<lparr>path := []\<rparr> = sf_defaults" "sf_defaults\<lparr>retainPath := False\<rparr> = sf_defaults"
  by (simp_all add: sf_defaults_def)

lemma tour_start: "superfish dom_jquery (\<lambda>a d. d) False sf_defaults [0] (fresh_fish two_menus) = tour [] [2, 4, 7] [2, 4, 7] [] Map.empty 0 []"
proof -
  have q: "query_in dom_jquery (lit ''li.'' @ pathClass sf_defaults) [0] two_menus = []" using two_menus_plain by (simp add: fresh_fish_def)
  show ?thesis unfolding superfish_def init_menu_def fresh_fish_def by (simp add: q default_path Let_def)
    (simp add: eval_fish dom_jquery_def hideSuperfishUl_def hide_targets_def current_def set_retain_def bcClass_def mark_menu_def menuClass_def
      default_path tour_def Let_def split del: if_split cong: let_weak_cong if_weak_cong option.case_cong_weak list.case_cong_weak)
qed

lemmas eval_tour = eval_fish dom_jquery_def tour_def default_path Let_def hideSuperfishUl_def hide_targets_def current_def set_retain_def
  menuClass_def over_def clearTimeout_def getMenu_def showSuperfishUl_def IE7fix_def animate_show_def start_show_def animates_def

lemma tour_first: "over dom_jquery False [1] (tour [] [2, 4, 7] [2, 4, 7] [] Map.empty 0 []) =
    Some (tour [1] [7, 4, 7] [7, 4] [] Map.empty 0 [(2, [2])])"
  by (rule over_by [of _ _ _ 0 "tour [] [2, 4, 7] [2, 4, 7] [] Map.empty 0 []" _
      "tour [1] [4, 7] [4, 7] [] Map.empty 0 [(2, [2])]"];
    simp add: eval_tour split del: if_split cong: let_weak_cong if_weak_cong option.case_cong_weak list.case_cong_weak)

lemma tour_second: "over dom_jquery False [6] (tour [1] [7, 4, 7] [7, 4] [(0, [1], 0)] [0 \<mapsto> 0] 1 [(2, [2])]) =
    Some (tour [6] [2, 4] [2, 4] [] [0 \<mapsto> 0] 1 [(2, [2]), (7, [7])])"
  by (rule over_by [of _ _ _ 0 "tour [1] [7, 4, 7] [7, 4] [(0, [1], 0)] [0 \<mapsto> 0] 1 [(2, [2])]" _
      "tour [1, 6] [4] [4] [] [0 \<mapsto> 0] 1 [(2, [2]), (7, [7])]"];
    simp add: eval_tour split del: if_split cong: let_weak_cong if_weak_cong option.case_cong_weak list.case_cong_weak)

lemma tour_third: "over dom_jquery False [1] (tour [6] [2, 4] [2, 4] [(1, [6], 0)] [0 \<mapsto> 1] 2 [(2, [2]), (7, [7])]) =
    Some (tour [1] [7, 2, 4] [7, 4] [] [0 \<mapsto> 1] 2 [(2, [2]), (7, [7]), (2, [2])])"
  by (rule over_by [of _ _ _ 0 "tour [6] [2, 4] [2, 4] [(1, [6], 0)] [0 \<mapsto> 1] 2 [(2, [2]), (7, [7])]" _
      "tour [6, 1] [2, 4] [4] [] [0 \<mapsto> 1] 2 [(2, [2]), (7, [7]), (2, [2])]"];
    simp add: eval_tour split del: if_split cong: let_weak_cong if_weak_cong option.case_cong_weak list.case_cong_weak)

lemma tour_fourth: "over dom_jquery False [6] (tour [1] [7, 2, 4] [7, 4] [(2, [1], 0)] [0 \<mapsto> 2] 3 [(2, [2]), (7, [7]), (2, [2])]) =
    Some (tour [6] [2, 7, 2, 4] [2, 4] [] [0 \<mapsto> 2] 3 [(2, [2]), (7, [7]), (2, [2]), (7, [7])])"
  by (rule over_by [of _ _ _ 0 "tour [1] [7, 2, 4] [7, 4] [(2, [1], 0)] [0 \<mapsto> 2] 3 [(2, [2]), (7, [7]), (2, [2])]" _
      "tour [1, 6] [7, 2, 4] [4] [] [0 \<mapsto> 2] 3 [(2, [2]), (7, [7]), (2, [2]), (7, [7])]"];
    simp add: eval_tour split del: if_split cong: let_weak_cong if_weak_cong option.case_cong_weak list.case_cong_weak)

lemma tour_fifth: "over dom_jquery False [1] (tour [6] [7, 4] [2, 4] [(3, [6], 0)] [0 \<mapsto> 3] 4 [(7, [7]), (2, [2]), (7, [7])]) =
    Some (tour [1] [7, 7, 4] [7, 2, 4] [] [0 \<mapsto> 3] 4 [(7, [7]), (2, [2]), (7, [7])])"
  by (rule over_by [of _ _ _ 0 "tour [6] [7, 4] [2, 4] [(3, [6], 0)] [0 \<mapsto> 3] 4 [(7, [7]), (2, [2]), (7, [7])]" _
      "tour [6, 1] [7, 4] [2, 4] [] [0 \<mapsto> 3] 4 [(7, [7]), (2, [2]), (7, [7])]"];
    simp add: eval_tour split del: if_split cong: let_weak_cong if_weak_cong option.case_cong_weak list.case_cong_weak)

lemma tour_out:
  "e \<in> {1, 6} \<Longrightarrow> ts = [] \<Longrightarrow> out dom_jquery [e] (tour os hid vs ts t n q) = Some (tour os hid vs [(n, [e], 0)] (t(0 \<mapsto> n)) (Suc n) q)"
  by (auto simp: eval_tour out_def split del: if_split cong: let_weak_cong if_weak_cong option.case_cong_weak list.case_cong_weak)

lemma tour_end:
  "find (\<lambda>x. fst x = u) q = Some x \<Longrightarrow> animation_end dom_jquery False u (tour os hid vs ts t n q) =
     Some (tour os (if u \<in> fst ` set (remove1 x q) then filter (\<lambda>e. e \<noteq> u) hid else hid) vs ts t n (remove1 x q))"
  by (simp add: animation_end_def tour_def Let_def IE7fix_def animates_def start_show_def dom_jquery_def)

text \<open>
  Over an item, out, over its sibling, and the same again before the first animation ends: the second showing of the first
  submenu waits, the submenu is hidden meanwhile, and then the waiting animation displays it, still invisible, while
  its item is closed.  The next time the pointer is over the item its submenu counts as displayed, so
  \<open>showSuperfishUl\<close> does not make it visible: at rest, with no timer and no animation left, the item is open and the
  reader does not see its submenu.
\<close>

theorem open_item_blank:
  "\<exists>st. (fish_step dom_jquery False)\<^sup>*\<^sup>* (superfish dom_jquery (\<lambda>a d. d) False sf_defaults [0] (fresh_fish two_menus)) st \<and>
     fx st = [] \<and> timers st = [] \<and> has_class dom_jquery (page_doc st) 1 (lit ''sfHover'') \<and>
     submenu dom_jquery (page_doc st) 1 2 \<and> \<not> seen dom_jquery (page_doc st) 2"
proof -
  note step = rtranclp.rtrancl_into_rtrancl [of "fish_step dom_jquery False"]
  have out: "fish_step dom_jquery False (tour os hid vs [] t n q) (tour os hid vs [(n, [e], 0)] (t(0 \<mapsto> n)) (Suc n) q)"
    if "e \<in> {1, 6}" for e os hid vs t n q by (rule fish_step.mouse_out [OF tour_out [OF that refl]])
  have ends: "fish_step dom_jquery False (tour os hid vs ts t n q)
      (tour os (if u \<in> fst ` set (remove1 x q) then filter (\<lambda>e. e \<noteq> u) hid else hid) vs ts t n (remove1 x q))"
    if "find (\<lambda>x. fst x = u) q = Some x" for u q x os hid vs ts t n by (rule fish_step.shown [OF tour_end [OF that]])
  let ?go = "(fish_step dom_jquery False)\<^sup>*\<^sup>* (tour [] [2, 4, 7] [2, 4, 7] [] Map.empty 0 [])"
  have "?go (tour [1] [7, 4, 7] [7, 4] [(0, [1], 0)] [0 \<mapsto> 0] 1 [(2, [2])])"
    using step [OF step [OF rtranclp.rtrancl_refl fish_step.mouse_over [OF tour_first]] out [of 1]] by simp
  then have "?go (tour [6] [2, 4] [2, 4] [(1, [6], 0)] [0 \<mapsto> 1] 2 [(2, [2]), (7, [7])])"
    using step [OF step [OF _ fish_step.mouse_over [OF tour_second]] out [of 6]] by (simp add: numeral_eq_Suc)
  then have "?go (tour [1] [7, 2, 4] [7, 4] [(2, [1], 0)] [0 \<mapsto> 2] 3 [(2, [2]), (7, [7]), (2, [2])])"
    using step [OF step [OF _ fish_step.mouse_over [OF tour_third]] out [of 1]] by (simp add: numeral_eq_Suc)
  then have "?go (tour [6] [2, 7, 2, 4] [2, 4] [(3, [6], 0)] [0 \<mapsto> 3] 4 [(2, [2]), (7, [7]), (2, [2]), (7, [7])])"
    using step [OF step [OF _ fish_step.mouse_over [OF tour_fourth]] out [of 6]] by (simp add: numeral_eq_Suc)
  then have "?go (tour [6] [7, 4] [2, 4] [(3, [6], 0)] [0 \<mapsto> 3] 4 [(7, [7]), (2, [2]), (7, [7])])"
    by (rule step) (use ends [of 2 "[(2, [2]), (7, [7]), (2, [2]), (7, [7])]" "(2, [2])" "[6]" "[2, 7, 2, 4]"] in simp)
  from step [OF this fish_step.mouse_over [OF tour_fifth]]
  have "?go (tour [1] [4] [7, 2, 4] [] [0 \<mapsto> 3] 4 [(2, [2]), (7, [7])])"
    by (rule step) (use ends [of 7 "[(7, [7]), (2, [2]), (7, [7])]" "(7, [7])" "[1]" "[7, 7, 4]"] in simp)
  then have "?go (tour [1] [4] [7, 2, 4] [] [0 \<mapsto> 3] 4 [(7, [7])])"
    by (rule step) (use ends [of 2 "[(2, [2]), (7, [7])]" "(2, [2])" "[1]" "[4]"] in simp)
  then have "?go (tour [1] [4] [7, 2, 4] [] [0 \<mapsto> 3] 4 [])"
    by (rule step) (use ends [of 7 "[(7, [7])]" "(7, [7])" "[1]" "[4]"] in simp)
  moreover have "submenu dom_jquery (page_doc (tour [1] [4] [7, 2, 4] [] t n [])) 1 2" for t n
    by (simp add: tour_def submenu_def dom_jquery_def two_tag two_up)
  ultimately show ?thesis unfolding tour_start
    by (intro exI [of _ "tour [1] [4] [7, 2, 4] [] [0 \<mapsto> 3] 4 []"]) (simp add: tour_def seen_def dom_jquery_def)
qed

lemma calm_run: "(calm_step J ie7)\<^sup>*\<^sup>* a b \<Longrightarrow> fish_step J ie7 b c \<Longrightarrow> calm c \<Longrightarrow> (calm_step J ie7)\<^sup>*\<^sup>* a c"
  by (auto simp: calm_step_def intro: rtranclp.rtrancl_into_rtrancl)

text \<open>
  The hypotheses of \<open>superfish_menus\<close> hold for the first menu of this page with the default options, along a run
  from its first item to the second, with the end of the first animation.
\<close>

theorem superfish_menus_witness:
  "(calm_step dom_jquery False)\<^sup>*\<^sup>* (superfish dom_jquery (\<lambda>a d. d) False sf_defaults [0] (fresh_fish two_menus))
     (tour [6] [2, 4] [2, 4] [] [0 \<mapsto> 0] 1 [(7, [7])]) \<and>
   one_open dom_jquery (lit ''sfHover'') (page_doc (tour [6] [2, 4] [2, 4] [] [0 \<mapsto> 0] 1 [(7, [7])])) \<and>
   owned (tour [6] [2, 4] [2, 4] [] [0 \<mapsto> 0] 1 [(7, [7])]) \<and>
   open_shown dom_jquery (lit ''sfHover'') (set (query_in dom_jquery (lit ''li:has(ul)'') [0] two_menus))
     (page_doc (tour [6] [2, 4] [2, 4] [] [0 \<mapsto> 0] 1 [(7, [7])]))"
proof -
  let ?s = "calm_step dom_jquery False"
  have "?s\<^sup>*\<^sup>* (tour [] [2, 4, 7] [2, 4, 7] [] Map.empty 0 []) (tour [1] [7, 4, 7] [7, 4] [] Map.empty 0 [(2, [2])])"
    using calm_run [OF rtranclp.rtrancl_refl fish_step.mouse_over [OF tour_first]] by (simp add: calm_def tour_def)
  moreover have "fish_step dom_jquery False (tour [1] [7, 4, 7] [7, 4] [] Map.empty 0 [(2, [2])])
      (tour [1] [7, 4, 7] [7, 4] [(0, [1], 0)] [0 \<mapsto> 0] 1 [(2, [2])])"
    using fish_step.mouse_out [OF tour_out [of 1 "[]"]] by fastforce
  ultimately have "?s\<^sup>*\<^sup>* (tour [] [2, 4, 7] [2, 4, 7] [] Map.empty 0 []) (tour [1] [7, 4, 7] [7, 4] [(0, [1], 0)] [0 \<mapsto> 0] 1 [(2, [2])])"
    by (rule calm_run) (simp add: calm_def tour_def)
  then have "?s\<^sup>*\<^sup>* (tour [] [2, 4, 7] [2, 4, 7] [] Map.empty 0 []) (tour [6] [2, 4] [2, 4] [] [0 \<mapsto> 0] 1 [(2, [2]), (7, [7])])"
    by (rule calm_run [OF _ fish_step.mouse_over [OF tour_second]]) (simp add: calm_def tour_def)
  moreover have "fish_step dom_jquery False (tour [6] [2, 4] [2, 4] [] [0 \<mapsto> 0] 1 [(2, [2]), (7, [7])])
      (tour [6] [2, 4] [2, 4] [] [0 \<mapsto> 0] 1 [(7, [7])])"
    using fish_step.shown [OF tour_end [of 2 "[(2, [2]), (7, [7])]" "(2, [2])"]] by fastforce
  ultimately have run: "?s\<^sup>*\<^sup>* (tour [] [2, 4, 7] [2, 4, 7] [] Map.empty 0 []) (tour [6] [2, 4] [2, 4] [] [0 \<mapsto> 0] 1 [(7, [7])])"
    by (rule calm_run) (simp add: calm_def tour_def)
  then have all: "(fish_step dom_jquery False)\<^sup>*\<^sup>* (tour [] [2, 4, 7] [2, 4, 7] [] Map.empty 0 []) (tour [6] [2, 4] [2, 4] [] [0 \<mapsto> 0] 1 [(7, [7])])"
    by (rule rtranclp_mono [THEN predicate2D, rotated]) (auto simp: calm_step_def)
  have "plain_class (hoverClass sf_defaults)"
    by (simp add: plain_class_def sf_defaults_def shadowClass_def menuClass_def anchorClass_def lit_def)
  moreover have "\<not> has_class dom_jquery (page_doc (fresh_fish two_menus)) e k"
    if "k \<in> {hoverClass sf_defaults, bcClass}" for e k
    using that by (auto simp: dom_jquery_def fresh_fish_def two_sel sf_defaults_def bcClass_def strings)
  ultimately show ?thesis unfolding tour_start
    using run all superfish_menus [of dom_jquery sf_defaults "\<lambda>a d. d" "fresh_fish two_menus" 0 False False,
        OF dom.jquery_axioms _ _ _ _ two_menus_plain, unfolded tour_start]
    by (simp add: default_path fresh_fish_def)
qed

end
