(* ===== verification/PageScripts.thy ===== *)
theory PageScripts
  imports Superfish
begin

text \<open>
  The set-up scripts of three saved pages: the sidebar tabs (\<open>tab.js\<close>), the page set-up of the
  theme with the drop-down menus (\<open>app.js\<close> of the data cache page: menus, selection, log-in form, tags, toggles,
  external links, tabs; its video frames are in \<open>PageTree\<close>), and the marking of the current link
  (\<open>app.js\<close> of the LRU page).  jQuery is a parameter, as in \<open>Superfish\<close>; animations are taken at their end.
\<close>

section \<open>Sidebar tabs\<close>

definition tab_ready :: "('e, 'd) jquery \<Rightarrow> 'd \<Rightarrow> 'd" where
  "tab_ready J d =
     (let d1 = hide J (query J (lit ''div.tabbed div'') d) d;
          d2 = reveal J (query J (lit ''div.t1'') d1) d1
      in addClass J (lit ''tab-current'') (query J (lit ''div.tabbed ul.tabs li.t1 a'') d2) d2)"

definition tab_click :: "('e, 'd) jquery \<Rightarrow> 'e \<Rightarrow> 'd \<Rightarrow> 'd" where
  "tab_click J this d =
     (let thisClass = take 2 (prop_of J (lit ''className'') this d);
          d1 = hide J (query J (lit ''div.tabbed div'') d) d;
          d2 = reveal J (query J (lit ''div.'' @ thisClass) d1) d1;
          d3 = removeClass J (lit ''tab-current'') (query J (lit ''div.tabbed ul.tabs li a'') d2) d2
      in addClass J (lit ''tab-current'') [this] d3)"

section \<open>The current link\<close>

definition mark_current :: "('e, 'd) jquery \<Rightarrow> jsstr \<Rightarrow> 'd \<Rightarrow> 'd" where
  "mark_current J location d =
     (let d1 = removeClass J (lit ''active'') (query J (lit ''.active'') d) d;
          links = filter (\<lambda>a. toUpperCase (prop_of J (lit ''href'') a d1) = toUpperCase location) (query J (lit ''.nav li a'') d1)
      in addClass J (lit ''active'') (closest J (lit ''li'') links d1) d1)"

text \<open>The navigation of the small screens (\<open>script.js\<close>).\<close>

definition mobile_nav_click :: "('e, 'd) jquery \<Rightarrow> 'd \<Rightarrow> 'd" where
  "mobile_nav_click J d = toggleClass J (lit ''mobile-on'') (query J (lit ''#header'') d) d"

section \<open>The theme's page\<close>

definition app_menus ::
  "('e, 'd) jquery \<Rightarrow> ('e list \<Rightarrow> 'd \<Rightarrow> 'd) \<Rightarrow> bool \<Rightarrow> ('e, 'd) fish \<Rightarrow> ('e, 'd) fish" where
  "app_menus J append_arrow old_ie st =
     (let menus = query J (lit ''#header ul.menu, #navigation ul.menu'') (page_doc st);
          items = query_in J (lit ''li.current_page_item,li.current_page_parent,li.current_page_ancestor,li.current-cat,li.current-cat-parent,li.current-menu-item'')
            menus (page_doc st)
      in superfish J append_arrow old_ie (sf_defaults\<lparr>autoArrows := True\<rparr>) menus
           (st\<lparr>page_doc := addClass J (lit ''active'') items (page_doc st)\<rparr>))"

text \<open>The new location when another page is selected.\<close>

definition select_change :: "('e, 'd) jquery \<Rightarrow> 'e \<Rightarrow> 'd \<Rightarrow> jsstr option" where
  "select_change J this d = val_of J (query_in J (lit ''option:selected'') [this] d) d"

definition login_click :: "('e, 'd) jquery \<Rightarrow> 'd \<Rightarrow> 'd" where
  "login_click J d = slideToggle J (query J (lit ''#login-form'') d) d"

definition style_tags :: "('e, 'd) jquery \<Rightarrow> 'd \<Rightarrow> 'd" where
  \<open>style_tags J d = wrap J (lit ''<span class="st_tag" />'') (query J (lit ''p.tags a'') d) d\<close>

definition toggles_ready :: "('e, 'd) jquery \<Rightarrow> 'd \<Rightarrow> 'd" where
  "toggles_ready J d = hide J (query J (lit ''.toggle_container'') d) d"

definition trigger_click :: "('e, 'd) jquery \<Rightarrow> 'e \<Rightarrow> 'd \<Rightarrow> 'd" where
  "trigger_click J this d =
     (let d1 = toggleClass J (lit ''active'') [this] d in slideToggle J (next_of J [this] d1) d1)"

text \<open>The address that opens in a new window.\<close>

definition external_click :: "('e, 'd) jquery \<Rightarrow> 'e \<Rightarrow> 'd \<Rightarrow> jsstr" where
  "external_click J this d = prop_of J (lit ''href'') this d"

definition make_active :: "('e, 'd) jquery \<Rightarrow> jsstr \<Rightarrow> 'd \<Rightarrow> 'd" where
  "make_active J sel d = reveal J (query J sel d) (addClass J (lit ''active'') (query J sel d) d)"

definition activate_first :: "('e, 'd) jquery \<Rightarrow> 'd \<Rightarrow> 'd" where
  "activate_first J d =
     make_active J (lit ''ul.tabs-content li:first'') (make_active J (lit ''ul.tabs li:first a'') (make_active J (lit ''ul.tabs li:first'') d))"

text \<open>The links of each group, which its handlers keep, and the page.\<close>

definition tabs_ready :: "('e, 'd) jquery \<Rightarrow> 'd \<Rightarrow> 'e list list \<times> 'd" where
  "tabs_ready J d =
     fold (\<lambda>this (ts, d). (ts @ [query_in J (lit ''> li > a'') [this] d], activate_first J d)) (query J (lit ''ul.tabs'') d) ([], d)"

text \<open>A click on a link of the group \<open>tab\<close>: whether the default action is prevented, and the page.\<close>

definition contentLocation :: "('e, 'd) jquery \<Rightarrow> 'e \<Rightarrow> 'd \<Rightarrow> jsstr" where
  "contentLocation J this d = (case attr J (lit ''href'') this d of None \<Rightarrow> lit ''undefined'' | Some h \<Rightarrow> h) @ lit ''Tab''"

definition tab_link_click :: "('e, 'd) jquery \<Rightarrow> 'e list \<Rightarrow> 'e \<Rightarrow> 'd \<Rightarrow> bool \<times> 'd" where
  "tab_link_click J tab this d =
     (let loc = contentLocation J this d
      in if take 1 loc = lit ''#'' then
           (let d1 = addClass J (lit ''active'') [this] (removeClass J (lit ''active'') tab d);
                panel = query J loc d1;
                d2 = addClass J (lit ''active'') panel (reveal J panel d1);
                others = siblings J panel d2
            in (True, removeClass J (lit ''active'') others (hide J others d2)))
         else (False, d))"

section \<open>What the scripts do\<close>

text \<open>The elements that are active at first, whatever the number of groups of tabs.\<close>

definition first_ones :: "('e, 'd) jquery \<Rightarrow> 'd \<Rightarrow> 'e set" where
  "first_ones J d = set (query J (lit ''ul.tabs li:first'') d) \<union> set (query J (lit ''ul.tabs li:first a'') d) \<union>
     set (query J (lit ''ul.tabs-content li:first'') d)"

text \<open>A trigger is active exactly when the element after it is displayed.\<close>

definition in_step :: "('e, 'd) jquery \<Rightarrow> 'e set \<Rightarrow> 'd \<Rightarrow> bool" where
  "in_step J T d \<longleftrightarrow> (\<forall>t \<in> T. \<forall>c \<in> set (next_of J [t] d). has_class J d t (lit ''active'') \<longleftrightarrow> \<not> is_hidden J d c)"

text \<open>A run of clicks on triggers that can be seen.\<close>

inductive trigger_step :: "('e, 'd) jquery \<Rightarrow> 'e set \<Rightarrow> 'd \<Rightarrow> 'd \<Rightarrow> bool" for J T where
  "t \<in> T \<Longrightarrow> \<not> covered J d t \<Longrightarrow> trigger_step J T d (trigger_click J t d)"


lemma class_word_plain: "SP \<notin> set c \<Longrightarrow> class_words c = {c}"
  by (simp add: class_words_def split_single_none)

lemma word_names [simp]: "class_words (lit ''active'') = {lit ''active''}" "class_words (lit ''tab-current'') = {lit ''tab-current''}"
  by (simp_all add: class_word_plain lit_def)

text \<open>The selectors of the scripts do not ask what is visible and do not mention the classes they set.\<close>

lemma div_class:
  assumes "length c \<le> 2"
  shows "sight_blind (lit ''div.'' @ c)"
proof -
  have "\<not> sublist (lit ''hidden'') c" "\<not> sublist (lit ''visible'') c"
    using assms by (auto simp: lit_def dest: sublist_length_le)
  then show ?thesis by (simp add: sight_blind_def lit_def sublist_Cons_right)
qed

lemma tab_selectors:
  "sight_blind (lit ''div.tabbed div'')" "sight_blind (lit ''div.tabbed ul.tabs li a'')"
  "mentions_none (lit ''active'') (lit ''.nav li a'')" "mentions_none (lit ''active'') (lit ''li'')"
  by (simp_all add: sight_blind_def mentions_none_def) (simp_all add: lit_def sublist_Cons_right)

lemma first_selectors:
  "sight_blind (lit ''ul.tabs li:first'')" "sight_blind (lit ''ul.tabs li:first a'')" "sight_blind (lit ''ul.tabs-content li:first'')"
  "mentions_none (lit ''active'') (lit ''ul.tabs li:first'')" "mentions_none (lit ''active'') (lit ''ul.tabs li:first a'')"
  "mentions_none (lit ''active'') (lit ''ul.tabs-content li:first'')"
  by (simp_all add: sight_blind_def mentions_none_def) (simp_all add: lit_def sublist_Cons_right)

context jquery
begin

lemma tab_click_effect:
  "is_hidden J (tab_click J this d) e \<longleftrightarrow>
     (is_hidden J d e \<or> e \<in> set (query J (lit ''div.tabbed div'') d)) \<and>
     e \<notin> set (query J (lit ''div.'' @ take 2 (prop_of J (lit ''className'') this d)) d)"
  "has_class J (tab_click J this d) e (lit ''tab-current'') \<longleftrightarrow>
     e = this \<or> has_class J d e (lit ''tab-current'') \<and> e \<notin> set (query J (lit ''div.tabbed ul.tabs li a'') d)"
  using div_class [of "take 2 (prop_of J (lit ''className'') this d)"]
  by (auto simp: tab_click_def Let_def sight_laws class_laws query_sight tab_selectors)

lemma make_active_effect:
  assumes "sight_blind sel" "mentions_none (lit ''active'') sel"
  shows "has_class J (make_active J q d) e (lit ''active'') \<longleftrightarrow> has_class J d e (lit ''active'') \<or> e \<in> set (query J q d)"
    and "is_hidden J (make_active J q d) e \<longleftrightarrow> is_hidden J d e \<and> e \<notin> set (query J q d)"
    and "query J sel (make_active J q d) = query J sel d"
  using assms by (auto simp: make_active_def sight_laws class_laws query_sight query_class)

lemma activate_first_effect:
  "has_class J (activate_first J d) e (lit ''active'') \<longleftrightarrow> has_class J d e (lit ''active'') \<or> e \<in> first_ones J d"
  "first_ones J (activate_first J d) = first_ones J d"
  by (auto simp: activate_first_def first_ones_def make_active_effect [OF first_selectors(1,4)]
      make_active_effect(3) [OF first_selectors(2,5)] make_active_effect(3) [OF first_selectors(3,6)])

lemma tabs_fold:
  "has_class J (snd (fold (\<lambda>this (ts, d). (ts @ [query_in J (lit ''> li > a'') [this] d], activate_first J d)) us (ts, d))) e (lit ''active'')
     \<longleftrightarrow> has_class J d e (lit ''active'') \<or> us \<noteq> [] \<and> e \<in> first_ones J d"
  by (induction us arbitrary: ts d) (auto simp: activate_first_effect)

lemma tabs_ready_effect:
  "has_class J (snd (tabs_ready J d)) e (lit ''active'') \<longleftrightarrow>
     has_class J d e (lit ''active'') \<or> query J (lit ''ul.tabs'') d \<noteq> [] \<and> e \<in> first_ones J d"
  unfolding tabs_ready_def by (rule tabs_fold)

lemma tab_link_effect:
  assumes "take 1 (contentLocation J this d) = lit ''#''" "mentions_none (lit ''active'') (contentLocation J this d)"
    and "query J (contentLocation J this d) d = [p]"
  shows "has_class J (snd (tab_link_click J tab this d)) e (lit ''active'') \<longleftrightarrow>
      (e = p \<or> e = this \<or> has_class J d e (lit ''active'') \<and> e \<notin> set tab) \<and>
      \<not> (e \<noteq> p \<and> parent_of J d p \<noteq> None \<and> parent_of J d e = parent_of J d p)"
    and "is_hidden J (snd (tab_link_click J tab this d)) e \<longleftrightarrow>
      e \<noteq> p \<and> (is_hidden J d e \<or> parent_of J d p \<noteq> None \<and> parent_of J d e = parent_of J d p)"
proof -
  have q: "query J (contentLocation J this d) (addClass J (lit ''active'') [this] (removeClass J (lit ''active'') tab d)) = [p]"
    using assms(2,3) by (simp add: query_class)
  show "has_class J (snd (tab_link_click J tab this d)) e (lit ''active'') \<longleftrightarrow>
      (e = p \<or> e = this \<or> has_class J d e (lit ''active'') \<and> e \<notin> set tab) \<and>
      \<not> (e \<noteq> p \<and> parent_of J d p \<noteq> None \<and> parent_of J d e = parent_of J d p)"
    "is_hidden J (snd (tab_link_click J tab this d)) e \<longleftrightarrow>
      e \<noteq> p \<and> (is_hidden J d e \<or> parent_of J d p \<noteq> None \<and> parent_of J d e = parent_of J d p)"
    using assms(1) by (auto simp: tab_link_click_def Let_def q class_laws sight_laws siblings shape_laws)
qed

end

context jquery_page
begin

lemma mark_current_effect:
  assumes "parent_of J d e \<noteq> None"
  shows "has_class J (mark_current J location d) e (lit ''active'') \<longleftrightarrow>
    e \<in> set (closest J (lit ''li'')
      (filter (\<lambda>a. toUpperCase (prop_of J (lit ''href'') a d) = toUpperCase location) (query J (lit ''.nav li a'') d)) d)"
  using with_class(1) [of e d] with_class(2) [of d e] assms
  by (auto simp: mark_current_def Let_def class_laws query_class closest_class prop_class tab_selectors)


lemma covered_same: "same_shape J d d' \<Longrightarrow> is_hidden J d = is_hidden J d' \<Longrightarrow> covered J d = covered J d'"
  by (simp add: covered_def same_shape_def fun_eq_iff)

lemma covered_parent: "covered J d x \<longleftrightarrow> (\<exists>p. parent_of J d x = Some p \<and> (is_hidden J d p \<or> covered J d p))"
proof
  assume "covered J d x"
  then obtain a where a: "(\<lambda>a b. parent_of J d a = Some b)\<^sup>+\<^sup>+ x a" "is_hidden J d a" by (auto simp: covered_def)
  from a(1) show "\<exists>p. parent_of J d x = Some p \<and> (is_hidden J d p \<or> covered J d p)"
    by (rule converse_tranclpE) (use a(2) in \<open>auto simp: covered_def\<close>)
qed (auto simp: covered_def intro: tranclp_into_tranclp2)

lemma covered_sibling: "parent_of J d x = parent_of J d y \<Longrightarrow> covered J d x = covered J d y"
  using covered_parent [of d x] covered_parent [of d y] by simp

lemma trigger_in_step:
  assumes "in_step J T d" "t \<in> T" "\<not> covered J d t"
  shows "in_step J T (trigger_click J t d)"
proof -
  let ?d1 = "toggleClass J (lit ''active'') [t] d"
  have n: "next_of J es (trigger_click J t d) = next_of J es d" for es by (simp add: trigger_click_def Let_def next_stable)
  have c: "has_class J (trigger_click J t d) x (lit ''active'') \<longleftrightarrow> has_class J d x (lit ''active'') \<noteq> (x = t)" for x
    using toggle_class [of "[t]" "lit ''active''" d x] by (simp add: trigger_click_def Let_def slide_class lit_def)
  have other: "is_hidden J (trigger_click J t d) x = is_hidden J d x" if "x \<notin> set (next_of J [t] d)" for x
    using that by (simp add: trigger_click_def Let_def next_stable slide_sight class_sight)
  have own: "is_hidden J (trigger_click J t d) x \<longleftrightarrow> \<not> is_hidden J d x" if "x \<in> set (next_of J [t] d)" for x
  proof -
    have "\<not> covered J d x" using covered_sibling next_sibling [OF that] assms(3) by blast
    moreover have "covered J ?d1 = covered J d" using covered_same shape(3) class_sight(3) by metis
    ultimately show ?thesis using that slide_sight(1) [of x "next_of J [t] ?d1" ?d1]
      by (simp add: trigger_click_def Let_def next_stable class_sight)
  qed
  show ?thesis unfolding in_step_def n c
    using assms(1) own other next_unique unfolding in_step_def by metis
qed

lemma run_in_step: "(trigger_step J T)\<^sup>*\<^sup>* d d' \<Longrightarrow> in_step J T d \<Longrightarrow> in_step J T d'"
  by (induction rule: rtranclp_induct) (auto elim!: trigger_step.cases intro: trigger_in_step)

lemma ready_in_step:
  assumes "\<And>t. t \<in> T \<Longrightarrow> \<not> has_class J d t (lit ''active'')"
    and "\<And>t. t \<in> T \<Longrightarrow> set (next_of J [t] d) \<subseteq> set (query J (lit ''.toggle_container'') d)"
  shows "in_step J T (toggles_ready J d)"
  using assms by (auto simp: in_step_def toggles_ready_def next_stable sight_laws class_laws)

end

section \<open>Properties\<close>

text \<open>
  A click on a link of the sidebar tabs (\<open>tab.js\<close>).  Whatever was displayed before, the divisions inside the
  tabbed block that are displayed afterwards are those with the class named by the first two characters of
  the link's class, and the clicked link is the only current one of the list.  A division without a class of
  its own inside a panel is therefore hidden with the others and never displayed again.
\<close>

theorem tab_click_shows:
  assumes "jquery J"
  shows "{e \<in> set (query J (lit ''div.tabbed div'') d). \<not> is_hidden J (tab_click J this d) e} =
      set (query J (lit ''div.tabbed div'') d) \<inter> set (query J (lit ''div.'' @ take 2 (prop_of J (lit ''className'') this d)) d) \<and>
    {e \<in> set (query J (lit ''div.tabbed ul.tabs li a'') d). has_class J (tab_click J this d) e (lit ''tab-current'')} =
      set (query J (lit ''div.tabbed ul.tabs li a'') d) \<inter> {this}"
  using jquery.tab_click_effect [OF assms] by auto

text \<open>
  The marking of the current link (\<open>app.js\<close> of the LRU page).  Of the elements of the page exactly the list
  items around the navigation links whose address is the location, up to the case of letters, are active
  afterwards; whatever was active before is not.
\<close>

theorem current_link_marked:
  assumes "jquery_page J" and "parent_of J d e \<noteq> None"
  shows "has_class J (mark_current J location d) e (lit ''active'') \<longleftrightarrow>
    e \<in> set (closest J (lit ''li'')
      (filter (\<lambda>a. toUpperCase (prop_of J (lit ''href'') a d) = toUpperCase location) (query J (lit ''.nav li a'') d)) d)"
  by (rule jquery_page.mark_current_effect [OF assms])

text \<open>
  C35: the toggles of the theme's page (\<open>app.js\<close>).  When no trigger is active at first and the element after each
  trigger is a container, then after any sequence of clicks on triggers that can be seen, a trigger is active
  exactly when its container is displayed.
\<close>

theorem toggles_in_step:
  assumes "jquery_page J" and "\<And>t. t \<in> T \<Longrightarrow> \<not> has_class J d t (lit ''active'')"
    and "\<And>t. t \<in> T \<Longrightarrow> set (next_of J [t] d) \<subseteq> set (query J (lit ''.toggle_container'') d)"
    and "(trigger_step J T)\<^sup>*\<^sup>* (toggles_ready J d) d'"
  shows "in_step J T d'"
  by (rule jquery_page.run_in_step [OF assms(1,4) jquery_page.ready_in_step [OF assms(1,2,3)]])

text \<open>
  C36: a click on a tab of the theme's page (\<open>app.js\<close>) whose address is a fragment and whose panel exists:
  of the links of the group only the clicked one is active, the panel is displayed and active, and no
  sibling of the panel is displayed or active.
\<close>

theorem tab_link_shows:
  assumes "jquery J" and "take 1 (contentLocation J this d) = lit ''#''"
    and "mentions_none (lit ''active'') (contentLocation J this d)" and "query J (contentLocation J this d) d = [p]"
    and "p \<notin> set tab" "this \<in> set tab" "parent_of J d p = Some b" "parent_of J d ` set tab \<inter> {Some b} = {}"
  shows "{x \<in> set tab. has_class J (snd (tab_link_click J tab this d)) x (lit ''active'')} = {this} \<and>
    {x. parent_of J d x = Some b \<and> \<not> is_hidden J (snd (tab_link_click J tab this d)) x} = {p} \<and>
    {x. parent_of J d x = Some b \<and> has_class J (snd (tab_link_click J tab this d)) x (lit ''active'')} = {p}"
  using jquery.tab_link_effect [OF assms(1-4)] assms(5-) by (auto simp: image_iff)

text \<open>
  The tabs at first.  The loop runs over all groups of tabs, but what it activates does not depend on the
  group: the elements found on the whole page by three selectors that end in \<open>:first\<close>, once or many times.
\<close>

theorem first_tabs_only:
  assumes "jquery J"
  shows "{e. has_class J (snd (tabs_ready J d)) e (lit ''active'')} =
    {e. has_class J d e (lit ''active'')} \<union> (if query J (lit ''ul.tabs'') d = [] then {} else first_ones J d)"
  using jquery.tabs_ready_effect [OF assms, of d] by auto

section \<open>A page\<close>

text \<open>A trigger with its container, two tabs with their panels, a sidebar with one panel and a navigation link.\<close>

definition sample_page :: dom where
  "sample_page = \<lparr>d_nodes = [0, 1, 2, 3, 4, 5, 6, 7, 8, 9, 10],
     d_tag = (\<lambda>e. [lit ''body'', lit ''p'', lit ''div'', lit ''ul'', lit ''li'', lit ''a'', lit ''li'', lit ''a'', lit ''ul'', lit ''li'', lit ''li''] ! e),
     d_id = (\<lambda>e. if e = 9 then lit ''oneTab'' else if e = 10 then lit ''twoTab'' else []),
     d_parent = (\<lambda>e. [None, Some 0, Some 0, Some 0, Some 3, Some 4, Some 3, Some 6, Some 0, Some 8, Some 8] ! e),
     d_class = [(1, lit ''trigger''), (2, lit ''toggle_container''), (3, lit ''tabs''), (5, lit ''active''), (8, lit ''tabs-content'')],
     d_hidden = [10], d_veiled = [],
     d_attr = (\<lambda>e n. if n = lit ''href'' then (if e = 5 then Some (lit ''#one'') else if e = 7 then Some (lit ''#two'') else None) else None)\<rparr>"

lemma sample_up: "d_up sample_page 1 = Some 0" "d_up sample_page 0 = None" "d_up sample_page 10 = Some 8"
    "d_up sample_page 5 = Some 4" "d_up sample_page 7 = Some 6" "d_up sample_page (Suc 0) = Some 0"
  by (simp_all add: d_up_def sample_page_def)

lemma sample_next: "next_of dom_jquery [1] sample_page = [2]"
  by (simp add: dom_jquery_def d_next_def d_up_def sample_page_def)

lemma sample_containers: "query dom_jquery (lit ''.toggle_container'') sample_page = [2]"
proof -
  let ?s = "lit ''.toggle_container''"
  have "eval_steps sample_page False None (split_str [SP] ?s) = filter (compound_holds sample_page ?s) (d_nodes sample_page)"
    by (rule query_compound; simp add: lit_def parts_of.simps part_start_def)
  moreover have "compound_holds sample_page ?s e \<longleftrightarrow> e = 2" for e
    by (simp add: compound_holds_def lit_def parts_of.simps part_start_def part_holds_def sample_page_def)
  ultimately show ?thesis by (simp add: dom_jquery_def) (simp add: sample_page_def)
qed

lemma sample_panel: "contentLocation dom_jquery 7 sample_page = lit ''#twoTab''" "query dom_jquery (lit ''#twoTab'') sample_page = [10]"
proof -
  show "contentLocation dom_jquery 7 sample_page = lit ''#twoTab''"
    by (simp add: contentLocation_def dom_jquery_def sample_page_def lit_def)
  let ?s = "lit ''#twoTab''"
  have "eval_steps sample_page False None (split_str [SP] ?s) = filter (compound_holds sample_page ?s) (d_nodes sample_page)"
    by (rule query_compound; simp add: lit_def parts_of.simps part_start_def)
  moreover have "compound_holds sample_page ?s e \<longleftrightarrow> e = 10" for e
    by (simp add: compound_holds_def lit_def parts_of.simps part_start_def part_holds_def sample_page_def)
  ultimately show "query dom_jquery ?s sample_page = [10]" by (simp add: dom_jquery_def) (simp add: sample_page_def)
qed

theorem tab_click_shows_witness:
  "{e \<in> set (query dom_jquery (lit ''div.tabbed ul.tabs li a'') sample_page).
      has_class dom_jquery (tab_click dom_jquery 7 sample_page) e (lit ''tab-current'')} =
    set (query dom_jquery (lit ''div.tabbed ul.tabs li a'') sample_page) \<inter> {7}"
  using tab_click_shows [OF dom.jquery_axioms, of sample_page 7] by (rule conjunct2)

theorem current_link_marked_witness:
  "has_class dom_jquery (mark_current dom_jquery (lit ''#ONE'') sample_page) 5 (lit ''active'') \<longleftrightarrow>
    5 \<in> set (closest dom_jquery (lit ''li'')
      (filter (\<lambda>a. toUpperCase (prop_of dom_jquery (lit ''href'') a sample_page) = toUpperCase (lit ''#ONE''))
        (query dom_jquery (lit ''.nav li a'') sample_page)) sample_page)"
  by (rule current_link_marked [OF dom_page.jquery_page_axioms]) (simp add: dom_jquery_def sample_up)

theorem toggles_in_step_witness:
  "in_step dom_jquery {1} (trigger_click dom_jquery 1 (toggles_ready dom_jquery sample_page))"
proof -
  have "\<not> covered dom_jquery d 0" if "d_up d = d_up sample_page" for d
    using dom_page.covered_parent [of d 0] that by (simp add: dom_sel sample_up)
  then have "\<not> covered dom_jquery (toggles_ready dom_jquery sample_page) 1"
    unfolding toggles_ready_def sample_containers dom_sel dom_page.covered_parent [of _ 1]
    by (simp add: sample_up) (simp add: sample_page_def)
  then have "trigger_step dom_jquery {1} (toggles_ready dom_jquery sample_page) (trigger_click dom_jquery 1 (toggles_ready dom_jquery sample_page))"
    by (intro trigger_step.intros) simp_all
  moreover have "\<not> has_class dom_jquery sample_page 1 (lit ''active'')" by (simp add: dom_sel sample_page_def) (simp add: lit_def)
  ultimately show ?thesis
    using toggles_in_step [OF dom_page.jquery_page_axioms, of "{1}" sample_page] sample_next sample_containers by auto
qed

theorem tab_link_shows_witness:
  "{x \<in> set [5, 7]. has_class dom_jquery (snd (tab_link_click dom_jquery [5, 7] 7 sample_page)) x (lit ''active'')} = {7} \<and>
   {x. parent_of dom_jquery sample_page x = Some 8 \<and> \<not> is_hidden dom_jquery (snd (tab_link_click dom_jquery [5, 7] 7 sample_page)) x} = {10} \<and>
   {x. parent_of dom_jquery sample_page x = Some 8 \<and>
      has_class dom_jquery (snd (tab_link_click dom_jquery [5, 7] 7 sample_page)) x (lit ''active'')} = {10}"
proof (rule tab_link_shows [OF dom.jquery_axioms])
  show "mentions_none (lit ''active'') (contentLocation dom_jquery 7 sample_page)"
    unfolding sample_panel(1) by (simp add: mentions_none_def) (simp add: lit_def sublist_Cons_right)
  show "take 1 (contentLocation dom_jquery 7 sample_page) = lit ''#''" unfolding sample_panel(1) by (simp add: lit_def)
qed (simp_all add: sample_panel dom_sel sample_up)

theorem first_tabs_only_witness:
  "{e. has_class dom_jquery (snd (tabs_ready dom_jquery sample_page)) e (lit ''active'')} =
    {e. has_class dom_jquery sample_page e (lit ''active'')} \<union>
      (if query dom_jquery (lit ''ul.tabs'') sample_page = [] then {} else first_ones dom_jquery sample_page)"
  by (rule first_tabs_only [OF dom.jquery_axioms])

end
