(* ===== verification/PageTree.thy ===== *)
theory PageTree
  imports TongjiVisits Doubles "HOL-Library.AList"
begin

text \<open>
  Two scripts that change the tree of a page: the frames of video players, which the theme's page puts into a block of
  the video's proportions (\<open>app.js\<close>), and the images of an article, which get a caption and a link
  (\<open>script.js\<close>).  A page is a forest of elements and texts.  \<open>getElementsByTagName\<close> gives a live
  list, so the first script addresses the frames by their position in the document at each turn of its loop.
  The parsing of markup by the browser is a parameter, and so is the resolution of an address against that of the page:
  the property \<open>src\<close> of an element is its attribute \<open>src\<close>, resolved.
\<close>

section \<open>The tree\<close>

text \<open>A style is a text, or a number followed by a percent sign.\<close>

datatype css = Css jsstr | Percent js_num

record elt =
  el_tag :: jsstr
  el_attrs :: "(jsstr \<times> jsstr) list"
  el_style :: "(jsstr \<times> css) list"

datatype html = Txt jsstr | Elem elt "html list"

definition attr_of :: "elt \<Rightarrow> jsstr \<Rightarrow> jsstr" where
  "attr_of e k = (case map_of (el_attrs e) k of None \<Rightarrow> [] | Some v \<Rightarrow> v)"

definition set_attr :: "jsstr \<Rightarrow> jsstr \<Rightarrow> elt \<Rightarrow> elt" where
  "set_attr k v e = e\<lparr>el_attrs := AList.update k v (el_attrs e)\<rparr>"

definition set_style :: "jsstr \<Rightarrow> css \<Rightarrow> elt \<Rightarrow> elt" where
  "set_style k v e = e\<lparr>el_style := AList.update k v (el_style e)\<rparr>"

text \<open>The elements with a property, in the order of the document, and the n-th of them replaced.\<close>

fun select :: "(elt \<Rightarrow> bool) \<Rightarrow> html list \<Rightarrow> elt list" where
  "select P [] = []"
| "select P (Txt s # ts) = select P ts"
| "select P (Elem e cs # ts) = (if P e then [e] else []) @ select P cs @ select P ts"

fun edit_nth :: "(elt \<Rightarrow> bool) \<Rightarrow> (elt \<Rightarrow> html list \<Rightarrow> html) \<Rightarrow> nat \<Rightarrow> html list \<Rightarrow> html list" where
  "edit_nth P f n [] = []"
| "edit_nth P f n (Txt s # ts) = Txt s # edit_nth P f n ts"
| "edit_nth P f n (Elem e cs # ts) =
     (if P e \<and> n = 0 then f e cs # ts
      else let n1 = (if P e then n - 1 else n); k = length (select P cs)
           in if n1 < k then Elem e (edit_nth P f n1 cs) # ts else Elem e cs # edit_nth P f (n1 - k) ts)"

lemma forest_induct [case_names Nil Txt Elem]:
  assumes "P []" "\<And>s ts. P ts \<Longrightarrow> P (Txt s # ts)" "\<And>e cs ts. P cs \<Longrightarrow> P ts \<Longrightarrow> P (Elem e cs # ts)"
  shows "P ts"
  using assms by (induction "\<lambda>e :: elt. True" ts rule: select.induct) auto

section \<open>Video frames\<close>

definition re_players :: regexp where
  "re_players = js_regex (pat ''www.youtube.com|player.vimeo.com|youtube-nocookie.com|kickstarter.com'') []"

definition is_frame :: "elt \<Rightarrow> bool" where
  "is_frame e \<longleftrightarrow> el_tag e = lit ''iframe''"

definition plays :: "(jsstr \<Rightarrow> jsstr) \<Rightarrow> elt \<Rightarrow> bool" where
  "plays resolve e \<longleftrightarrow> test re_players (resolve (attr_of e (lit ''src'')))"

text \<open>The numbers are those of the language; a zero has no sign here.\<close>

definition signed_double :: "rat \<Rightarrow> rat" where
  "signed_double q = (if q < 0 then - double (- q) else double q)"

fun js_divide :: "js_num \<Rightarrow> js_num \<Rightarrow> js_num" where
  "js_divide NaN _ = NaN"
| "js_divide _ NaN = NaN"
| "js_divide (Num a) (Num b) = (if b = 0 then (if a = 0 then NaN else Infinite (0 < a)) else Num (signed_double (a / b)))"
| "js_divide (Num a) (Infinite s) = Num 0"
| "js_divide (Infinite s) (Num b) = Infinite (s = (0 \<le> b))"
| "js_divide (Infinite s) (Infinite t) = NaN"

fun js_hundred :: "js_num \<Rightarrow> js_num" where
  "js_hundred (Num a) = Num (signed_double (a * 100))"
| "js_hundred x = x"

definition videoRatio :: "elt \<Rightarrow> js_num" where
  "videoRatio e = js_hundred (js_divide (Number (attr_of e (lit ''height''))) (Number (attr_of e (lit ''width''))))"

definition fill_block :: "elt \<Rightarrow> elt" where
  "fill_block e =
     set_attr (lit ''height'') (lit ''100%'') (set_attr (lit ''width'') (lit ''100%'')
       (set_style (lit ''left'') (Css (lit ''0'')) (set_style (lit ''top'') (Css (lit ''0''))
         (set_style (lit ''position'') (Css (lit ''absolute'')) e))))"

definition video_wrap :: "js_num \<Rightarrow> elt" where
  "video_wrap ratio = \<lparr>el_tag = lit ''div'', el_attrs = [(lit ''class'', lit ''video-wrap'')],
     el_style = [(lit ''width'', Css (lit ''100%'')), (lit ''position'', Css (lit ''relative'')), (lit ''paddingTop'', Percent ratio)]\<rparr>"

definition resize_frame :: "(jsstr \<Rightarrow> jsstr) \<Rightarrow> elt \<Rightarrow> html list \<Rightarrow> html" where
  "resize_frame resolve e cs = (if plays resolve e then Elem (video_wrap (videoRatio e)) [Elem (fill_block e) cs] else Elem e cs)"

text \<open>The loop: the bound is read again at each turn.\<close>

lemma set_same_tag [simp]: "el_tag (set_attr k v e) = el_tag e" "el_tag (set_style k w e) = el_tag e"
  by (simp_all add: set_attr_def set_style_def)

lemma resized_frames [simp]: "is_frame e \<Longrightarrow> length (select is_frame [resize_frame r e cs]) = Suc (length (select is_frame cs))"
  by (simp add: resize_frame_def is_frame_def fill_block_def video_wrap_def lit_def)

lemma select_append: "select P (ts @ us) = select P ts @ select P us"
  by (induction P ts rule: select.induct) auto

lemma select_Cons: "select P (t # ts) = select P [t] @ select P ts"
  using select_append [of P "[t]" ts] by simp

lemma edit_count:
  assumes "\<And>e cs. P e \<Longrightarrow> length (select P [f e cs]) = Suc (length (select P cs))"
  shows "length (select P (edit_nth P f n ts)) = length (select P ts)"
  using assms
proof (induction P f n ts rule: edit_nth.induct)
  case (3 P f n e cs ts)
  then show ?case using select_Cons [of P "f e cs" ts] by (auto simp: Let_def)
qed simp_all

function resize_from :: "(jsstr \<Rightarrow> jsstr) \<Rightarrow> nat \<Rightarrow> html list \<Rightarrow> html list" where
  "resize_from r i ts =
     (if i < length (select is_frame ts) then resize_from r (Suc i) (edit_nth is_frame (resize_frame r) i ts) else ts)"
  by pat_completeness auto
termination
  by (relation "measure (\<lambda>(r, i, ts). length (select is_frame ts) - i)") (auto simp: edit_count)

declare resize_from.simps [simp del]

definition resize_players :: "(jsstr \<Rightarrow> jsstr) \<Rightarrow> html list \<Rightarrow> html list" where
  "resize_players r ts = resize_from r 0 ts"

text \<open>The same in one descent of the tree: every frame that plays a video is put into its block where it stands.\<close>

fun wrap_players :: "(jsstr \<Rightarrow> jsstr) \<Rightarrow> html list \<Rightarrow> html list" where
  "wrap_players r [] = []"
| "wrap_players r (Txt s # ts) = Txt s # wrap_players r ts"
| "wrap_players r (Elem e cs # ts) =
     (if is_frame e then resize_frame r e (wrap_players r cs) else Elem e (wrap_players r cs)) # wrap_players r ts"

text \<open>The first \<open>k\<close> frames done.\<close>

fun wrap_upto :: "(jsstr \<Rightarrow> jsstr) \<Rightarrow> nat \<Rightarrow> html list \<Rightarrow> html list" where
  "wrap_upto r k [] = []"
| "wrap_upto r k (Txt s # ts) = Txt s # wrap_upto r k ts"
| "wrap_upto r k (Elem e cs # ts) =
     (if is_frame e then
        (if k = 0 then Elem e cs # ts
         else resize_frame r e (wrap_upto r (k - 1) cs) # wrap_upto r (k - 1 - length (select is_frame cs)) ts)
      else Elem e (wrap_upto r k cs) # wrap_upto r (k - length (select is_frame cs)) ts)"

lemma wrap_upto_0: "wrap_upto r 0 ts = ts"
  by (induction r "0 :: nat" ts rule: wrap_upto.induct) auto

lemma resized_Cons:
  "is_frame e \<Longrightarrow> length (select is_frame (resize_frame r e cs # ts)) = Suc (length (select is_frame cs) + length (select is_frame ts))"
  using resized_frames [of e r cs] select_Cons [of is_frame "resize_frame r e cs" ts] by simp

lemma wrap_upto_count: "length (select is_frame (wrap_upto r k ts)) = length (select is_frame ts)"
  by (induction r k ts rule: wrap_upto.induct) (auto simp: resized_Cons)

lemma wrap_upto_all: "length (select is_frame ts) \<le> k \<Longrightarrow> wrap_upto r k ts = wrap_players r ts"
  by (induction r k ts rule: wrap_upto.induct) auto

lemma wrap_players_count: "length (select is_frame (wrap_players r ts)) = length (select is_frame ts)"
  using wrap_upto_count [of r "length (select is_frame ts)" ts] by (simp add: wrap_upto_all)

text \<open>One more turn on a tree whose first frames are done.\<close>

lemma edit_resized:
  assumes "is_frame e" "n < length (select is_frame cs)"
  shows "edit_nth is_frame f (Suc n) (resize_frame r e cs # ts) = resize_frame r e (edit_nth is_frame f n cs) # ts"
  using assms by (auto simp: resize_frame_def is_frame_def video_wrap_def fill_block_def lit_def Let_def)

lemma edit_past_resized:
  assumes "is_frame e"
  shows "edit_nth is_frame f (Suc (length (select is_frame cs) + n)) (resize_frame r e cs # ts) =
    resize_frame r e cs # edit_nth is_frame f n ts"
  using assms by (auto simp: resize_frame_def is_frame_def video_wrap_def fill_block_def lit_def Let_def)

lemma wrap_upto_step:
  "k < length (select is_frame ts) \<Longrightarrow> edit_nth is_frame (resize_frame r) k (wrap_upto r k ts) = wrap_upto r (Suc k) ts"
proof (induction r k ts rule: wrap_upto.induct)
  case (3 r k e cs ts)
  let ?n = "length (select is_frame cs)"
  consider (outer) "\<not> is_frame e" | (here) "is_frame e" "k = 0" | (inside) j where "is_frame e" "k = Suc j" "j < ?n"
    | (past) j where "is_frame e" "k = Suc (?n + j)"
    by (metis less_iff_Suc_add add_Suc_right not0_implies_Suc nat_less_le not_less le_Suc_ex)
  then show ?case
  proof cases
    case outer
    then show ?thesis using 3 by (auto simp: Let_def wrap_upto_count wrap_upto_all Suc_diff_le wrap_upto_0)
  next
    case here
    then show ?thesis using 3 by (auto simp: wrap_upto_0)
  next
    case inside
    then show ?thesis using 3 by (auto simp: edit_resized wrap_upto_count wrap_upto_0)
  next
    case past
    then show ?thesis using 3 edit_past_resized [where f = "resize_frame r" and r = r and e = e and n = j and cs = "wrap_upto r (?n + j) cs"]
      by (auto simp: wrap_upto_count wrap_upto_all wrap_players_count Suc_diff_le)
  qed
qed auto

lemma resize_from_upto:
  "k \<le> length (select is_frame ts) \<Longrightarrow> resize_from r k (wrap_upto r k ts) = wrap_players r ts"
proof (induction "length (select is_frame ts) - k" arbitrary: k)
  case 0
  then show ?case by (subst resize_from.simps) (simp add: wrap_upto_count wrap_upto_all wrap_players_count)
next
  case (Suc n)
  then show ?case by (subst resize_from.simps) (simp add: wrap_upto_count wrap_upto_step wrap_upto_all)
qed

section \<open>The proportions\<close>

lemma number_percent: "Number (lit ''100%'') = NaN"
  by (simp add: Number_def decimal_def lit_def is_space_def is_digit_def js_eval)

lemma divide_NaN [simp]: "js_divide x NaN = NaN"
  by (cases x) simp_all

lemma ratio_number:
  assumes "Number (attr_of e (lit ''height'')) = Num h" "Number (attr_of e (lit ''width'')) = Num w" "0 < h" "0 < w"
  shows "videoRatio e = Num (double (double (h / w) * 100))"
proof -
  have "\<not> h / w < 0" using assms(3,4) by (simp add: not_less)
  moreover have "\<not> double (h / w) * 100 < 0" using double_nonneg [of "h / w"] by linarith
  ultimately show ?thesis using assms by (simp add: videoRatio_def signed_double_def)
qed

text \<open>
  The proportions of a video.  For a frame with a positive width and height the padding of the block is the
  height in percent of the width, up to the two roundings.
\<close>

lemma ratio_range:
  assumes "Number (attr_of e (lit ''height'')) = Num h" "Number (attr_of e (lit ''width'')) = Num w" "0 < h" "0 < w"
  shows "\<exists>r. videoRatio e = Num r \<and> (1 - 1 / 2 ^ 53) ^ 2 * (100 * h / w) \<le> r \<and> r \<le> (1 + 1 / 2 ^ 53) ^ 2 * (100 * h / w)"
proof (intro exI conjI)
  let ?q = "h / w" and ?u = "1 - 1 / 2 ^ 53 :: rat" and ?v = "1 + 1 / 2 ^ 53 :: rat"
  show "videoRatio e = Num (double (double ?q * 100))" by (rule ratio_number [OF assms])
  have q: "?q * ?u \<le> double ?q" "double ?q \<le> ?q * ?v" using double_bounds [of ?q] assms(3,4) by simp_all
  moreover have "0 < ?q * ?u" using assms(3,4) by simp
  ultimately have "0 < double ?q * 100" by simp
  note r = double_bounds [OF this]
  have "?u ^ 2 * (100 * h / w) = ?q * ?u * 100 * ?u" by (simp add: power2_eq_square field_simps)
  also have "\<dots> \<le> double ?q * 100 * ?u" using q(1) by (intro mult_right_mono) simp_all
  finally show "?u ^ 2 * (100 * h / w) \<le> double (double ?q * 100)" using r(1) by linarith
  have "double ?q * 100 * ?v \<le> ?q * ?v * 100 * ?v" using q(2) by (intro mult_right_mono) simp_all
  also have "\<dots> = ?v ^ 2 * (100 * h / w)" by (simp add: power2_eq_square field_simps)
  finally show "double (double ?q * 100) \<le> ?v ^ 2 * (100 * h / w)" using r(2) by linarith
qed

text \<open>
  A frame whose width is given in percent has no proportions: the padding of its block is not a number, so the
  block has no height.  It is what a second run of the script finds, and what an embedded player with the
  width 100% gets at the first.
\<close>

theorem percent_width_collapses:
  "videoRatio (set_attr (lit ''width'') (lit ''100%'') e) = NaN \<and> videoRatio (fill_block e) = NaN"
proof -
  have "lit ''height'' \<noteq> lit ''width''" by (simp add: lit_def)
  then show ?thesis
    by (simp add: videoRatio_def fill_block_def set_attr_def set_style_def attr_of_def update_conv' number_percent)
qed

section \<open>Which frames, and what becomes of them\<close>

text \<open>
  The addresses of players: one of four names stands in them, where the dot of a name is any character but a line end.
\<close>

fun starts_like :: "jsstr \<Rightarrow> jsstr \<Rightarrow> bool" where
  "starts_like [] t = True"
| "starts_like (p # w) [] = False"
| "starts_like (p # w) (c # t) = ((if p = 46 then \<not> is_line_end c else c = p) \<and> starts_like w t)"

definition player_names :: "jsstr list" where
  "player_names = [lit ''www.youtube.com'', lit ''player.vimeo.com'', lit ''youtube-nocookie.com'', lit ''kickstarter.com'']"

definition player_address :: "jsstr \<Rightarrow> bool" where
  "player_address s \<longleftrightarrow> (\<exists>w \<in> set player_names. \<exists>i \<le> length s. starts_like w (drop i s))"

fun wild :: "jsstr \<Rightarrow> regex" where
  "wild [] = REmpty"
| "wild (c # w) = RSeq (if c = 46 then RAny else RChar c) (wild w)"

lemma re_players_eq:
  "re_players = \<lparr>prog = RAlt (wild (lit ''www.youtube.com'')) (RAlt (wild (lit ''player.vimeo.com''))
     (RAlt (wild (lit ''youtube-nocookie.com'')) (wild (lit ''kickstarter.com'')))), groups = 1, rflags = no_flags, lastIndex = 0\<rparr>"
  by (simp add: re_players_def js_eval lit_def)

lemma m_wild: "i \<le> length s \<Longrightarrow> m no_flags s (wild w) i cs = (if starts_like w (drop i s) then [(i + length w, cs)] else [])"
proof (induction w arbitrary: i)
  case (Cons p w)
  show ?case
  proof (cases "i < length s")
    case True
    then have "drop i s = s ! i # drop (Suc i) s" by (simp add: Cons_nth_drop_Suc)
    with Cons.IH [of "Suc i"] True show ?thesis by (simp add: canonicalize_def)
  qed (use Cons.prems in simp)
qed simp

lemma test_plain: "\<not> global (rflags re) \<Longrightarrow> test re s \<longleftrightarrow> (\<exists>i \<le> length s. match_at re s i \<noteq> None)"
  by (auto simp: test_def exec_def search_None less_Suc_eq_le simp del: upt_Suc)

lemma plays_exact: "plays resolve e \<longleftrightarrow> player_address (resolve (attr_of e (lit ''src'')))"
proof -
  have "match_at re_players s i \<noteq> None \<longleftrightarrow> (\<exists>w \<in> set player_names. starts_like w (drop i s))" if "i \<le> length s" for s i
    using that by (simp add: match_at_def re_players_eq m_wild player_names_def split: list.splits)
  moreover have "\<not> global (rflags re_players)" by (simp add: re_players_eq)
  ultimately show ?thesis unfolding plays_def player_address_def by (subst test_plain) blast+
qed

text \<open>
  The block of a frame: for a positive width and height its padding is the height in percent of the width, up to the two
  roundings; when one of them is not a number it is not one either.  The frame fills the block.
\<close>

definition video_block_of :: "elt \<Rightarrow> elt \<Rightarrow> bool" where
  "video_block_of e b \<longleftrightarrow> el_tag b = lit ''div'' \<and> el_attrs b = [(lit ''class'', lit ''video-wrap'')] \<and>
     map_of (el_style b) (lit ''width'') = Some (Css (lit ''100%'')) \<and> map_of (el_style b) (lit ''position'') = Some (Css (lit ''relative'')) \<and>
     (\<forall>h w. Number (attr_of e (lit ''height'')) = Num h \<and> Number (attr_of e (lit ''width'')) = Num w \<and> 0 < h \<and> 0 < w \<longrightarrow>
       (\<exists>r. map_of (el_style b) (lit ''paddingTop'') = Some (Percent (Num r)) \<and>
          (1 - 1 / 2 ^ 53) ^ 2 * (100 * h / w) \<le> r \<and> r \<le> (1 + 1 / 2 ^ 53) ^ 2 * (100 * h / w))) \<and>
     (Number (attr_of e (lit ''height'')) = NaN \<or> Number (attr_of e (lit ''width'')) = NaN \<longrightarrow>
       map_of (el_style b) (lit ''paddingTop'') = Some (Percent NaN))"

definition fills :: "elt \<Rightarrow> elt \<Rightarrow> bool" where
  "fills e e' \<longleftrightarrow> el_tag e' = el_tag e \<and>
     map_of (el_attrs e') = (map_of (el_attrs e))(lit ''width'' \<mapsto> lit ''100%'', lit ''height'' \<mapsto> lit ''100%'') \<and>
     map_of (el_style e') = (map_of (el_style e))(lit ''position'' \<mapsto> Css (lit ''absolute''), lit ''top'' \<mapsto> Css (lit ''0''), lit ''left'' \<mapsto> Css (lit ''0''))"

text \<open>The tree before and after: only the frames of players have changed, each in its place.\<close>

fun players_wrapped :: "(jsstr \<Rightarrow> jsstr) \<Rightarrow> html list \<Rightarrow> html list \<Rightarrow> bool" where
  "players_wrapped resolve [] us \<longleftrightarrow> us = []"
| "players_wrapped resolve (Txt s # ts) us \<longleftrightarrow> (\<exists>us'. us = Txt s # us' \<and> players_wrapped resolve ts us')"
| "players_wrapped resolve (Elem e cs # ts) us \<longleftrightarrow>
     (\<exists>u us' cs'. us = u # us' \<and> players_wrapped resolve ts us' \<and> players_wrapped resolve cs cs' \<and>
       (if el_tag e = lit ''iframe'' \<and> player_address (resolve (attr_of e (lit ''src'')))
        then \<exists>b e'. u = Elem b [Elem e' cs'] \<and> video_block_of e b \<and> fills e e' else u = Elem e cs'))"

lemma video_block_wrap: "video_block_of e (video_wrap (videoRatio e))"
proof -
  have "videoRatio e = NaN" if "Number (attr_of e (lit ''height'')) = NaN \<or> Number (attr_of e (lit ''width'')) = NaN"
    using that by (auto simp: videoRatio_def)
  moreover have "lit ''width'' \<noteq> lit ''paddingTop''" "lit ''position'' \<noteq> lit ''paddingTop''" "lit ''width'' \<noteq> lit ''position''"
    by (simp_all add: lit_def)
  ultimately show ?thesis unfolding video_block_of_def
    using ratio_range [of e] by (auto simp: video_wrap_def)
qed

lemma fills_block: "fills e (fill_block e)"
  by (simp add: fills_def fill_block_def set_attr_def set_style_def update_conv')

lemma wrap_players_spec: "players_wrapped resolve ts (wrap_players resolve ts)"
  by (induction ts rule: forest_induct)
    (auto simp: resize_frame_def plays_exact is_frame_def video_block_wrap fills_block)

text \<open>
  C34: the video frames of the theme's page (\<open>app.js\<close>).  The loop over the live list of frames ends.  Afterwards each
  frame whose resolved address holds one of the four names of players stands, filled to its size, inside a block of
  the class \<open>video-wrap\<close> in the place where it was, with the height in percent of the width as the padding of
  the block (for positive numbers, up to the roundings of the division and the product; not a number when the width or height is
  none); every other element and all text are as before.
\<close>

theorem players_resized: "players_wrapped resolve ts (resize_players resolve ts)"
  using resize_from_upto [of 0 ts resolve] wrap_players_spec [of resolve ts] by (simp add: resize_players_def wrap_upto_0)

section \<open>Captions\<close>

definition has_cls :: "elt \<Rightarrow> jsstr \<Rightarrow> bool" where
  "has_cls e k \<longleftrightarrow> k \<in> set (split_str [SP] (attr_of e (lit ''class'')))"

definition is_image :: "elt \<Rightarrow> bool" where
  "is_image e \<longleftrightarrow> el_tag e = lit ''img''"

definition caption_html :: "jsstr \<Rightarrow> jsstr" where
  \<open>caption_html alt = lit ''<span class="caption">'' @ alt @ lit ''</span>''\<close>

definition link_html :: "jsstr \<Rightarrow> jsstr \<Rightarrow> jsstr" where
  \<open>link_html src alt = lit ''<a href='' @ [34] @ src @ [34] @ lit '' title='' @ [34] @ alt @ [34] @ lit '' class="fancybox"></a>''\<close>

text \<open>
  The two methods of jQuery that parse markup are parameters: \<open>after\<close> gives the nodes of the markup, \<open>wrap_in\<close>
  the element of the markup around a node; \<open>resolve\<close> gives the property \<open>src\<close>.  \<open>fancy\<close>: the parent has the class of the links.
\<close>

fun caption_images :: "(jsstr \<Rightarrow> jsstr) \<Rightarrow> (jsstr \<Rightarrow> html list) \<Rightarrow> (jsstr \<Rightarrow> html \<Rightarrow> html) \<Rightarrow> bool \<Rightarrow> html list \<Rightarrow> html list" where
  "caption_images resolve after wrap_in fancy [] = []"
| "caption_images resolve after wrap_in fancy (Txt s # ts) = Txt s # caption_images resolve after wrap_in fancy ts"
| "caption_images resolve after wrap_in fancy (Elem e cs # ts) =
     (if \<not> is_image e then [Elem e (caption_images resolve after wrap_in (has_cls e (lit ''fancybox'')) cs)]
      else if fancy then [Elem e cs]
      else let alt = attr_of e (lit ''alt'') in
        wrap_in (link_html (resolve (attr_of e (lit ''src''))) alt) (Elem e cs) # (if alt \<noteq> [] then after (caption_html alt) else []))
     @ caption_images resolve after wrap_in fancy ts"

fun set_rel :: "jsstr \<Rightarrow> html list \<Rightarrow> html list" where
  "set_rel r [] = []"
| "set_rel r (Txt s # ts) = Txt s # set_rel r ts"
| "set_rel r (Elem e cs # ts) =
     Elem (if has_cls e (lit ''fancybox'') then set_attr (lit ''rel'') r e else e) (set_rel r cs) # set_rel r ts"

definition caption_entry :: "(jsstr \<Rightarrow> jsstr) \<Rightarrow> (jsstr \<Rightarrow> html list) \<Rightarrow> (jsstr \<Rightarrow> html \<Rightarrow> html) \<Rightarrow> nat \<Rightarrow> elt \<Rightarrow> html list \<Rightarrow> html" where
  "caption_entry resolve after wrap_in i e cs =
     Elem e (set_rel (lit ''article'' @ nat_digits i) (caption_images resolve after wrap_in (has_cls e (lit ''fancybox'')) cs))"

text \<open>The articles in the order of the document (markup in a caption is not expected to hold an article).\<close>

definition caption_articles :: "(jsstr \<Rightarrow> jsstr) \<Rightarrow> (jsstr \<Rightarrow> html list) \<Rightarrow> (jsstr \<Rightarrow> html \<Rightarrow> html) \<Rightarrow> html list \<Rightarrow> html list" where
  "caption_articles resolve after wrap_in ts =
     fold (\<lambda>i. edit_nth (\<lambda>e. has_cls e (lit ''article-entry'')) (caption_entry resolve after wrap_in i) i)
       [0..<length (select (\<lambda>e. has_cls e (lit ''article-entry'')) ts)] ts"

text \<open>What the two methods do with text that holds no markup: no quote, ampersand or angle bracket.\<close>

definition clean :: "jsstr \<Rightarrow> bool" where
  "clean s \<longleftrightarrow> set s \<inter> {34, 38, 60, 62} = {}"

definition link_elt :: "jsstr \<Rightarrow> jsstr \<Rightarrow> elt" where
  "link_elt src alt = \<lparr>el_tag = lit ''a'', el_attrs = [(lit ''href'', src), (lit ''title'', alt), (lit ''class'', lit ''fancybox'')], el_style = []\<rparr>"

definition caption_elt :: elt where
  "caption_elt = \<lparr>el_tag = lit ''span'', el_attrs = [(lit ''class'', lit ''caption'')], el_style = []\<rparr>"

locale markup =
  fixes after :: "jsstr \<Rightarrow> html list" and wrap_in :: "jsstr \<Rightarrow> html \<Rightarrow> html"
  assumes after_caption: "clean alt \<Longrightarrow> after (caption_html alt) = [Elem caption_elt [Txt alt]]"
    and wrap_link: "clean src \<Longrightarrow> clean alt \<Longrightarrow> wrap_in (link_html src alt) t = Elem (link_elt src alt) [t]"

text \<open>Every image stands in a link.\<close>

fun captioned :: "bool \<Rightarrow> html list \<Rightarrow> bool" where
  "captioned fancy [] = True"
| "captioned fancy (Txt s # ts) = captioned fancy ts"
| "captioned fancy (Elem e cs # ts) =
     ((if is_image e then fancy else captioned (has_cls e (lit ''fancybox'')) cs) \<and> captioned fancy ts)"

definition clean_images :: "(jsstr \<Rightarrow> jsstr) \<Rightarrow> html list \<Rightarrow> bool" where
  "clean_images resolve ts \<longleftrightarrow>
     list_all (\<lambda>e. clean (resolve (attr_of e (lit ''src''))) \<and> clean (attr_of e (lit ''alt''))) (select is_image ts)"

text \<open>An image has no children.\<close>

fun void_images :: "html list \<Rightarrow> bool" where
  "void_images [] = True"
| "void_images (Txt s # ts) = void_images ts"
| "void_images (Elem e cs # ts) = ((is_image e \<longrightarrow> cs = []) \<and> void_images cs \<and> void_images ts)"

text \<open>
  An article before and after.  Every element of the class \<open>fancybox\<close> has the mark \<open>r\<close> in its attribute
  \<open>rel\<close>.  An image whose parent has not that class stands in a new link of the class, with the image's resolved
  address, its description and the mark, and a description that is not empty follows in a caption; there is no other change.
\<close>

definition relabelled :: "jsstr \<Rightarrow> elt \<Rightarrow> elt \<Rightarrow> bool" where
  "relabelled r e e' \<longleftrightarrow> el_tag e' = el_tag e \<and> el_style e' = el_style e \<and>
     map_of (el_attrs e') = (if has_cls e (lit ''fancybox'') then (map_of (el_attrs e))(lit ''rel'' \<mapsto> r) else map_of (el_attrs e))"

definition link_of :: "(jsstr \<Rightarrow> jsstr) \<Rightarrow> jsstr \<Rightarrow> elt \<Rightarrow> elt \<Rightarrow> bool" where
  "link_of resolve r e a \<longleftrightarrow> el_tag a = lit ''a'' \<and>
     map_of (el_attrs a) = [lit ''href'' \<mapsto> resolve (attr_of e (lit ''src'')), lit ''title'' \<mapsto> attr_of e (lit ''alt''),
       lit ''class'' \<mapsto> lit ''fancybox'', lit ''rel'' \<mapsto> r]"

fun captions_made :: "(jsstr \<Rightarrow> jsstr) \<Rightarrow> jsstr \<Rightarrow> bool \<Rightarrow> html list \<Rightarrow> html list \<Rightarrow> bool" where
  "captions_made resolve r fancy [] us \<longleftrightarrow> us = []"
| "captions_made resolve r fancy (Txt s # ts) us \<longleftrightarrow> (\<exists>us'. us = Txt s # us' \<and> captions_made resolve r fancy ts us')"
| "captions_made resolve r fancy (Elem e cs # ts) us \<longleftrightarrow>
     (\<exists>e' cs' us'. relabelled r e e' \<and> captions_made resolve r (has_cls e (lit ''fancybox'')) cs cs' \<and> captions_made resolve r fancy ts us' \<and>
       (if el_tag e = lit ''img'' \<and> \<not> fancy
        then \<exists>a. link_of resolve r e a \<and> us = Elem a [Elem e' cs'] #
          (if attr_of e (lit ''alt'') = [] then [] else [Elem caption_elt [Txt (attr_of e (lit ''alt''))]]) @ us'
        else us = Elem e' cs' # us'))"

lemma captioned_append: "captioned b (ts @ us) \<longleftrightarrow> captioned b ts \<and> captioned b us"
  by (induction b ts rule: captioned.induct) auto

lemma captioned_kept: "captioned b ts \<Longrightarrow> caption_images resolve after wrap_in b ts = ts"
  by (induction b ts rule: captioned.induct) auto

lemma set_attr_cls [simp]: "has_cls (set_attr (lit ''rel'') r e) k = has_cls e k" "is_image (set_attr j r e) = is_image e"
proof -
  have "lit ''class'' \<noteq> lit ''rel''" by (simp add: lit_def)
  then show "has_cls (set_attr (lit ''rel'') r e) k = has_cls e k" "is_image (set_attr j r e) = is_image e"
    by (simp_all add: has_cls_def attr_of_def set_attr_def update_conv' is_image_def)
qed

lemma captioned_rel: "captioned b (set_rel r ts) = captioned b ts"
  by (induction b ts rule: captioned.induct) auto

lemma rel_append: "set_rel r (ts @ us) = set_rel r ts @ set_rel r us"
  by (induction r ts rule: set_rel.induct) auto

lemma relabelled_rel: "relabelled r e (if has_cls e (lit ''fancybox'') then set_attr (lit ''rel'') r e else e)"
  by (simp add: relabelled_def set_attr_def update_conv')

lemma link_of_rel: "link_of resolve r e (set_attr (lit ''rel'') r (link_elt (resolve (attr_of e (lit ''src''))) (attr_of e (lit ''alt''))))"
proof -
  have "lit ''href'' \<noteq> lit ''rel''" "lit ''title'' \<noteq> lit ''rel''" "lit ''class'' \<noteq> lit ''rel''" "lit ''href'' \<noteq> lit ''title''"
    "lit ''href'' \<noteq> lit ''class''" "lit ''title'' \<noteq> lit ''class''" by (simp_all add: lit_def)
  then show ?thesis by (auto simp: link_of_def set_attr_def link_elt_def update_conv' fun_eq_iff)
qed

lemma set_attr_twice: "set_attr k v (set_attr k v e) = set_attr k v e"
proof -
  have "AList.update k v (AList.update k v xs) = AList.update k v xs" for xs by (induction xs) auto
  then show ?thesis by (simp add: set_attr_def)
qed

lemma set_rel_twice: "set_rel r (set_rel r ts) = set_rel r ts"
  by (induction r ts rule: set_rel.induct) (auto simp: set_attr_twice)

lemma made_elements:
  "\<not> is_image (link_elt src alt)" "has_cls (link_elt src alt) (lit ''fancybox'')" "\<not> is_image caption_elt"
  "\<not> has_cls caption_elt (lit ''fancybox'')"
  by (simp_all add: link_elt_def caption_elt_def is_image_def has_cls_def attr_of_def split_single_none lit_def)

context markup
begin

lemma images_captioned: "clean_images resolve ts \<Longrightarrow> captioned b (caption_images resolve after wrap_in b ts)"
  by (induction ts arbitrary: b rule: forest_induct)
    (auto simp: clean_images_def captioned_append Let_def after_caption wrap_link made_elements)

lemma images_made:
  "clean_images resolve ts \<Longrightarrow> void_images ts \<Longrightarrow> captions_made resolve r b ts (set_rel r (caption_images resolve after wrap_in b ts))"
proof (induction ts arbitrary: b rule: forest_induct)
  case (Elem e cs ts)
  let ?e = "if has_cls e (lit ''fancybox'') then set_attr (lit ''rel'') r e else e"
  have ts: "captions_made resolve r b ts (set_rel r (caption_images resolve after wrap_in b ts))"
    and cs: "captions_made resolve r k cs (set_rel r (caption_images resolve after wrap_in k cs))" for k
    using Elem by (auto simp: clean_images_def)
  have "link_of resolve r e (set_attr (lit ''rel'') r (link_elt (resolve (attr_of e (lit ''src''))) (attr_of e (lit ''alt''))))"
    by (rule link_of_rel)
  moreover have "clean (resolve (attr_of e (lit ''src'')))" "clean (attr_of e (lit ''alt''))" "cs = []" if "is_image e"
    using that Elem.prems by (auto simp: clean_images_def)
  ultimately show ?case using ts cs [of "has_cls e (lit ''fancybox'')"] relabelled_rel [of r e]
    by (cases "is_image e"; cases b)
      (auto simp: Let_def rel_append after_caption wrap_link made_elements is_image_def split: if_splits intro!: exI [of _ ?e])
qed (auto simp: clean_images_def)

end

text \<open>
  C37: the captions of an article (\<open>script.js\<close>).  If the resolved addresses and the descriptions of its images hold no
  quote, ampersand or angle bracket, one run does to the article exactly this: every image whose parent has not the class
  \<open>fancybox\<close> is kept as it is inside a link of that class, with its resolved address and its description, and a
  description that is not empty follows as a caption; every element of the class gets the article's mark; nothing else
  changes.  A second run changes nothing.
\<close>

theorem captions_once:
  assumes "markup after wrap_in" and "clean_images resolve cs" and "void_images cs"
    and "Elem e' cs' = caption_entry resolve after wrap_in i e cs"
  shows "e' = e \<and> captions_made resolve (lit ''article'' @ nat_digits i) (has_cls e (lit ''fancybox'')) cs cs' \<and>
    caption_entry resolve after wrap_in i e cs' = Elem e cs'"
proof -
  let ?b = "has_cls e (lit ''fancybox'')" and ?r = "lit ''article'' @ nat_digits i"
  have cs': "e' = e" "cs' = set_rel ?r (caption_images resolve after wrap_in ?b cs)" using assms(4) by (simp_all add: caption_entry_def)
  have "captioned ?b cs'" using markup.images_captioned [OF assms(1,2)] by (simp add: cs' captioned_rel)
  then have "caption_entry resolve after wrap_in i e cs' = Elem e cs'"
    using captioned_kept by (simp add: caption_entry_def) (simp add: cs' set_rel_twice)
  with cs' markup.images_made [OF assms(1-3)] show ?thesis by simp
qed

text \<open>A parser of the markup the script builds.\<close>

definition sample_after :: "jsstr \<Rightarrow> html list" where
  "sample_after s = [Elem caption_elt [Txt (takeWhile (\<lambda>c. c \<noteq> 60) (drop 22 s))]]"

definition sample_wrap :: "jsstr \<Rightarrow> html \<Rightarrow> html" where
  "sample_wrap s t =
     (let src = takeWhile (\<lambda>c. c \<noteq> 34) (drop 9 s); alt = takeWhile (\<lambda>c. c \<noteq> 34) (drop 9 (drop (length src) (drop 9 s)))
      in Elem (link_elt src alt) [t])"

interpretation sample: markup sample_after sample_wrap
proof
  fix alt src t
  assume alt: "clean alt"
  then show "sample_after (caption_html alt) = [Elem caption_elt [Txt alt]]"
    using takeWhile_stop [of 60 alt] by (simp add: sample_after_def caption_html_def lit_def clean_def)
  assume src: "clean src"
  then show "sample_wrap (link_html src alt) t = Elem (link_elt src alt) [t]"
    using alt takeWhile_stop [of 34 alt] takeWhile_stop [of 34 src]
    by (simp add: sample_wrap_def link_html_def lit_def clean_def)
qed

definition sample_image :: html where
  "sample_image = Elem \<lparr>el_tag = lit ''img'', el_attrs = [(lit ''src'', lit ''a.png''), (lit ''alt'', lit ''tree'')], el_style = []\<rparr> []"

theorem captions_once_witness:
  "\<exists>cs'. caption_entry (\<lambda>s. lit ''http://x/'' @ s) sample_after sample_wrap 0 caption_elt [sample_image] = Elem caption_elt cs' \<and>
     captions_made (\<lambda>s. lit ''http://x/'' @ s) (lit ''article'' @ nat_digits 0) (has_cls caption_elt (lit ''fancybox'')) [sample_image] cs' \<and>
     caption_entry (\<lambda>s. lit ''http://x/'' @ s) sample_after sample_wrap 0 caption_elt cs' = Elem caption_elt cs'"
proof -
  have "clean_images (\<lambda>s. lit ''http://x/'' @ s) [sample_image]" "void_images [sample_image]"
    by (simp_all add: clean_images_def sample_image_def is_image_def attr_of_def clean_def lit_def)
  from captions_once [OF sample.markup_axioms this] show ?thesis by (metis caption_entry_def)
qed

end
