(* ===== verification/Ratings.thy ===== *)
theory Ratings
  imports JsString
begin

text \<open>
  The rating of an article (\<^verbatim>\<open>postratings-js.js\<close>): stars that light up under the mouse (\<open>current_rating\<close>, \<open>ratings_off\<close>), and
  the click that sends a rating (\<open>rate_post\<close>) and shows the answer (\<open>rate_post_success\<close>), with a lock that is
  set while a rating is under way.  Fading and requests end later; what is to come is part of the state, and a run is
  any interleaving of the reader's events with them.
\<close>

section \<open>State\<close>

record rating_opts =
  custom :: bool
  max_rating :: nat
  show_loading :: bool
  show_fading :: bool
  image_dir :: jsstr
  image_ext :: jsstr

record rated_el =
  el_src :: jsstr
  el_html :: jsstr
  el_shown :: bool

text \<open>What is still to come: the end of fading out, the answer to a request (with what was sent), the end of fading in.\<close>

datatype pending = FadeOut | Request nat nat jsstr | FadeIn

record ratings =
  post_id :: nat
  post_rating :: nat
  is_being_rated :: bool
  post_ratings_nonce :: jsstr
  els :: "jsstr \<rightharpoonup> rated_el"
  coming :: "pending list"
  sent :: nat
  waits :: nat

section \<open>Elements\<close>

text \<open>The stars that an answer brings have the ids of those it replaces.\<close>

text \<open>A method of jQuery on the element of an id does nothing where there is none.\<close>

definition on_id :: "jsstr \<Rightarrow> (rated_el \<Rightarrow> rated_el) \<Rightarrow> ratings \<Rightarrow> ratings" where
  "on_id i f st = (case els st i of None \<Rightarrow> st | Some e \<Rightarrow> st\<lparr>els := (els st)(i \<mapsto> f e)\<rparr>)"

definition star :: "nat \<Rightarrow> nat \<Rightarrow> jsstr" where
  "star p i = lit ''rating_'' @ nat_digits p @ lit ''_'' @ nat_digits i"

definition text_of :: "nat \<Rightarrow> jsstr" where
  "text_of p = lit ''ratings_'' @ nat_digits p @ lit ''_text''"

definition widget :: "nat \<Rightarrow> jsstr" where
  "widget p = lit ''post-ratings-'' @ nat_digits p"

definition loading :: "nat \<Rightarrow> jsstr" where
  "loading p = widget p @ lit ''-loading''"

definition set_src :: "nat \<Rightarrow> nat \<Rightarrow> jsstr \<Rightarrow> ratings \<Rightarrow> ratings" where
  "set_src p i src = on_id (star p i) (\<lambda>e. e\<lparr>el_src := src\<rparr>)"

section \<open>The mouse\<close>

text \<open>
  \<open>over_image i\<close> is the picture that the page has loaded for the \<open>i\<close>-th star under the mouse, or for all stars.
\<close>

definition current_rating :: "rating_opts \<Rightarrow> (nat \<Rightarrow> jsstr) \<Rightarrow> jsstr \<Rightarrow> nat \<Rightarrow> nat \<Rightarrow> jsstr \<Rightarrow> ratings \<Rightarrow> ratings" where
  "current_rating opts over_image all_image a b c st =
     (if is_being_rated st then st
      else let st1 = st\<lparr>post_id := a, post_rating := b\<rparr>;
               st2 = (if custom opts \<and> max_rating opts = 2 then set_src a b (over_image b) st1
                      else fold (\<lambda>i. set_src a i (if custom opts then over_image i else all_image)) [1..<Suc b] st1)
           in on_id (text_of a) (\<lambda>e. e\<lparr>el_shown := True, el_html := c\<rparr>) st2)"

definition off_image :: "rating_opts \<Rightarrow> nat \<Rightarrow> nat \<Rightarrow> bool \<Rightarrow> nat \<Rightarrow> jsstr" where
  "off_image opts a b rtl i =
     image_dir opts @ lit ''/rating_'' @ (if custom opts then nat_digits i @ lit ''_'' else [])
     @ (if i \<le> a then lit ''on'' else if i = b then lit ''half'' @ (if rtl then lit ''-rtl'' else []) else lit ''off'')
     @ lit ''.'' @ image_ext opts"

definition ratings_off :: "rating_opts \<Rightarrow> nat \<Rightarrow> nat \<Rightarrow> bool \<Rightarrow> ratings \<Rightarrow> ratings" where
  "ratings_off opts a b rtl st =
     (if is_being_rated st then st
      else on_id (text_of (post_id st)) (\<lambda>e. e\<lparr>el_shown := False, el_html := []\<rparr>)
             (fold (\<lambda>i. set_src (post_id st) i (off_image opts a b rtl i)) [1..<Suc (max_rating opts)] st))"

section \<open>Rating\<close>

definition set_is_being_rated :: "bool \<Rightarrow> ratings \<Rightarrow> ratings" where
  "set_is_being_rated b st = st\<lparr>is_being_rated := b\<rparr>"

definition send_rating :: "rating_opts \<Rightarrow> ratings \<Rightarrow> ratings" where
  "send_rating opts st =
     (let st1 = (if show_loading opts then on_id (loading (post_id st)) (\<lambda>e. e\<lparr>el_shown := True\<rparr>) st else st)
      in st1\<lparr>coming := coming st1 @ [Request (post_id st1) (post_rating st1) (post_ratings_nonce st1)], sent := Suc (sent st1)\<rparr>)"

text \<open>
  A click.  \<open>nonce p\<close> is the attribute of the widget of post \<open>p\<close>.  Where there is no widget to fade, the function given
  to \<open>fadeTo\<close> is never called.
\<close>

definition rate_post :: "rating_opts \<Rightarrow> (nat \<Rightarrow> jsstr) \<Rightarrow> ratings \<Rightarrow> ratings" where
  "rate_post opts nonce st =
     (if is_being_rated st then st\<lparr>waits := Suc (waits st)\<rparr>
      else let st1 = set_is_being_rated True (st\<lparr>post_ratings_nonce := nonce (post_id st)\<rparr>)
           in if show_fading opts
              then (if els st1 (widget (post_id st1)) = None then st1 else st1\<lparr>coming := coming st1 @ [FadeOut]\<rparr>)
              else send_rating opts st1)"

definition rate_post_success :: "rating_opts \<Rightarrow> jsstr \<Rightarrow> ratings \<Rightarrow> ratings" where
  "rate_post_success opts a st =
     (let st1 = on_id (widget (post_id st)) (\<lambda>e. e\<lparr>el_html := a\<rparr>) st;
          st2 = (if show_loading opts then on_id (loading (post_id st1)) (\<lambda>e. e\<lparr>el_shown := False\<rparr>) st1 else st1)
      in if show_fading opts
         then (if els st2 (widget (post_id st2)) = None then st2 else st2\<lparr>coming := coming st2 @ [FadeIn]\<rparr>)
         else set_is_being_rated False st2)"

text \<open>The \<open>k\<close>-th of the things to come happens; a request may be answered or fail, and for a failure there is no handler.\<close>

definition drop_coming :: "nat \<Rightarrow> ratings \<Rightarrow> ratings" where
  "drop_coming k st = st\<lparr>coming := take k (coming st) @ drop (Suc k) (coming st)\<rparr>"

inductive rating_step :: "rating_opts \<Rightarrow> (nat \<Rightarrow> jsstr) \<Rightarrow> (nat \<Rightarrow> jsstr) \<Rightarrow> jsstr \<Rightarrow> ratings \<Rightarrow> ratings \<Rightarrow> bool"
  for opts nonce over_image all_image where
  hover: "rating_step opts nonce over_image all_image st (current_rating opts over_image all_image a b c st)"
| leave: "rating_step opts nonce over_image all_image st (ratings_off opts a b rtl st)"
| press: "rating_step opts nonce over_image all_image st (rate_post opts nonce st)"
| faded_out: "k < length (coming st) \<Longrightarrow> coming st ! k = FadeOut \<Longrightarrow>
    rating_step opts nonce over_image all_image st (send_rating opts (drop_coming k st))"
| answered: "k < length (coming st) \<Longrightarrow> coming st ! k = Request p r n \<Longrightarrow>
    rating_step opts nonce over_image all_image st (rate_post_success opts a (drop_coming k st))"
| failed: "k < length (coming st) \<Longrightarrow> coming st ! k = Request p r n \<Longrightarrow>
    rating_step opts nonce over_image all_image st (drop_coming k st)"
| faded_in: "k < length (coming st) \<Longrightarrow> coming st ! k = FadeIn \<Longrightarrow>
    rating_step opts nonce over_image all_image st (set_is_being_rated False (drop_coming k st))"

section \<open>One rating at a time\<close>

lemma on_id_keeps [simp]:
  "post_id (on_id i f st) = post_id st" "post_rating (on_id i f st) = post_rating st"
  "is_being_rated (on_id i f st) = is_being_rated st" "coming (on_id i f st) = coming st" "sent (on_id i f st) = sent st"
  "post_ratings_nonce (on_id i f st) = post_ratings_nonce st" "waits (on_id i f st) = waits st"
  by (simp_all add: on_id_def split: option.split)

lemma fold_src_keeps [simp]:
  "coming (fold (\<lambda>i. set_src p i (g i)) xs st) = coming st"
  "is_being_rated (fold (\<lambda>i. set_src p i (g i)) xs st) = is_being_rated st"
  "post_id (fold (\<lambda>i. set_src p i (g i)) xs st) = post_id st"
  "post_rating (fold (\<lambda>i. set_src p i (g i)) xs st) = post_rating st"
  "sent (fold (\<lambda>i. set_src p i (g i)) xs st) = sent st"
  by (induction xs arbitrary: st) (simp_all add: set_src_def)

lemma set_src_keeps [simp]:
  "coming (set_src p i x st) = coming st" "is_being_rated (set_src p i x st) = is_being_rated st" "sent (set_src p i x st) = sent st"
  by (simp_all add: set_src_def)

text \<open>At most one thing is to come, only while the lock is set, and a request is about the post that the widget is set to.\<close>

definition rating_ok :: "ratings \<Rightarrow> bool" where
  "rating_ok st \<longleftrightarrow>
     length (coming st) \<le> 1 \<and> (coming st \<noteq> [] \<longrightarrow> is_being_rated st) \<and>
     (\<forall>p r n. Request p r n \<in> set (coming st) \<longrightarrow> p = post_id st \<and> r = post_rating st)"

lemma single_coming:
  assumes "rating_ok st" "k < length (coming st)"
  shows "k = 0" "coming st = [coming st ! k]" "is_being_rated st" "coming (drop_coming k st) = []"
  using assms by (auto simp: rating_ok_def drop_coming_def Suc_le_eq length_Suc_conv le_Suc_eq)

lemma rating_ok_step:
  assumes "rating_step opts nonce over_image all_image st st'" "rating_ok st"
  shows "rating_ok st'"
  using assms(1)
proof (cases rule: rating_step.cases)
  case (hover a b c)
  then show ?thesis using assms(2) by (auto simp: rating_ok_def current_rating_def Let_def)
next
  case (leave a b rtl)
  then show ?thesis using assms(2) by (auto simp: rating_ok_def ratings_off_def)
next
  case press
  then show ?thesis using assms(2)
    by (auto simp: rating_ok_def rate_post_def send_rating_def set_is_being_rated_def Let_def)
next
  case (faded_out k)
  then show ?thesis using single_coming [OF assms(2) faded_out(2)]
    by (auto simp: rating_ok_def send_rating_def drop_coming_def Let_def)
next
  case (answered k p r n a)
  then show ?thesis using single_coming [OF assms(2) answered(2)]
    by (auto simp: rating_ok_def rate_post_success_def drop_coming_def set_is_being_rated_def Let_def)
next
  case (failed k p r n)
  then show ?thesis using single_coming [OF assms(2) failed(2)] by (simp add: rating_ok_def)
next
  case (faded_in k)
  then show ?thesis using single_coming [OF assms(2) faded_in(2)]
    by (simp add: rating_ok_def set_is_being_rated_def drop_coming_def)
qed

lemma success_writes:
  assumes "els st (widget (post_id st)) = Some e"
  shows "map_option el_html (els (rate_post_success opts a st) (widget (post_id st))) = Some a"
proof -
  have "loading (post_id st) \<noteq> widget (post_id st)" by (simp add: loading_def lit_def)
  then show ?thesis
    using assms by (auto simp: rate_post_success_def on_id_def set_is_being_rated_def Let_def split: option.splits)
qed

section \<open>Properties\<close>

text \<open>
  C39: one rating at a time.  Under every interleaving of hovering, leaving, clicking, fading and answers, at most one rating is
  under way, and an answer is written into the widget of the very post that its request rated, though the
  functions that write it read the post from a global variable that every movement of the mouse sets.
\<close>

theorem ratings_one_at_a_time:
  assumes "(rating_step opts nonce over_image all_image)\<^sup>*\<^sup>* st0 st" "coming st0 = []"
  shows "length (coming st) \<le> 1 \<and>
    (\<forall>k p r n e a. k < length (coming st) \<longrightarrow> coming st ! k = Request p r n \<longrightarrow> els st (widget p) = Some e \<longrightarrow>
       map_option el_html (els (rate_post_success opts a (drop_coming k st)) (widget p)) = Some a)"
proof -
  have ok0: "rating_ok st0" using assms(2) by (simp add: rating_ok_def)
  from assms(1) have ok: "rating_ok st"
  proof (induction rule: rtranclp_induct)
    case base
    show ?case by (rule ok0)
  next
    case (step y z)
    then show ?case using rating_ok_step by blast
  qed
  then have "length (coming st) \<le> 1" by (simp add: rating_ok_def)
  moreover have "map_option el_html (els (rate_post_success opts a (drop_coming k st)) (widget p)) = Some a"
    if "k < length (coming st)" "coming st ! k = Request p r n" "els st (widget p) = Some e" for k p r n e a
  proof -
    have "Request p r n \<in> set (coming st)" using that(1,2) nth_mem by metis
    then have "p = post_id st" using ok unfolding rating_ok_def by blast
    with that(3) show ?thesis using success_writes [of "drop_coming k st" e opts a] by (simp add: drop_coming_def)
  qed
  ultimately show ?thesis by blast
qed

text \<open>
  A lock without a rating under way is never opened: after a request that failed, for which there is no handler, or a click
  where no widget fades, nothing is ever sent again, however long the reader tries.
\<close>

theorem ratings_locked:
  assumes "(rating_step opts nonce over_image all_image)\<^sup>*\<^sup>* st0 st" "coming st0 = []" "is_being_rated st0"
  shows "is_being_rated st \<and> sent st = sent st0 \<and> els st = els st0"
proof -
  from assms(1) have "coming st = [] \<and> is_being_rated st \<and> sent st = sent st0 \<and> els st = els st0"
  proof (induction rule: rtranclp_induct)
    case base
    show ?case using assms(2,3) by simp
  next
    case (step y z)
    from step(2) show ?case using step(3)
      by (cases rule: rating_step.cases) (simp_all add: current_rating_def ratings_off_def rate_post_def)
  qed
  then show ?thesis by blast
qed

definition sample_opts :: rating_opts where
  "sample_opts = \<lparr>custom = False, max_rating = 5, show_loading = True, show_fading = False, image_dir = [], image_ext = lit ''gif''\<rparr>"

definition sample_ratings :: ratings where
  "sample_ratings = \<lparr>post_id = 0, post_rating = 0, is_being_rated = False, post_ratings_nonce = [],
     els = [widget 17225 \<mapsto> \<lparr>el_src = [], el_html = [], el_shown = True\<rparr>], coming = [], sent = 0, waits = 0\<rparr>"

lemma ratings_one_at_a_time_witness:
  "let st = rate_post sample_opts (\<lambda>p. lit ''x'') (current_rating sample_opts (\<lambda>i. []) [] 17225 0 [] sample_ratings)
   in map_option el_html (els (rate_post_success sample_opts (lit ''ok'') (drop_coming 0 st)) (widget 17225)) = Some (lit ''ok'')"
proof -
  let ?s1 = "current_rating sample_opts (\<lambda>i. []) [] 17225 0 [] sample_ratings"
  let ?s2 = "rate_post sample_opts (\<lambda>p. lit ''x'') ?s1"
  have "rating_step sample_opts (\<lambda>p. lit ''x'') (\<lambda>i. []) [] sample_ratings ?s1" by (rule rating_step.hover)
  moreover have "rating_step sample_opts (\<lambda>p. lit ''x'') (\<lambda>i. []) [] ?s1 ?s2" by (rule rating_step.press)
  ultimately have run: "(rating_step sample_opts (\<lambda>p. lit ''x'') (\<lambda>i. []) [])\<^sup>*\<^sup>* sample_ratings ?s2" by (meson converse_rtranclp_into_rtranclp r_into_rtranclp)
  have ne: "text_of 17225 \<noteq> widget 17225" "loading 17225 \<noteq> widget 17225" by (simp_all add: text_of_def widget_def loading_def lit_def)
  have c: "coming ?s2 = [Request 17225 0 (lit ''x'')]"
    by (simp add: rate_post_def send_rating_def current_rating_def set_is_being_rated_def sample_opts_def sample_ratings_def Let_def)
  moreover have "els ?s2 (widget 17225) = Some \<lparr>el_src = [], el_html = [], el_shown = True\<rparr>"
    using ne by (simp add: rate_post_def send_rating_def current_rating_def on_id_def set_is_being_rated_def sample_opts_def sample_ratings_def Let_def split: option.splits)
  moreover have "coming sample_ratings = []" by (simp add: sample_ratings_def)
  ultimately show ?thesis using ratings_one_at_a_time [OF run] unfolding Let_def by simp
qed

end
