(* ===== verification/ReplyForm.thy ===== *)
theory ReplyForm
  imports JsString
begin

text \<open>
  Replies below a comment (\<^verbatim>\<open>comment-reply.min.js\<close>, in two copies): \<open>addComment.moveForm\<close> moves the form below a comment and
  leaves an empty element where it stood; the link to cancel moves it back.  The document is a list of trees of elements with ids.
\<close>

section \<open>The document\<close>

datatype etree = E (eid: jsstr) (kids: "etree list")

fun ids_of :: "etree list \<Rightarrow> jsstr list" where
  "ids_of [] = []"
| "ids_of (E i cs # ts) = i # ids_of cs @ ids_of ts"

text \<open>\<open>getElementById\<close>: the first element of the id in the order of the document.\<close>

fun by_id :: "jsstr \<Rightarrow> etree list \<Rightarrow> etree option" where
  "by_id x [] = None"
| "by_id x (E i cs # ts) =
     (if i = x then Some (E i cs) else case by_id x cs of Some t \<Rightarrow> Some t | None \<Rightarrow> by_id x ts)"

text \<open>Putting other elements in the place of the first element of an id.\<close>

fun edit :: "jsstr \<Rightarrow> (etree \<Rightarrow> etree list) \<Rightarrow> etree list \<Rightarrow> etree list" where
  "edit x f [] = []"
| "edit x f (E i cs # ts) =
     (if i = x then f (E i cs) @ ts
      else if by_id x cs \<noteq> None then E i (edit x f cs) # ts else E i cs # edit x f ts)"

definition insert_before :: "jsstr \<Rightarrow> etree \<Rightarrow> etree list \<Rightarrow> etree list" where
  "insert_before x e = edit x (\<lambda>t. [e, t])"

definition insert_after :: "jsstr \<Rightarrow> etree \<Rightarrow> etree list \<Rightarrow> etree list" where
  "insert_after x e = edit x (\<lambda>t. [t, e])"

definition take_out :: "jsstr \<Rightarrow> etree list \<Rightarrow> etree list" where
  "take_out x = edit x (\<lambda>_. [])"

section \<open>The script\<close>

text \<open>
  The document, the values of the two hidden fields, the id of the form moved last, and whether the link to cancel is
  displayed and answers clicks.
\<close>

record reply_page =
  tree :: "etree list"
  comment_parent :: jsstr
  comment_post_ID :: jsstr
  respondId :: "jsstr option"
  cancel_shown :: bool
  cancel_armed :: bool

abbreviation temp_id :: jsstr where "temp_id \<equiv> lit ''wp-temp-form-div''"

text \<open>An element cannot be moved behind one of its own parts: the call fails, and the empty element is left.\<close>

definition moveForm :: "jsstr \<Rightarrow> jsstr \<Rightarrow> jsstr \<Rightarrow> jsstr \<Rightarrow> reply_page \<Rightarrow> reply_page" where
  "moveForm commId parentId respond postId pg =
     (case (by_id commId (tree pg), by_id respond (tree pg), by_id (lit ''cancel-comment-reply-link'') (tree pg),
            by_id (lit ''comment_parent'') (tree pg)) of
        (Some comm, Some form, Some _, Some _) \<Rightarrow>
          (let t1 = (if by_id temp_id (tree pg) = None then insert_before respond (E temp_id []) (tree pg) else tree pg);
               t2 = insert_after commId form (take_out respond t1)
           in if by_id commId [form] \<noteq> None then pg\<lparr>tree := t1, respondId := Some respond\<rparr>
              else pg\<lparr>tree := t2, respondId := Some respond,
                 comment_post_ID := (if by_id (lit ''comment_post_ID'') (tree pg) \<noteq> None \<and> postId \<noteq> [] then postId else comment_post_ID pg),
                 comment_parent := parentId, cancel_shown := True, cancel_armed := True\<rparr>)
      | _ \<Rightarrow> pg)"

definition cancel_reply :: "reply_page \<Rightarrow> reply_page" where
  "cancel_reply pg =
     (if \<not> cancel_armed pg then pg
      else case (by_id temp_id (tree pg), Option.bind (respondId pg) (\<lambda>r. by_id r (tree pg))) of
             (Some _, Some form) \<Rightarrow>
               pg\<lparr>comment_parent := lit ''0'', tree := take_out temp_id (insert_before temp_id form (take_out (eid form) (tree pg))),
                  cancel_shown := False, cancel_armed := False\<rparr>
           | _ \<Rightarrow> pg)"

section \<open>Editing a document\<close>

lemma by_id_None: "by_id x ts = None \<longleftrightarrow> x \<notin> set (ids_of ts)"
  by (induction x ts rule: by_id.induct) (auto split: option.splits)

lemma by_id_eid: "by_id x ts = Some t \<Longrightarrow> eid t = x"
  by (induction x ts rule: by_id.induct) (auto split: if_splits option.splits)

lemma ids_append [simp]: "ids_of (ts @ us) = ids_of ts @ ids_of us"
  by (induction ts rule: ids_of.induct) auto

lemma by_id_append: "by_id x (ts @ us) = (case by_id x ts of Some t \<Rightarrow> Some t | None \<Rightarrow> by_id x us)"
  by (induction x ts rule: by_id.induct) (auto split: option.splits)

lemma edit_append: "edit x f (ts @ us) = (if by_id x ts \<noteq> None then edit x f ts @ us else ts @ edit x f us)"
  by (induction x f ts rule: edit.induct) auto

lemma edit_missing: "by_id x ts = None \<Longrightarrow> edit x f ts = ts"
  by (induction x f ts rule: edit.induct) (auto split: if_splits option.splits)

text \<open>The ids after an edit.\<close>

lemma ids_edit: "by_id x ts = Some t \<Longrightarrow> mset (ids_of (edit x f ts)) + mset (ids_of [t]) = mset (ids_of ts) + mset (ids_of (f t))"
proof (induction x f ts rule: edit.induct)
  case (2 x f i cs ts)
  show ?case
  proof (cases "i = x")
    case True
    with 2(3) show ?thesis by auto
  next
    case i: False
    show ?thesis
    proof (cases "by_id x cs")
      case None
      with 2(2) [OF i] 2(3) i show ?thesis by (auto simp: ac_simps)
    next
      case (Some u)
      with 2(1) [OF i] 2(3) i show ?thesis by (auto simp: ac_simps)
    qed
  qed
qed simp

text \<open>What one edit puts in, a second one finds.\<close>

lemma by_id_edit:
  "by_id x ts = Some t \<Longrightarrow> y = x \<or> y \<notin> set (ids_of ts) \<Longrightarrow> by_id y (f t) = Some u \<Longrightarrow> by_id y (edit x f ts) = Some u"
proof (induction x f ts rule: edit.induct)
  case (2 x f i cs ts)
  show ?case
  proof (cases "i = x")
    case True
    with 2 show ?thesis by (auto simp: by_id_append)
  next
    case i: False
    then have y: "y \<noteq> i" using 2(4) by auto
    show ?thesis
    proof (cases "by_id x cs")
      case None
      then have "by_id y cs = None" using 2(4) by (auto simp: by_id_None)
      then show ?thesis using None i y 2(2) [OF i] 2(3-5) by auto
    next
      case (Some v)
      then show ?thesis using i y 2(1) [OF i] 2(3-5) by auto
    qed
  qed
qed simp

lemma edit_edit:
  "by_id x ts = Some t \<Longrightarrow> y = x \<or> y \<notin> set (ids_of ts) \<Longrightarrow> by_id y (f t) \<noteq> None \<Longrightarrow>
   edit y g (edit x f ts) = edit x (\<lambda>t. edit y g (f t)) ts"
proof (induction x f ts rule: edit.induct)
  case (2 x f i cs ts)
  show ?case
  proof (cases "i = x")
    case True
    with 2 show ?thesis by (auto simp: edit_append)
  next
    case i: False
    then have y: "y \<noteq> i" using 2(4) by auto
    show ?thesis
    proof (cases "by_id x cs")
      case None
      then have "by_id y cs = None" using 2(4) by (auto simp: by_id_None)
      then show ?thesis using None i y 2(2) [OF i] 2(3-5) by auto
    next
      case (Some v)
      then have "by_id y (edit x f cs) \<noteq> None" using by_id_edit [OF Some] 2(3-5) i by auto
      then show ?thesis using Some i y 2(1) [OF i] 2(3-5) by auto
    qed
  qed
qed simp

lemma edit_cong_at: "(\<And>t. by_id x ts = Some t \<Longrightarrow> f t = g t) \<Longrightarrow> edit x f ts = edit x g ts"
  by (induction x f ts rule: edit.induct) (auto split: option.splits)

lemma edit_same: "edit x (\<lambda>t. [t]) ts = ts"
  by (induction x "\<lambda>t. [t] :: etree list" ts rule: edit.induct) auto

lemma by_id_ids: "by_id x ts = Some t \<Longrightarrow> set (ids_of [t]) \<subseteq> set (ids_of ts)"
  by (induction x ts rule: by_id.induct) (auto split: if_splits option.splits)

section \<open>The form and the place it came from\<close>

text \<open>
  The document without the form, with the empty element in its place; moving the form is putting it in behind a
  comment of this document.
\<close>

definition vacated :: "jsstr \<Rightarrow> etree list \<Rightarrow> etree list" where
  "vacated f ts = edit f (\<lambda>_. [E temp_id []]) ts"

lemma vacate:
  assumes "by_id f ts = Some form" "f \<noteq> temp_id"
  shows "take_out f (insert_before f (E temp_id []) ts) = vacated f ts"
proof -
  have "by_id f [E temp_id [], form] \<noteq> None" using by_id_eid [OF assms(1)] assms(2) by (cases form) auto
  then have "edit f (\<lambda>_. []) (edit f (\<lambda>t. [E temp_id [], t]) ts) = edit f (\<lambda>t. edit f (\<lambda>_. []) [E temp_id [], t]) ts"
    by (intro edit_edit [OF assms(1)]) auto
  also have "\<dots> = edit f (\<lambda>_. [E temp_id []]) ts"
  proof (rule edit_cong_at)
    fix t assume "by_id f ts = Some t"
    then have "eid t = f" by (rule by_id_eid)
    then show "edit f (\<lambda>_. []) [E temp_id [], t] = [E temp_id []]" using assms(2) by (cases t) auto
  qed
  finally show ?thesis by (simp add: take_out_def insert_before_def vacated_def)
qed

lemma move_out:
  assumes "by_id c u = Some comm" "f \<notin> set (ids_of u)" "eid form = f"
  shows "take_out f (insert_after c form u) = u" and "by_id f (insert_after c form u) = Some form"
proof -
  have f: "by_id f [t] = None" if "by_id c u = Some t" for t
    using by_id_ids [OF that] assms(2) by (auto simp: by_id_None)
  have n: "by_id f [t, form] = Some form" if "by_id c u = Some t" for t
    using f [OF that] by_id_append [of f "[t]" "[form]"] assms(3) by (cases form) simp
  have "edit f (\<lambda>_. []) (edit c (\<lambda>t. [t, form]) u) = edit c (\<lambda>t. edit f (\<lambda>_. []) [t, form]) u"
    using n [OF assms(1)] assms(2) by (intro edit_edit [OF assms(1)]) auto
  also have "\<dots> = edit c (\<lambda>t. [t]) u"
  proof (rule edit_cong_at)
    fix t assume "by_id c u = Some t"
    from f [OF this] show "edit f (\<lambda>_. []) [t, form] = [t]"
      using edit_append [of f "\<lambda>_. []" "[t]" "[form]"] assms(3) by (cases form) simp
  qed
  finally show "take_out f (insert_after c form u) = u" by (simp add: take_out_def insert_after_def edit_same)
  show "by_id f (insert_after c form u) = Some form"
    unfolding insert_after_def using n [OF assms(1)] assms(2) by (intro by_id_edit [OF assms(1)]) auto
qed

lemma put_back:
  assumes f: "by_id f ts = Some form" and t: "temp_id \<notin> set (ids_of ts)"
  shows "take_out temp_id (insert_before temp_id form (vacated f ts)) = ts"
proof -
  let ?u = "vacated f ts" and ?tmp = "E temp_id []"
  have nf: "by_id temp_id [form] = None" using by_id_ids [OF f] t by (auto simp: by_id_None)
  have tu: "by_id temp_id ?u = Some ?tmp" unfolding vacated_def using t by (intro by_id_edit [OF f]) auto
  have n: "by_id temp_id [form, x] = Some x" if "eid x = temp_id" for x
    using nf by_id_append [of temp_id "[form]" "[x]"] that by (cases x) simp
  have "edit temp_id (\<lambda>_. []) (edit temp_id (\<lambda>x. [form, x]) ?u) = edit temp_id (\<lambda>x. edit temp_id (\<lambda>_. []) [form, x]) ?u"
    using n by (intro edit_edit [OF tu]) auto
  also have "\<dots> = edit temp_id (\<lambda>_. [form]) ?u"
  proof (rule edit_cong_at)
    fix x assume "by_id temp_id ?u = Some x"
    then have "eid x = temp_id" by (rule by_id_eid)
    then show "edit temp_id (\<lambda>_. []) [form, x] = [form]"
      using nf edit_append [of temp_id "\<lambda>_. []" "[form]" "[x]"] by (cases x) simp
  qed
  also have "\<dots> = edit f (\<lambda>_. edit temp_id (\<lambda>_. [form]) [?tmp]) ts"
    unfolding vacated_def using t by (intro edit_edit [OF f]) auto
  also have "\<dots> = edit f (\<lambda>x. [x]) ts" by (rule edit_cong_at) (use f in auto)
  finally show ?thesis by (simp add: take_out_def insert_before_def edit_same)
qed

lemma ids_vacated:
  assumes "by_id f ts = Some form" "count_list (ids_of ts) f = 1" "f \<noteq> temp_id"
  shows "f \<notin> set (ids_of (vacated f ts))"
    and "x \<in> set (ids_of ts) \<Longrightarrow> x \<notin> set (ids_of [form]) \<Longrightarrow> x \<in> set (ids_of (vacated f ts))"
proof -
  have e: "mset (ids_of (vacated f ts)) + mset (ids_of [form]) = mset (ids_of ts) + {#temp_id#}"
    using ids_edit [OF assms(1), of "\<lambda>_. [E temp_id []]"] by (simp add: vacated_def)
  have "count_list (ids_of (vacated f ts)) f + count_list (ids_of [form]) f = count_list (ids_of ts) f"
    using arg_cong [OF e, of "\<lambda>M. count M f"] assms(3) by (simp add: count_mset)
  moreover have "f \<in> set (ids_of [form])" using by_id_eid [OF assms(1)] by (cases form) simp
  then have "count_list (ids_of [form]) f \<noteq> 0" by (simp add: count_list_0_iff)
  ultimately have "count_list (ids_of (vacated f ts)) f = 0" using assms(2) by linarith
  then show "f \<notin> set (ids_of (vacated f ts))" by (simp add: count_list_0_iff)
  show "x \<in> set (ids_of (vacated f ts))" if "x \<in> set (ids_of ts)" "x \<notin> set (ids_of [form])"
    using that e by (metis set_mset_mset union_iff)
qed

text \<open>A page whose form has not been moved, and comments below which it can be moved.\<close>

definition reply_ready :: "jsstr \<Rightarrow> etree \<Rightarrow> etree list \<Rightarrow> bool" where
  "reply_ready f form ts \<longleftrightarrow>
     by_id f ts = Some form \<and> count_list (ids_of ts) f = 1 \<and> f \<noteq> temp_id \<and> temp_id \<notin> set (ids_of ts) \<and>
     lit ''cancel-comment-reply-link'' \<in> set (ids_of ts) \<and> lit ''comment_parent'' \<in> set (ids_of ts)"

definition below :: "etree \<Rightarrow> etree list \<Rightarrow> jsstr \<Rightarrow> bool" where
  "below form ts c \<longleftrightarrow> c \<in> set (ids_of ts) \<and> c \<notin> set (ids_of [form])"

definition moved :: "jsstr \<Rightarrow> etree \<Rightarrow> etree list \<Rightarrow> reply_page \<Rightarrow> bool" where
  "moved f form ts pg \<longleftrightarrow>
     cancel_armed pg \<and> respondId pg = Some f \<and> by_id f (tree pg) = Some form \<and> take_out f (tree pg) = vacated f ts \<and>
     (\<forall>x. x \<in> set (ids_of ts) \<or> x = temp_id \<longrightarrow> x \<in> set (ids_of (tree pg)))"

lemma moved_insert:
  assumes r: "reply_ready f form ts" and c: "below form ts c"
  shows "by_id f (insert_after c form (vacated f ts)) = Some form"
    and "take_out f (insert_after c form (vacated f ts)) = vacated f ts"
    and "x \<in> set (ids_of ts) \<or> x = temp_id \<Longrightarrow> x \<in> set (ids_of (insert_after c form (vacated f ts)))"
proof -
  note r' = r [unfolded reply_ready_def]
  have "c \<in> set (ids_of (vacated f ts))" using ids_vacated(2) [of f ts form c] r' c by (simp add: below_def)
  then obtain comm where comm: "by_id c (vacated f ts) = Some comm" using by_id_None by (metis not_None_eq)
  have nf: "f \<notin> set (ids_of (vacated f ts))" using ids_vacated(1) r' by blast
  have "eid form = f" using by_id_eid r' by blast
  note out = move_out [OF comm nf this]
  show "by_id f (insert_after c form (vacated f ts)) = Some form" "take_out f (insert_after c form (vacated f ts)) = vacated f ts"
    using out by auto
  have e: "mset (ids_of (insert_after c form (vacated f ts))) = mset (ids_of (vacated f ts)) + mset (ids_of [form])"
    using ids_edit [OF comm, of "\<lambda>t. [t, form]"] by (cases comm; cases form) (simp add: insert_after_def ac_simps)
  also have "\<dots> = mset (ids_of ts) + {#temp_id#}"
    using ids_edit [of f ts form "\<lambda>_. [E temp_id []]"] r' by (simp add: vacated_def)
  finally have "set (ids_of (insert_after c form (vacated f ts))) = set (ids_of ts) \<union> {temp_id}"
    by (metis set_mset_mset set_mset_union set_mset_single)
  then show "x \<in> set (ids_of ts) \<or> x = temp_id \<Longrightarrow> x \<in> set (ids_of (insert_after c form (vacated f ts)))" by auto
qed

lemma by_id_present: "x \<in> set (ids_of ts) \<Longrightarrow> \<exists>t. by_id x ts = Some t"
  using by_id_None [of x ts] by auto

lemma first_move:
  assumes r: "reply_ready f form (tree pg)" and c: "below form (tree pg) c"
  shows "moved f form (tree pg) (moveForm c p f q pg)"
proof -
  note r' = r [unfolded reply_ready_def]
  have "by_id temp_id (tree pg) = None" "by_id c [form] = None" using r' c by (auto simp: by_id_None below_def)
  moreover have "take_out f (insert_before f (E temp_id []) (tree pg)) = vacated f (tree pg)" using vacate r' by blast
  ultimately show ?thesis
    using moved_insert [OF r c] by_id_present [of c "tree pg"] by_id_present [of "lit ''cancel-comment-reply-link''" "tree pg"]
      by_id_present [of "lit ''comment_parent''" "tree pg"] r' c
    by (auto simp: moved_def moveForm_def below_def Let_def)
qed

lemma next_move:
  assumes r: "reply_ready f form ts" and m: "moved f form ts pg" and c: "below form ts c"
  shows "moved f form ts (moveForm c p f q pg)"
proof -
  note r' = r [unfolded reply_ready_def] and m' = m [unfolded moved_def]
  have "\<exists>t. by_id temp_id (tree pg) = Some t" "\<exists>t. by_id c (tree pg) = Some t"
    "\<exists>t. by_id (lit ''cancel-comment-reply-link'') (tree pg) = Some t" "\<exists>t. by_id (lit ''comment_parent'') (tree pg) = Some t"
    using r' m' c by (auto simp: below_def intro!: by_id_present)
  moreover have "by_id c [form] = None" using c by (auto simp: by_id_None below_def)
  ultimately show ?thesis
    using moved_insert [OF r c] m' by (auto simp: moved_def moveForm_def Let_def)
qed

section \<open>Properties\<close>

text \<open>
  C38: however often the form is moved below comments, the link to cancel puts it back exactly where it stood: the document is
  the one before the first move, the reply is again to the article, and the link is hidden.
\<close>

theorem reply_form_returns:
  assumes "reply_ready f form (tree pg)" "ms \<noteq> []" "list_all (\<lambda>(c, p, q). below form (tree pg) c) ms"
  shows "let pg' = cancel_reply (fold (\<lambda>(c, p, q). moveForm c p f q) ms pg)
         in tree pg' = tree pg \<and> comment_parent pg' = lit ''0'' \<and> \<not> cancel_shown pg' \<and> cancel_reply pg' = pg'"
proof -
  let ?m = "\<lambda>(c, p, q). moveForm c p f q"
  have go: "moved f form (tree pg) v \<Longrightarrow> list_all (\<lambda>(c, p, q). below form (tree pg) c) xs \<Longrightarrow> moved f form (tree pg) (fold ?m xs v)" for xs v
    by (induction xs arbitrary: v) (auto intro: next_move [OF assms(1)])
  obtain c p q xs where ms: "ms = (c, p, q) # xs" using assms(2) by (cases ms) auto
  have "moved f form (tree pg) (fold ?m ms pg)"
    using go [OF first_move [OF assms(1), of c p q]] assms(3) ms by simp
  then obtain w where w: "w = fold ?m ms pg" "moved f form (tree pg) w" by blast
  have "eid form = f" "\<exists>t. by_id temp_id (tree w) = Some t"
    using by_id_eid assms(1) w(2) by (auto simp: reply_ready_def moved_def intro: by_id_present)
  moreover have "take_out temp_id (insert_before temp_id form (vacated f (tree pg))) = tree pg"
    using put_back assms(1) by (simp add: reply_ready_def)
  ultimately show ?thesis using w by (auto simp: cancel_reply_def moved_def Let_def)
qed

definition sample_reply_page :: reply_page where
  "sample_reply_page = \<lparr>tree = [E (lit ''comment-1'') [E (lit ''comment-2'') []],
       E (lit ''respond'') [E (lit ''cancel-comment-reply-link'') [], E (lit ''comment_parent'') []]],
     comment_parent = lit ''0'', comment_post_ID = lit ''17225'', respondId = None, cancel_shown = False, cancel_armed = False\<rparr>"

lemma reply_form_returns_witness:
  "tree (cancel_reply (moveForm (lit ''comment-1'') (lit ''1'') (lit ''respond'') [] (moveForm (lit ''comment-2'') (lit ''2'') (lit ''respond'') [] sample_reply_page)))
     = tree sample_reply_page \<and>
   tree (moveForm (lit ''comment-2'') (lit ''2'') (lit ''respond'') [] sample_reply_page) \<noteq> tree sample_reply_page"
proof -
  let ?form = "E (lit ''respond'') [E (lit ''cancel-comment-reply-link'') [], E (lit ''comment_parent'') []]"
  have "reply_ready (lit ''respond'') ?form (tree sample_reply_page)" "below ?form (tree sample_reply_page) (lit ''comment-2'')"
    "below ?form (tree sample_reply_page) (lit ''comment-1'')"
    by (simp_all add: reply_ready_def below_def sample_reply_page_def lit_def)
  then have "tree (cancel_reply (moveForm (lit ''comment-1'') (lit ''1'') (lit ''respond'') [] (moveForm (lit ''comment-2'') (lit ''2'') (lit ''respond'') [] sample_reply_page)))
     = tree sample_reply_page"
    using reply_form_returns [of "lit ''respond''" ?form sample_reply_page
        "[(lit ''comment-2'', lit ''2'', []), (lit ''comment-1'', lit ''1'', [])]"] by (simp add: Let_def)
  moreover have "tree (moveForm (lit ''comment-2'') (lit ''2'') (lit ''respond'') [] sample_reply_page) \<noteq> tree sample_reply_page"
    by (simp add: moveForm_def sample_reply_page_def insert_before_def insert_after_def take_out_def lit_def)
  ultimately show ?thesis ..
qed

end
