(* ===== verification/Fieldtag.thy ===== *)
theory Fieldtag
  imports JsString
begin

text \<open>
  Tags in text fields (\<^verbatim>\<open>jquery.fieldtag.min.js\<close>): a field without text shows a hint, which goes away when the field is
  entered and is not submitted.  One field of a form; \<open>in_focus\<close> and \<open>typed\<close>, what the reader has last entered, are kept for the
  statements and are not read by the script.
\<close>

section \<open>The script\<close>

record tag_field =
  field_value :: jsstr
  field_title :: jsstr
  changed :: bool
  marked :: bool
  in_focus :: bool
  typed :: jsstr

text \<open>The hint: the standard text of the options, or else the title of the field.\<close>

definition hint :: "jsstr option \<Rightarrow> tag_field \<Rightarrow> jsstr" where
  "hint standardText f = (case standardText of Some t \<Rightarrow> t | None \<Rightarrow> field_title f)"

definition clear :: "tag_field \<Rightarrow> tag_field" where
  "clear f = (if changed f then f else f\<lparr>field_value := [], marked := False\<rparr>)"

definition addTag :: "jsstr option \<Rightarrow> tag_field \<Rightarrow> tag_field" where
  "addTag standardText f = f\<lparr>field_value := hint standardText f, marked := True\<rparr>"

definition on_focus :: "tag_field \<Rightarrow> tag_field" where
  "on_focus f = (if changed f then f else clear f)"

definition on_blur :: "jsstr option \<Rightarrow> tag_field \<Rightarrow> tag_field" where
  "on_blur standardText f = (if changed f then f else addTag standardText f)"

definition on_keyup :: "tag_field \<Rightarrow> tag_field" where
  "on_keyup f = f\<lparr>changed := field_value f \<noteq> []\<rparr>"

text \<open>The set-up ends by calling the handlers \<open>keyup\<close> and \<open>blur\<close>.\<close>

definition fieldtag :: "jsstr option \<Rightarrow> tag_field \<Rightarrow> tag_field" where
  "fieldtag standardText f =
     on_blur standardText (on_keyup (if field_value f = field_title f then f\<lparr>changed := False\<rparr> else f))"

text \<open>The submission of the form clears every field that was set up in it, this one among them.\<close>

definition field_submit :: "tag_field \<Rightarrow> tag_field" where
  "field_submit f = clear f"

text \<open>What the reader does: entering the field, typing (any text, with a key released at the end), leaving it.\<close>

inductive field_step :: "jsstr option \<Rightarrow> tag_field \<Rightarrow> tag_field \<Rightarrow> bool" for standardText where
  enter: "\<not> in_focus f \<Longrightarrow> field_step standardText f (on_focus (f\<lparr>in_focus := True\<rparr>))"
| type: "in_focus f \<Longrightarrow> field_step standardText f (on_keyup (f\<lparr>field_value := t, typed := t\<rparr>))"
| quit: "in_focus f \<Longrightarrow> field_step standardText f (on_blur standardText (f\<lparr>in_focus := False\<rparr>))"

section \<open>Properties\<close>

definition field_ok :: "jsstr option \<Rightarrow> tag_field \<Rightarrow> bool" where
  "field_ok standardText f \<longleftrightarrow>
     (changed f \<longleftrightarrow> typed f \<noteq> []) \<and> (marked f \<longleftrightarrow> \<not> changed f \<and> \<not> in_focus f) \<and>
     field_value f = (if changed f then typed f else if in_focus f then [] else hint standardText f)"

lemma field_ok_step: "field_step st f g \<Longrightarrow> field_ok st f \<Longrightarrow> field_ok st g"
  by (induction rule: field_step.induct)
    (auto simp: field_ok_def on_focus_def on_blur_def on_keyup_def clear_def addTag_def hint_def split: option.splits)

text \<open>
  C40: a field that is empty at first and then entered, typed in and left in any order shows the hint exactly while it is
  not in focus and holds no text, marked by its class; and what a submission sends is the text typed, never the hint.
\<close>

theorem hint_never_sent:
  assumes "(field_step st)\<^sup>*\<^sup>* (fieldtag st f0) f"
    and "field_value f0 = []" "typed f0 = []" "\<not> in_focus f0" "\<not> marked f0"
  shows "field_value (field_submit f) = typed f \<and>
    (marked f \<longleftrightarrow> typed f = [] \<and> \<not> in_focus f) \<and> (marked f \<longrightarrow> field_value f = hint st f)"
proof -
  have "field_ok st (fieldtag st f0)"
    using assms(2-5) by (auto simp: field_ok_def fieldtag_def on_keyup_def on_blur_def addTag_def hint_def split: option.splits)
  with assms(1) have "field_ok st f"
  proof (induction rule: rtranclp_induct)
    case (step y z)
    then show ?case using field_ok_step by blast
  qed
  then show ?thesis by (auto simp: field_ok_def field_submit_def clear_def)
qed

definition sample_field :: tag_field where
  "sample_field = \<lparr>field_value = [], field_title = lit ''search'', changed = False, marked = False, in_focus = False, typed = []\<rparr>"

text \<open>A run: the field is entered, a text is typed, the field is left.\<close>

definition sample_run :: "jsstr \<Rightarrow> tag_field" where
  "sample_run t = on_blur None ((on_keyup ((on_focus ((fieldtag None sample_field)\<lparr>in_focus := True\<rparr>))\<lparr>field_value := t, typed := t\<rparr>))\<lparr>in_focus := False\<rparr>)"

lemmas field_eval = sample_run_def sample_field_def fieldtag_def on_keyup_def on_blur_def on_focus_def addTag_def hint_def clear_def

lemma sample_run_steps: "(field_step None)\<^sup>*\<^sup>* (fieldtag None sample_field) (sample_run t)"
proof -
  let ?f = "on_focus ((fieldtag None sample_field)\<lparr>in_focus := True\<rparr>)"
  let ?g = "on_keyup (?f\<lparr>field_value := t, typed := t\<rparr>)"
  have "field_step None (fieldtag None sample_field) ?f" by (rule field_step.enter) (simp add: field_eval)
  moreover have "field_step None ?f ?g" by (rule field_step.type) (simp add: field_eval)
  moreover have "field_step None ?g (sample_run t)" unfolding sample_run_def by (rule field_step.quit) (simp add: field_eval)
  ultimately show ?thesis by (meson rtranclp.rtrancl_into_rtrancl rtranclp.rtrancl_refl)
qed

lemma hint_never_sent_witness:
  "(field_step None)\<^sup>*\<^sup>* (fieldtag None sample_field) (sample_run (lit ''tree'')) \<and>
   field_value (field_submit (sample_run (lit ''tree''))) = lit ''tree'' \<and>
   (field_step None)\<^sup>*\<^sup>* (fieldtag None sample_field) (sample_run []) \<and>
   field_value (sample_run []) = lit ''search'' \<and> field_value (field_submit (sample_run [])) = []"
proof -
  have "field_value (field_submit (sample_run t)) = typed (sample_run t)" for t
    using hint_never_sent [OF sample_run_steps] by (simp add: sample_field_def)
  moreover have "lit ''search'' \<noteq> []" "lit ''tree'' \<noteq> []" by (simp_all add: lit_def)
  then have "typed (sample_run t) = t" "field_value (sample_run []) = lit ''search''" for t by (simp_all add: field_eval)
  ultimately show ?thesis using sample_run_steps by simp
qed

text \<open>
  A field that holds its title from the start should count as unchanged, but the call of \<open>keyup\<close> at the end of the set-up makes
  it changed: the hint stays when the field is entered and is sent.
\<close>

theorem prefilled_title_sent:
  assumes "field_value f0 = field_title f0" "field_title f0 \<noteq> []"
  shows "field_value (field_submit (on_focus (fieldtag st f0))) = field_title f0"
  using assms by (simp add: fieldtag_def on_keyup_def on_blur_def on_focus_def field_submit_def clear_def)

text \<open>Text that comes into the field without a key, by the mouse, is replaced by the hint when the field is left.\<close>

theorem pasted_text_lost:
  assumes "\<not> changed f"
  shows "field_value (on_blur st (f\<lparr>field_value := t\<rparr>)) = hint st f"
  using assms by (simp add: on_blur_def addTag_def hint_def split: option.splits)

end
