(* ===== verification/Spec2Isabelle.thy ===== *)
theory Spec2Isabelle
  imports HighlighterSpec Sh3Events TongjiMain MenuSteps MenuLoad BaseSpec Fold Tags Ujs AkForm PageScripts PageTree
    Ratings ReplyForm Fieldtag
begin

text \<open>
  \<^bold>\<open>The JavaScript of the repository.\<close>  The repository collects sources and articles on data
  structures.  Its JavaScript comes with the saved articles: the scripts of the pages under
  \<^verbatim>\<open>src/ds_algor/bloomfilter\<close> (the page on cuckoo filters) and
  \<^verbatim>\<open>src/ds_algor/lruCache/material\<close> (the pages on caches).  This development models the scripts
  that are there in readable form, as total functions over an explicit state, and proves what
  makes them correct, and where they are not, what they do instead.

  \<^bold>\<open>Parts and theories.\<close>

  \<^item> \<^emph>\<open>The language.\<close>  \<open>Prelude\<close>: strings as lists of character codes (\<open>lit\<close>, and \<open>pat\<close> for texts
    with backslashes and quotes), shared lemmas, the collection \<open>js_eval\<close> that evaluates closed
    terms.  \<open>JsString\<close>: \<open>indexOf\<close>, \<open>substring\<close>, \<open>split\<close>, \<open>join\<close>, \<open>parseInt\<close> and their laws.
    \<open>Regex\<close>, \<open>RegexSyntax\<close>, \<open>RegExpObj\<close>: regular expressions of the language, as a backtracking
    matcher that lists all ends in order of preference, a parser of the patterns as the sources
    write them, and \<open>exec\<close>, \<open>test\<close> and \<open>replace\<close> with \<open>lastIndex\<close>.  \<open>RegexLocal\<close>, \<open>RegexCaps\<close>: what a
    match depends on and where its groups lie.  \<open>RegexFirst\<close>: rules for the end that a match prefers.
    \<open>CommaSplit\<close>: splitting at commas.  \<open>Doubles\<close>: rounding to 53 binary digits.

  \<^item> \<^emph>\<open>The syntax highlighter\<close> (\<^verbatim>\<open>shCore.js\<close>, \<^verbatim>\<open>shBrush*.js\<close>).  \<open>TextPrep\<close>: the functions that
    prepare the code (\<open>Chop\<close>, \<open>Trim\<close>, \<open>Unindent\<close>, \<open>ProcessSmartTabs\<close>).  \<open>Matches\<close>: \<open>GetMatches\<close>,
    \<open>SortCallback\<close>, \<open>IsInside\<close>, the nulling of nested matches and the cutting.  \<open>Highlighter\<close>,
    \<open>HighlighterLines\<close>: \<open>AddBit\<close>, \<open>SwitchToList\<close>, the toolbar and \<open>Highlight\<close>.  \<open>Keywords\<close>: the
    expressions of \<open>GetKeywords\<close>.  \<open>BrushContract\<close>: what \<open>Highlight\<close> relies on in a brush, as the
    locales \<open>matching_brush\<close> and \<open>rule_brush\<close>; \<open>Brushes\<close> and \<open>XmlBrush\<close> interpret them for the
    twelve brushes.  \<open>HighlightAll\<close>: options, registry and the pass over a page.  \<open>Duplicates\<close>,
    \<open>HighlighterSpec\<close>: the properties.

  \<^item> \<^emph>\<open>SyntaxHighlighter 3\<close> (\<^verbatim>\<open>shCore(1).js\<close>, a packed script whose text is read in its unpacked form, and
    \<^verbatim>\<open>shBrushCpp(1).js\<close>, \<^verbatim>\<open>shBrushCpp.js\<close>, \<^verbatim>\<open>shBrushBash.js\<close>).  \<open>Sh3Text\<close>: the functions on text, under the
    names they have in the original.  \<open>Sh3Matches\<close>: \<open>getMatches\<close>, the sorting, the in-place loops of
    \<open>removeNestedMatches\<close> and \<open>findMatches\<close>, with the locale \<open>rules3\<close> for what a list of rules has to
    satisfy.  \<open>Sh3Keywords\<close>: its keyword expressions.  \<open>Sh3Brushes\<close>: the brushes, with the function for here
    documents, and the interpretations of \<open>rules3\<close>.  \<open>Sh3Html\<close>: lines, gutter, links and \<open>getHtml\<close>.
    \<open>Sh3Params\<close>: the parameters in class attributes (\<open>parseParams\<close>).  \<open>Sh3Options\<close>: defaults, \<open>getParam\<close> and how values
    are read.  \<open>Sh3Page\<close>: the table of aliases, the elements and the pass over a page, with the locale \<open>total_brushes\<close> for
    what the pass relies on in the brushes.  \<open>Sh3Events\<close>: the toolbar's commands and the view of the source.

  \<^item> \<^emph>\<open>The traffic counter\<close> (\<^verbatim>\<open>tongji.js\<close>).  \<open>Calendar\<close>: \<open>lz_get_stm\<close>.  \<open>Tongji\<close>: encoding, browser
    data, domains and cookies.  \<open>TongjiDomain\<close>, \<open>TongjiText\<close>: their properties.  \<open>TongjiVisits\<close>:
    \<open>lz_main\<close>, with its two cookie blocks \<open>uv_visit\<close> and \<open>ss_visit\<close>.  \<open>TongjiSessions\<close>: the cookies
    over sequences of visits, and the refinement of the session block by a list of sessions.
    \<open>TongjiMain\<close>: the whole script against a cookie store (locale \<open>cookie_store\<close>).

  \<^item> \<^emph>\<open>The blog theme.\<close>  \<open>Menu\<close>, \<open>MenuSteps\<close> (\<^verbatim>\<open>menu.js\<close>): drop-down menus as a state machine of
    mouse events and timers.  \<open>MenuLoad\<close>: its handlers and the event that starts it.  \<open>Base\<close>, \<open>BaseSpec\<close> (\<^verbatim>\<open>base.js\<close>): animated scrolling against a window
    (locale \<open>viewport\<close>), tabs, search by class.  \<open>Comment\<close>, \<open>CommentSpec\<close> (\<^verbatim>\<open>comment.js\<close>): replies
    and quotes, with the locale \<open>caret_insertion\<close> for insertion at the caret.

  \<^item> \<^emph>\<open>Single scripts.\<close>  \<open>Fold\<close> (\<^verbatim>\<open>fold.js\<close>): folding by intervals.  \<open>Tags\<close>
    (\<^verbatim>\<open>application.js\<close>): search box, caret, tag filter.  \<open>Ujs\<close> (\<^verbatim>\<open>jquery-ujs.js\<close>): remote links
    and forms.  \<open>AkForm\<close> (\<^verbatim>\<open>form.js\<close>): the field of the spam filter.  \<open>Ratings\<close>
    (\<^verbatim>\<open>postratings-js.js\<close>): the stars below an article.  \<open>ReplyForm\<close> (\<^verbatim>\<open>comment-reply.min.js\<close>): the form that moves below a
    comment.  \<open>Fieldtag\<close> (\<^verbatim>\<open>jquery.fieldtag.min.js\<close>): hints in text fields.

  \<^item> \<^emph>\<open>Scripts over jQuery.\<close>  \<open>JQuery\<close>: the methods the scripts call, as a record that they take as an
    argument; their documented behaviour as the locales \<open>jquery\<close> and \<open>jquery_page\<close>; and a document with
    a selector engine that satisfies both.  \<open>Superfish\<close> (\<^verbatim>\<open>superfish.js\<close>): drop-down menus with timers,
    shared options and queued animations.  \<open>PageScripts\<close> (\<^verbatim>\<open>tab.js\<close>, \<^verbatim>\<open>app.js\<close> of two pages): tabs, toggles, current link.
    \<open>PageTree\<close> (\<^verbatim>\<open>app.js\<close>, \<^verbatim>\<open>script.js\<close>): video frames and captions on a tree of elements.

  \<^bold>\<open>What is shown.\<close>

  \<^item> Highlighter: \<open>Highlight\<close> ends for every brush and writes the prepared code, except when two
    surviving matches start together (then a word is written twice); which matches survive; the lines of the list, for code
    without carriage returns and references to line breaks, and what such a reference does; tab expansion;
    when \<open>Unindent\<close> keeps the code and when it loses it; the exact meaning of keyword expressions;
    which blocks of a page are highlighted and which class names abort the pass.

  \<^item> Counter: over any sequence of page views every view is counted under the id drawn at the first
    and only the first counts as new; both cookies stay well formed and bounded; sessions continue
    and expire; the clock counts the seconds of the calendar; encoded fields are safe and can be
    decoded; domains are suffixes of the host, and the errors of the two tables.

  \<^item> Theme and scripts: menus follow the mouse under every interleaving; scrolling ends at the top;
    the class search and the tag filter are exact; a reply is appended once; folding can be undone
    exactly for parts higher than one step; a click sends at most one request; one rating is under way at a time and its
    answer reaches its post; the reply form returns to its place; a hint is not sent as text.

  \<^item> SyntaxHighlighter 3: the matches that stay are the leftmost longest ones; no text is lost or doubled;
    the common indent is removed exactly; here documents are cut where their parts stand; every line has a
    number; the words that the lists lose; parameters that are written are read back, and reach the block with the right
    value; a pass replaces exactly the blocks with a known brush, once, and what makes it fail; the source view opens
    and closes without harm to the block.

  \<^item> Scripts over jQuery: in every run of events at most one item of a list is open and no submenu of a closed item
    is seen, and while no animation waits behind another the submenus that are seen are those of open items; with a
    path two menus disturb each other, and a waiting animation can leave an open item without its submenu; tabs show their panel alone; toggles stay
    in step; every video frame is put into a block of its proportions; images get their link and caption once.

  \<^bold>\<open>Conventions.\<close>  An exception or a call that does not end is \<open>None\<close>, or a value of its own; the
  text before a definition says which.  The matcher's repetitions have as fuel the length of the
  rest of the text, and \<open>Regex\<close> shows that more fuel changes nothing; the pattern parser has three
  units per character, and \<open>RegexSyntax\<close> shows that more fuel never changes a result.  Loops that
  may not end (\<open>GetMatches\<close>, \<open>cumulativeOffset\<close>, the calls of \<open>goTop\<close>) are
  partial functions, and that they return is proved.  What the browser does is an argument: the
  normalisation of markup, the cookie store, the clock, random draws, the navigator, the layout,
  element lookups, dialogs.  Where a property relies on such a part, a locale says on what, and it
  is interpreted.

  \<^bold>\<open>Not modelled.\<close>  Minified libraries and widgets (jQuery itself, analytics, Disqus, share buttons, prettify,
  fancybox); a second packed copy of SyntaxHighlighter 3.  Of its first copy: the bundled XRegExp (the patterns that
  use its syntax are given in native form) and the mixed brush, which fails at once because the pages load no XML
  brush for it; a fraction or infinity as tab size, infinity as width of numbers and an empty list as title
  (\<open>read_params\<close> gives \<open>None\<close>).  Of \<^verbatim>\<open>superfish.js\<close>: the callbacks, which are
  empty by default, and the opacity during an animation; in \<^verbatim>\<open>app.js\<close> and \<^verbatim>\<open>tab.js\<close> animations are taken at their end.
  The data structures in C, C++ and Java.  Simplified: a random draw is the exact floor of the scaled number (\<open>scaled\<close>); the
  cookie store of \<open>TongjiMain\<close> keeps names and values and no expiry; a carriage return in an author's name is stored
  as it is (\<open>Comment\<close>); scroll positions are whole pixels (\<open>Base\<close>); addresses are resolved by a parameter.
  Numbers are exact, except where a quotient is rounded (\<open>Base\<close>, \<open>PageTree\<close>); strings are sequences of code units.
\<close>

end
